(* ===== verification/Raft_Prelude.thy ===== *)
theory Raft_Prelude
  imports Main "HOL-Library.AList" "HOL-Library.Char_ord" "HOL-Library.List_Lexorder"
    "HOL-Library.Multiset" "HOL-Library.Product_Lexorder"
begin

text \<open>
  Shared vocabulary of the development: JavaScript values and objects as they arrive at a
  validation boundary (\<open>unknown\<close> in the TypeScript sources), insertion-ordered maps, the stable
  sort of ECMAScript arrays, three-way comparators, and the lemma collections that the component
  theories extend.

  A JavaScript string is a \<open>string\<close>: one character per code unit, compared code unit by code unit
  by the lexicographic order of \<open>List_Lexorder\<close>, which is the order of the operator \<open><\<close> on
  JavaScript strings. A bigint is an \<open>int\<close>. A Number that is an integer is a \<open>JInt\<close>; any other
  Number (a fraction, NaN, an infinity) is a \<open>JNonInt\<close> with its printed form.
\<close>

named_theorems map_specs "laws of the insertion-ordered map"
named_theorems cmp_specs "laws of three-way comparators"
named_theorems inv_intros "an operation keeps the invariant of its component"
named_theorems frame_specs "what an operation leaves unchanged"

section \<open>JavaScript values\<close>

datatype jsval =
    JUndef
  | JNull
  | JBool bool
  | JInt int
  | JNonInt string
  | JStr string
  | JArr "jsval list"
  | JObj "(string \<times> jsval) list"

text \<open>The positive integers among some values.\<close>

fun positive_ints :: "jsval list \<Rightarrow> int list" where
  "positive_ints [] = []"
| "positive_ints (JInt i # vs) = (if 0 < i then i # positive_ints vs else positive_ints vs)"
| "positive_ints (v # vs) = positive_ints vs"

text \<open>Property read on a plain object: a missing property reads as \<open>undefined\<close>.\<close>

fun jget :: "jsval \<Rightarrow> string \<Rightarrow> jsval" where
  "jget (JObj kvs) k = (case map_of kvs k of None \<Rightarrow> JUndef | Some v \<Rightarrow> v)"
| "jget _ _ = JUndef"

text \<open>\<open>{...obj, k: v}\<close>: an existing property keeps its position, a new one goes last.\<close>

fun jset :: "jsval \<Rightarrow> string \<Rightarrow> jsval \<Rightarrow> jsval" where
  "jset (JObj kvs) k v = JObj (AList.update k v kvs)"
| "jset x _ _ = x"

text \<open>\<open>value && typeof value === "object" && !Array.isArray(value)\<close>\<close>

fun is_plain_object :: "jsval \<Rightarrow> bool" where
  "is_plain_object (JObj _) = True"
| "is_plain_object _ = False"

text \<open>\<open>Array.isArray(x) ? x : []\<close>\<close>

fun array_or_empty :: "jsval \<Rightarrow> jsval list" where
  "array_or_empty (JArr xs) = xs"
| "array_or_empty _ = []"

fun str_of :: "jsval \<Rightarrow> string" where
  "str_of (JStr s) = s"
| "str_of _ = []"

fun is_str :: "jsval \<Rightarrow> bool" where
  "is_str (JStr _) = True"
| "is_str _ = False"

definition max_safe_integer :: int where
  "max_safe_integer = 9007199254740991"

fun is_safe_integer :: "jsval \<Rightarrow> bool" where
  "is_safe_integer (JInt i) = (\<bar>i\<bar> \<le> max_safe_integer)"
| "is_safe_integer _ = False"

lemma jget_jset [simp]:
  "is_plain_object x \<Longrightarrow> jget (jset x k v) k' = (if k = k' then v else jget x k')"
  by (cases x) (simp_all add: update_conv')

lemma is_plain_object_jset [simp]: "is_plain_object (jset x k v) = is_plain_object x"
  by (cases x) simp_all

lemma jget_not_object: "\<not> is_plain_object x \<Longrightarrow> jget x k = JUndef"
  by (cases x) simp_all

section \<open>Insertion-ordered maps\<close>

text \<open>
  A JavaScript \<open>Map\<close> iterates in insertion order; \<open>set\<close> on a present key keeps its place. It is an
  association list with distinct keys.
\<close>

type_synonym ('k, 'v) omap = "('k \<times> 'v) list"

abbreviation oget :: "('k, 'v) omap \<Rightarrow> 'k \<Rightarrow> 'v option" where
  "oget m k \<equiv> map_of m k"

abbreviation oset :: "'k \<Rightarrow> 'v \<Rightarrow> ('k, 'v) omap \<Rightarrow> ('k, 'v) omap" where
  "oset k v m \<equiv> AList.update k v m"

abbreviation odel :: "'k \<Rightarrow> ('k, 'v) omap \<Rightarrow> ('k, 'v) omap" where
  "odel k m \<equiv> AList.delete k m"

abbreviation odistinct :: "('k, 'v) omap \<Rightarrow> bool" where
  "odistinct m \<equiv> distinct (map fst m)"

text \<open>The map interface of the clients: what a read returns after a write, and what writes keep.\<close>

locale ordered_map =
  fixes empty :: "'m"
    and lookup :: "'m \<Rightarrow> 'k \<Rightarrow> 'v option"
    and put :: "'k \<Rightarrow> 'v \<Rightarrow> 'm \<Rightarrow> 'm"
    and remove :: "'k \<Rightarrow> 'm \<Rightarrow> 'm"
    and entries :: "'m \<Rightarrow> ('k \<times> 'v) list"
    and invar :: "'m \<Rightarrow> bool"
  assumes lookup_empty: "lookup empty k = None"
    and lookup_put: "lookup (put k v m) k' = (if k = k' then Some v else lookup m k')"
    and lookup_remove: "lookup (remove k m) k' = (if k = k' then None else lookup m k')"
    and invar_empty: "invar empty"
    and invar_put: "invar m \<Longrightarrow> invar (put k v m)"
    and invar_remove: "invar m \<Longrightarrow> invar (remove k m)"
    and entries_lookup: "invar m \<Longrightarrow> (k, v) \<in> set (entries m) \<longleftrightarrow> lookup m k = Some v"
    and entries_distinct: "invar m \<Longrightarrow> distinct (map fst (entries m))"
begin

lemma put_remove_lookup: "lookup (put k v (remove k m)) = lookup (put k v m)"
  by (rule ext) (simp add: lookup_put lookup_remove)

lemma remove_put_lookup: "lookup (remove k (put k v m)) = lookup (remove k m)"
  by (rule ext) (simp add: lookup_put lookup_remove)

lemma put_commute: "k \<noteq> k' \<Longrightarrow> lookup (put k v (put k' v' m)) = lookup (put k' v' (put k v m))"
  by (rule ext) (auto simp: lookup_put)

lemma entries_put:
  "invar m \<Longrightarrow> (k', v') \<in> set (entries (put k v m)) \<longleftrightarrow>
    (if k = k' then v' = v else (k', v') \<in> set (entries m))"
  by (auto simp: entries_lookup invar_put lookup_put)

lemma entries_remove:
  "invar m \<Longrightarrow> (k', v') \<in> set (entries (remove k m)) \<longleftrightarrow> k \<noteq> k' \<and> (k', v') \<in> set (entries m)"
  by (auto simp: entries_lookup invar_remove lookup_remove)

end

lemma oget_oset [map_specs]: "oget (oset k v m) k' = (if k = k' then Some v else oget m k')"
  by (simp add: update_conv')

lemma oget_odel [map_specs]: "oget (odel k m) k' = (if k = k' then None else oget m k')"
  by (simp add: delete_conv')

lemma odistinct_oset [map_specs]: "odistinct m \<Longrightarrow> odistinct (oset k v m)"
  by (rule distinct_update)

lemma odistinct_odel [map_specs]: "odistinct m \<Longrightarrow> odistinct (odel k m)"
  by (rule distinct_delete)

interpretation om: ordered_map "[]" oget oset odel "\<lambda>m. m" odistinct
  by unfold_locales (auto simp: map_specs)

text \<open>Lookups stay lookups: the rewriting of a lookup to list membership is not used by default.\<close>

declare map_of_eq_Some_iff [simp del] Some_eq_map_of_iff [simp del]

section \<open>Three-way comparators and the stable sort\<close>

text \<open>
  A comparator returns a negative, zero or positive number. \<open>Array.prototype.sort\<close> is stable, so
  for a comparator that is a total preorder its result is the stable insertion sort below.
\<close>

type_synonym 'a cmp = "'a \<Rightarrow> 'a \<Rightarrow> int"

fun js_insert :: "'a cmp \<Rightarrow> 'a \<Rightarrow> 'a list \<Rightarrow> 'a list" where
  "js_insert c x [] = [x]"
| "js_insert c x (y # ys) = (if c x y \<le> 0 then x # y # ys else y # js_insert c x ys)"

definition js_sort :: "'a cmp \<Rightarrow> 'a list \<Rightarrow> 'a list" where
  "js_sort c xs = foldr (js_insert c) xs []"

lemma js_sort_simps [simp]:
  "js_sort c [] = []"
  "js_sort c (x # xs) = js_insert c x (js_sort c xs)"
  by (simp_all add: js_sort_def)

lemma mset_js_insert [simp]: "mset (js_insert c x xs) = add_mset x (mset xs)"
  by (induction xs) auto

lemma mset_js_sort [simp]: "mset (js_sort c xs) = mset xs"
  by (induction xs) auto

lemma set_js_sort [simp]: "set (js_sort c xs) = set xs"
  using mset_js_sort [of c xs] by (metis set_mset_mset)

lemma length_js_sort [simp]: "length (js_sort c xs) = length xs"
  using mset_js_sort [of c xs] by (metis size_mset)

lemma distinct_map_js_sort: "distinct (map f (js_sort c xs)) = distinct (map f xs)"
  by (metis mset_js_sort mset_map mset_eq_imp_distinct_iff)

locale comparator =
  fixes c :: "'a cmp"
  assumes cmp_anti: "c x y < 0 \<longleftrightarrow> c y x > 0"
    and cmp_trans: "c x y \<le> 0 \<Longrightarrow> c y z \<le> 0 \<Longrightarrow> c x z \<le> 0"
begin

lemma cmp_total: "c x y \<le> 0 \<or> c y x \<le> 0"
  using cmp_anti [of x y] cmp_anti [of y x] by linarith

lemma js_insert_sorted:
  "sorted_wrt (\<lambda>a b. c a b \<le> 0) xs \<Longrightarrow> sorted_wrt (\<lambda>a b. c a b \<le> 0) (js_insert c x xs)"
proof (induction xs)
  case (Cons y ys)
  have "set (js_insert c x ys) = insert x (set ys)" for ys
    by (metis mset_js_insert set_mset_add_mset_insert set_mset_mset)
  with Cons show ?case
    using cmp_total [of x y] by (auto intro: cmp_trans)
qed simp

lemma js_sort_sorted: "sorted_wrt (\<lambda>a b. c a b \<le> 0) (js_sort c xs)"
  by (induction xs) (simp_all add: js_insert_sorted)

lemma sorted_insert_id:
  "sorted_wrt (\<lambda>a b. c a b \<le> 0) (x # xs) \<Longrightarrow> js_insert c x xs = x # xs"
  by (cases xs) auto

lemma js_sort_id: "sorted_wrt (\<lambda>a b. c a b \<le> 0) xs \<Longrightarrow> js_sort c xs = xs"
  by (induction xs) (auto simp: sorted_insert_id)

lemma filter_js_insert:
  "sorted_wrt (\<lambda>a b. c a b \<le> 0) xs \<Longrightarrow>
    filter P (js_insert c x xs) = (if P x then js_insert c x (filter P xs) else filter P xs)"
proof (induction xs)
  case (Cons y ys)
  show ?case
  proof (cases "c x y \<le> 0")
    case True
    with Cons.prems have "\<forall>z\<in>set (y # ys). c x z \<le> 0" by (auto intro: cmp_trans)
    then have "sorted_wrt (\<lambda>a b. c a b \<le> 0) (x # filter P (y # ys))"
      using Cons.prems by (auto intro: sorted_wrt_filter)
    with True show ?thesis using sorted_insert_id [of x "filter P (y # ys)"] by simp
  next
    case False
    with Cons show ?thesis by simp
  qed
qed simp

lemma filter_js_sort: "filter P (js_sort c xs) = js_sort c (filter P xs)"
  by (induction xs) (simp_all add: filter_js_insert js_sort_sorted)

text \<open>A list that is sorted and has no ties among different elements is determined by its elements.\<close>

lemma sorted_wrt_unique:
  "sorted_wrt (\<lambda>a b. c a b \<le> 0) xs \<Longrightarrow> sorted_wrt (\<lambda>a b. c a b \<le> 0) ys \<Longrightarrow> mset xs = mset ys \<Longrightarrow>
    (\<And>x y. x \<in> set xs \<Longrightarrow> y \<in> set xs \<Longrightarrow> c x y = 0 \<Longrightarrow> x = y) \<Longrightarrow> xs = ys"
proof (induction xs arbitrary: ys)
  case (Cons x xs)
  then obtain y ys' where ys: "ys = y # ys'"
    by (cases ys) auto
  have mem: "x \<in> set ys" "y \<in> set (x # xs)"
    using Cons.prems(3) ys by (metis list.set_intros(1) set_mset_mset)+
  with Cons.prems ys have "c x y \<le> 0 \<or> x = y" "c y x \<le> 0 \<or> x = y"
    by auto
  then have "x = y"
    using cmp_anti [of x y] cmp_anti [of y x] Cons.prems(4) [of x y] mem by fastforce
  with Cons ys show ?case by auto
qed simp

lemma js_sort_cong:
  "mset xs = mset ys \<Longrightarrow> (\<And>x y. x \<in> set xs \<Longrightarrow> y \<in> set xs \<Longrightarrow> c x y = 0 \<Longrightarrow> x = y) \<Longrightarrow>
    js_sort c xs = js_sort c ys"
  by (rule sorted_wrt_unique) (simp_all add: js_sort_sorted)

end

text \<open>A comparator that only ties equal elements.\<close>

locale total_comparator = comparator +
  assumes cmp_eq: "c x y = 0 \<Longrightarrow> x = y"
begin

lemma js_sort_determined: "mset xs = mset ys \<Longrightarrow> js_sort c xs = js_sort c ys"
  by (rule js_sort_cong) (auto intro: cmp_eq)

lemma cmp_not_less: "\<not> c x y \<le> 0 \<longleftrightarrow> c y x < 0"
  using cmp_anti [of y x] by linarith

end

section \<open>Last-writer-wins folds\<close>

text \<open>
  Folding facts into a register that only accepts a fact of strictly higher rank is independent of
  the order of the facts, as long as facts of equal rank are equal.
\<close>

definition max_write :: "('r \<Rightarrow> 'k::linorder) \<Rightarrow> 'r \<Rightarrow> 'r \<Rightarrow> 'r" where
  "max_write rank x r = (if rank r < rank x then x else r)"

lemma max_write_commute:
  "(rank x = rank y \<Longrightarrow> x = y) \<Longrightarrow>
    max_write rank x (max_write rank y r) = max_write rank y (max_write rank x r)"
  by (auto simp: max_write_def)

lemma fold_max_write_permute:
  assumes "mset xs = mset ys" "\<And>x y. x \<in> set xs \<Longrightarrow> y \<in> set xs \<Longrightarrow> rank x = rank y \<Longrightarrow> x = y"
  shows "fold (max_write rank) xs r = fold (max_write rank) ys r"
proof -
  have "fold (max_write rank) xs = fold (max_write rank) ys"
    using assms(1)
  proof (intro fold_multiset_equiv)
    fix x y
    assume "x \<in> set xs" "y \<in> set xs"
    then show "max_write rank x \<circ> max_write rank y = max_write rank y \<circ> max_write rank x"
      using assms(2) max_write_commute [of rank x y] by fastforce
  qed
  then show ?thesis by simp
qed

lemma rank_fold_max_write:
  "rank (fold (max_write rank) xs r) = fold max (map rank xs) (rank r)"
  by (induction xs arbitrary: r) (auto simp: max_write_def max_def)

end
