(* ===== verification/Sync_Violations.thy ===== *)
theory Sync_Violations
  imports Raft_Prelude
begin

text \<open>
  \<open>packages/sync-core/src/violations.ts\<close>: the bounded ring buffer that records producer violations,
  with the record and drain types of \<open>types.ts\<close>. The optional doorbell callback is modelled by
  whether one is installed and by the list of records it was called with.
\<close>

type_synonym sync_seq = int
type_synonym sync_epoch = "string option"

datatype violation_kind =
    producer_seq_conflict
  | cross_epoch_arrival
  | stale_flood
  | version_regression
  | producer_version_conflict

text \<open>A record as the core hands it over, before the buffer gives it an index.\<close>

record violation_fact =
  vf_kind :: violation_kind
  vf_domain :: string
  vf_scopeId :: string
  vf_seq :: "sync_seq option"
  vf_epoch :: sync_epoch

record violation_record = violation_fact +
  vr_index :: int

record violation_buffer =
  vb_capacity :: int
  vb_records :: "violation_record list"
  vb_nextIndex :: int
  vb_onViolation :: bool
  vb_rung :: "violation_record list"

datatype range_error = RangeError string

record violation_drain =
  vd_records :: "violation_record list"
  vd_droppedCount :: int
  vd_nextIndex :: int

definition default_violation_buffer_capacity :: int where
  "default_violation_buffer_capacity = 128"

text \<open>\<open>x ?? d\<close>\<close>

fun nullish_or :: "jsval \<Rightarrow> jsval \<Rightarrow> jsval" where
  "nullish_or JUndef d = d"
| "nullish_or JNull d = d"
| "nullish_or v d = v"

fun safe_int_value :: "jsval \<Rightarrow> int option" where
  "safe_int_value (JInt i) = (if \<bar>i\<bar> \<le> max_safe_integer then Some i else None)"
| "safe_int_value _ = None"

definition createSyncViolationBuffer :: "jsval \<Rightarrow> bool \<Rightarrow> range_error + violation_buffer" where
  "createSyncViolationBuffer cap onViolation =
     (case safe_int_value (nullish_or cap (JInt default_violation_buffer_capacity)) of
        None \<Rightarrow> Inl (RangeError ''SyncViolationBuffer capacity must be a positive safe integer'')
      | Some c \<Rightarrow>
          if c \<le> 0
          then Inl (RangeError ''SyncViolationBuffer capacity must be a positive safe integer'')
          else Inr \<lparr>vb_capacity = c, vb_records = [], vb_nextIndex = 0,
                    vb_onViolation = onViolation, vb_rung = []\<rparr>)"

definition indexed :: "violation_fact \<Rightarrow> int \<Rightarrow> violation_record" where
  "indexed r i = \<lparr>vf_kind = vf_kind r, vf_domain = vf_domain r, vf_scopeId = vf_scopeId r,
                  vf_seq = vf_seq r, vf_epoch = vf_epoch r, vr_index = i\<rparr>"

text \<open>\<open>push\<close> returns the indexed record beside the new buffer.\<close>

definition vb_push :: "violation_fact \<Rightarrow> violation_buffer \<Rightarrow> violation_record \<times> violation_buffer" where
  "vb_push r b =
     (let ir = indexed r (vb_nextIndex b);
          rs = vb_records b @ [ir];
          rs' = (if int (length rs) > vb_capacity b then tl rs else rs)
      in (ir, b\<lparr>vb_nextIndex := vb_nextIndex b + 1, vb_records := rs',
                vb_rung := (if vb_onViolation b then vb_rung b @ [ir] else vb_rung b)\<rparr>))"

definition vb_drain :: "jsval \<Rightarrow> violation_buffer \<Rightarrow> range_error + violation_drain" where
  "vb_drain sinceIndex b =
     (let oldestRetainedIndex = vb_nextIndex b - int (length (vb_records b))
      in case safe_int_value (nullish_or sinceIndex (JInt oldestRetainedIndex)) of
           None \<Rightarrow> Inl (RangeError ''SyncViolationBuffer drain sinceIndex must be a non-negative safe integer'')
         | Some requestedSinceIndex \<Rightarrow>
             if requestedSinceIndex < 0
             then Inl (RangeError ''SyncViolationBuffer drain sinceIndex must be a non-negative safe integer'')
             else
               let firstAvailableIndex = max requestedSinceIndex oldestRetainedIndex
               in Inr \<lparr>vd_records = filter (\<lambda>r. vr_index r \<ge> firstAvailableIndex) (vb_records b),
                       vd_droppedCount = max 0 (oldestRetainedIndex - requestedSinceIndex),
                       vd_nextIndex = vb_nextIndex b\<rparr>)"

section \<open>The buffer is the tail of an unbounded log\<close>

text \<open>
  The specification is the log of every pushed fact with its position as index; the buffer holds
  the last \<open>capacity\<close> entries of it.
\<close>

fun number_from :: "int \<Rightarrow> violation_fact list \<Rightarrow> violation_record list" where
  "number_from i [] = []"
| "number_from i (r # rs) = indexed r i # number_from (i + 1) rs"

definition buffer_of_log :: "violation_fact list \<Rightarrow> violation_buffer \<Rightarrow> bool" where
  "buffer_of_log log b \<longleftrightarrow>
     0 < vb_capacity b \<and> vb_nextIndex b = int (length log) \<and>
     vb_records b = drop (length log - nat (vb_capacity b)) (number_from 0 log)"

lemma length_number_from [simp]: "length (number_from i rs) = length rs"
  by (induction rs arbitrary: i) auto

lemma number_from_append [simp]:
  "number_from i (rs @ ss) = number_from i rs @ number_from (i + int (length rs)) ss"
  by (induction rs arbitrary: i) (auto simp: algebra_simps)

lemma number_from_nth: "k < length rs \<Longrightarrow> number_from i rs ! k = indexed (rs ! k) (i + int k)"
  by (induction rs arbitrary: i k) (auto simp: nth_Cons' algebra_simps)

lemma filter_index_number_from:
  "filter (\<lambda>r. vr_index r \<ge> j) (number_from i rs) = drop (nat (j - i)) (number_from i rs)"
proof (induction rs arbitrary: i)
  case (Cons r rs)
  show ?case
  proof (cases "j \<le> i")
    case True
    have "filter (\<lambda>r. vr_index r \<ge> j) (number_from (i + 1) rs) = number_from (i + 1) rs"
      using Cons [of "i + 1"] True by simp
    with True show ?thesis by (simp add: indexed_def)
  next
    case False
    then have "nat (j - i) = Suc (nat (j - (i + 1)))" by simp
    with False Cons show ?thesis by (simp add: indexed_def)
  qed
qed simp

lemma drop_number_from: "drop k (number_from i rs) = number_from (i + int k) (drop k rs)"
proof (induction k arbitrary: i rs)
  case (Suc k)
  then show ?case by (cases rs) (auto simp: algebra_simps)
qed simp

lemma create_buffer_of_log:
  "createSyncViolationBuffer cap d = Inr b \<Longrightarrow> buffer_of_log [] b"
  by (auto simp: createSyncViolationBuffer_def buffer_of_log_def split: option.splits if_splits)

lemma push_buffer_of_log [inv_intros]:
  assumes "buffer_of_log log b"
  shows "buffer_of_log (log @ [r]) (snd (vb_push r b))"
    and "fst (vb_push r b) = indexed r (int (length log))"
proof -
  let ?n = "length log"
  obtain c where c: "vb_capacity b = int c" "0 < c"
    using assms by (auto simp: buffer_of_log_def dest: zero_less_imp_eq_int)
  then have recs: "vb_records b = drop (?n - c) (number_from 0 log)" and
      nx: "vb_nextIndex b = int ?n"
    using assms by (auto simp: buffer_of_log_def)
  show "fst (vb_push r b) = indexed r (int (length log))"
    using nx by (simp add: vb_push_def Let_def)
  have "vb_records (snd (vb_push r b)) = drop (Suc ?n - c) (number_from 0 (log @ [r]))"
  proof (cases "?n < c")
    case True
    then show ?thesis
      using c recs nx by (simp add: vb_push_def Let_def)
  next
    case False
    then have "Suc ?n - c = Suc (?n - c)" "?n - c < ?n" using c by auto
    with False show ?thesis
      using c recs nx by (simp add: vb_push_def Let_def drop_Suc tl_drop tl_append2)
  qed
  then show "buffer_of_log (log @ [r]) (snd (vb_push r b))"
    using c nx by (simp add: buffer_of_log_def vb_push_def Let_def)
qed

definition vb_push_all :: "violation_fact list \<Rightarrow> violation_buffer \<Rightarrow> violation_buffer" where
  "vb_push_all rs b = fold (\<lambda>r b. snd (vb_push r b)) rs b"

lemma push_all_buffer_of_log:
  "buffer_of_log log b \<Longrightarrow> buffer_of_log (log @ rs) (vb_push_all rs b)"
proof (induction rs arbitrary: log b)
  case (Cons r rs)
  from Cons.IH [OF push_buffer_of_log(1) [OF Cons.prems]] show ?case by (simp add: vb_push_all_def)
qed (simp add: vb_push_all_def)

lemma vb_push_all_capacity [simp]: "vb_capacity (vb_push_all rs b) = vb_capacity b"
  unfolding vb_push_all_def by (induction rs arbitrary: b) (simp_all add: vb_push_def Let_def)

text \<open>A drain is a suffix of the log, and what rollover lost is counted.\<close>

lemma drain_of_log:
  assumes "buffer_of_log log b" and "0 \<le> i" "i \<le> max_safe_integer"
  shows "vb_drain (JInt i) b = Inr
    \<lparr>vd_records = drop (max (nat i) (length log - nat (vb_capacity b))) (number_from 0 log),
     vd_droppedCount = max 0 (int (length log - nat (vb_capacity b)) - i),
     vd_nextIndex = int (length log)\<rparr>"
proof -
  let ?o = "length log - nat (vb_capacity b)"
  have recs: "vb_records b = drop ?o (number_from 0 log)" and n: "vb_nextIndex b = int (length log)"
    using assms(1) by (auto simp: buffer_of_log_def)
  have old: "vb_nextIndex b - int (length (vb_records b)) = int ?o"
    using recs n by (simp add: of_nat_diff min_def)
  have "filter (\<lambda>r. vr_index r \<ge> max i (int ?o)) (vb_records b)
      = drop (nat (max i (int ?o) - int ?o)) (vb_records b)"
    unfolding recs drop_number_from by (simp only: filter_index_number_from add_0 drop_number_from)
  also have "\<dots> = drop (max (nat i) ?o) (number_from 0 log)"
  proof -
    have "nat (max i (int ?o) - int ?o) + ?o = max (nat i) ?o" using assms(2) by linarith
    then show ?thesis unfolding recs by (simp add: add.commute)
  qed
  finally have "filter (\<lambda>r. vr_index r \<ge> max i (int ?o)) (vb_records b)
      = drop (max (nat i) ?o) (number_from 0 log)" .
  then show ?thesis
    using assms old n by (simp add: vb_drain_def Let_def)
qed

text \<open>
  The contract the sync core relies on: a push appends one fact to the log and nothing else.
\<close>

locale violation_sink =
  fixes push :: "violation_fact \<Rightarrow> 'b \<Rightarrow> 'b"
    and represents :: "violation_fact list \<Rightarrow> 'b \<Rightarrow> bool"
  assumes represents_push: "represents log b \<Longrightarrow> represents (log @ [r]) (push r b)"
begin

lemma represents_fold: "represents log b \<Longrightarrow> represents (log @ rs) (fold push rs b)"
proof (induction rs arbitrary: log b)
  case (Cons r rs)
  from Cons.IH [OF represents_push [OF Cons.prems]] show ?case by simp
qed simp

end

abbreviation vpush :: "violation_fact \<Rightarrow> violation_buffer \<Rightarrow> violation_buffer" where
  "vpush r b \<equiv> snd (vb_push r b)"

interpretation vbuf: violation_sink vpush buffer_of_log
  by unfold_locales (rule push_buffer_of_log(1))

end
