(* ===== verification/Sync_Core.thy ===== *)
theory Sync_Core
  imports Sync_Violations
begin

text \<open>
  \<open>packages/sync-core/src/core.ts\<close> with the types of \<open>types.ts\<close>: the deterministic sync state
  machine. Frames, snapshots and difference responses are folded into per-scope entries; outbound
  requests are described in an insertion-ordered map keyed by \<open>kind:domain:scopeId\<close>.

  The type parameters are the folded domain state, the domain's events and the raw state that
  snapshots carry. The code keeps a map of maps for the scopes; here it is one map on pairs of a
  domain name and a scope id. A thrown error is an \<open>Inl\<close>.
\<close>

section \<open>Types\<close>

datatype density = contiguous | sparse

record 'e sync_frame =
  fr_scopeId :: string
  fr_seq :: sync_seq
  fr_epoch :: sync_epoch
  fr_event :: 'e

record 'r sync_snapshot =
  sn_scopeId :: string
  sn_watermark :: sync_seq
  sn_epoch :: sync_epoch
  sn_state :: 'r

record 'e sync_difference =
  df_scopeId :: string
  df_epoch :: sync_epoch
  df_fromSeq :: sync_seq
  df_toSeq :: sync_seq
  df_events :: "(sync_seq \<times> 'e) list"
  df_partial :: bool
  df_snapshotRequired :: bool

record sync_scope_state =
  ss_appliedSeq :: sync_seq
  ss_epoch :: sync_epoch
  ss_repairPending :: bool

datatype snapshot_reason = epoch_mismatch | snapshot_required | initial | sparse_repull

datatype sync_request =
    DifferenceRequest (rq_domain: string) (rq_scopeId: string) sync_seq sync_epoch
  | SnapshotRequest (rq_domain: string) (rq_scopeId: string) snapshot_reason

record ('s, 'e, 'r) domain_config =
  dc_name :: string
  dc_density :: density
  dc_initialState :: 's
  dc_eventFingerprint :: "('e \<Rightarrow> string) option"
  dc_fold :: "'s \<Rightarrow> 'e \<Rightarrow> string \<Rightarrow> sync_seq \<Rightarrow> 's"
  dc_fromSnapshot :: "'r sync_snapshot \<Rightarrow> 's"
  dc_acceptSameWatermarkSnapshot :: "('s \<Rightarrow> 'r sync_snapshot \<Rightarrow> bool) option"

datatype sync_outcome =
    Applied string sync_seq
  | DuplicateDropped string sync_seq
  | GapRepairRequested string sync_seq sync_seq
  | MaxAdvanced string sync_seq
  | EpochRebaselineRequested string
  | Violation string violation_kind

datatype sync_error = UnregisteredDomain string | BufferRangeError range_error

record 's scope_entry =
  appliedSeq :: "sync_seq option"
  acceptedFingerprint :: "string option"
  epoch :: sync_epoch
  repairPending :: bool
  scope_state :: 's

record ('s, 'e, 'r) sync_core =
  domains :: "string \<rightharpoonup> ('s, 'e, 'r) domain_config"
  scopes :: "string \<times> string \<rightharpoonup> 's scope_entry"
  violations :: violation_buffer
  pending :: "(string, sync_request) omap"

section \<open>Construction and local helpers\<close>

text \<open>\<open>domains.set(domain.name, domain)\<close>: a later domain of the same name replaces an earlier one.\<close>

definition register_domain ::
  "('s, 'e, 'r) domain_config \<Rightarrow> (string \<rightharpoonup> ('s, 'e, 'r) domain_config) \<Rightarrow>
   (string \<rightharpoonup> ('s, 'e, 'r) domain_config)" where
  "register_domain d m = m(dc_name d \<mapsto> d)"

definition createSyncCore ::
  "('s, 'e, 'r) domain_config list \<Rightarrow> violation_buffer option \<Rightarrow> jsval \<Rightarrow> sync_error + ('s, 'e, 'r) sync_core" where
  "createSyncCore ds violationBuffer capacity =
     (let dmap = fold register_domain ds Map.empty;
          vb = (case violationBuffer of
                  Some b \<Rightarrow> Inr b
                | None \<Rightarrow> createSyncViolationBuffer (nullish_or capacity (JInt 256)) False)
      in case vb of
           Inl e \<Rightarrow> Inl (BufferRangeError e)
         | Inr b \<Rightarrow> Inr \<lparr>domains = dmap, scopes = Map.empty, violations = b, pending = []\<rparr>)"

definition domainOf ::
  "string \<Rightarrow> ('s, 'e, 'r) sync_core \<Rightarrow> sync_error + ('s, 'e, 'r) domain_config" where
  "domainOf name c =
     (case domains c name of None \<Rightarrow> Inl (UnregisteredDomain name) | Some d \<Rightarrow> Inr d)"

definition initial_entry :: "('s, 'e, 'r) domain_config \<Rightarrow> 's scope_entry" where
  "initial_entry d = \<lparr>appliedSeq = None, acceptedFingerprint = None, epoch = None,
                      repairPending = False, scope_state = dc_initialState d\<rparr>"

text \<open>
  \<open>scopeEntry\<close> returns the entry of the scope, creating it on first use. The entry is mutated in
  place by the code; here \<open>put_entry\<close> writes the updated entry back.
\<close>

definition scopeEntry ::
  "('s, 'e, 'r) domain_config \<Rightarrow> string \<Rightarrow> ('s, 'e, 'r) sync_core \<Rightarrow> 's scope_entry" where
  "scopeEntry d scopeId c =
     (case scopes c (dc_name d, scopeId) of None \<Rightarrow> initial_entry d | Some en \<Rightarrow> en)"

definition put_entry ::
  "('s, 'e, 'r) domain_config \<Rightarrow> string \<Rightarrow> 's scope_entry \<Rightarrow> ('s, 'e, 'r) sync_core \<Rightarrow> ('s, 'e, 'r) sync_core" where
  "put_entry d scopeId en c = c\<lparr>scopes := (scopes c)((dc_name d, scopeId) \<mapsto> en)\<rparr>"

fun requestKey :: "sync_request \<Rightarrow> string" where
  "requestKey (DifferenceRequest d s _ _) = ''difference:'' @ d @ '':'' @ s"
| "requestKey (SnapshotRequest d s _) = ''snapshot:'' @ d @ '':'' @ s"

definition add_request :: "sync_request \<Rightarrow> ('s, 'e, 'r) sync_core \<Rightarrow> ('s, 'e, 'r) sync_core" where
  "add_request rq c = c\<lparr>pending := oset (requestKey rq) rq (pending c)\<rparr>"

definition requestSnapshot ::
  "string \<Rightarrow> string \<Rightarrow> snapshot_reason \<Rightarrow> ('s, 'e, 'r) sync_core \<Rightarrow> ('s, 'e, 'r) sync_core" where
  "requestSnapshot domainName scopeId reason = add_request (SnapshotRequest domainName scopeId reason)"

definition requestDifference ::
  "string \<Rightarrow> string \<Rightarrow> sync_seq \<Rightarrow> sync_epoch \<Rightarrow> ('s, 'e, 'r) sync_core \<Rightarrow> ('s, 'e, 'r) sync_core" where
  "requestDifference domainName scopeId sinceSeq ep =
     add_request (DifferenceRequest domainName scopeId sinceSeq ep)"

definition clearScopeRequests ::
  "string \<Rightarrow> string \<Rightarrow> ('s, 'e, 'r) sync_core \<Rightarrow> ('s, 'e, 'r) sync_core" where
  "clearScopeRequests domainName scopeId c =
     c\<lparr>pending := odel (''snapshot:'' @ domainName @ '':'' @ scopeId)
                    (odel (''difference:'' @ domainName @ '':'' @ scopeId) (pending c))\<rparr>"

definition epochMismatch :: "'s scope_entry \<Rightarrow> sync_epoch \<Rightarrow> bool" where
  "epochMismatch en incoming \<longleftrightarrow> epoch en \<noteq> None \<and> incoming \<noteq> None \<and> incoming \<noteq> epoch en"

definition record_violation ::
  "violation_kind \<Rightarrow> string \<Rightarrow> string \<Rightarrow> sync_seq option \<Rightarrow> sync_epoch \<Rightarrow>
   ('s, 'e, 'r) sync_core \<Rightarrow> ('s, 'e, 'r) sync_core" where
  "record_violation kind domainName scopeId sq ep c =
     c\<lparr>violations := vpush \<lparr>vf_kind = kind, vf_domain = domainName, vf_scopeId = scopeId,
                            vf_seq = sq, vf_epoch = ep\<rparr> (violations c)\<rparr>"

text \<open>The three assignments that accept one event into an entry.\<close>

definition accept_event ::
  "('s, 'e, 'r) domain_config \<Rightarrow> string \<Rightarrow> sync_seq \<Rightarrow> 'e \<Rightarrow> 's scope_entry \<Rightarrow> 's scope_entry" where
  "accept_event d scopeId sq ev en =
     en\<lparr>scope_state := dc_fold d (scope_state en) ev scopeId sq,
        appliedSeq := Some sq,
        acceptedFingerprint := map_option (\<lambda>f. f ev) (dc_eventFingerprint d)\<rparr>"

section \<open>The ingest operations\<close>

definition ingestFrame ::
  "string \<Rightarrow> 'e sync_frame \<Rightarrow> ('s, 'e, 'r) sync_core \<Rightarrow> sync_error + (sync_outcome \<times> ('s, 'e, 'r) sync_core)" where
  "ingestFrame domainName frame c =
     (case domainOf domainName c of
        Inl err \<Rightarrow> Inl err
      | Inr d \<Rightarrow>
          let sid = fr_scopeId frame; sq = fr_seq frame; en = scopeEntry d sid c
          in if epochMismatch en (fr_epoch frame) then
               Inr (EpochRebaselineRequested sid,
                    put_entry d sid (en\<lparr>repairPending := True\<rparr>)
                      (requestSnapshot domainName sid epoch_mismatch
                        (record_violation cross_epoch_arrival domainName sid (Some sq) (fr_epoch frame) c)))
             else case appliedSeq en of
               None \<Rightarrow>
                 if dc_density d = contiguous then
                   Inr (GapRepairRequested sid 0 sq,
                        put_entry d sid (en\<lparr>repairPending := True\<rparr>)
                          (requestSnapshot domainName sid initial c))
                 else
                   let en1 = accept_event d sid sq (fr_event frame) en;
                       en2 = (if epoch en1 = None then en1\<lparr>epoch := fr_epoch frame\<rparr> else en1)
                   in Inr (MaxAdvanced sid sq, put_entry d sid en2 c)
             | Some applied \<Rightarrow>
                 if sq < applied then
                   Inr (DuplicateDropped sid sq,
                        put_entry d sid en
                          (if dc_eventFingerprint d \<noteq> None
                           then record_violation version_regression domainName sid (Some sq) (fr_epoch frame) c
                           else c))
                 else if sq = applied then
                   (case dc_eventFingerprint d of
                      None \<Rightarrow> Inr (DuplicateDropped sid sq, put_entry d sid en c)
                    | Some fp \<Rightarrow>
                        if acceptedFingerprint en = Some (fp (fr_event frame)) then
                          Inr (DuplicateDropped sid sq, put_entry d sid en c)
                        else
                          Inr (Violation sid producer_version_conflict,
                               put_entry d sid (en\<lparr>repairPending := True\<rparr>)
                                 (requestSnapshot domainName sid
                                    (if dc_density d = sparse then sparse_repull else snapshot_required)
                                    (record_violation producer_version_conflict domainName sid (Some sq)
                                       (fr_epoch frame) c))))
                 else if dc_density d = sparse then
                   Inr (MaxAdvanced sid sq, put_entry d sid (accept_event d sid sq (fr_event frame) en) c)
                 else if sq = applied + 1 then
                   Inr (Applied sid sq, put_entry d sid (accept_event d sid sq (fr_event frame) en) c)
                 else
                   Inr (GapRepairRequested sid (applied + 1) (sq - 1),
                        put_entry d sid (en\<lparr>repairPending := True\<rparr>)
                          (requestDifference domainName sid applied (epoch en) c)))"

definition ingestSnapshot ::
  "string \<Rightarrow> 'r sync_snapshot \<Rightarrow> ('s, 'e, 'r) sync_core \<Rightarrow> sync_error + (sync_outcome \<times> ('s, 'e, 'r) sync_core)" where
  "ingestSnapshot domainName snapshot c =
     (case domainOf domainName c of
        Inl err \<Rightarrow> Inl err
      | Inr d \<Rightarrow>
          let sid = sn_scopeId snapshot; wm = sn_watermark snapshot; en = scopeEntry d sid c;
              sameEpoch = (epoch en = None \<or> sn_epoch snapshot = None \<or> sn_epoch snapshot = epoch en);
              sameWatermark = (appliedSeq en = Some wm);
              allowSameWatermark = (sameWatermark \<and>
                (case dc_acceptSameWatermarkSnapshot d of
                   None \<Rightarrow> False | Some f \<Rightarrow> f (scope_state en) snapshot))
          in if sameEpoch \<and>
               (case appliedSeq en of
                  None \<Rightarrow> False
                | Some applied \<Rightarrow> wm < applied \<or> sameWatermark \<and> \<not> allowSameWatermark) then
               Inr (DuplicateDropped sid wm,
                    put_entry d sid en
                      (record_violation version_regression domainName sid (Some wm) (sn_epoch snapshot) c))
             else
               Inr (Applied sid wm,
                    clearScopeRequests domainName sid
                      (put_entry d sid
                        (en\<lparr>scope_state := dc_fromSnapshot d snapshot, appliedSeq := Some wm,
                            acceptedFingerprint := None, epoch := sn_epoch snapshot,
                            repairPending := False\<rparr>) c)))"

text \<open>The comparator of the difference page: bigints compared explicitly.\<close>

definition compare_seq :: "(sync_seq \<times> 'e) cmp" where
  "compare_seq a b = (if fst a < fst b then -1 else if fst b < fst a then 1 else 0)"

text \<open>One turn of the loop over the ordered items: positions already applied are skipped.\<close>

definition apply_item ::
  "('s, 'e, 'r) domain_config \<Rightarrow> string \<Rightarrow> (sync_seq \<times> 'e) \<Rightarrow> 's scope_entry \<Rightarrow> 's scope_entry" where
  "apply_item d sid item en =
     (case appliedSeq en of
        Some applied \<Rightarrow> if fst item \<le> applied then en else accept_event d sid (fst item) (snd item) en
      | None \<Rightarrow> accept_event d sid (fst item) (snd item) en)"

definition advance_to :: "sync_seq \<Rightarrow> 's scope_entry \<Rightarrow> 's scope_entry" where
  "advance_to toSeq en =
     (if (case appliedSeq en of None \<Rightarrow> True | Some applied \<Rightarrow> toSeq > applied)
      then en\<lparr>appliedSeq := Some toSeq, acceptedFingerprint := None\<rparr> else en)"

definition apply_difference ::
  "('s, 'e, 'r) domain_config \<Rightarrow> 'e sync_difference \<Rightarrow> 's scope_entry \<Rightarrow> 's scope_entry" where
  "apply_difference d response en =
     advance_to (df_toSeq response)
       (fold (apply_item d (df_scopeId response)) (js_sort compare_seq (df_events response)) en)"

definition ingestDifference ::
  "string \<Rightarrow> 'e sync_difference \<Rightarrow> ('s, 'e, 'r) sync_core \<Rightarrow> sync_error + (sync_outcome \<times> ('s, 'e, 'r) sync_core)" where
  "ingestDifference domainName response c =
     (case domainOf domainName c of
        Inl err \<Rightarrow> Inl err
      | Inr d \<Rightarrow>
          let sid = df_scopeId response; en = scopeEntry d sid c
          in if epochMismatch en (df_epoch response) then
               Inr (EpochRebaselineRequested sid,
                    put_entry d sid en
                      (requestSnapshot domainName sid epoch_mismatch
                        (record_violation cross_epoch_arrival domainName sid None (df_epoch response) c)))
             else if df_snapshotRequired response then
               Inr (EpochRebaselineRequested sid,
                    put_entry d sid (en\<lparr>repairPending := True\<rparr>)
                      (requestSnapshot domainName sid snapshot_required
                        (clearScopeRequests domainName sid c)))
             else
               let en1 = apply_difference d response en;
                   applied = the (appliedSeq en1);
                   c1 = clearScopeRequests domainName sid c
               in if df_partial response then
                    Inr (GapRepairRequested sid (applied + 1) (df_toSeq response),
                         put_entry d sid en1 (requestDifference domainName sid applied (epoch en1) c1))
                  else
                    Inr (Applied sid applied, put_entry d sid (en1\<lparr>repairPending := False\<rparr>) c1))"

section \<open>Queries\<close>

definition pendingRequests :: "('s, 'e, 'r) sync_core \<Rightarrow> sync_request list" where
  "pendingRequests c = map snd (pending c)"

definition state_of :: "string \<Rightarrow> string \<Rightarrow> ('s, 'e, 'r) sync_core \<Rightarrow> 's option" where
  "state_of domainName scopeId c = map_option scope_state (scopes c (domainName, scopeId))"

definition scopeSyncState :: "string \<Rightarrow> string \<Rightarrow> ('s, 'e, 'r) sync_core \<Rightarrow> sync_scope_state option" where
  "scopeSyncState domainName scopeId c =
     map_option (\<lambda>en. \<lparr>ss_appliedSeq = (case appliedSeq en of None \<Rightarrow> 0 | Some s \<Rightarrow> s),
                       ss_epoch = epoch en, ss_repairPending = repairPending en\<rparr>)
       (scopes c (domainName, scopeId))"

definition drain_violations :: "jsval \<Rightarrow> ('s, 'e, 'r) sync_core \<Rightarrow> range_error + violation_drain" where
  "drain_violations sinceIndex c = vb_drain sinceIndex (violations c)"

end
