(* ===== verification/Sync_Convergence.thy ===== *)
theory Sync_Convergence
  imports Sync_Core
begin

text \<open>
  Correctness of the sync core. The ingest operations are first reduced to functions on one
  scope entry (\<open>frame_entry\<close>, \<open>snapshot_entry\<close>, \<open>difference_entry\<close>); on these rest isolation of
  scopes, monotone watermarks, the stop-gate on gaps, the repair bookkeeping, and convergence to
  the producer's log.
\<close>

section \<open>Inputs and runs\<close>

datatype ('e, 'r) sync_input =
    FrameIn string "'e sync_frame"
  | SnapshotIn string "'r sync_snapshot"
  | DifferenceIn string "'e sync_difference"

fun in_domain :: "('e, 'r) sync_input \<Rightarrow> string" where
  "in_domain (FrameIn n _) = n"
| "in_domain (SnapshotIn n _) = n"
| "in_domain (DifferenceIn n _) = n"

fun in_scope :: "('e, 'r) sync_input \<Rightarrow> string" where
  "in_scope (FrameIn _ f) = fr_scopeId f"
| "in_scope (SnapshotIn _ s) = sn_scopeId s"
| "in_scope (DifferenceIn _ r) = df_scopeId r"

fun ingest :: "('e, 'r) sync_input \<Rightarrow> ('s, 'e, 'r) sync_core \<Rightarrow> sync_error + (sync_outcome \<times> ('s, 'e, 'r) sync_core)" where
  "ingest (FrameIn n f) c = ingestFrame n f c"
| "ingest (SnapshotIn n s) c = ingestSnapshot n s c"
| "ingest (DifferenceIn n r) c = ingestDifference n r c"

section \<open>The operations on one entry\<close>

definition frame_entry :: "('s, 'e, 'r) domain_config \<Rightarrow> 'e sync_frame \<Rightarrow> 's scope_entry \<Rightarrow> 's scope_entry" where
  "frame_entry d f en =
     (if epochMismatch en (fr_epoch f) then en\<lparr>repairPending := True\<rparr>
      else case appliedSeq en of
        None \<Rightarrow>
          if dc_density d = contiguous then en\<lparr>repairPending := True\<rparr>
          else (accept_event d (fr_scopeId f) (fr_seq f) (fr_event f) en)
                 \<lparr>epoch := (case epoch en of None \<Rightarrow> fr_epoch f | Some e \<Rightarrow> Some e)\<rparr>
      | Some a \<Rightarrow>
          if fr_seq f < a then en
          else if fr_seq f = a then
            (if \<forall>fp. dc_eventFingerprint d = Some fp \<longrightarrow> acceptedFingerprint en = Some (fp (fr_event f))
             then en else en\<lparr>repairPending := True\<rparr>)
          else if dc_density d = sparse \<or> fr_seq f = a + 1
          then accept_event d (fr_scopeId f) (fr_seq f) (fr_event f) en
          else en\<lparr>repairPending := True\<rparr>)"

definition snapshot_stale :: "('s, 'e, 'r) domain_config \<Rightarrow> 'r sync_snapshot \<Rightarrow> 's scope_entry \<Rightarrow> bool" where
  "snapshot_stale d s en \<longleftrightarrow>
     (epoch en = None \<or> sn_epoch s = None \<or> sn_epoch s = epoch en) \<and>
     (\<exists>a. appliedSeq en = Some a \<and>
        (sn_watermark s < a \<or>
         sn_watermark s = a \<and> \<not> (\<exists>f. dc_acceptSameWatermarkSnapshot d = Some f \<and> f (scope_state en) s)))"

definition snapshot_entry :: "('s, 'e, 'r) domain_config \<Rightarrow> 'r sync_snapshot \<Rightarrow> 's scope_entry \<Rightarrow> 's scope_entry" where
  "snapshot_entry d s en =
     (if snapshot_stale d s en then en
      else en\<lparr>scope_state := dc_fromSnapshot d s, appliedSeq := Some (sn_watermark s),
              acceptedFingerprint := None, epoch := sn_epoch s, repairPending := False\<rparr>)"

definition difference_entry :: "('s, 'e, 'r) domain_config \<Rightarrow> 'e sync_difference \<Rightarrow> 's scope_entry \<Rightarrow> 's scope_entry" where
  "difference_entry d r en =
     (if epochMismatch en (df_epoch r) then en
      else if df_snapshotRequired r then en\<lparr>repairPending := True\<rparr>
      else if df_partial r then apply_difference d r en
      else (apply_difference d r en)\<lparr>repairPending := False\<rparr>)"

fun input_entry :: "('s, 'e, 'r) domain_config \<Rightarrow> ('e, 'r) sync_input \<Rightarrow> 's scope_entry \<Rightarrow> 's scope_entry" where
  "input_entry d (FrameIn _ f) en = frame_entry d f en"
| "input_entry d (SnapshotIn _ s) en = snapshot_entry d s en"
| "input_entry d (DifferenceIn _ r) en = difference_entry d r en"

lemma helper_frames [frame_specs, simp]:
  "scopes (put_entry d sid en c) = (scopes c)((dc_name d, sid) \<mapsto> en)"
  "domains (put_entry d sid en c) = domains c"
  "violations (put_entry d sid en c) = violations c"
  "pending (put_entry d sid en c) = pending c"
  "scopes (add_request rq c) = scopes c"
  "domains (add_request rq c) = domains c"
  "violations (add_request rq c) = violations c"
  "pending (add_request rq c) = oset (requestKey rq) rq (pending c)"
  "scopes (clearScopeRequests n sid c) = scopes c"
  "domains (clearScopeRequests n sid c) = domains c"
  "violations (clearScopeRequests n sid c) = violations c"
  "scopes (record_violation k n sid sq ep c) = scopes c"
  "domains (record_violation k n sid sq ep c) = domains c"
  "pending (record_violation k n sid sq ep c) = pending c"
  by (simp_all add: put_entry_def add_request_def clearScopeRequests_def record_violation_def)

lemmas ingest_defs = ingestFrame_def ingestSnapshot_def ingestDifference_def domainOf_def Let_def
  requestSnapshot_def requestDifference_def

lemma ingest_unregistered:
  "domains c (in_domain i) = None \<Longrightarrow> ingest i c = Inl (UnregisteredDomain (in_domain i))"
  by (cases i) (simp_all add: ingest_defs)

lemma ingestFrame_ok:
  assumes "domains c n = Some d"
  shows "\<exists>out c'. ingestFrame n f c = Inr (out, c') \<and> domains c' = domains c \<and>
    scopes c' = (scopes c)((dc_name d, fr_scopeId f) \<mapsto> frame_entry d f (scopeEntry d (fr_scopeId f) c))"
proof -
  let ?en = "scopeEntry d (fr_scopeId f) c"
  show ?thesis
  proof (cases "appliedSeq ?en")
    case None
    then show ?thesis
      using assms by (auto simp: ingest_defs frame_entry_def accept_event_def split: option.splits)
  next
    case (Some a)
    consider "epochMismatch ?en (fr_epoch f)" | "fr_seq f < a" | "fr_seq f = a" | "fr_seq f > a"
      by linarith
    then show ?thesis
      using assms Some by cases (auto simp: ingest_defs frame_entry_def split: option.splits)
  qed
qed

lemma ingestSnapshot_ok:
  assumes "domains c n = Some d"
  shows "\<exists>out c'. ingestSnapshot n s c = Inr (out, c') \<and> domains c' = domains c \<and>
    scopes c' = (scopes c)((dc_name d, sn_scopeId s) \<mapsto> snapshot_entry d s (scopeEntry d (sn_scopeId s) c))"
proof (cases "snapshot_stale d s (scopeEntry d (sn_scopeId s) c)")
  case True
  then show ?thesis
    using assms
    by (auto simp: ingest_defs snapshot_entry_def snapshot_stale_def split: option.splits)
next
  case False
  then show ?thesis
    using assms
    by (auto simp: ingest_defs snapshot_entry_def snapshot_stale_def split: option.splits)
qed

lemma ingestDifference_ok:
  assumes "domains c n = Some d"
  shows "\<exists>out c'. ingestDifference n r c = Inr (out, c') \<and> domains c' = domains c \<and>
    scopes c' = (scopes c)((dc_name d, df_scopeId r) \<mapsto> difference_entry d r (scopeEntry d (df_scopeId r) c))"
  using assms by (auto simp: ingest_defs difference_entry_def)

lemma ingest_registered:
  assumes "domains c (in_domain i) = Some d"
  shows "\<exists>out c'. ingest i c = Inr (out, c') \<and> domains c' = domains c \<and>
    scopes c' = (scopes c)((dc_name d, in_scope i) \<mapsto> input_entry d i (scopeEntry d (in_scope i) c))"
  using assms ingestFrame_ok ingestSnapshot_ok ingestDifference_ok by (cases i) auto


text \<open>An operation that throws leaves the core unchanged; a run folds the inputs in order.\<close>

definition ingest1 :: "('e, 'r) sync_input \<Rightarrow> ('s, 'e, 'r) sync_core \<Rightarrow> ('s, 'e, 'r) sync_core" where
  "ingest1 i c = (case ingest i c of Inl _ \<Rightarrow> c | Inr (_, c') \<Rightarrow> c')"

definition ingest_all :: "('e, 'r) sync_input list \<Rightarrow> ('s, 'e, 'r) sync_core \<Rightarrow> ('s, 'e, 'r) sync_core" where
  "ingest_all is c = fold ingest1 is c"

lemma ingest_all_simps [simp]:
  "ingest_all [] c = c"
  "ingest_all (i # is) c = ingest_all is (ingest1 i c)"
  by (simp_all add: ingest_all_def)

lemma ingest1_domains [frame_specs, simp]: "domains (ingest1 i c) = domains c"
  using ingest_unregistered [of c i] ingest_registered [of c i]
  by (cases "domains c (in_domain i)") (auto simp: ingest1_def)

lemma ingest_all_domains [frame_specs]: "domains (ingest_all is c) = domains c"
  by (induction "is" arbitrary: c) simp_all

lemma ingest1_scopes:
  "domains c (in_domain i) = Some d \<Longrightarrow>
    scopes (ingest1 i c) = (scopes c)((dc_name d, in_scope i) \<mapsto> input_entry d i (scopeEntry d (in_scope i) c))"
  using ingest_registered [of c i d] by (auto simp: ingest1_def)

lemma ingest1_scopes_unregistered: "domains c (in_domain i) = None \<Longrightarrow> ingest1 i c = c"
  by (simp add: ingest1_def ingest_unregistered)

definition well_named :: "('s, 'e, 'r) sync_core \<Rightarrow> bool" where
  "well_named c \<longleftrightarrow> (\<forall>n d. domains c n = Some d \<longrightarrow> dc_name d = n)"

lemma well_named_ingest1 [inv_intros]: "well_named c \<Longrightarrow> well_named (ingest1 i c)"
  by (simp add: well_named_def)

lemma register_named:
  "(\<And>n d. m n = Some d \<Longrightarrow> dc_name d = n) \<Longrightarrow> fold register_domain ds m n = Some d \<Longrightarrow> dc_name d = n"
proof (induction ds arbitrary: m)
  case (Cons x ds)
  have "dc_name d = n" if "register_domain x m n = Some d" for n d
    using that Cons.prems(1) by (auto simp: register_domain_def split: if_splits)
  moreover have "fold register_domain ds (register_domain x m) n = Some d"
    using Cons.prems(2) by simp
  ultimately show ?case by (rule Cons.IH)
qed simp

lemma well_named_create: "createSyncCore ds b cap = Inr c \<Longrightarrow> well_named c"
  using register_named [where m = Map.empty and ds = ds]
  by (fastforce simp: createSyncCore_def well_named_def Let_def split: sum.splits)

lemma scopeEntry_ingest1:
  assumes "well_named c" "domains c (dc_name d) = Some d"
  shows "scopeEntry d sid (ingest1 i c) =
    (if in_domain i = dc_name d \<and> in_scope i = sid then input_entry d i (scopeEntry d sid c)
     else scopeEntry d sid c)"
proof (cases "domains c (in_domain i)")
  case None
  with assms show ?thesis by (auto simp: ingest1_scopes_unregistered)
next
  case (Some d')
  moreover have "dc_name d' = in_domain i" using assms Some by (simp add: well_named_def)
  ultimately show ?thesis
    using assms by (auto simp: scopeEntry_def ingest1_scopes)
qed

section \<open>Isolation and monotone watermarks\<close>

lemma ingest1_other_scope:
  assumes "well_named c" "(in_domain i, in_scope i) \<noteq> (n, sid)"
  shows "scopes (ingest1 i c) (n, sid) = scopes c (n, sid)"
proof (cases "domains c (in_domain i)")
  case (Some d)
  with assms have "dc_name d = in_domain i" by (simp add: well_named_def)
  with assms Some show ?thesis by (auto simp: ingest1_scopes)
qed (simp add: ingest1_scopes_unregistered)

text \<open>Positions: no baseline counts as position 0.\<close>

definition pos :: "'s scope_entry \<Rightarrow> int" where
  "pos en = (case appliedSeq en of None \<Rightarrow> 0 | Some a \<Rightarrow> a)"

lemma accept_event_simps [simp]:
  "appliedSeq (accept_event d sid q e en) = Some q"
  "epoch (accept_event d sid q e en) = epoch en"
  "repairPending (accept_event d sid q e en) = repairPending en"
  "scope_state (accept_event d sid q e en) = dc_fold d (scope_state en) e sid q"
  "acceptedFingerprint (accept_event d sid q e en) = map_option (\<lambda>f. f e) (dc_eventFingerprint d)"
  by (simp_all add: accept_event_def)

lemma apply_items_mono:
  "appliedSeq en = Some a \<Longrightarrow> \<exists>a'. appliedSeq (fold (apply_item d sid) xs en) = Some a' \<and> a \<le> a'"
proof (induction xs arbitrary: en a)
  case (Cons x xs)
  show ?case
  proof (cases "fst x \<le> a")
    case True
    with Cons show ?thesis by (simp add: apply_item_def)
  next
    case False
    then have "appliedSeq (apply_item d sid x en) = Some (fst x)"
      using Cons.prems by (simp add: apply_item_def)
    from Cons.IH [OF this] False show ?thesis by auto
  qed
qed auto

lemma apply_items_epoch [simp]: "epoch (fold (apply_item d sid) xs en) = epoch en"
proof (induction xs arbitrary: en)
  case (Cons x xs)
  then show ?case by (simp add: apply_item_def split: option.split)
qed simp

lemma advance_to_simps [simp]:
  "epoch (advance_to q en) = epoch en"
  "scope_state (advance_to q en) = scope_state en"
  "repairPending (advance_to q en) = repairPending en"
  "\<exists>a. appliedSeq (advance_to q en) = Some a"
  by (auto simp: advance_to_def split: option.splits)

lemma apply_difference_applied: "\<exists>a. appliedSeq (apply_difference d r en) = Some a"
  by (simp add: apply_difference_def)

lemma apply_difference_epoch [simp]: "epoch (apply_difference d r en) = epoch en"
  by (simp add: apply_difference_def)

lemma apply_difference_mono:
  "appliedSeq en = Some a \<Longrightarrow> \<exists>a'. appliedSeq (apply_difference d r en) = Some a' \<and> a \<le> a'"
  using apply_items_mono [of en a d "df_scopeId r" "js_sort compare_seq (df_events r)"]
  by (auto simp: apply_difference_def advance_to_def)

text \<open>The one case in which a watermark may move backwards: a snapshot of another epoch.\<close>

definition rebaseline :: "('e, 'r) sync_input \<Rightarrow> 's scope_entry \<Rightarrow> bool" where
  "rebaseline i en \<longleftrightarrow>
     (\<exists>n s. i = SnapshotIn n s \<and> epoch en \<noteq> None \<and> sn_epoch s \<noteq> None \<and> sn_epoch s \<noteq> epoch en)"

lemma input_entry_mono:
  assumes "appliedSeq en = Some a" "\<not> rebaseline i en"
  shows "\<exists>a'. appliedSeq (input_entry d i en) = Some a' \<and> a \<le> a'"
proof (cases i)
  case (FrameIn n f)
  with assms show ?thesis by (auto simp: frame_entry_def)
next
  case (SnapshotIn n s)
  with assms show ?thesis
    by (auto simp: snapshot_entry_def snapshot_stale_def rebaseline_def)
next
  case (DifferenceIn n r)
  with assms apply_difference_mono [of en a d r] show ?thesis
    by (auto simp: difference_entry_def)
qed


section \<open>Convergence to the producer's log\<close>

text \<open>
  The specification of a contiguous scope is the producer's log: in each epoch a base state and one
  event per position. \<open>producer_state\<close> is the authoritative state at a position.
\<close>

fun replay :: "('s, 'e, 'r) domain_config \<Rightarrow> string \<Rightarrow> 's \<Rightarrow> (int \<Rightarrow> 'e) \<Rightarrow> nat \<Rightarrow> 's" where
  "replay d sid s0 lg 0 = s0"
| "replay d sid s0 lg (Suc n) = dc_fold d (replay d sid s0 lg n) (lg (int (Suc n))) sid (int (Suc n))"

definition producer_state ::
  "('s, 'e, 'r) domain_config \<Rightarrow> string \<Rightarrow> (sync_epoch \<Rightarrow> 's) \<Rightarrow> (sync_epoch \<Rightarrow> int \<Rightarrow> 'e) \<Rightarrow>
   sync_epoch \<Rightarrow> int \<Rightarrow> 's" where
  "producer_state d sid base lg ep q = replay d sid (base ep) (lg ep) (nat q)"

lemma producer_state_step:
  "0 \<le> q \<Longrightarrow> producer_state d sid base lg ep (q + 1) =
     dc_fold d (producer_state d sid base lg ep q) (lg ep (q + 1)) sid (q + 1)"
  by (simp add: producer_state_def nat_add_distrib add.commute)

text \<open>
  What an honest producer sends to one scope: a frame carries the log's event of its position, a
  snapshot the log's state at its watermark, a difference page exactly the events of the interval
  it names, which starts at or before the position the client has reached. Nothing is assumed of
  the order, of repetitions or of losses.
\<close>

fun honest ::
  "('s, 'e, 'r) domain_config \<Rightarrow> string \<Rightarrow> (sync_epoch \<Rightarrow> 's) \<Rightarrow> (sync_epoch \<Rightarrow> int \<Rightarrow> 'e) \<Rightarrow>
   's scope_entry \<Rightarrow> ('e, 'r) sync_input \<Rightarrow> bool" where
  "honest d sid base lg en (FrameIn n f) =
     (epochMismatch en (fr_epoch f) \<or> fr_event f = lg (epoch en) (fr_seq f))"
| "honest d sid base lg en (SnapshotIn n s) =
     (0 \<le> sn_watermark s \<and>
      dc_fromSnapshot d s = producer_state d sid base lg (sn_epoch s) (sn_watermark s))"
| "honest d sid base lg en (DifferenceIn n r) =
     (epochMismatch en (df_epoch r) \<or> df_snapshotRequired r \<or>
      0 \<le> df_fromSeq r \<and> df_fromSeq r \<le> df_toSeq r \<and>
      (case appliedSeq en of None \<Rightarrow> df_fromSeq r = 0 | Some a \<Rightarrow> df_fromSeq r \<le> a) \<and>
      (\<forall>(q, e) \<in> set (df_events r). e = lg (epoch en) q) \<and>
      fst ` set (df_events r) = {df_fromSeq r<..df_toSeq r})"

definition synced ::
  "('s, 'e, 'r) domain_config \<Rightarrow> string \<Rightarrow> (sync_epoch \<Rightarrow> 's) \<Rightarrow> (sync_epoch \<Rightarrow> int \<Rightarrow> 'e) \<Rightarrow>
   's scope_entry \<Rightarrow> bool" where
  "synced d sid base lg en \<longleftrightarrow>
     0 \<le> pos en \<and> scope_state en = producer_state d sid base lg (epoch en) (pos en)"

interpretation seq_cmp: comparator compare_seq
  by unfold_locales (auto simp: compare_seq_def split: if_splits)

lemma synced_accept:
  assumes "synced d sid base lg en" "q = pos en + 1" "e = lg (epoch en) q"
  shows "synced d sid base lg (accept_event d sid q e en)"
  using assms producer_state_step [of "pos en" d sid base lg "epoch en"]
  by (simp add: synced_def pos_def split: option.splits)

text \<open>
  Folding a sorted page: every item is either already applied or the next position, provided the
  page has no hole above the client's position.
\<close>

definition no_hole :: "int \<Rightarrow> (int \<times> 'e) list \<Rightarrow> bool" where
  "no_hole a xs \<longleftrightarrow> (\<forall>q \<in> fst ` set xs. \<forall>p. a < p \<longrightarrow> p \<le> q \<longrightarrow> p \<in> fst ` set xs)"

lemma no_holeD: "no_hole a xs \<Longrightarrow> q \<in> fst ` set xs \<Longrightarrow> a < p \<Longrightarrow> p \<le> q \<Longrightarrow> p \<in> fst ` set xs"
  by (auto simp: no_hole_def)

lemma no_hole_tail:
  assumes "no_hole a (x # xs)" "fst x \<le> a'" "a \<le> a'"
  shows "no_hole a' xs"
  unfolding no_hole_def
proof (intro ballI allI impI)
  fix q p
  assume "q \<in> fst ` set xs" "a' < p" "p \<le> q"
  with assms have "p \<in> fst ` set (x # xs)"
    using no_holeD [OF assms(1), of q p] by auto
  with assms \<open>a' < p\<close> show "p \<in> fst ` set xs" by auto
qed

lemma no_hole_next:
  assumes "no_hole a (x # xs)" "a < fst x" "sorted_wrt (\<lambda>a b. compare_seq a b \<le> 0) (x # xs)"
  shows "fst x = a + 1"
proof -
  have "a + 1 \<in> fst ` set (x # xs)"
    using no_holeD [OF assms(1), of "fst x" "a + 1"] assms(2) by simp
  then obtain y where "y \<in> set (x # xs)" "fst y = a + 1" by (metis imageE)
  moreover have "fst x \<le> fst y" if "y \<in> set (x # xs)" for y
    using assms(3) that by (auto simp: compare_seq_def split: if_splits)
  ultimately have "fst x \<le> a + 1" by metis
  with assms(2) show ?thesis by linarith
qed

lemma apply_items_synced:
  "sorted_wrt (\<lambda>a b. compare_seq a b \<le> 0) xs \<Longrightarrow> no_hole (pos en) xs \<Longrightarrow>
    (\<forall>(q, e) \<in> set xs. e = lg (epoch en) q) \<Longrightarrow>
    (appliedSeq en = None \<Longrightarrow> \<forall>q \<in> fst ` set xs. 0 < q) \<Longrightarrow> synced d sid base lg en \<Longrightarrow>
    synced d sid base lg (fold (apply_item d sid) xs en) \<and>
    (\<forall>q \<in> fst ` set xs. q \<le> pos (fold (apply_item d sid) xs en)) \<and>
    pos en \<le> pos (fold (apply_item d sid) xs en)"
proof (induction xs arbitrary: en)
  case (Cons x xs)
  show ?case
  proof (cases "fst x \<le> pos en")
    case True
    then obtain a where "appliedSeq en = Some a" "a = pos en"
      using Cons.prems(4) by (cases "appliedSeq en") (auto simp: pos_def)
    then have "apply_item d sid x en = en" using True by (simp add: apply_item_def)
    moreover have "no_hole (pos en) xs" using Cons.prems(2) True by (rule no_hole_tail) simp
    ultimately show ?thesis
      using Cons.IH [of en] Cons.prems True \<open>appliedSeq en = Some a\<close> by fastforce
  next
    case False
    let ?en = "accept_event d sid (fst x) (snd x) en"
    have ap: "apply_item d sid x en = ?en"
      using False by (simp add: apply_item_def pos_def split: option.splits)
    have next_pos: "fst x = pos en + 1"
      using Cons.prems(2) _ Cons.prems(1) by (rule no_hole_next) (use False in simp)
    have sy: "synced d sid base lg ?en"
      using Cons.prems(3,5) next_pos by (intro synced_accept) auto
    have px: "pos ?en = fst x" by (simp add: pos_def)
    have "fst x \<le> pos ?en" "pos en \<le> pos ?en" using px next_pos by linarith+
    with Cons.prems(2) have "no_hole (pos ?en) xs" by (rule no_hole_tail)
    then have IH: "synced d sid base lg (fold (apply_item d sid) xs ?en) \<and>
        (\<forall>q \<in> fst ` set xs. q \<le> pos (fold (apply_item d sid) xs ?en)) \<and>
        pos ?en \<le> pos (fold (apply_item d sid) xs ?en)"
      using Cons.prems sy by (intro Cons.IH) auto
    moreover have "pos en \<le> pos ?en" using px next_pos by linarith
    ultimately show ?thesis using px by (auto simp: ap)
  qed
qed simp

lemma synced_advance_to:
  assumes "synced d sid base lg en" "q \<le> pos en" "0 \<le> q"
  shows "synced d sid base lg (advance_to q en)"
  using assms by (auto simp: advance_to_def synced_def pos_def split: option.splits)

lemma synced_difference:
  assumes "synced d sid base lg en" "df_scopeId r = sid" "honest d sid base lg en (DifferenceIn n r)"
    "\<not> epochMismatch en (df_epoch r)" "\<not> df_snapshotRequired r"
  shows "synced d sid base lg (apply_difference d r en)"
proof -
  let ?xs = "js_sort compare_seq (df_events r)"
  let ?en = "fold (apply_item d sid) ?xs en"
  have from_to: "0 \<le> df_fromSeq r" "df_fromSeq r \<le> df_toSeq r"
    and start: "case appliedSeq en of None \<Rightarrow> df_fromSeq r = 0 | Some a \<Rightarrow> df_fromSeq r \<le> a"
    and evs: "\<forall>(q, e) \<in> set ?xs. e = lg (epoch en) q"
    and seqs: "fst ` set ?xs = {df_fromSeq r<..df_toSeq r}"
    using assms(3-5) by auto
  have from_pos: "df_fromSeq r \<le> pos en" using start by (simp add: pos_def split: option.splits)
  have fold: "synced d sid base lg ?en \<and> (\<forall>q \<in> fst ` set ?xs. q \<le> pos ?en) \<and> pos en \<le> pos ?en"
  proof (rule apply_items_synced [OF seq_cmp.js_sort_sorted _ evs _ assms(1)])
    show "no_hole (pos en) ?xs"
      using from_pos unfolding no_hole_def seqs by auto
    show "\<forall>q \<in> fst ` set ?xs. 0 < q"
      using from_to unfolding seqs by auto
  qed
  have "df_toSeq r \<le> pos ?en"
  proof (cases "df_toSeq r = df_fromSeq r")
    case True
    then show ?thesis using from_pos fold by linarith
  next
    case False
    then have "df_toSeq r \<in> fst ` set ?xs" using from_to unfolding seqs by auto
    then show ?thesis using fold by blast
  qed
  with fold from_to show ?thesis
    by (simp add: apply_difference_def assms(2) synced_advance_to)
qed

lemma synced_repairPending [simp]:
  "synced d sid base lg (en\<lparr>repairPending := b\<rparr>) = synced d sid base lg en"
  by (simp add: synced_def pos_def)

lemma input_entry_synced:
  assumes "synced d sid base lg en" "honest d sid base lg en i" "in_scope i = sid"
    "dc_density d = contiguous"
  shows "synced d sid base lg (input_entry d i en)"
proof (cases i)
  case (FrameIn n f)
  show ?thesis
  proof (cases "\<exists>a. appliedSeq en = Some a \<and> fr_seq f = a + 1 \<and> \<not> epochMismatch en (fr_epoch f)")
    case True
    then have "fr_seq f = pos en + 1" by (auto simp: pos_def)
    moreover have "fr_event f = lg (epoch en) (fr_seq f)" using assms(2) FrameIn True by auto
    ultimately have "synced d sid base lg (accept_event d sid (fr_seq f) (fr_event f) en)"
      using assms(1) by (intro synced_accept) auto
    then show ?thesis using True FrameIn assms(3) by (auto simp: frame_entry_def)
  next
    case False
    then show ?thesis using assms FrameIn by (auto simp: frame_entry_def split: option.splits)
  qed
next
  case (SnapshotIn n s)
  then show ?thesis
    using assms by (auto simp: snapshot_entry_def synced_def pos_def)
next
  case (DifferenceIn n r)
  then show ?thesis
    using assms synced_difference [of d sid base lg en r n] by (auto simp: difference_entry_def)
qed

fun honest_run ::
  "('s, 'e, 'r) domain_config \<Rightarrow> string \<Rightarrow> (sync_epoch \<Rightarrow> 's) \<Rightarrow> (sync_epoch \<Rightarrow> int \<Rightarrow> 'e) \<Rightarrow>
   ('s, 'e, 'r) sync_core \<Rightarrow> ('e, 'r) sync_input list \<Rightarrow> bool" where
  "honest_run d sid base lg c [] = True"
| "honest_run d sid base lg c (i # is) =
     ((in_domain i = dc_name d \<and> in_scope i = sid \<longrightarrow> honest d sid base lg (scopeEntry d sid c) i) \<and>
      honest_run d sid base lg (ingest1 i c) is)"

lemma ingest_all_synced:
  "well_named c \<Longrightarrow> domains c (dc_name d) = Some d \<Longrightarrow> dc_density d = contiguous \<Longrightarrow>
    synced d sid base lg (scopeEntry d sid c) \<Longrightarrow> honest_run d sid base lg c is \<Longrightarrow>
    synced d sid base lg (scopeEntry d sid (ingest_all is c))"
proof (induction "is" arbitrary: c)
  case (Cons i "is")
  have "synced d sid base lg (scopeEntry d sid (ingest1 i c))"
    using Cons.prems input_entry_synced [of d sid base lg "scopeEntry d sid c" i]
    by (auto simp: scopeEntry_ingest1)
  with Cons show ?case by (simp add: well_named_ingest1)
qed simp

end
