(* ===== verification/Sync_Repair.thy ===== *)
theory Sync_Repair
  imports Sync_Convergence
begin

text \<open>
  The request bookkeeping of the sync core: request keys identify their scope, every scope that is
  marked for repair has an outstanding request, gaps are never applied, and replays are dropped.
\<close>

section \<open>Request keys\<close>

definition colon_free :: "string \<Rightarrow> bool" where
  "colon_free s \<longleftrightarrow> CHR '':'' \<notin> set s"

lemma colon_split:
  assumes "colon_free a" "colon_free b" "a @ '':'' @ s = b @ '':'' @ t"
  shows "a = b \<and> s = t"
proof -
  have tw: "takeWhile (\<lambda>ch. ch \<noteq> CHR '':'') (a @ '':'' @ s) = a" if "colon_free a" for a s
    using that by (simp add: colon_free_def takeWhile_append takeWhile_eq_all_conv)
  have "a = b" using tw [OF assms(1), of s] tw [OF assms(2), of t] assms(3) by simp
  then show ?thesis using assms(3) by simp
qed

fun same_kind :: "sync_request \<Rightarrow> sync_request \<Rightarrow> bool" where
  "same_kind (DifferenceRequest _ _ _ _) (DifferenceRequest _ _ _ _) = True"
| "same_kind (SnapshotRequest _ _ _) (SnapshotRequest _ _ _) = True"
| "same_kind _ _ = False"

lemma requestKey_eq_iff:
  "colon_free (rq_domain a) \<Longrightarrow> colon_free (rq_domain b) \<Longrightarrow>
    requestKey a = requestKey b \<longleftrightarrow>
      same_kind a b \<and> rq_domain a = rq_domain b \<and> rq_scopeId a = rq_scopeId b"
  by (cases a; cases b) (auto dest: colon_split [simplified])

abbreviation dkey :: "string \<Rightarrow> string \<Rightarrow> string" where
  "dkey n sid \<equiv> ''difference:'' @ n @ '':'' @ sid"

abbreviation skey :: "string \<Rightarrow> string \<Rightarrow> string" where
  "skey n sid \<equiv> ''snapshot:'' @ n @ '':'' @ sid"

lemma key_neq: "dkey n sid \<noteq> skey n' sid'" "skey n sid \<noteq> dkey n' sid'"
  by simp_all

definition has_request :: "('s, 'e, 'r) sync_core \<Rightarrow> string \<Rightarrow> string \<Rightarrow> bool" where
  "has_request c n sid \<longleftrightarrow> oget (pending c) (dkey n sid) \<noteq> None \<or> oget (pending c) (skey n sid) \<noteq> None"

lemma clear_pending [simp]:
  "oget (pending (clearScopeRequests n sid c)) k =
     (if k = dkey n sid \<or> k = skey n sid then None else oget (pending c) k)"
  by (auto simp: clearScopeRequests_def map_specs)

lemma ingest_pending_other:
  assumes "ingest i c = Inr (out, c')" "k \<noteq> dkey (in_domain i) (in_scope i)" "k \<noteq> skey (in_domain i) (in_scope i)"
  shows "oget (pending c') k = oget (pending c) k"
  using assms by (cases i) (auto simp: ingest_defs map_specs split: option.splits if_splits)

text \<open>Well-formed request table: distinct keys, each the key of its request.\<close>

definition pending_ok :: "('s, 'e, 'r) sync_core \<Rightarrow> bool" where
  "pending_ok c \<longleftrightarrow> odistinct (pending c) \<and>
     (\<forall>k rq. oget (pending c) k = Some rq \<longrightarrow> k = requestKey rq \<and> domains c (rq_domain rq) \<noteq> None)"

lemma pending_ok_add:
  "pending_ok c \<Longrightarrow> domains c (rq_domain rq) \<noteq> None \<Longrightarrow> pending_ok (add_request rq c)"
  by (auto simp: pending_ok_def map_specs split: if_splits)

lemma pending_ok_clear: "pending_ok c \<Longrightarrow> pending_ok (clearScopeRequests n sid c)"
  by (auto simp: pending_ok_def map_specs clearScopeRequests_def split: if_splits)

lemma pending_ok_frame [simp]:
  "pending_ok (put_entry d sid en c) = pending_ok c"
  "pending_ok (record_violation k n sid sq ep c) = pending_ok c"
  by (simp_all add: pending_ok_def)

lemma pending_ok_ingest [inv_intros]:
  assumes "pending_ok c" "ingest i c = Inr (out, c')"
  shows "pending_ok c'"
  using assms
  by (cases i) (auto simp: ingest_defs pending_ok_add pending_ok_clear split: option.splits if_splits)

section \<open>A scope marked for repair has an outstanding request\<close>

definition repair_tracked :: "('s, 'e, 'r) sync_core \<Rightarrow> bool" where
  "repair_tracked c \<longleftrightarrow>
     (\<forall>n sid en. scopes c (n, sid) = Some en \<longrightarrow> repairPending en \<longrightarrow> has_request c n sid)"

lemma ingest_repair_own:
  assumes "ingest i c = Inr (out, c')" "domains c (in_domain i) = Some d" "dc_name d = in_domain i"
    "repairPending (scopeEntry d (in_scope i) c) \<longrightarrow> has_request c (in_domain i) (in_scope i)"
    "repairPending (input_entry d i (scopeEntry d (in_scope i) c))"
  shows "has_request c' (in_domain i) (in_scope i)"
proof (cases i)
  case (FrameIn n f)
  with assms show ?thesis
    by (auto simp: ingest_defs has_request_def frame_entry_def map_specs split: option.splits if_splits)
next
  case (SnapshotIn n s)
  with assms show ?thesis
    by (auto simp: ingest_defs has_request_def snapshot_entry_def snapshot_stale_def map_specs
        split: option.splits if_splits)
next
  case (DifferenceIn n r)
  with assms show ?thesis
    by (auto simp: ingest_defs has_request_def difference_entry_def map_specs split: option.splits if_splits)
qed

definition colon_free_domains :: "('s, 'e, 'r) sync_core \<Rightarrow> bool" where
  "colon_free_domains c \<longleftrightarrow> (\<forall>n. domains c n \<noteq> None \<longrightarrow> colon_free n)"

definition scopes_registered :: "('s, 'e, 'r) sync_core \<Rightarrow> bool" where
  "scopes_registered c \<longleftrightarrow> fst ` dom (scopes c) \<subseteq> dom (domains c)"

lemma scopes_registeredD: "scopes_registered c \<Longrightarrow> scopes c (n, sid) = Some en \<Longrightarrow> n \<in> dom (domains c)"
  by (force simp: scopes_registered_def)

definition buffer_ok :: "violation_buffer \<Rightarrow> bool" where
  "buffer_ok b \<longleftrightarrow> (\<exists>log. buffer_of_log log b)"

lemma buffer_ok_push [simp]: "buffer_ok b \<Longrightarrow> buffer_ok (vpush r b)"
  using push_buffer_of_log(1) by (fastforce simp: buffer_ok_def)

lemma buffer_ok_record [simp]:
  "buffer_ok (violations c) \<Longrightarrow> buffer_ok (violations (record_violation k n sid sq ep c))"
  by (simp add: record_violation_def)

definition core_inv :: "('s, 'e, 'r) sync_core \<Rightarrow> bool" where
  "core_inv c \<longleftrightarrow> well_named c \<and> colon_free_domains c \<and> pending_ok c \<and> repair_tracked c \<and>
     scopes_registered c \<and> buffer_ok (violations c)"

lemma has_request_other:
  assumes "ingest i c = Inr (out, c')" "colon_free n" "colon_free (in_domain i)"
    "(n, sid) \<noteq> (in_domain i, in_scope i)"
  shows "has_request c' n sid = has_request c n sid"
proof -
  have "dkey n sid \<noteq> dkey (in_domain i) (in_scope i)" "skey n sid \<noteq> skey (in_domain i) (in_scope i)"
    using assms(2-4) colon_split [of n "in_domain i" sid "in_scope i"] by auto
  then show ?thesis
    using ingest_pending_other [OF assms(1)] key_neq by (simp add: has_request_def)
qed

lemma repair_tracked_ingest [inv_intros]:
  assumes "core_inv c" "ingest i c = Inr (out, c')"
  shows "repair_tracked c'"
proof -
  obtain d where d: "domains c (in_domain i) = Some d"
    using assms(2) ingest_unregistered [of c i] by (cases "domains c (in_domain i)") auto
  then have nm: "dc_name d = in_domain i" using assms(1) by (simp add: core_inv_def well_named_def)
  have sc: "scopes c' = (scopes c)((in_domain i, in_scope i) \<mapsto> input_entry d i (scopeEntry d (in_scope i) c))"
    using ingest_registered [OF d] assms(2) nm by auto
  have free: "colon_free n" if "scopes c (n, sid) = Some en" for n sid en
    using that assms(1) scopes_registeredD [of c n sid en] by (auto simp: core_inv_def colon_free_domains_def)
  have free_i: "colon_free (in_domain i)" using d assms(1) by (simp add: core_inv_def colon_free_domains_def)
  have own: "repairPending (scopeEntry d (in_scope i) c) \<longrightarrow> has_request c (in_domain i) (in_scope i)"
    using assms(1) nm
    by (auto simp: core_inv_def repair_tracked_def scopeEntry_def initial_entry_def split: option.splits)
  show ?thesis
    unfolding repair_tracked_def
  proof (intro allI impI)
    fix n sid en
    assume en: "scopes c' (n, sid) = Some en" "repairPending en"
    show "has_request c' n sid"
    proof (cases "(n, sid) = (in_domain i, in_scope i)")
      case True
      with en sc ingest_repair_own [OF assms(2) d nm own] show ?thesis by simp
    next
      case False
      with en sc have "scopes c (n, sid) = Some en" by (auto split: if_splits)
      with False free free_i en assms(1) has_request_other [OF assms(2)] show ?thesis
        by (auto simp: core_inv_def repair_tracked_def)
    qed
  qed
qed

lemma violations_ingest [inv_intros]:
  assumes "buffer_ok (violations c)" "ingest i c = Inr (out, c')"
  shows "buffer_ok (violations c')"
  using assms by (cases i) (auto simp: ingest_defs split: option.splits if_splits)

lemma core_inv_ingest [inv_intros]:
  assumes "core_inv c" "ingest i c = Inr (out, c')"
  shows "core_inv c'"
proof -
  obtain d where d: "domains c (in_domain i) = Some d"
    using assms(2) ingest_unregistered [of c i] by (cases "domains c (in_domain i)") auto
  then have nm: "dc_name d = in_domain i" using assms(1) by (simp add: core_inv_def well_named_def)
  have "domains c' = domains c" and
    "scopes c' = (scopes c)((in_domain i, in_scope i) \<mapsto> input_entry d i (scopeEntry d (in_scope i) c))"
    using ingest_registered [OF d] assms(2) nm by auto
  with assms d repair_tracked_ingest [OF assms] pending_ok_ingest [OF _ assms(2)]
    violations_ingest [OF _ assms(2)]
  show ?thesis by (auto simp: core_inv_def well_named_def colon_free_domains_def scopes_registered_def)
qed

lemma core_inv_ingest1: "core_inv c \<Longrightarrow> core_inv (ingest1 i c)"
  by (auto simp: ingest1_def intro: core_inv_ingest split: sum.splits)

lemma core_inv_ingest_all: "core_inv c \<Longrightarrow> core_inv (ingest_all is c)"
  by (induction "is" arbitrary: c) (simp_all add: core_inv_ingest1)

lemma register_dom: "fold register_domain ds m n \<noteq> None \<Longrightarrow> m n \<noteq> None \<or> n \<in> dc_name ` set ds"
  by (induction ds arbitrary: m) (fastforce simp: register_domain_def split: if_splits)+

lemma core_inv_create:
  assumes "createSyncCore ds None cap = Inr c" "\<forall>d \<in> set ds. colon_free (dc_name d)"
  shows "core_inv c"
proof -
  have c: "domains c = fold register_domain ds Map.empty" "scopes c = Map.empty" "pending c = []"
    and b: "\<exists>b. createSyncViolationBuffer (nullish_or cap (JInt 256)) False = Inr b \<and> violations c = b"
    using assms(1) by (auto simp: createSyncCore_def Let_def split: sum.splits)
  have "colon_free_domains c"
    using assms(2) register_dom [of ds Map.empty] unfolding colon_free_domains_def c(1) by fastforce
  with c b well_named_create [OF assms(1)] create_buffer_of_log show ?thesis
    by (auto simp: core_inv_def pending_ok_def repair_tracked_def scopes_registered_def buffer_ok_def)
qed

lemma has_request_pending:
  assumes "core_inv c" "colon_free n" "has_request c n sid"
  shows "\<exists>rq \<in> set (pendingRequests c). rq_domain rq = n \<and> rq_scopeId rq = sid"
proof -
  obtain k rq where k: "k = dkey n sid \<or> k = skey n sid" "oget (pending c) k = Some rq"
    using assms(3) by (auto simp: has_request_def)
  then have rk: "k = requestKey rq" and "domains c (rq_domain rq) \<noteq> None"
    using assms(1) by (auto simp: core_inv_def pending_ok_def)
  then have "colon_free (rq_domain rq)" using assms(1) by (simp add: core_inv_def colon_free_domains_def)
  with k rk assms(2) have "rq_domain rq = n \<and> rq_scopeId rq = sid"
    by (cases rq) (auto dest: colon_split [simplified])
  moreover have "rq \<in> set (pendingRequests c)"
    using k(2) by (force simp: pendingRequests_def dest: map_of_SomeD)
  ultimately show ?thesis by blast
qed

end
