(* ===== verification/Sync_UInt64.thy ===== *)
theory Sync_UInt64
  imports Raft_Prelude
begin

text \<open>
  \<open>packages/sync-core/src/uint64.ts\<close>: canonical decimal strings as unsigned integers, compared
  without converting them to a double.
\<close>

type_synonym uint64_string = string

definition is_digit :: "char \<Rightarrow> bool" where
  "is_digit ch \<longleftrightarrow> CHR ''0'' \<le> ch \<and> ch \<le> CHR ''9''"

text \<open>The regular expression \<open>^(0|[1-9][0-9]*)$\<close>.\<close>

fun decimal_uint64 :: "string \<Rightarrow> bool" where
  "decimal_uint64 [] = False"
| "decimal_uint64 (ch # cs) =
     (if ch = CHR ''0'' then cs = [] else is_digit ch \<and> list_all is_digit cs)"

fun isUInt64String :: "jsval \<Rightarrow> bool" where
  "isUInt64String (JStr s) = decimal_uint64 s"
| "isUInt64String _ = False"

definition compareUInt64String :: "uint64_string \<Rightarrow> uint64_string \<Rightarrow> int" where
  "compareUInt64String left right =
     (if length left \<noteq> length right then if length left < length right then -1 else 1
      else if left = right then 0
      else if left < right then -1 else 1)"


section \<open>The comparison is a total order and agrees with the numeric one\<close>

lemma compareUInt64String_cases [cmp_specs]:
  "compareUInt64String a b < 0 \<longleftrightarrow> length a < length b \<or> length a = length b \<and> a < b"
  "compareUInt64String a b \<le> 0 \<longleftrightarrow> length a < length b \<or> length a = length b \<and> a \<le> b"
  "compareUInt64String a b = 0 \<longleftrightarrow> a = b"
  "0 < compareUInt64String a b \<longleftrightarrow> length b < length a \<or> length b = length a \<and> b < a"
  by (auto simp: compareUInt64String_def)

interpretation u64: total_comparator compareUInt64String
  by unfold_locales (auto simp: cmp_specs)

definition digit_val :: "char \<Rightarrow> nat" where
  "digit_val ch = of_char ch - 48"

text \<open>The number a digit string denotes.\<close>

fun dec_val :: "string \<Rightarrow> nat" where
  "dec_val [] = 0"
| "dec_val (ch # cs) = digit_val ch * 10 ^ length cs + dec_val cs"

lemma is_digit_iff: "is_digit ch \<longleftrightarrow> 48 \<le> (of_char ch :: nat) \<and> (of_char ch :: nat) \<le> 57"
  by (simp add: is_digit_def less_eq_char_def)

lemma digit_val_le: "is_digit ch \<Longrightarrow> digit_val ch \<le> 9"
  unfolding is_digit_iff digit_val_def by linarith

lemma digit_val_less: "is_digit a \<Longrightarrow> is_digit b \<Longrightarrow> a < b \<Longrightarrow> digit_val a < digit_val b"
  by (auto simp: is_digit_iff digit_val_def less_char_def)

lemma digit_val_pos: "is_digit ch \<Longrightarrow> ch \<noteq> CHR ''0'' \<Longrightarrow> 0 < digit_val ch"
proof -
  assume "is_digit ch" "ch \<noteq> CHR ''0''"
  then have "CHR ''0'' < ch" by (simp add: is_digit_def less_le)
  then show ?thesis by (simp add: less_char_def digit_val_def)
qed

lemma dec_val_bound: "list_all is_digit cs \<Longrightarrow> dec_val cs < 10 ^ length cs"
proof (induction cs)
  case (Cons ch cs)
  then have "digit_val ch * 10 ^ length cs \<le> 9 * 10 ^ length cs" "dec_val cs < 10 ^ length cs"
    by (auto intro: digit_val_le)
  then have "digit_val ch * 10 ^ length cs + dec_val cs < 9 * 10 ^ length cs + 10 ^ length cs"
    by (rule add_le_less_mono)
  then show ?case by simp
qed simp

lemma dec_val_lex:
  "length as = length bs \<Longrightarrow> list_all is_digit as \<Longrightarrow> list_all is_digit bs \<Longrightarrow> as < bs \<Longrightarrow>
    dec_val as < dec_val bs"
proof (induction as bs rule: list_induct2)
  case (Cons a as b bs)
  show ?case
  proof (cases "a < b")
    case True
    with Cons.prems have "digit_val a + 1 \<le> digit_val b"
      by (auto dest: digit_val_less)
    then have "(digit_val a + 1) * 10 ^ length as \<le> digit_val b * 10 ^ length as"
      by (rule mult_le_mono1)
    moreover have "dec_val as < 10 ^ length as"
      using Cons.prems by (simp add: dec_val_bound)
    ultimately show ?thesis using Cons.hyps by (simp add: algebra_simps)
  next
    case False
    with Cons show ?thesis by simp
  qed
qed simp

lemma decimal_digits: "decimal_uint64 s \<Longrightarrow> list_all is_digit s"
  by (cases s) (auto simp: is_digit_iff split: if_splits)

lemma decimal_lower: "decimal_uint64 s \<Longrightarrow> 1 < length s \<Longrightarrow> 10 ^ (length s - 1) \<le> dec_val s"
proof (cases s)
  case (Cons ch cs)
  assume "decimal_uint64 s" "1 < length s"
  with Cons have "is_digit ch" "ch \<noteq> CHR ''0''" by (auto split: if_splits)
  then have "1 * 10 ^ length cs \<le> digit_val ch * 10 ^ length cs"
    using digit_val_pos by (intro mult_le_mono1) (simp add: Suc_leI)
  then have "10 ^ length cs \<le> digit_val ch * 10 ^ length cs + dec_val cs"
    by linarith
  then show ?thesis using Cons by simp
qed simp

lemma decimal_shorter:
  assumes "decimal_uint64 a" "decimal_uint64 b" "length a < length b"
  shows "dec_val a < dec_val b"
proof -
  have "a \<noteq> []" using assms(1) by auto
  then have "1 < length b" using assms(3) by (cases a) auto
  have "dec_val a < 10 ^ length a" using assms(1) by (simp add: decimal_digits dec_val_bound)
  also have "\<dots> \<le> 10 ^ (length b - 1)" using assms(3) by (intro power_increasing) auto
  also have "\<dots> \<le> dec_val b" using assms(2) \<open>1 < length b\<close> by (rule decimal_lower)
  finally show ?thesis .
qed

text \<open>
  On canonical strings the three-way result is the sign of the numeric difference, for numbers of
  any size: the comparison is exact above \<open>2 ^ 53\<close>, where a double is not.
\<close>

lemma compareUInt64String_sgn:
  assumes "decimal_uint64 a" "decimal_uint64 b"
  shows "compareUInt64String a b = sgn (int (dec_val a) - int (dec_val b))"
proof (cases "length a = length b")
  case False
  with assms show ?thesis
    using decimal_shorter [of a b] decimal_shorter [of b a]
    by (auto simp: compareUInt64String_def)
next
  case True
  consider "a = b" | "a < b" | "b < a" by fastforce
  then show ?thesis
    using assms True dec_val_lex [of a b] dec_val_lex [of b a]
    by cases (auto simp: compareUInt64String_def decimal_digits)
qed

end
