(* ===== verification/Js_Json.thy ===== *)
theory Js_Json
  imports Sync_UInt64
begin

text \<open>
  \<open>JSON.stringify\<close> as far as the identity encodings use it: strings with the escapes of the
  ECMAScript \<open>QuoteJSONString\<close> (code units up to 255), integers, and arrays of them. The point is
  that the printed form determines the list it was made of.
\<close>

section \<open>Integers\<close>

definition digit_char :: "nat \<Rightarrow> char" where
  "digit_char n = char_of (48 + n)"

fun show_nat :: "nat \<Rightarrow> string" where
  "show_nat n = (if n < 10 then [digit_char n] else show_nat (n div 10) @ [digit_char (n mod 10)])"

declare show_nat.simps [simp del]

definition show_int :: "int \<Rightarrow> string" where
  "show_int i = (if i < 0 then ''-'' @ show_nat (nat (- i)) else show_nat (nat i))"

lemma digit_char_props:
  "n < 10 \<Longrightarrow> of_char (digit_char n) = 48 + n" "n < 10 \<Longrightarrow> is_digit (digit_char n)"
  "n < 10 \<Longrightarrow> digit_val (digit_char n) = n"
  by (auto simp: digit_char_def is_digit_iff digit_val_def)

lemma dec_val_snoc: "dec_val (cs @ [ch]) = 10 * dec_val cs + digit_val ch"
  by (induction cs) (auto simp: algebra_simps)

lemma show_nat_digits: "list_all is_digit (show_nat n) \<and> show_nat n \<noteq> []"
proof (induction n rule: show_nat.induct)
  case (1 n)
  then show ?case by (subst (1 2) show_nat.simps) (auto simp: digit_char_props)
qed

lemma dec_val_show_nat [simp]: "dec_val (show_nat n) = n"
proof (induction n rule: show_nat.induct)
  case (1 n)
  then show ?case by (subst show_nat.simps) (auto simp: digit_char_props dec_val_snoc)
qed

lemma show_nat_inj: "show_nat m = show_nat n \<longleftrightarrow> m = n"
  by (metis dec_val_show_nat)

lemma show_nat_no_minus: "show_nat n \<noteq> CHR ''-'' # cs"
  using show_nat_digits [of n] by (auto simp: is_digit_iff)

lemma show_int_inj: "show_int i = show_int j \<longleftrightarrow> i = j"
  using show_nat_no_minus [of "nat i"] show_nat_no_minus [of "nat j", THEN not_sym]
  by (auto simp: show_int_def show_nat_inj)

section \<open>Strings\<close>

definition hex_char :: "nat \<Rightarrow> char" where
  "hex_char n = (if n < 10 then char_of (48 + n) else char_of (87 + n))"

text \<open>The two-character escapes, by code unit: quotation mark, backslash, and the letters b t n f r.\<close>

definition short_escapes :: "(nat \<times> char) list" where
  "short_escapes = [(34, CHR 0x22), (92, CHR 0x5C), (8, CHR ''b''), (9, CHR ''t''), (10, CHR ''n''),
                    (12, CHR ''f''), (13, CHR ''r'')]"

definition json_escape :: "char \<Rightarrow> string" where
  "json_escape ch =
     (case map_of short_escapes (of_char ch) of
        Some l \<Rightarrow> [CHR 0x5C, l]
      | None \<Rightarrow>
          if (of_char ch :: nat) < 32
          then CHR 0x5C # ''u00'' @ [hex_char (of_char ch div 16), hex_char (of_char ch mod 16)]
          else [ch])"

definition json_body :: "string \<Rightarrow> string" where
  "json_body s = concat (map json_escape s)"

definition json_string :: "string \<Rightarrow> string" where
  "json_string s = CHR 0x22 # json_body s @ [CHR 0x22]"

fun json_elements :: "string list \<Rightarrow> string" where
  "json_elements [] = []"
| "json_elements [x] = x"
| "json_elements (x # xs) = x @ '','' @ json_elements xs"

text \<open>\<open>JSON.stringify\<close> of an array whose elements print as the given strings.\<close>

definition json_array :: "string list \<Rightarrow> string" where
  "json_array xs = ''['' @ json_elements xs @ '']''"

lemma hex_char_inj: "m < 16 \<Longrightarrow> n < 16 \<Longrightarrow> hex_char m = hex_char n \<Longrightarrow> m = n"
proof -
  assume a: "m < 16" "n < 16" "hex_char m = hex_char n"
  have "of_char (hex_char k) = (if k < 10 then 48 + k else 87 + k)" if "k < 16" for k
    using that by (simp add: hex_char_def)
  with a have "(if m < 10 then 48 + m else 87 + m) = (if n < 10 then 48 + n else 87 + n)" by metis
  with a show "m = n" by (auto split: if_splits)
qed

lemma short_escapes_inj: "map_of short_escapes m = Some l \<Longrightarrow> map_of short_escapes n = Some l \<Longrightarrow> m = n"
  by (auto simp: short_escapes_def split: if_splits)

lemma short_escapes_not_u: "map_of short_escapes m \<noteq> Some (CHR ''u'')"
  by (auto simp: short_escapes_def)

lemma plain_not_special: "map_of short_escapes (of_char ch) = None \<Longrightarrow> ch \<noteq> CHR 0x5C \<and> ch \<noteq> CHR 0x22"
  by (auto simp: short_escapes_def)

lemma hex_pair_inj:
  fixes x y :: nat
  assumes "x < 32" "y < 32" "hex_char (x div 16) = hex_char (y div 16)" "hex_char (x mod 16) = hex_char (y mod 16)"
  shows "x = y"
proof -
  have "x div 16 = y div 16" "x mod 16 = y mod 16"
    using assms hex_char_inj [of "x div 16" "y div 16"] hex_char_inj [of "x mod 16" "y mod 16"] by auto
  then show ?thesis by (metis mult_div_mod_eq)
qed

lemma json_escape_prefix:
  assumes "json_escape a @ s = json_escape b @ t"
  shows "a = b \<and> s = t"
proof (cases "map_of short_escapes (of_char a)"; cases "map_of short_escapes (of_char b)")
  fix l m
  assume "map_of short_escapes (of_char a) = Some l" "map_of short_escapes (of_char b) = Some m"
  then show ?thesis
    using assms short_escapes_inj [of "of_char a" l "of_char b"] by (auto simp: json_escape_def)
next
  assume "map_of short_escapes (of_char a) = None" "map_of short_escapes (of_char b) = None"
  then show ?thesis
    using assms plain_not_special [of a] plain_not_special [of b]
      hex_pair_inj [of "of_char a" "of_char b"]
    by (auto simp: json_escape_def split: if_splits)
next
  fix l
  assume "map_of short_escapes (of_char a) = Some l" "map_of short_escapes (of_char b) = None"
  then show ?thesis
    using assms plain_not_special [of b] short_escapes_not_u [of "of_char a"]
    by (auto simp: json_escape_def split: if_splits)
next
  fix l
  assume "map_of short_escapes (of_char a) = None" "map_of short_escapes (of_char b) = Some l"
  then show ?thesis
    using assms plain_not_special [of a] short_escapes_not_u [of "of_char b"]
    by (auto simp: json_escape_def split: if_splits)
qed

lemma json_escape_no_quote: "json_escape a @ s \<noteq> CHR 0x22 # t"
  using plain_not_special [of a] by (auto simp: json_escape_def split: option.splits)

lemma json_body_simps [simp]: "json_body [] = []" "json_body (c # cs) = json_escape c @ json_body cs"
  by (simp_all add: json_body_def)

lemma json_body_prefix:
  "json_body s @ CHR 0x22 # x = json_body t @ CHR 0x22 # y \<Longrightarrow> s = t \<and> x = y"
proof (induction s arbitrary: t)
  case Nil
  then show ?case
    by (cases t) (auto simp: json_escape_no_quote [THEN not_sym] simp del: append_assoc,
        metis append_assoc json_escape_no_quote)
next
  case (Cons c cs)
  show ?case
  proof (cases t)
    case Nil
    then show ?thesis using Cons.prems json_escape_no_quote by fastforce
  next
    case (Cons b bs)
    with Cons.prems have "json_escape c @ (json_body cs @ CHR 0x22 # x) = json_escape b @ (json_body bs @ CHR 0x22 # y)"
      by simp
    from json_escape_prefix [OF this] have "c = b" "json_body cs @ CHR 0x22 # x = json_body bs @ CHR 0x22 # y"
      by auto
    with Cons.IH Cons show ?thesis by blast
  qed
qed

lemma json_string_prefix: "json_string s @ x = json_string t @ y \<Longrightarrow> s = t \<and> x = y"
  using json_body_prefix [of s x t y] by (simp add: json_string_def)

lemma json_string_inj [simp]: "json_string s = json_string t \<longleftrightarrow> s = t"
  using json_string_prefix [of s "[]" t "[]"] by auto

end
