(* ===== verification/Sync_Activity.thy ===== *)
theory Sync_Activity
  imports Sync_Repair Js_Json
begin

text \<open>
  \<open>packages/sync-core/src/domains/activity.ts\<close>: the Activity domain. Events and snapshots arrive as
  unvalidated values (\<open>jsval\<close>); rows are kept as the raw objects that passed \<open>isRow\<close>, exactly as the
  code keeps them, with accessors for the fields the fold reads. Tombstones are a plain object in the
  code and a map here (its order is never observed); row ids that name properties of
  \<open>Object.prototype\<close> are outside the model.
\<close>

section \<open>State\<close>

definition activity_domain :: string where
  "activity_domain = ''activity''"

datatype tombstone_reason = done_reason | deleted_reason | out_of_window_reason

record activity_state =
  rows :: "jsval list"
  tombstones :: "string \<rightharpoonup> uint64_string"
  activityVersion :: "uint64_string option"
  nextCursor :: "string option"
  hasMore :: bool
  complete :: bool
  totalCount :: int
  totalUnreadCount :: int

definition initialActivityState :: activity_state where
  "initialActivityState =
     \<lparr>rows = [], tombstones = Map.empty, activityVersion = None, nextCursor = None, hasMore = False,
      complete = False, totalCount = 0, totalUnreadCount = 0\<rparr>"

definition rowId :: "jsval \<Rightarrow> string" where
  "rowId r = str_of (jget r ''rowId'')"

definition rowVersion :: "jsval \<Rightarrow> uint64_string" where
  "rowVersion r = str_of (jget r ''rowVersion'')"

definition lastActivityAt :: "jsval \<Rightarrow> string" where
  "lastActivityAt r = str_of (jget r ''lastActivityAt'')"

definition readStateVersion :: "jsval \<Rightarrow> uint64_string" where
  "readStateVersion r = str_of (jget r ''readStateVersion'')"

definition maxReadSeq :: "jsval \<Rightarrow> uint64_string" where
  "maxReadSeq r = str_of (jget r ''maxReadSeq'')"

section \<open>Validation\<close>

fun isUnsignedCounter :: "jsval \<Rightarrow> bool" where
  "isUnsignedCounter (JInt i) = (is_safe_integer (JInt i) \<and> i \<ge> 0)"
| "isUnsignedCounter _ = False"

record window_fact =
  wf_nextCursor :: "string option option"
  wf_hasMore :: "bool option"
  wf_complete :: "bool option"
  wf_totalCount :: "int option"
  wf_totalUnreadCount :: "int option"

definition acceptedActivityFrameWindowFact :: "jsval \<Rightarrow> window_fact" where
  "acceptedActivityFrameWindowFact source =
     \<lparr>wf_nextCursor = (case jget source ''nextCursor'' of
                         JNull \<Rightarrow> Some None | JStr s \<Rightarrow> Some (Some s) | _ \<Rightarrow> None),
      wf_hasMore = (case jget source ''hasMore'' of JBool b \<Rightarrow> Some b | _ \<Rightarrow> None),
      wf_complete = (case jget source ''complete'' of JBool b \<Rightarrow> Some b | _ \<Rightarrow> None),
      wf_totalCount = (case jget source ''totalCount'' of
                         JInt i \<Rightarrow> if isUnsignedCounter (JInt i) then Some i else None | _ \<Rightarrow> None),
      wf_totalUnreadCount = (case jget source ''totalUnreadCount'' of
                         JInt i \<Rightarrow> if isUnsignedCounter (JInt i) then Some i else None | _ \<Rightarrow> None)\<rparr>"

definition isRow :: "jsval \<Rightarrow> bool" where
  "isRow r \<longleftrightarrow> is_plain_object r \<and>
     is_str (jget r ''rowId'') \<and> rowId r \<noteq> [] \<and>
     isUInt64String (jget r ''rowVersion'') \<and>
     isUInt64String (jget r ''maxReadSeq'') \<and>
     isUInt64String (jget r ''readStateVersion'') \<and>
     is_str (jget r ''lastActivityAt'') \<and>
     is_str (jget r ''type'')"

definition isTombstone :: "jsval \<Rightarrow> bool" where
  "isTombstone r \<longleftrightarrow> is_plain_object r \<and>
     is_str (jget r ''rowId'') \<and> rowId r \<noteq> [] \<and> isUInt64String (jget r ''rowVersion'')"

section \<open>Canonical order\<close>

definition compareRows :: "jsval cmp" where
  "compareRows left right =
     (if lastActivityAt left \<noteq> lastActivityAt right
      then if lastActivityAt left < lastActivityAt right then 1 else -1
      else if rowId left = rowId right then 0
      else if rowId left < rowId right then -1 else 1)"

definition sortRows :: "jsval list \<Rightarrow> jsval list" where
  "sortRows rs = js_sort compareRows rs"

section \<open>Rows and tombstones\<close>

type_synonym row_table = "(string, jsval) omap \<times> (string \<rightharpoonup> uint64_string)"

text \<open>One turn of the loop over the incoming rows.\<close>

definition apply_row :: "jsval \<Rightarrow> row_table \<Rightarrow> row_table" where
  "apply_row candidate t =
     (case t of (byId, tombs) \<Rightarrow>
        if \<not> isRow candidate then t
        else
          let rid = rowId candidate; buried = tombs rid
          in if (case buried of None \<Rightarrow> False
                 | Some b \<Rightarrow> compareUInt64String (rowVersion candidate) b \<le> 0) then t
             else if (case oget byId rid of None \<Rightarrow> False
                      | Some existing \<Rightarrow>
                          compareUInt64String (rowVersion candidate) (rowVersion existing) \<le> 0) then t
             else (oset rid candidate byId, if buried \<noteq> None then tombs(rid := None) else tombs))"

text \<open>One turn of the loop over the incoming tombstones.\<close>

definition apply_tombstone :: "jsval \<Rightarrow> row_table \<Rightarrow> row_table" where
  "apply_tombstone candidate t =
     (case t of (byId, tombs) \<Rightarrow>
        if \<not> isTombstone candidate then t
        else
          let rid = rowId candidate
          in if (case oget byId rid of None \<Rightarrow> False
                 | Some existing \<Rightarrow>
                     compareUInt64String (rowVersion candidate) (rowVersion existing) < 0) then t
             else if (case tombs rid of None \<Rightarrow> False
                      | Some b \<Rightarrow> compareUInt64String (rowVersion candidate) b \<le> 0) then t
             else (odel rid byId, tombs(rid \<mapsto> rowVersion candidate)))"

definition index_rows :: "jsval list \<Rightarrow> (string, jsval) omap" where
  "index_rows rs = fold (\<lambda>r m. oset (rowId r) r m) rs []"

definition applyRowsAndTombstones ::
  "activity_state \<Rightarrow> jsval list \<Rightarrow> jsval list \<Rightarrow> activity_state" where
  "applyRowsAndTombstones st incomingRows incomingTombstones =
     (case fold apply_tombstone incomingTombstones
             (fold apply_row incomingRows (index_rows (rows st), tombstones st)) of
        (byId, tombs) \<Rightarrow> st\<lparr>rows := sortRows (map snd byId), tombstones := tombs\<rparr>)"

definition advanceActivityVersion :: "uint64_string option \<Rightarrow> jsval \<Rightarrow> uint64_string option" where
  "advanceActivityVersion current incoming =
     (if \<not> isUInt64String incoming then current
      else case current of
        None \<Rightarrow> Some (str_of incoming)
      | Some v \<Rightarrow> if compareUInt64String (str_of incoming) v > 0 then Some (str_of incoming) else Some v)"

section \<open>Read-state updates\<close>

definition read_update_for :: "jsval list \<Rightarrow> jsval \<Rightarrow> jsval option" where
  "read_update_for updates row =
     find (\<lambda>cand. is_plain_object cand \<and> jget cand ''scopeId'' = JStr (rowId row)) updates"

definition update_row_read_state :: "jsval list \<Rightarrow> jsval \<Rightarrow> jsval" where
  "update_row_read_state updates row =
     (case read_update_for updates row of
        None \<Rightarrow> row
      | Some update \<Rightarrow>
          if \<not> isUInt64String (jget update ''readStateVersion'') \<or>
             \<not> isUInt64String (jget update ''maxReadSeq'') then row
          else if compareUInt64String (str_of (jget update ''readStateVersion'')) (readStateVersion row) \<le> 0
          then row
          else jset (jset row ''maxReadSeq'' (jget update ''maxReadSeq''))
                 ''readStateVersion'' (jget update ''readStateVersion''))"

text \<open>
  The code returns the old state object when no row changed; as values the two are equal, since an
  unchanged row is the row itself.
\<close>

definition foldReadStateUpdates :: "activity_state \<Rightarrow> jsval list \<Rightarrow> activity_state" where
  "foldReadStateUpdates st updates = st\<lparr>rows := map (update_row_read_state updates) (rows st)\<rparr>"

section \<open>The fold and the snapshot\<close>

definition with_window :: "window_fact \<Rightarrow> activity_state \<Rightarrow> activity_state" where
  "with_window w st =
     st\<lparr>nextCursor := (case wf_nextCursor w of None \<Rightarrow> nextCursor st | Some x \<Rightarrow> x),
        hasMore := (case wf_hasMore w of None \<Rightarrow> hasMore st | Some x \<Rightarrow> x),
        complete := (case wf_complete w of None \<Rightarrow> complete st | Some x \<Rightarrow> x),
        totalCount := (case wf_totalCount w of None \<Rightarrow> totalCount st | Some x \<Rightarrow> x),
        totalUnreadCount := (case wf_totalUnreadCount w of None \<Rightarrow> totalUnreadCount st | Some x \<Rightarrow> x)\<rparr>"

definition foldActivityEvent :: "activity_state \<Rightarrow> jsval \<Rightarrow> activity_state" where
  "foldActivityEvent st event =
     (case jget event ''type'' of
        JStr ty \<Rightarrow>
          if ty = ''frame'' then
            let withRows = applyRowsAndTombstones st (array_or_empty (jget event ''rows''))
                             (array_or_empty (jget event ''tombstones''))
            in with_window (acceptedActivityFrameWindowFact event)
                 (withRows\<lparr>activityVersion :=
                    advanceActivityVersion (activityVersion withRows) (jget event ''activityVersion'')\<rparr>)
          else if ty = ''readStateUpdated'' then
            let withReads = foldReadStateUpdates st (array_or_empty (jget event ''updates''))
            in withReads\<lparr>activityVersion :=
                 advanceActivityVersion (activityVersion withReads) (jget event ''activityVersion'')\<rparr>
          else st
      | _ \<Rightarrow> st)"

fun is_object_or_array :: "jsval \<Rightarrow> bool" where
  "is_object_or_array (JObj _) = True"
| "is_object_or_array (JArr _) = True"
| "is_object_or_array _ = False"

definition stateFromSnapshot :: "jsval \<Rightarrow> activity_state" where
  "stateFromSnapshot raw =
     (if \<not> is_plain_object raw then initialActivityState
      else
        let window = (if is_object_or_array (jget raw ''window'') then jget raw ''window'' else raw);
            applied = applyRowsAndTombstones initialActivityState
                        (array_or_empty (jget window ''rows'')) (array_or_empty (jget window ''tombstones''));
            w = acceptedActivityFrameWindowFact window
        in applied
             \<lparr>activityVersion := (if isUInt64String (jget raw ''activityVersion'')
                                  then Some (str_of (jget raw ''activityVersion'')) else None),
              nextCursor := (case jget window ''nextCursor'' of JStr s \<Rightarrow> Some s | _ \<Rightarrow> None),
              hasMore := (jget window ''hasMore'' = JBool True),
              complete := (jget window ''complete'' = JBool True),
              totalCount := (case wf_totalCount w of Some i \<Rightarrow> i | None \<Rightarrow> 0),
              totalUnreadCount := (case wf_totalUnreadCount w of Some i \<Rightarrow> i | None \<Rightarrow> 0)\<rparr>)"

section \<open>Fingerprint and scope id\<close>

definition compare_keys :: "(string \<times> 'a) cmp" where
  "compare_keys a b = (if fst a < fst b then -1 else if fst b < fst a then 1 else 0)"

definition json_primitive :: "jsval \<Rightarrow> string" where
  "json_primitive v =
     (case v of
        JBool b \<Rightarrow> if b then ''true'' else ''false''
      | JInt i \<Rightarrow> show_int i
      | JNonInt s \<Rightarrow> if s \<in> {''NaN'', ''Infinity'', ''-Infinity''} then ''null'' else s
      | JStr s \<Rightarrow> json_string s
      | _ \<Rightarrow> ''null'')"

fun stableStringify :: "jsval \<Rightarrow> string" where
  "stableStringify (JArr xs) = ''['' @ json_elements (map stableStringify xs) @ '']''"
| "stableStringify (JObj kvs) =
     CHR 0x7B # json_elements
       (map (\<lambda>(k, s). json_string k @ '':'' @ s)
         (js_sort compare_keys
           (map (\<lambda>(k, v). (k, stableStringify v)) (filter (\<lambda>(k, v). v \<noteq> JUndef) kvs)))) @ [CHR 0x7D]"
| "stableStringify v = json_primitive v"

definition window_fact_object :: "window_fact \<Rightarrow> jsval" where
  "window_fact_object w = JObj
     ((case wf_nextCursor w of None \<Rightarrow> [] | Some None \<Rightarrow> [(''nextCursor'', JNull)]
        | Some (Some s) \<Rightarrow> [(''nextCursor'', JStr s)]) @
      (case wf_hasMore w of None \<Rightarrow> [] | Some b \<Rightarrow> [(''hasMore'', JBool b)]) @
      (case wf_complete w of None \<Rightarrow> [] | Some b \<Rightarrow> [(''complete'', JBool b)]) @
      (case wf_totalCount w of None \<Rightarrow> [] | Some i \<Rightarrow> [(''totalCount'', JInt i)]) @
      (case wf_totalUnreadCount w of None \<Rightarrow> [] | Some i \<Rightarrow> [(''totalUnreadCount'', JInt i)]))"

definition fingerprintActivityEvent :: "jsval \<Rightarrow> string" where
  "fingerprintActivityEvent event =
     stableStringify (JArr
       ([jget event ''type'',
         nullish_or (jget event ''activityVersion'') JNull,
         JArr (map (\<lambda>r. JStr (stableStringify r)) (filter isRow (array_or_empty (jget event ''rows'')))),
         JArr (map (\<lambda>r. JStr (stableStringify r))
                (filter isTombstone (array_or_empty (jget event ''tombstones'')))),
         JArr (map (\<lambda>r. JStr (stableStringify r)) (array_or_empty (jget event ''updates'')))] @
        (if jget event ''type'' = JStr ''frame''
         then [window_fact_object (acceptedActivityFrameWindowFact event)] else [])))"

record activity_scope =
  as_serverId :: string
  as_principalId :: string
  as_filter :: string
  as_windowId :: string

definition encodeActivityScopeId :: "activity_scope \<Rightarrow> string" where
  "encodeActivityScopeId sc =
     json_array [json_string (as_serverId sc), json_string (as_principalId sc),
                 json_string (as_filter sc), json_string (as_windowId sc)]"

definition createActivityDomain :: "(activity_state, jsval, jsval) domain_config" where
  "createActivityDomain =
     \<lparr>dc_name = activity_domain, dc_density = contiguous, dc_initialState = initialActivityState,
      dc_eventFingerprint = Some fingerprintActivityEvent,
      dc_fold = (\<lambda>st event sid sq. foldActivityEvent st event),
      dc_fromSnapshot = (\<lambda>snapshot. stateFromSnapshot (sn_state snapshot)),
      dc_acceptSameWatermarkSnapshot = None\<rparr>"

lemma createActivityDomain_sel [simp]:
  "dc_name createActivityDomain = activity_domain"
  "dc_density createActivityDomain = contiguous"
  "dc_initialState createActivityDomain = initialActivityState"
  "dc_eventFingerprint createActivityDomain = Some fingerprintActivityEvent"
  "dc_fold createActivityDomain st e sid q = foldActivityEvent st e"
  "dc_fromSnapshot createActivityDomain snap = stateFromSnapshot (sn_state snap)"
  "dc_acceptSameWatermarkSnapshot createActivityDomain = None"
  by (simp_all add: createActivityDomain_def)

end
