(* ===== verification/Sync_Activity_Register.thy ===== *)
theory Sync_Activity_Register
  imports Sync_Activity
begin

text \<open>
  The row table of the Activity domain refines one last-writer-wins register per row id: a live row,
  a tombstone, or nothing. A fact (an incoming row or tombstone) is accepted exactly when its rank,
  the version and then tombstone over row, is strictly higher. Monotonicity, absence of
  resurrection and independence of the arrival order follow.
\<close>

section \<open>Registers\<close>

datatype reg = Absent | Live jsval | Dead uint64_string

fun rank :: "reg \<Rightarrow> nat \<times> string \<times> nat" where
  "rank Absent = (0, [], 0)"
| "rank (Live r) = (length (rowVersion r), rowVersion r, 1)"
| "rank (Dead v) = (length v, v, 2)"

definition reg_of :: "row_table \<Rightarrow> string \<Rightarrow> reg" where
  "reg_of t k =
     (case snd t k of
        Some v \<Rightarrow> Dead v
      | None \<Rightarrow> (case oget (fst t) k of Some r \<Rightarrow> Live r | None \<Rightarrow> Absent))"

definition table_inv :: "row_table \<Rightarrow> bool" where
  "table_inv t \<longleftrightarrow> odistinct (fst t) \<and>
     (\<forall>k r. oget (fst t) k = Some r \<longrightarrow> rowId r = k \<and> isRow r \<and> snd t k = None) \<and>
     (\<forall>k v. snd t k = Some v \<longrightarrow> decimal_uint64 v)"

lemma isUInt64String_str: "isUInt64String x \<Longrightarrow> decimal_uint64 (str_of x)"
  by (cases x) simp_all

lemma isRowD:
  "isRow r \<Longrightarrow> decimal_uint64 (rowVersion r)" "isRow r \<Longrightarrow> decimal_uint64 (readStateVersion r)"
  "isRow r \<Longrightarrow> is_plain_object r" "isRow r \<Longrightarrow> rowId r \<noteq> []"
  "isTombstone r \<Longrightarrow> decimal_uint64 (rowVersion r)"
  by (simp_all add: isRow_def isTombstone_def rowVersion_def readStateVersion_def isUInt64String_str)

lemma decimal_nonempty: "decimal_uint64 v \<Longrightarrow> 0 < length v"
  by (cases v) simp_all

lemma rank_order [cmp_specs]:
  "rank (Live a) < rank (Live b) \<longleftrightarrow> \<not> compareUInt64String (rowVersion b) (rowVersion a) \<le> 0"
  "rank (Dead u) < rank (Live b) \<longleftrightarrow> \<not> compareUInt64String (rowVersion b) u \<le> 0"
  "rank (Live a) < rank (Dead v) \<longleftrightarrow> \<not> compareUInt64String v (rowVersion a) < 0"
  "rank (Dead u) < rank (Dead v) \<longleftrightarrow> \<not> compareUInt64String v u \<le> 0"
  "0 < length v \<Longrightarrow> rank Absent < rank (Dead v)"
  "0 < length (rowVersion b) \<Longrightarrow> rank Absent < rank (Live b)"
  by (auto simp: compareUInt64String_def less_prod_def less_eq_prod_def)

lemma apply_row_refines:
  assumes "table_inv t" "isRow r"
  shows "table_inv (apply_row r t)"
    and "reg_of (apply_row r t) k = (if k = rowId r then max_write rank (Live r) (reg_of t k) else reg_of t k)"
  using assms decimal_nonempty [OF isRowD(1) [OF assms(2)]]
  by (auto simp: apply_row_def table_inv_def reg_of_def max_write_def map_specs Let_def
      rank_order simp del: rank.simps split: prod.splits option.splits if_splits)

lemma apply_tombstone_refines:
  assumes "table_inv t" "isTombstone r"
  shows "table_inv (apply_tombstone r t)"
    and "reg_of (apply_tombstone r t) k =
      (if k = rowId r then max_write rank (Dead (rowVersion r)) (reg_of t k) else reg_of t k)"
  using assms isRowD(5) [OF assms(2)] decimal_nonempty [OF isRowD(5) [OF assms(2)]]
  by (auto simp: apply_tombstone_def table_inv_def reg_of_def max_write_def map_specs Let_def
      rank_order simp del: rank.simps split: prod.splits option.splits if_splits)

lemma apply_invalid [simp]:
  "\<not> isRow r \<Longrightarrow> apply_row r t = t" "\<not> isTombstone r \<Longrightarrow> apply_tombstone r t = t"
  by (simp_all add: apply_row_def apply_tombstone_def split: prod.splits)

section \<open>A page of rows and tombstones\<close>

type_synonym fact = "string \<times> reg"

definition row_facts :: "jsval list \<Rightarrow> fact list" where
  "row_facts rs = map (\<lambda>r. (rowId r, Live r)) (filter isRow rs)"

definition tombstone_facts :: "jsval list \<Rightarrow> fact list" where
  "tombstone_facts ts = map (\<lambda>r. (rowId r, Dead (rowVersion r))) (filter isTombstone ts)"

definition facts_at :: "string \<Rightarrow> fact list \<Rightarrow> reg list" where
  "facts_at k fs = map snd (filter (\<lambda>f. fst f = k) fs)"

lemma facts_at_append [simp]: "facts_at k (fs @ gs) = facts_at k fs @ facts_at k gs"
  by (simp add: facts_at_def)

lemma fold_rows_refines:
  "table_inv t \<Longrightarrow> table_inv (fold apply_row rs t) \<and>
     reg_of (fold apply_row rs t) k = fold (max_write rank) (facts_at k (row_facts rs)) (reg_of t k)"
proof (induction rs arbitrary: t)
  case (Cons r rs)
  show ?case
  proof (cases "isRow r")
    case True
    with Cons.prems have "table_inv (apply_row r t)" by (rule apply_row_refines(1))
    from Cons.IH [OF this] show ?thesis
      using True Cons.prems by (simp add: apply_row_refines row_facts_def facts_at_def)
  next
    case False
    with Cons show ?thesis by (simp add: row_facts_def)
  qed
qed (simp add: row_facts_def facts_at_def)

lemma fold_tombstones_refines:
  "table_inv t \<Longrightarrow> table_inv (fold apply_tombstone ts t) \<and>
     reg_of (fold apply_tombstone ts t) k = fold (max_write rank) (facts_at k (tombstone_facts ts)) (reg_of t k)"
proof (induction ts arbitrary: t)
  case (Cons r ts)
  show ?case
  proof (cases "isTombstone r")
    case True
    with Cons.prems have "table_inv (apply_tombstone r t)" by (rule apply_tombstone_refines(1))
    from Cons.IH [OF this] show ?thesis
      using True Cons.prems by (simp add: apply_tombstone_refines tombstone_facts_def facts_at_def)
  next
    case False
    with Cons show ?thesis by (simp add: tombstone_facts_def)
  qed
qed (simp add: tombstone_facts_def facts_at_def)

section \<open>The state invariant\<close>

interpretation row_cmp: comparator compareRows
  by unfold_locales (auto simp: compareRows_def split: if_splits)

definition activity_inv :: "activity_state \<Rightarrow> bool" where
  "activity_inv st \<longleftrightarrow>
     sorted_wrt (\<lambda>a b. compareRows a b \<le> 0) (rows st) \<and> distinct (map rowId (rows st)) \<and>
     (\<forall>r \<in> set (rows st). isRow r \<and> tombstones st (rowId r) = None) \<and>
     (\<forall>k v. tombstones st k = Some v \<longrightarrow> decimal_uint64 v)"

lemma update_absent: "k \<notin> fst ` set m \<Longrightarrow> oset k v m = m @ [(k, v)]"
  by (induction m) auto

lemma index_rows_distinct:
  "distinct (map rowId rs) \<Longrightarrow> rowId ` set rs \<inter> fst ` set m = {} \<Longrightarrow>
    fold (\<lambda>r m. oset (rowId r) r m) rs m = m @ map (\<lambda>r. (rowId r, r)) rs"
proof (induction rs arbitrary: m)
  case (Cons r rs)
  then have "oset (rowId r) r m = m @ [(rowId r, r)]" by (intro update_absent) auto
  moreover have "rowId ` set rs \<inter> fst ` set (m @ [(rowId r, r)]) = {}" using Cons.prems by auto
  ultimately show ?case using Cons.IH [of "m @ [(rowId r, r)]"] Cons.prems by simp
qed simp

lemma index_rows_eq: "distinct (map rowId rs) \<Longrightarrow> index_rows rs = map (\<lambda>r. (rowId r, r)) rs"
  using index_rows_distinct [of rs "[]"] by (simp add: index_rows_def)

lemma map_of_index:
  "distinct (map rowId rs) \<Longrightarrow> map_of (map (\<lambda>r. (rowId r, r)) rs) k = Some r \<longleftrightarrow> r \<in> set rs \<and> rowId r = k"
  by (subst map_of_eq_Some_iff) (auto simp: comp_def)

lemma table_inv_index: "activity_inv st \<Longrightarrow> table_inv (index_rows (rows st), tombstones st)"
  by (auto simp: activity_inv_def table_inv_def index_rows_eq map_of_index comp_def)

text \<open>The register of a row id in a state.\<close>

definition state_reg :: "activity_state \<Rightarrow> string \<Rightarrow> reg" where
  "state_reg st k = reg_of (index_rows (rows st), tombstones st) k"

lemma state_reg_Live: "activity_inv st \<Longrightarrow> state_reg st k = Live r \<longleftrightarrow> r \<in> set (rows st) \<and> rowId r = k"
  by (auto simp: state_reg_def reg_of_def activity_inv_def index_rows_eq map_of_index
      map_of_eq_None_iff distinct_map inj_on_def image_iff split: option.splits)

lemma state_reg_Dead: "state_reg st k = Dead v \<longleftrightarrow> tombstones st k = Some v"
  by (auto simp: state_reg_def reg_of_def split: option.splits)

text \<open>The registers determine rows and tombstones: rows are sorted without ties.\<close>

lemma state_reg_determines:
  assumes "activity_inv st" "activity_inv st'" "state_reg st = state_reg st'"
  shows "rows st = rows st'" "tombstones st = tombstones st'"
proof -
  have "r \<in> set (rows st) \<longleftrightarrow> r \<in> set (rows st')" for r
    using state_reg_Live [OF assms(1), of "rowId r" r] state_reg_Live [OF assms(2), of "rowId r" r]
      assms(3) by simp
  then have "set (rows st) = set (rows st')" by blast
  moreover have "distinct (rows st)" "distinct (rows st')"
    using assms(1,2) by (auto simp: activity_inv_def dest: distinct_map [THEN iffD1])
  ultimately have "mset (rows st) = mset (rows st')" by (simp add: set_eq_iff_mset_eq_distinct)
  then show "rows st = rows st'"
  proof (rule row_cmp.sorted_wrt_unique [rotated 2])
    show "x = y" if "x \<in> set (rows st)" "y \<in> set (rows st)" "compareRows x y = 0" for x y
      using that assms(1)
      by (auto simp: activity_inv_def compareRows_def inj_on_def distinct_map split: if_splits)
  qed (use assms in \<open>simp_all add: activity_inv_def\<close>)
  show "tombstones st = tombstones st'"
  proof
    fix k
    show "tombstones st k = tombstones st' k"
      using fun_cong [OF assms(3), of k] state_reg_Dead [of st k] state_reg_Dead [of st' k]
      by (metis not_None_eq)
  qed
qed

lemma apply_page_refines:
  assumes "activity_inv st"
  shows "activity_inv (applyRowsAndTombstones st rs ts)"
    and "state_reg (applyRowsAndTombstones st rs ts) k =
      fold (max_write rank) (facts_at k (row_facts rs @ tombstone_facts ts)) (state_reg st k)"
proof -
  let ?t0 = "(index_rows (rows st), tombstones st)"
  define t where "t = fold apply_tombstone ts (fold apply_row rs ?t0)"
  have inv: "table_inv t" and
    reg: "\<And>k. reg_of t k = fold (max_write rank) (facts_at k (row_facts rs @ tombstone_facts ts)) (state_reg st k)"
    unfolding t_def
    using fold_rows_refines [OF table_inv_index [OF assms], of rs]
      fold_tombstones_refines [of "fold apply_row rs ?t0" ts]
    by (simp_all add: state_reg_def)
  let ?st = "applyRowsAndTombstones st rs ts"
  have st: "rows ?st = sortRows (map snd (fst t))" "tombstones ?st = snd t"
    by (simp_all add: applyRowsAndTombstones_def t_def split: prod.splits)
  have ids: "rowId (snd x) = fst x \<and> isRow (snd x) \<and> snd t (fst x) = None" if "x \<in> set (fst t)" for x
  proof -
    have "oget (fst t) (fst x) = Some (snd x)"
      using that inv om.entries_lookup [of "fst t" "fst x" "snd x"] by (simp add: table_inv_def)
    then show ?thesis using inv by (simp add: table_inv_def)
  qed
  have "map rowId (map snd (fst t)) = map fst (fst t)" using ids by simp
  then have dist: "distinct (map rowId (map snd (fst t)))" using inv by (metis table_inv_def)
  have "\<forall>r \<in> snd ` set (fst t). isRow r \<and> snd t (rowId r) = None"
    using ids by (metis (mono_tags, lifting) imageE)
  then show ai: "activity_inv ?st"
    using inv dist row_cmp.js_sort_sorted
    by (simp add: activity_inv_def st sortRows_def distinct_map_js_sort table_inv_def)
  have "state_reg ?st k = reg_of t k"
  proof (cases "reg_of t k")
    case Absent
    then have "snd t k = None" "oget (fst t) k = None" by (auto simp: reg_of_def split: option.splits)
    moreover have "r \<notin> set (rows ?st) \<or> rowId r \<noteq> k" for r
      using \<open>oget (fst t) k = None\<close> ids by (auto simp: st sortRows_def map_of_eq_None_iff image_iff)
    ultimately show ?thesis
      using Absent state_reg_Live [OF ai, of k] state_reg_Dead [of ?st k] st(2)
      by (cases "state_reg ?st k") auto
  next
    case (Live r)
    then have "(k, r) \<in> set (fst t)" by (auto simp: reg_of_def split: option.splits dest: map_of_SomeD)
    with ids have "r \<in> set (rows ?st) \<and> rowId r = k" by (force simp: st sortRows_def)
    with Live show ?thesis by (simp add: state_reg_Live [OF ai])
  next
    case (Dead v)
    then show ?thesis by (auto simp: reg_of_def state_reg_Dead st(2) split: option.splits)
  qed
  with reg show "state_reg ?st k =
      fold (max_write rank) (facts_at k (row_facts rs @ tombstone_facts ts)) (state_reg st k)" by simp
qed


section \<open>Events\<close>

lemma activity_inv_cong:
  "rows st = rows st' \<Longrightarrow> tombstones st = tombstones st' \<Longrightarrow> activity_inv st = activity_inv st'"
  by (simp add: activity_inv_def)

lemma state_reg_cong:
  "rows st = rows st' \<Longrightarrow> tombstones st = tombstones st' \<Longrightarrow> state_reg st = state_reg st'"
  by (rule ext) (simp add: state_reg_def)

lemma with_window_frame [simp]:
  "rows (with_window w st) = rows st" "tombstones (with_window w st) = tombstones st"
  "activityVersion (with_window w st) = activityVersion st"
  by (simp_all add: with_window_def)

text \<open>A read-state update touches neither identity nor version nor sort key of a row.\<close>

lemma update_row_fields:
  assumes "isRow r"
  shows "rowId (update_row_read_state us r) = rowId r"
    "rowVersion (update_row_read_state us r) = rowVersion r"
    "lastActivityAt (update_row_read_state us r) = lastActivityAt r"
    "isRow (update_row_read_state us r)"
  using assms isRowD(3) [OF assms]
  by (auto simp: update_row_read_state_def rowId_def rowVersion_def lastActivityAt_def isRow_def
      split: option.splits)

lemma compareRows_update:
  "isRow a \<Longrightarrow> isRow b \<Longrightarrow>
    compareRows (update_row_read_state us a) (update_row_read_state us b) = compareRows a b"
  by (simp add: compareRows_def update_row_fields)

lemma activity_inv_read:
  assumes "activity_inv st"
  shows "activity_inv (foldReadStateUpdates st us)"
proof -
  have rs: "\<forall>r \<in> set (rows st). isRow r" using assms by (simp add: activity_inv_def)
  have "sorted_wrt (\<lambda>a b. compareRows (update_row_read_state us a) (update_row_read_state us b) \<le> 0) (rows st)"
  proof (rule sorted_wrt_mono_rel)
    show "sorted_wrt (\<lambda>a b. compareRows a b \<le> 0) (rows st)" using assms by (simp add: activity_inv_def)
  qed (use rs in \<open>simp add: compareRows_update\<close>)
  moreover have "map (rowId \<circ> update_row_read_state us) (rows st) = map rowId (rows st)"
    using rs by (simp add: update_row_fields)
  then have "distinct (map (rowId \<circ> update_row_read_state us) (rows st))"
    using assms unfolding activity_inv_def by metis
  ultimately show ?thesis
    using assms rs by (auto simp: activity_inv_def foldReadStateUpdates_def sorted_wrt_map update_row_fields)
qed

lemma state_reg_read:
  assumes "activity_inv st"
  shows "state_reg (foldReadStateUpdates st us) k =
    (case state_reg st k of Live r \<Rightarrow> Live (update_row_read_state us r) | x \<Rightarrow> x)"
proof -
  let ?st = "foldReadStateUpdates st us"
  have ai: "activity_inv ?st" using assms by (rule activity_inv_read)
  have rs: "\<forall>r \<in> set (rows st). isRow r" using assms by (simp add: activity_inv_def)
  have rows: "rows ?st = map (update_row_read_state us) (rows st)" by (simp add: foldReadStateUpdates_def)
  have live: "state_reg ?st k = Live (update_row_read_state us r)" if "state_reg st k = Live r" for r
    using that rs unfolding state_reg_Live [OF ai] state_reg_Live [OF assms] rows
    by (auto simp: update_row_fields)
  have tombs: "tombstones ?st = tombstones st" by (simp add: foldReadStateUpdates_def)
  have "\<exists>r. state_reg st k = Live r" if "state_reg ?st k = Live r'" for r'
    using that rs unfolding state_reg_Live [OF ai] state_reg_Live [OF assms] rows
    by (auto simp: update_row_fields)
  moreover have "state_reg ?st k = Dead v \<longleftrightarrow> state_reg st k = Dead v" for v
    by (simp add: state_reg_Dead tombs)
  ultimately show ?thesis
    using live by (cases "state_reg st k") (auto intro: reg.exhaust [of "state_reg ?st k"])
qed

definition is_frame_event :: "jsval \<Rightarrow> bool" where
  "is_frame_event e \<longleftrightarrow> jget e ''type'' = JStr ''frame''"

definition event_facts :: "jsval \<Rightarrow> fact list" where
  "event_facts e =
     row_facts (array_or_empty (jget e ''rows'')) @ tombstone_facts (array_or_empty (jget e ''tombstones''))"

lemma foldActivityEvent_cases:
  obtains (frame) "is_frame_event e"
    "rows (foldActivityEvent st e) = rows (applyRowsAndTombstones st (array_or_empty (jget e ''rows''))
       (array_or_empty (jget e ''tombstones'')))"
    "tombstones (foldActivityEvent st e) = tombstones (applyRowsAndTombstones st
       (array_or_empty (jget e ''rows'')) (array_or_empty (jget e ''tombstones'')))"
  | (read) "\<not> is_frame_event e"
    "rows (foldActivityEvent st e) = rows (foldReadStateUpdates st (array_or_empty (jget e ''updates'')))"
    "tombstones (foldActivityEvent st e) = tombstones st"
  | (other) "\<not> is_frame_event e" "foldActivityEvent st e = st"
proof -
  consider "is_frame_event e" | "jget e ''type'' = JStr ''readStateUpdated''" |
    "\<not> is_frame_event e" "jget e ''type'' \<noteq> JStr ''readStateUpdated''" by blast
  then show thesis
  proof cases
    case 1
    then show ?thesis by (intro frame) (simp_all add: is_frame_event_def foldActivityEvent_def Let_def)
  next
    case 2
    then show ?thesis
      by (intro read) (simp_all add: is_frame_event_def foldActivityEvent_def foldReadStateUpdates_def Let_def)
  next
    case 3
    then show ?thesis
      by (intro other) (auto simp: is_frame_event_def foldActivityEvent_def split: jsval.split)
  qed
qed

lemma activity_inv_event [inv_intros]: "activity_inv st \<Longrightarrow> activity_inv (foldActivityEvent st e)"
proof (cases rule: foldActivityEvent_cases [of e st])
  case frame
  then show "activity_inv st \<Longrightarrow> ?thesis"
    using apply_page_refines(1) by (metis activity_inv_cong)
next
  case read
  then show "activity_inv st \<Longrightarrow> ?thesis"
    using activity_inv_read [of st "array_or_empty (jget e ''updates'')"]
    by (simp add: activity_inv_cong [OF read(2)] foldReadStateUpdates_def)
next
  case other
  then show "activity_inv st \<Longrightarrow> ?thesis" by simp
qed

lemma state_reg_frame:
  assumes "activity_inv st" "is_frame_event e"
  shows "state_reg (foldActivityEvent st e) k = fold (max_write rank) (facts_at k (event_facts e)) (state_reg st k)"
proof (cases rule: foldActivityEvent_cases [of e st])
  case frame
  then show ?thesis
    using apply_page_refines(2) [OF assms(1)] state_reg_cong [OF frame(2,3)] by (simp add: event_facts_def)
qed (use assms in simp_all)

lemma rank_fold_mono: "rank r \<le> rank (fold (max_write rank) xs r)"
proof (induction xs arbitrary: r)
  case (Cons x xs)
  have "rank r \<le> rank (max_write rank x r)" by (simp add: max_write_def less_imp_le)
  also have "\<dots> \<le> rank (fold (max_write rank) (x # xs) r)" using Cons by simp
  finally show ?case .
qed simp

lemma rank_event_mono:
  assumes "activity_inv st"
  shows "rank (state_reg st k) \<le> rank (state_reg (foldActivityEvent st e) k)"
proof (cases rule: foldActivityEvent_cases [of e st])
  case frame
  then show ?thesis using state_reg_frame [OF assms frame(1), of k] rank_fold_mono by simp
next
  case read
  then have "state_reg (foldActivityEvent st e) = state_reg (foldReadStateUpdates st (array_or_empty (jget e ''updates'')))"
    by (intro state_reg_cong) (simp_all add: foldReadStateUpdates_def)
  moreover have "isRow r" if "state_reg st k = Live r" for r
    using that assms by (auto simp: state_reg_Live [OF assms] activity_inv_def)
  ultimately show ?thesis
    using state_reg_read [OF assms] by (cases "state_reg st k") (auto simp: update_row_fields)
qed simp

definition fold_events :: "jsval list \<Rightarrow> activity_state \<Rightarrow> activity_state" where
  "fold_events es st = fold (\<lambda>e st. foldActivityEvent st e) es st"

lemma fold_events_simps [simp]:
  "fold_events [] st = st" "fold_events (e # es) st = fold_events es (foldActivityEvent st e)"
  by (simp_all add: fold_events_def)

lemma fold_events_inv_rank:
  "activity_inv st \<Longrightarrow>
    activity_inv (fold_events es st) \<and> rank (state_reg st k) \<le> rank (state_reg (fold_events es st) k)"
proof (induction es arbitrary: st)
  case (Cons e es)
  from Cons.IH [OF activity_inv_event [OF Cons.prems]] rank_event_mono [OF Cons.prems, of k e]
  show ?case by (auto intro: order_trans)
qed simp

lemma fold_frames_reg:
  "activity_inv st \<Longrightarrow> \<forall>e \<in> set es. is_frame_event e \<Longrightarrow>
    state_reg (fold_events es st) k =
      fold (max_write rank) (facts_at k (concat (map event_facts es))) (state_reg st k)"
proof (induction es arbitrary: st)
  case (Cons e es)
  then show ?case
    using Cons.IH [OF activity_inv_event [OF Cons.prems(1)]] state_reg_frame [OF Cons.prems(1), of e k]
    by simp
qed (simp add: facts_at_def)

text \<open>Two facts about the same row at the same version and of the same kind are the same fact.\<close>

definition consistent_facts :: "fact list \<Rightarrow> bool" where
  "consistent_facts fs \<longleftrightarrow>
     (\<forall>f \<in> set fs. \<forall>g \<in> set fs. fst f = fst g \<longrightarrow> rank (snd f) = rank (snd g) \<longrightarrow> f = g)"

lemma consistent_factsD:
  assumes "consistent_facts fs" "x \<in> set (facts_at k fs)" "y \<in> set (facts_at k fs)" "rank x = rank y"
  shows "x = y"
proof -
  have "(k, x) \<in> set fs" "(k, y) \<in> set fs" using assms(2,3) by (auto simp: facts_at_def)
  with assms(1,4) show ?thesis unfolding consistent_facts_def by fastforce
qed

lemma facts_at_permute: "mset fs = mset gs \<Longrightarrow> mset (facts_at k fs) = mset (facts_at k gs)"
  by (simp add: facts_at_def mset_filter)

lemma initial_activity_inv: "activity_inv initialActivityState"
  by (simp add: activity_inv_def initialActivityState_def)

lemma snapshot_activity_inv: "activity_inv (stateFromSnapshot raw)"
  using apply_page_refines(1) [OF initial_activity_inv] initial_activity_inv
  by (auto simp: stateFromSnapshot_def Let_def activity_inv_def)

end
