(* ===== verification/Sync_Read_State.thy ===== *)
theory Sync_Read_State
  imports Sync_Repair Js_Json
begin

text \<open>
  \<open>packages/sync-core/src/domains/read-state.ts\<close>: the read-state domain, a sparse register of one
  fact per scope keyed by its version. A fact that passed \<open>isReadStateFact\<close> is represented by its
  five declared fields.
\<close>

definition read_state_domain :: string where
  "read_state_domain = ''read_state''"

record read_state_fact =
  rs_serverId :: string
  rs_principalId :: string
  rs_scopeId :: string
  rs_maxReadSeq :: int
  rs_readStateVersion :: int

fun isNonNegativeSafeInteger :: "jsval \<Rightarrow> bool" where
  "isNonNegativeSafeInteger (JInt i) = (is_safe_integer (JInt i) \<and> i \<ge> 0)"
| "isNonNegativeSafeInteger _ = False"

fun int_of :: "jsval \<Rightarrow> int" where
  "int_of (JInt i) = i"
| "int_of _ = 0"

definition isReadStateFact :: "jsval \<Rightarrow> bool" where
  "isReadStateFact v \<longleftrightarrow> is_plain_object v \<and>
     is_str (jget v ''serverId'') \<and> str_of (jget v ''serverId'') \<noteq> [] \<and>
     is_str (jget v ''principalId'') \<and> str_of (jget v ''principalId'') \<noteq> [] \<and>
     is_str (jget v ''scopeId'') \<and> str_of (jget v ''scopeId'') \<noteq> [] \<and>
     isNonNegativeSafeInteger (jget v ''maxReadSeq'') \<and>
     isNonNegativeSafeInteger (jget v ''readStateVersion'')"

definition read_state_fact_of :: "jsval \<Rightarrow> read_state_fact" where
  "read_state_fact_of v =
     \<lparr>rs_serverId = str_of (jget v ''serverId''), rs_principalId = str_of (jget v ''principalId''),
      rs_scopeId = str_of (jget v ''scopeId''), rs_maxReadSeq = int_of (jget v ''maxReadSeq''),
      rs_readStateVersion = int_of (jget v ''readStateVersion'')\<rparr>"

definition encodeReadStateScopeId :: "read_state_fact \<Rightarrow> string" where
  "encodeReadStateScopeId f =
     json_array [json_string (rs_serverId f), json_string (rs_principalId f), json_string (rs_scopeId f)]"

definition fingerprintReadStateFact :: "read_state_fact \<Rightarrow> string" where
  "fingerprintReadStateFact f =
     json_array [json_string (rs_serverId f), json_string (rs_principalId f), json_string (rs_scopeId f),
                 show_int (rs_maxReadSeq f), show_int (rs_readStateVersion f)]"

definition toReadStateFrame :: "read_state_fact \<Rightarrow> read_state_fact sync_frame" where
  "toReadStateFrame f =
     \<lparr>fr_scopeId = encodeReadStateScopeId f, fr_seq = rs_readStateVersion f, fr_epoch = None, fr_event = f\<rparr>"

definition createReadStateDomain :: "(read_state_fact option, read_state_fact, jsval) domain_config" where
  "createReadStateDomain =
     \<lparr>dc_name = read_state_domain, dc_density = sparse, dc_initialState = None,
      dc_eventFingerprint = Some fingerprintReadStateFact,
      dc_fold = (\<lambda>_ event sid sq. Some event),
      dc_fromSnapshot = (\<lambda>snapshot. if isReadStateFact (sn_state snapshot)
                           then Some (read_state_fact_of (sn_state snapshot)) else None),
      dc_acceptSameWatermarkSnapshot = None\<rparr>"

section \<open>Identities and fingerprints are injective\<close>

lemma json_array3_inj:
  "json_array [json_string a, json_string b, json_string c] =
   json_array [json_string a', json_string b', json_string c'] \<Longrightarrow> a = a' \<and> b = b' \<and> c = c'"
  by (auto simp: json_array_def dest!: json_string_prefix)

lemma show_int_chars: "CHR '','' \<notin> set (show_int i)" "CHR '']'' \<notin> set (show_int i)"
  using show_nat_digits [of "nat i"] show_nat_digits [of "nat (- i)"]
  by (auto simp: show_int_def list_all_iff is_digit_iff)

lemma separator_split:
  assumes "x \<notin> set a" "x \<notin> set b" "a @ x # s = b @ x # t"
  shows "a = b \<and> s = t"
proof -
  have "takeWhile (\<lambda>c. c \<noteq> x) (a @ x # s) = a" "takeWhile (\<lambda>c. c \<noteq> x) (b @ x # t) = b"
    using assms(1,2) by (simp_all add: takeWhile_append takeWhile_eq_all_conv)
  with assms(3) show ?thesis by simp
qed

lemma show_int_separator: "show_int i @ CHR '','' # s = show_int j @ CHR '','' # t \<Longrightarrow> i = j \<and> s = t"
  using separator_split [OF show_int_chars(1) show_int_chars(1)] by (auto simp: show_int_inj)

lemma fingerprintReadStateFact_inj: "fingerprintReadStateFact f = fingerprintReadStateFact g \<longleftrightarrow> f = g"
proof
  assume "fingerprintReadStateFact f = fingerprintReadStateFact g"
  then show "f = g"
    by (auto simp: fingerprintReadStateFact_def json_array_def show_int_inj
        dest!: json_string_prefix show_int_separator)
qed simp

section \<open>The contract between the core and a fingerprinting domain\<close>

text \<open>
  The core drops a frame at the applied position when its fingerprint equals the accepted one. That
  is right only if equal fingerprints fold alike.
\<close>

locale fingerprinted_domain =
  fixes d :: "('s, 'e, 'r) domain_config" and fp :: "'e \<Rightarrow> string"
  assumes fp: "dc_eventFingerprint d = Some fp"
    and fp_sound: "fp e = fp e' \<Longrightarrow> dc_fold d s e sid q = dc_fold d s e' sid q"
begin

lemma accept_fingerprint: "acceptedFingerprint (accept_event d sid q e en) = Some (fp e)"
  by (simp add: fp)

lemma same_position:
  assumes "\<not> epochMismatch en (fr_epoch f)" "fr_seq f = q" "fr_scopeId f = sid"
  shows "frame_entry d f (accept_event d sid q e en) =
    (if fp (fr_event f) = fp e then accept_event d sid q e en
     else (accept_event d sid q e en)\<lparr>repairPending := True\<rparr>)"
  using assms by (auto simp: frame_entry_def fp epochMismatch_def)

lemma dropped_replay_is_harmless:
  assumes "\<not> epochMismatch en (fr_epoch f)" "fr_seq f = q" "fr_scopeId f = sid" "fp (fr_event f) = fp e"
  shows "accept_event d sid q (fr_event f) en = frame_entry d f (accept_event d sid q e en)"
proof -
  have "dc_fold d (scope_state en) (fr_event f) sid q = dc_fold d (scope_state en) e sid q"
    using assms(4) by (rule fp_sound)
  then have "accept_event d sid q (fr_event f) en = accept_event d sid q e en"
    using assms(4) by (simp add: accept_event_def fp)
  then show ?thesis using assms same_position by simp
qed

end

interpretation rsd: fingerprinted_domain createReadStateDomain fingerprintReadStateFact
  by unfold_locales (auto simp: createReadStateDomain_def fingerprintReadStateFact_inj)

section \<open>The register is independent of the arrival order\<close>

fun version_rank :: "read_state_fact option \<Rightarrow> nat \<times> int" where
  "version_rank None = (0, 0)"
| "version_rank (Some f) = (1, rs_readStateVersion f)"

text \<open>The entry holds the accepted fact, its version and its fingerprint.\<close>

definition register_entry :: "read_state_fact option scope_entry \<Rightarrow> bool" where
  "register_entry en \<longleftrightarrow> epoch en = None \<and>
     appliedSeq en = map_option rs_readStateVersion (scope_state en) \<and>
     acceptedFingerprint en = map_option fingerprintReadStateFact (scope_state en)"

lemma read_frame_register:
  assumes "register_entry en"
  shows "register_entry (frame_entry createReadStateDomain (toReadStateFrame f) en)"
    and "scope_state (frame_entry createReadStateDomain (toReadStateFrame f) en) =
      max_write version_rank (Some f) (scope_state en)"
  using assms
  by (auto simp: register_entry_def frame_entry_def toReadStateFrame_def createReadStateDomain_def
      epochMismatch_def accept_event_def max_write_def split: option.splits)

definition read_state_inputs :: "read_state_fact list \<Rightarrow> (read_state_fact, jsval) sync_input list" where
  "read_state_inputs fs = map (\<lambda>f. FrameIn read_state_domain (toReadStateFrame f)) fs"

lemma read_state_run:
  "well_named c \<Longrightarrow> domains c read_state_domain = Some createReadStateDomain \<Longrightarrow>
    \<forall>f \<in> set fs. encodeReadStateScopeId f = sid \<Longrightarrow>
    register_entry (scopeEntry createReadStateDomain sid c) \<Longrightarrow>
    scope_state (scopeEntry createReadStateDomain sid (ingest_all (read_state_inputs fs) c)) =
      fold (max_write version_rank) (map Some fs) (scope_state (scopeEntry createReadStateDomain sid c))"
proof (induction fs arbitrary: c)
  case (Cons f fs)
  let ?i = "FrameIn read_state_domain (toReadStateFrame f) :: (read_state_fact, jsval) sync_input"
  have name: "dc_name createReadStateDomain = read_state_domain" by (simp add: createReadStateDomain_def)
  have "in_scope ?i = sid" using Cons.prems(3) by (simp add: toReadStateFrame_def)
  then have en: "scopeEntry createReadStateDomain sid (ingest1 ?i c) =
      frame_entry createReadStateDomain (toReadStateFrame f) (scopeEntry createReadStateDomain sid c)"
    using Cons.prems(1,2) by (simp add: scopeEntry_ingest1 name)
  show ?case
    using Cons.IH [of "ingest1 ?i c"] Cons.prems read_frame_register [OF Cons.prems(4), of f]
    by (simp add: read_state_inputs_def en well_named_ingest1)
qed (simp add: read_state_inputs_def)

text \<open>A scope that was never addressed has no entry; one frame creates it.\<close>

lemma read_state_present:
  assumes "\<forall>f \<in> set fs. encodeReadStateScopeId f = sid" "well_named c"
    "domains c read_state_domain = Some createReadStateDomain" "scopes c (read_state_domain, sid) = None"
  shows "state_of read_state_domain sid (ingest_all (read_state_inputs fs) c) =
    (if fs = [] then None
     else Some (scope_state (scopeEntry createReadStateDomain sid (ingest_all (read_state_inputs fs) c))))"
proof -
  have name: "dc_name createReadStateDomain = read_state_domain" by (simp add: createReadStateDomain_def)
  have step: "scopes (ingest1 (FrameIn read_state_domain (toReadStateFrame f)) c) (read_state_domain, sid) \<noteq> None"
    if "domains c read_state_domain = Some createReadStateDomain" "encodeReadStateScopeId f = sid \<or>
      scopes c (read_state_domain, sid) \<noteq> None" for f c
    using that ingest1_scopes [of c "FrameIn read_state_domain (toReadStateFrame f)" createReadStateDomain]
    by (auto simp: name toReadStateFrame_def)
  have keep: "scopes (ingest_all (read_state_inputs hs) c) (read_state_domain, sid) \<noteq> None"
    if "domains c read_state_domain = Some createReadStateDomain" "scopes c (read_state_domain, sid) \<noteq> None" for hs c
    using that
  proof (induction hs arbitrary: c)
    case (Cons h hs)
    let ?c = "ingest1 (FrameIn read_state_domain (toReadStateFrame h)) c"
    have "scopes ?c (read_state_domain, sid) \<noteq> None" using step Cons.prems by blast
    then have "scopes (ingest_all (read_state_inputs hs) ?c) (read_state_domain, sid) \<noteq> None"
      using Cons.IH [of ?c] Cons.prems(1) by simp
    then show ?case unfolding read_state_inputs_def list.map ingest_all_simps .
  qed (simp add: read_state_inputs_def)
  show ?thesis
  proof (cases fs)
    case Nil
    then show ?thesis using assms(4) by (simp add: read_state_inputs_def state_of_def)
  next
    case (Cons f gs)
    have "scopes (ingest_all (read_state_inputs fs) c) (read_state_domain, sid) \<noteq> None"
      using keep [of "ingest1 (FrameIn read_state_domain (toReadStateFrame f)) c" gs]
        step [OF assms(3), of f] assms(1,3) Cons by (simp add: read_state_inputs_def)
    then show ?thesis using Cons by (auto simp: state_of_def scopeEntry_def name split: option.splits)
  qed
qed

end
