(* ===== verification/Sync_Catchup.thy ===== *)
theory Sync_Catchup
  imports Sync_Repair
begin

text \<open>
  How a scope catches up: from any state that honest inputs can leave, one frame at the producer's head
  and the answers to the requests that are then pending for the scope bring its entry to the producer's
  state at the head, and a repair ends with any answer that is neither stale nor partial.
\<close>

section \<open>Pending difference requests fit their entry\<close>

lemma request_added: "rq \<in> snd ` set (oset k rq m)"
  by (induction m) force+

lemma pending_other_request:
  assumes "ingest i c = Inr (out, c')" "oget (pending c') k = Some rq"
    "(rq_domain rq, rq_scopeId rq) \<noteq> (in_domain i, in_scope i)"
  shows "oget (pending c) k = Some rq"
  using assms by (cases i) (auto simp: ingest_defs map_specs split: option.splits if_splits)

definition difference_fits :: "'s scope_entry \<Rightarrow> sync_seq \<Rightarrow> sync_epoch \<Rightarrow> bool" where
  "difference_fits en since ep \<longleftrightarrow> ep = epoch en \<and> 0 \<le> since \<and> (\<exists>a. appliedSeq en = Some a \<and> since \<le> a)"

definition differences_fit :: "('s, 'e, 'r) domain_config \<Rightarrow> string \<Rightarrow> ('s, 'e, 'r) sync_core \<Rightarrow> bool" where
  "differences_fit d sid c \<longleftrightarrow>
     (\<forall>k since ep. oget (pending c) k = Some (DifferenceRequest (dc_name d) sid since ep) \<longrightarrow>
        difference_fits (scopeEntry d sid c) since ep)"

lemma differences_fit_own:
  assumes "ingest i c = Inr (out, c')" "domains c (dc_name d) = Some d" "dc_density d = contiguous" "pending_ok c"
    "differences_fit d sid c" "in_domain i = dc_name d" "in_scope i = sid"
    and pos: "0 \<le> pos (scopeEntry d sid c)" "0 \<le> pos (input_entry d i (scopeEntry d sid c))"
    and rq: "oget (pending c') k = Some (DifferenceRequest (dc_name d) sid since ep)"
  shows "difference_fits (input_entry d i (scopeEntry d sid c)) since ep"
proof -
  let ?en = "scopeEntry d sid c"
  have old: "difference_fits ?en since ep" if "oget (pending c) k = Some (DifferenceRequest (dc_name d) sid since ep)"
    using assms(5) that by (auto simp: differences_fit_def)
  have key: "k = dkey (dc_name d) sid" if "oget (pending c) k = Some (DifferenceRequest (dc_name d) sid since ep)"
    using assms(4) that unfolding pending_ok_def by fastforce
  show ?thesis
  proof (cases i)
    case (FrameIn n f)
    then show ?thesis
      using assms old
      by (auto simp: ingest_defs frame_entry_def map_specs difference_fits_def pos_def split: option.splits if_splits)
  next
    case (SnapshotIn n s)
    have own: "sn_scopeId s = sid" "n = dc_name d" "ingestSnapshot n s c = Inr (out, c')" "domains c n = Some d"
      using assms(1,2,6,7) SnapshotIn by simp_all
    show ?thesis
    proof (cases "snapshot_stale d s ?en")
      case True
      then have "pending c' = pending c"
        using own by (auto simp: ingestSnapshot_def domainOf_def Let_def snapshot_stale_def split: option.splits if_splits)
      then show ?thesis using True SnapshotIn old rq by (simp add: snapshot_entry_def)
    next
      case False
      then have "pending c' = pending (clearScopeRequests n sid c)"
        using own by (auto simp: ingestSnapshot_def domainOf_def Let_def snapshot_stale_def clearScopeRequests_def put_entry_def
            split: option.splits if_splits)
      then have "k \<noteq> dkey n sid \<and> oget (pending c) k = Some (DifferenceRequest (dc_name d) sid since ep)"
        using rq by (simp split: if_splits)
      then show ?thesis using key own(2) by blast
    qed
  next
    case (DifferenceIn n r)
    have own: "df_scopeId r = sid" "n = dc_name d" "ingestDifference n r c = Inr (out, c')" "domains c n = Some d"
      using assms(1,2,6,7) DifferenceIn by simp_all
    obtain a where a: "appliedSeq (apply_difference d r ?en) = Some a" using apply_difference_applied by blast
    consider "epochMismatch ?en (df_epoch r)" | "\<not> epochMismatch ?en (df_epoch r)" "df_snapshotRequired r"
      | "\<not> epochMismatch ?en (df_epoch r)" "\<not> df_snapshotRequired r" "\<not> df_partial r"
      | "\<not> epochMismatch ?en (df_epoch r)" "\<not> df_snapshotRequired r" "df_partial r" by blast
    then show ?thesis
    proof cases
      case 1
      then have c': "pending c' = oset (skey n sid) (SnapshotRequest n sid epoch_mismatch) (pending c)"
        using own by (auto simp: ingest_defs)
      then have "oget (pending c) k = Some (DifferenceRequest (dc_name d) sid since ep)"
        using rq by (simp add: map_specs split: if_splits)
      from old [OF this] show ?thesis using 1 DifferenceIn by (simp add: difference_entry_def)
    next
      case 2
      then have "pending c' = oset (skey n sid) (SnapshotRequest n sid snapshot_required) (pending (clearScopeRequests n sid c))"
        using own by (auto simp: ingest_defs)
      then have "k \<noteq> dkey n sid \<and> oget (pending c) k = Some (DifferenceRequest (dc_name d) sid since ep)"
        using rq by (simp add: map_specs split: if_splits)
      then show ?thesis using key own(2) by blast
    next
      case 3
      then have "pending c' = pending (clearScopeRequests n sid c)" using own by (auto simp: ingest_defs)
      then have "k \<noteq> dkey n sid \<and> oget (pending c) k = Some (DifferenceRequest (dc_name d) sid since ep)"
        using rq by (simp split: if_splits)
      then show ?thesis using key own(2) by blast
    next
      case 4
      then have "pending c' = oset (dkey n sid) (DifferenceRequest n sid a (epoch ?en)) (pending (clearScopeRequests n sid c))"
        using own a by (auto simp: ingest_defs)
      then have "k = dkey n sid \<and> since = a \<and> ep = epoch ?en \<or>
          k \<noteq> dkey n sid \<and> oget (pending c) k = Some (DifferenceRequest (dc_name d) sid since ep)"
        using rq by (simp add: map_specs split: if_splits)
      then have "since = a \<and> ep = epoch ?en" using key own(2) by blast
      then show ?thesis using 4 a pos(2) DifferenceIn by (simp add: difference_entry_def difference_fits_def pos_def)
    qed
  qed
qed

lemma differences_fit_ingest:
  assumes "ingest i c = Inr (out, c')" "well_named c" "domains c (dc_name d) = Some d" "dc_density d = contiguous" "pending_ok c"
    "differences_fit d sid c" "0 \<le> pos (scopeEntry d sid c)" "0 \<le> pos (scopeEntry d sid c')"
  shows "differences_fit d sid c'"
  unfolding differences_fit_def
proof (intro allI impI)
  fix k since ep
  assume rq: "oget (pending c') k = Some (DifferenceRequest (dc_name d) sid since ep)"
  have c': "c' = ingest1 i c" using assms(1) by (simp add: ingest1_def)
  show "difference_fits (scopeEntry d sid c') since ep"
  proof (cases "in_domain i = dc_name d \<and> in_scope i = sid")
    case True
    then show ?thesis
      using differences_fit_own [OF assms(1,3-6) _ _ assms(7) _ rq] assms(8) by (simp add: c' scopeEntry_ingest1 [OF assms(2,3)])
  next
    case False
    then have "oget (pending c) k = Some (DifferenceRequest (dc_name d) sid since ep)"
      by (intro pending_other_request [OF assms(1) rq]) auto
    then have "difference_fits (scopeEntry d sid c) since ep" using assms(6) by (auto simp: differences_fit_def)
    then show ?thesis using False by (auto simp: c' scopeEntry_ingest1 [OF assms(2,3)])
  qed
qed

definition catchup_inv ::
  "('s, 'e, 'r) domain_config \<Rightarrow> string \<Rightarrow> (sync_epoch \<Rightarrow> 's) \<Rightarrow> (sync_epoch \<Rightarrow> int \<Rightarrow> 'e) \<Rightarrow> ('s, 'e, 'r) sync_core \<Rightarrow> bool" where
  "catchup_inv d sid base lg c \<longleftrightarrow> well_named c \<and> domains c (dc_name d) = Some d \<and> pending_ok c \<and>
     differences_fit d sid c \<and> synced d sid base lg (scopeEntry d sid c)"

lemma catchup_inv_ingest1:
  assumes "catchup_inv d sid base lg c" "dc_density d = contiguous"
    and "in_domain i = dc_name d \<and> in_scope i = sid \<longrightarrow> honest d sid base lg (scopeEntry d sid c) i"
  shows "catchup_inv d sid base lg (ingest1 i c)"
proof (cases "ingest i c")
  case (Inr r)
  obtain out c' where r: "r = (out, c')" by fastforce
  have c': "c' = ingest1 i c" using Inr r by (simp add: ingest1_def)
  have "synced d sid base lg (scopeEntry d sid (ingest1 i c))"
    using assms input_entry_synced [of d sid base lg "scopeEntry d sid c" i]
    by (auto simp: catchup_inv_def scopeEntry_ingest1)
  then show ?thesis
    using assms(1,2) differences_fit_ingest [OF Inr [unfolded r], of d sid] pending_ok_ingest [OF _ Inr [unfolded r]] c'
    by (simp add: catchup_inv_def well_named_ingest1 synced_def)
qed (use assms in \<open>simp add: ingest1_def\<close>)

lemma catchup_inv_ingest_all:
  "catchup_inv d sid base lg c \<Longrightarrow> dc_density d = contiguous \<Longrightarrow> honest_run d sid base lg c is \<Longrightarrow>
    catchup_inv d sid base lg (ingest_all is c)"
  by (induction "is" arbitrary: c) (simp_all add: catchup_inv_ingest1)

lemma catchup_inv_create:
  assumes "createSyncCore ds b cap = Inr c" "domains c (dc_name d) = Some d" "base None = dc_initialState d"
  shows "catchup_inv d sid base lg c"
proof -
  have "pending c = []" "scopes c (dc_name d, sid) = None"
    using assms(1) by (auto simp: createSyncCore_def Let_def split: sum.splits)
  then show ?thesis
    using assms(2,3) well_named_create [OF assms(1)]
    by (simp add: catchup_inv_def pending_ok_def differences_fit_def synced_def scopeEntry_def initial_entry_def pos_def
        producer_state_def)
qed

section \<open>The answers of the producer\<close>

text \<open>The producer's head: its epoch and position. A frame of the head, and an entry that has reached it.\<close>

definition head_frame :: "string \<Rightarrow> (sync_epoch \<Rightarrow> int \<Rightarrow> 'e) \<Rightarrow> string \<Rightarrow> int \<Rightarrow> 'e sync_frame \<Rightarrow> bool" where
  "head_frame sid lg e H f \<longleftrightarrow> fr_scopeId f = sid \<and> fr_seq f = H \<and> fr_epoch f = Some e \<and> fr_event f = lg (Some e) H"

definition at_head ::
  "('s, 'e, 'r) domain_config \<Rightarrow> string \<Rightarrow> (sync_epoch \<Rightarrow> 's) \<Rightarrow> (sync_epoch \<Rightarrow> int \<Rightarrow> 'e) \<Rightarrow> string \<Rightarrow> int \<Rightarrow> 's scope_entry \<Rightarrow> bool" where
  "at_head d sid base lg e H en \<longleftrightarrow>
     epoch en = Some e \<and> appliedSeq en = Some H \<and> scope_state en = producer_state d sid base lg (Some e) H"

text \<open>The mirror is not ahead of the producer, and knows the epoch of its baseline.\<close>

definition behind_head :: "string \<Rightarrow> int \<Rightarrow> 's scope_entry \<Rightarrow> bool" where
  "behind_head e H en \<longleftrightarrow> 0 \<le> H \<and> (appliedSeq en \<noteq> None \<longrightarrow> epoch en \<noteq> None) \<and> (epoch en = Some e \<longrightarrow> pos en \<le> H)"

text \<open>
  What the producer answers at its head: its state to a snapshot request, the missing events to a
  difference request of its epoch, and to one of another epoch that a snapshot is required.
\<close>

fun answers ::
  "('s, 'e, 'r) domain_config \<Rightarrow> string \<Rightarrow> (sync_epoch \<Rightarrow> 's) \<Rightarrow> (sync_epoch \<Rightarrow> int \<Rightarrow> 'e) \<Rightarrow> string \<Rightarrow> int \<Rightarrow>
   sync_request \<Rightarrow> ('e, 'r) sync_input \<Rightarrow> bool" where
  "answers d sid base lg e H (SnapshotRequest n s _) (SnapshotIn n' sn) =
     (n' = n \<and> sn_scopeId sn = s \<and> sn_epoch sn = Some e \<and> sn_watermark sn = H \<and>
      dc_fromSnapshot d sn = producer_state d sid base lg (Some e) H)"
| "answers d sid base lg e H (DifferenceRequest n s since ep) (DifferenceIn n' r) =
     (n' = n \<and> df_scopeId r = s \<and> df_epoch r = Some e \<and>
      (if ep = Some e
       then \<not> df_snapshotRequired r \<and> \<not> df_partial r \<and> df_fromSeq r = since \<and> df_toSeq r = H \<and>
            (\<forall>(q, ev) \<in> set (df_events r). ev = lg (Some e) q) \<and> fst ` set (df_events r) = {since<..H}
       else df_snapshotRequired r))"
| "answers _ _ _ _ _ _ _ _ = False"

lemma at_head_kept:
  assumes "at_head d sid base lg e H en" "answers d sid base lg e H rq i" "rq_scopeId rq = sid"
  shows "at_head d sid base lg e H (input_entry d i en)"
proof (cases rq)
  case (SnapshotRequest n s rs)
  with assms show ?thesis by (cases i) (auto simp: at_head_def snapshot_entry_def)
next
  case (DifferenceRequest n s since ep)
  then obtain r where i: "i = DifferenceIn n r" using assms(2) by (cases i) auto
  have skip: "apply_difference d r en = en" if "fst ` set (df_events r) \<subseteq> {..H}" "df_toSeq r = H"
  proof -
    have a: "appliedSeq en = Some H" using assms(1) by (simp add: at_head_def)
    have "fold (apply_item d s') xs en = en" if "fst ` set xs \<subseteq> {..H}" for xs s'
      using that by (induction xs) (auto simp: apply_item_def a)
    then show ?thesis using that a by (simp add: apply_difference_def advance_to_def)
  qed
  show ?thesis
  proof (cases "ep = Some e")
    case True
    then have "fst ` set (df_events r) \<subseteq> {..H}" "df_toSeq r = H" using assms(2) DifferenceRequest i by auto
    from skip [OF this] show ?thesis
      using assms(1,2) DifferenceRequest i True by (auto simp: at_head_def difference_entry_def)
  next
    case False
    then show ?thesis using assms(1,2) DifferenceRequest i by (auto simp: at_head_def difference_entry_def)
  qed
qed

lemma snapshot_reaches_head:
  assumes "synced d sid base lg en" "behind_head e H en" "answers d sid base lg e H (SnapshotRequest n sid rs) i"
  shows "at_head d sid base lg e H (input_entry d i en)"
proof -
  obtain sn where i: "i = SnapshotIn n sn" "sn_epoch sn = Some e" "sn_watermark sn = H"
    "dc_fromSnapshot d sn = producer_state d sid base lg (Some e) H"
    using assms(3) by (cases i) auto
  show ?thesis
  proof (cases "snapshot_stale d sn en")
    case True
    then have "epoch en = Some e" "\<exists>a. appliedSeq en = Some a \<and> H \<le> a"
      using assms(2) i(2,3) by (auto simp: snapshot_stale_def behind_head_def)
    moreover from this have "appliedSeq en = Some H" using assms(2) by (auto simp: behind_head_def pos_def)
    ultimately show ?thesis using assms(1) True i(1) by (simp add: at_head_def snapshot_entry_def synced_def pos_def)
  qed (simp add: i at_head_def snapshot_entry_def)
qed

lemma difference_reaches_head:
  assumes "synced d sid base lg en" "behind_head e H en" "answers d sid base lg e H (DifferenceRequest n sid since ep) i"
    "difference_fits en since ep" "ep = Some e"
  shows "at_head d sid base lg e H (input_entry d i en)"
proof -
  obtain r where i: "i = DifferenceIn n r" "df_scopeId r = sid" "df_epoch r = Some e" "\<not> df_snapshotRequired r" "\<not> df_partial r"
    "df_fromSeq r = since" "df_toSeq r = H" "\<forall>(q, ev) \<in> set (df_events r). ev = lg (Some e) q" "fst ` set (df_events r) = {since<..H}"
    using assms(3,5) by (cases i) auto
  obtain a where a: "epoch en = Some e" "appliedSeq en = Some a" "0 \<le> since" "since \<le> a" "a \<le> H"
    using assms(2,4,5) by (auto simp: difference_fits_def behind_head_def pos_def)
  have "honest d sid base lg en (DifferenceIn n r)" using i a by auto
  from synced_difference [OF assms(1) i(2) this] have s: "synced d sid base lg (apply_difference d r en)"
    using i a by (simp add: epochMismatch_def)
  have up: "appliedSeq x = Some y \<Longrightarrow> y \<le> H \<Longrightarrow> \<exists>y'. appliedSeq (fold (apply_item d sid) xs x) = Some y' \<and> y' \<le> H"
    if "fst ` set xs \<subseteq> {..H}" for xs x y
    using that by (induction xs arbitrary: x y) (auto simp: apply_item_def split: if_splits)
  have "fst ` set (js_sort compare_seq (df_events r)) \<subseteq> {..H}" using i(9) by auto
  from up [OF this a(2,5)] have "appliedSeq (apply_difference d r en) = Some H"
    using i(2,7) by (auto simp: apply_difference_def advance_to_def)
  then show ?thesis using s i a by (simp add: at_head_def difference_entry_def epochMismatch_def synced_def pos_def)
qed


section \<open>One frame at the head and the answers to what it leaves pending\<close>

definition scope_requests :: "string \<Rightarrow> string \<Rightarrow> ('s, 'e, 'r) sync_core \<Rightarrow> sync_request list" where
  "scope_requests n sid c = filter (\<lambda>rq. rq_domain rq = n \<and> rq_scopeId rq = sid) (pendingRequests c)"

text \<open>The requests whose answer alone brings an entry to the head.\<close>

fun decisive :: "string \<Rightarrow> sync_request \<Rightarrow> bool" where
  "decisive e (SnapshotRequest _ _ _) = True"
| "decisive e (DifferenceRequest _ _ _ ep) = (ep = Some e)"

lemma request_fits:
  assumes "catchup_inv d sid base lg c" "DifferenceRequest (dc_name d) sid since ep \<in> set (pendingRequests c)"
  shows "difference_fits (scopeEntry d sid c) since ep"
proof -
  obtain k where "(k, DifferenceRequest (dc_name d) sid since ep) \<in> set (pending c)"
    using assms(2) by (auto simp: pendingRequests_def)
  moreover have "odistinct (pending c)" using assms(1) by (simp add: catchup_inv_def pending_ok_def)
  ultimately have "oget (pending c) k = Some (DifferenceRequest (dc_name d) sid since ep)" by (simp add: map_specs)
  then show ?thesis using assms(1) by (auto simp: catchup_inv_def differences_fit_def)
qed

lemma answer_step:
  assumes "synced d sid base lg en" "behind_head e H en" "en' = en \<or> at_head d sid base lg e H en'"
    and "answers d sid base lg e H rq i" "rq_scopeId rq = sid"
    and "\<And>n since ep. rq = DifferenceRequest n sid since ep \<Longrightarrow> difference_fits en since ep"
  shows "(en' = en \<and> input_entry d i en' = en \<and> \<not> decisive e rq) \<or> at_head d sid base lg e H (input_entry d i en')"
proof (cases "at_head d sid base lg e H en'")
  case True
  then show ?thesis using at_head_kept [OF True assms(4,5)] by blast
next
  case False
  then have en': "en' = en" using assms(3) by blast
  show ?thesis
  proof (cases rq)
    case (SnapshotRequest n s rs)
    then show ?thesis using snapshot_reaches_head [OF assms(1,2)] assms(4,5) en' by auto
  next
    case (DifferenceRequest n s since ep)
    then have fits: "difference_fits en since ep" using assms(5,6) by simp
    show ?thesis
    proof (cases "ep = Some e")
      case True
      then show ?thesis
        using difference_reaches_head [OF assms(1,2) _ fits True] DifferenceRequest assms(4,5) en' by auto
    next
      case False
      then obtain r where i: "i = DifferenceIn n r" "df_epoch r = Some e"
        using DifferenceRequest assms(4) by (cases i) auto
      have "epoch en \<noteq> None" "epoch en = ep" using fits assms(2) by (auto simp: difference_fits_def behind_head_def)
      then have "epochMismatch en (df_epoch r)" using False i(2) by (simp add: epochMismatch_def)
      then show ?thesis using i en' DifferenceRequest False by (simp add: difference_entry_def)
    qed
  qed
qed

lemma answers_scope:
  "answers d sid base lg e H rq i \<Longrightarrow> in_domain i = rq_domain rq \<and> in_scope i = rq_scopeId rq"
  by (cases rq; cases i) auto

lemma answers_reach_head:
  assumes "list_all2 (answers d sid base lg e H) rqs is"
    and "\<And>rq. rq \<in> set rqs \<Longrightarrow> rq_domain rq = dc_name d \<and> rq_scopeId rq = sid"
    and "\<And>since ep. DifferenceRequest (dc_name d) sid since ep \<in> set rqs \<Longrightarrow> difference_fits en since ep"
    and "synced d sid base lg en" "behind_head e H en"
    and "well_named c" "domains c (dc_name d) = Some d" "scopeEntry d sid c = en \<or> at_head d sid base lg e H (scopeEntry d sid c)"
  shows "scopeEntry d sid c = en \<and> scopeEntry d sid (ingest_all is c) = en \<and> (\<forall>rq \<in> set rqs. \<not> decisive e rq) \<or>
    at_head d sid base lg e H (scopeEntry d sid (ingest_all is c))"
  using assms(1-3,6-8)
proof (induction arbitrary: c rule: list_all2_induct)
  case (Cons rq rqs i "is")
  have own: "rq_domain rq = dc_name d" "rq_scopeId rq = sid" using Cons.prems(1) by auto
  have fit: "difference_fits en since ep" if "rq = DifferenceRequest n sid since ep" for n since ep
    using Cons.prems(2) [of since ep] that own(1) by simp
  from answer_step [OF assms(4,5) Cons.prems(5) Cons.hyps(1) own(2) fit]
  have one: "scopeEntry d sid c = en \<and> scopeEntry d sid (ingest1 i c) = en \<and> \<not> decisive e rq \<or> at_head d sid base lg e H (scopeEntry d sid (ingest1 i c))"
    using own answers_scope [OF Cons.hyps(1)] by (simp add: scopeEntry_ingest1 [OF Cons.prems(3,4)])
  then have disj: "scopeEntry d sid (ingest1 i c) = en \<or> at_head d sid base lg e H (scopeEntry d sid (ingest1 i c))" by blast
  have wn: "well_named (ingest1 i c)" "domains (ingest1 i c) (dc_name d) = Some d"
    using Cons.prems(3,4) by (simp_all add: well_named_ingest1)
  have sub: "rq' \<in> set rqs \<Longrightarrow> rq_domain rq' = dc_name d \<and> rq_scopeId rq' = sid"
    "DifferenceRequest (dc_name d) sid since ep \<in> set rqs \<Longrightarrow> difference_fits en since ep" for rq' since ep
    using Cons.prems(1,2) by auto
  from Cons.IH [OF sub wn disj] one show ?case by auto
qed simp


lemma head_frame_entry:
  assumes "synced d sid base lg en" "behind_head e H en" "head_frame sid lg e H f" "dc_density d = contiguous"
  shows "synced d sid base lg (frame_entry d f en) \<and> behind_head e H (frame_entry d f en)"
proof (cases "appliedSeq en")
  case None
  then show ?thesis using assms by (simp add: frame_entry_def behind_head_def pos_def)
next
  case (Some a)
  show ?thesis
  proof (cases "epochMismatch en (fr_epoch f)")
    case True
    then show ?thesis using assms Some by (simp add: frame_entry_def behind_head_def pos_def)
  next
    case False
    then have "epoch en = Some e" using assms(2,3) Some by (auto simp: epochMismatch_def behind_head_def head_frame_def)
    then have "honest d sid base lg en (FrameIn n f)" for n using assms(3) by (simp add: head_frame_def)
    from input_entry_synced [OF assms(1) this _ assms(4)] have "synced d sid base lg (frame_entry d f en)"
      using assms(3) by (simp add: head_frame_def)
    then show ?thesis
      using assms(2-4) Some False by (auto simp: frame_entry_def behind_head_def head_frame_def pos_def)
  qed
qed

lemma head_frame_requests:
  assumes "domains c (dc_name d) = Some d" "dc_density d = contiguous" "synced d sid base lg (scopeEntry d sid c)"
    and "behind_head e H (scopeEntry d sid c)" "head_frame sid lg e H f"
  shows "at_head d sid base lg e H (frame_entry d f (scopeEntry d sid c)) \<or>
    (\<exists>rq \<in> set (scope_requests (dc_name d) sid (ingest1 (FrameIn (dc_name d) f) c)). decisive e rq)"
proof -
  let ?en = "scopeEntry d sid c" and ?c = "ingest1 (FrameIn (dc_name d) f) c"
  have f: "fr_scopeId f = sid" "fr_seq f = H" "fr_epoch f = Some e" "fr_event f = lg (Some e) H"
    using assms(5) by (simp_all add: head_frame_def)
  have queued: "rq \<in> set (scope_requests (dc_name d) sid ?c)"
    if "pending ?c = oset (requestKey rq) rq (pending c)" "rq_domain rq = dc_name d" "rq_scopeId rq = sid" for rq
    using that request_added by (simp add: scope_requests_def pendingRequests_def)
  show ?thesis
  proof (cases "epochMismatch ?en (Some e) \<or> appliedSeq ?en = None")
    case True
    then have "\<exists>rs. pending ?c = oset (skey (dc_name d) sid) (SnapshotRequest (dc_name d) sid rs) (pending c)"
      using assms(1,2) f by (auto simp: ingest1_def ingest_defs)
    then obtain rs where "pending ?c = oset (skey (dc_name d) sid) (SnapshotRequest (dc_name d) sid rs) (pending c)" ..
    from queued [of "SnapshotRequest (dc_name d) sid rs"] this show ?thesis by force
  next
    case False
    then obtain a where a: "appliedSeq ?en = Some a" "\<not> epochMismatch ?en (Some e)" by blast
    then have e: "epoch ?en = Some e" using assms(4) by (auto simp: epochMismatch_def behind_head_def)
    then have "a \<le> H" using assms(4) a(1) by (simp add: behind_head_def pos_def)
    then consider "a = H" | "H = a + 1" | "a + 1 < H" by linarith
    then show ?thesis
    proof cases
      case 1
      then have "at_head d sid base lg e H ?en" using assms(3) e a(1) by (simp add: at_head_def synced_def pos_def)
      then have "at_head d sid base lg e H (frame_entry d f ?en)"
        using f 1 a by (auto simp: frame_entry_def at_head_def)
      then show ?thesis by blast
    next
      case 2
      then have "synced d sid base lg (frame_entry d f ?en)"
        using head_frame_entry [OF assms(3,4,5,2)] by blast
      then have "at_head d sid base lg e H (frame_entry d f ?en)"
        using f 2 a e by (simp add: frame_entry_def at_head_def synced_def pos_def)
      then show ?thesis by blast
    next
      case 3
      then have "pending ?c = oset (dkey (dc_name d) sid) (DifferenceRequest (dc_name d) sid a (Some e)) (pending c)"
        using assms(1,2) f a e by (simp add: ingest1_def ingest_defs)
      with queued [of "DifferenceRequest (dc_name d) sid a (Some e)"] show ?thesis by force
    qed
  qed
qed

text \<open>
  The scope has caught up once the producer has answered, in any order and any number of times, the requests that its
  head frame left pending for the scope.
\<close>

lemma catches_up:
  assumes inv: "catchup_inv d sid base lg c" and "dc_density d = contiguous"
    and "behind_head e H (scopeEntry d sid c)" "head_frame sid lg e H f"
    and "set rqs = set (scope_requests (dc_name d) sid (ingest1 (FrameIn (dc_name d) f) c))"
    and "list_all2 (answers d sid base lg e H) rqs is"
  shows "at_head d sid base lg e H (scopeEntry d sid (ingest_all is (ingest1 (FrameIn (dc_name d) f) c)))"
proof -
  let ?i = "FrameIn (dc_name d) f" let ?c = "ingest1 ?i c" let ?en = "scopeEntry d sid ?c"
  have c: "well_named c" "domains c (dc_name d) = Some d" "synced d sid base lg (scopeEntry d sid c)"
    "pending_ok c" "differences_fit d sid c"
    using inv by (simp_all add: catchup_inv_def)
  have en: "?en = frame_entry d f (scopeEntry d sid c)"
    using assms(4) by (simp add: scopeEntry_ingest1 [OF c(1,2)] head_frame_def)
  have en1: "synced d sid base lg ?en" "behind_head e H ?en"
    using head_frame_entry [OF c(3) assms(3,4,2)] en by auto
  obtain out where out: "ingest ?i c = Inr (out, ?c)"
    using ingest_registered [of c ?i d] c(2) by (auto simp: ingest1_def)
  have "differences_fit d sid ?c"
    using differences_fit_ingest [OF out c(1,2) assms(2) c(4,5)] c(3) en1(1) by (simp add: synced_def)
  then have inv1: "catchup_inv d sid base lg ?c"
    using c en1(1) pending_ok_ingest [OF c(4) out] by (simp add: catchup_inv_def well_named_ingest1)
  have own: "rq_domain rq = dc_name d \<and> rq_scopeId rq = sid \<and> rq \<in> set (pendingRequests ?c)" if "rq \<in> set rqs" for rq
    using that assms(5) by (simp add: scope_requests_def)
  have fits: "difference_fits ?en since ep" if "DifferenceRequest (dc_name d) sid since ep \<in> set rqs" for since ep
    using own [OF that] request_fits [OF inv1] by blast
  have wn: "well_named ?c" "domains ?c (dc_name d) = Some d" using c by (simp_all add: well_named_ingest1)
  have mine: "rq_domain rq = dc_name d \<and> rq_scopeId rq = sid" if "rq \<in> set rqs" for rq using own [OF that] by blast
  have "scopeEntry d sid (ingest_all is ?c) = ?en \<and> (\<forall>rq \<in> set rqs. \<not> decisive e rq) \<or>
      at_head d sid base lg e H (scopeEntry d sid (ingest_all is ?c))"
    using answers_reach_head [OF assms(6) mine fits en1 wn] by blast
  moreover have "at_head d sid base lg e H ?en \<or> (\<exists>rq \<in> set rqs. decisive e rq)"
    using head_frame_requests [OF c(2) assms(2) c(3) assms(3,4)] assms(5) en by simp
  ultimately show ?thesis by auto
qed


section \<open>Answers that end a repair, and those that do not\<close>

fun settles :: "('s, 'e, 'r) domain_config \<Rightarrow> ('e, 'r) sync_input \<Rightarrow> 's scope_entry \<Rightarrow> bool" where
  "settles d (FrameIn _ f) en = False"
| "settles d (SnapshotIn _ s) en = (\<not> snapshot_stale d s en)"
| "settles d (DifferenceIn _ r) en = (\<not> epochMismatch en (df_epoch r) \<and> \<not> df_snapshotRequired r \<and> \<not> df_partial r)"

lemma settles_entry: "settles d i en \<Longrightarrow> \<not> repairPending (input_entry d i en)"
  by (cases i) (simp_all add: snapshot_entry_def difference_entry_def)

lemma settles_pending:
  assumes "domains c n = Some d" "dc_name d = n" "in_domain i = n" "in_scope i = sid" "settles d i (scopeEntry d sid c)"
  shows "pending (ingest1 i c) = pending (clearScopeRequests n sid c)"
proof (cases i)
  case (SnapshotIn m s)
  then show ?thesis
    using assms
    by (auto simp: ingest1_def ingestSnapshot_def domainOf_def Let_def snapshot_stale_def clearScopeRequests_def put_entry_def
        split: option.splits)
next
  case (DifferenceIn m r)
  then show ?thesis
    using assms by (simp add: ingest1_def ingestDifference_def domainOf_def Let_def clearScopeRequests_def put_entry_def)
qed (use assms in simp)

lemma settles_requests:
  assumes "pending_ok c" "domains c n = Some d" "dc_name d = n" "in_domain i = n" "in_scope i = sid"
    and "settles d i (scopeEntry d sid c)"
  shows "scope_requests n sid (ingest1 i c) = []"
proof -
  have ok: "pending_ok (clearScopeRequests n sid c)" using assms(1) by (rule pending_ok_clear)
  have "rq_domain rq \<noteq> n \<or> rq_scopeId rq \<noteq> sid" if mem: "rq \<in> snd ` set (pending (clearScopeRequests n sid c))" for rq
  proof -
    obtain k where k: "(k, rq) \<in> set (pending (clearScopeRequests n sid c))" using mem by auto
    moreover have "odistinct (pending (clearScopeRequests n sid c))" using ok by (simp add: pending_ok_def)
    moreover have "odistinct m \<Longrightarrow> (k, rq) \<in> set m \<Longrightarrow> oget m k = Some rq" for m by (simp add: map_specs)
    ultimately have get: "oget (pending (clearScopeRequests n sid c)) k = Some rq" by blast
    then have "k = requestKey rq" using ok by (auto simp: pending_ok_def)
    then show ?thesis using get by (cases rq) (auto split: if_splits)
  qed
  then show ?thesis using settles_pending [OF assms(2-6)] by (simp add: scope_requests_def pendingRequests_def filter_empty_conv)
qed

text \<open>
  The answer to the request that a version conflict queues is a snapshot at the conflicting position, which is stale: the
  scope stays marked for repair and the request stays pending until the producer has moved on.
\<close>

lemma conflict_answer_dropped:
  assumes "domains c n = Some d" "dc_name d = n" "scopes c (n, sn_scopeId s) = Some en" "dc_acceptSameWatermarkSnapshot d = None"
    and "appliedSeq en = Some (sn_watermark s)" "epoch en = sn_epoch s"
  shows "\<exists>c'. ingestSnapshot n s c = Inr (DuplicateDropped (sn_scopeId s) (sn_watermark s), c') \<and>
    scopes c' (n, sn_scopeId s) = Some en \<and> pending c' = pending c"
  using assms by (simp add: ingestSnapshot_def domainOf_def scopeEntry_def Let_def)

text \<open>
  A snapshot erases the fingerprint of the position it establishes, so the producer's own frame at that position, arriving
  after it, is reported as a version conflict whatever it carries.
\<close>

lemma frame_at_snapshot_conflicts:
  assumes "domains c n = Some d" "dc_name d = n" "dc_eventFingerprint d = Some fp" "\<not> snapshot_stale d s (scopeEntry d (sn_scopeId s) c)"
    and "fr_scopeId f = sn_scopeId s" "fr_seq f = sn_watermark s" "fr_epoch f = sn_epoch s"
  shows "\<exists>c'. ingestFrame n f (ingest1 (SnapshotIn n s) c) = Inr (Violation (sn_scopeId s) producer_version_conflict, c') \<and>
    SnapshotRequest n (sn_scopeId s) (if dc_density d = sparse then sparse_repull else snapshot_required) \<in> set (pendingRequests c')"
proof -
  have "scopes (ingest1 (SnapshotIn n s) c) (n, sn_scopeId s) = Some (snapshot_entry d s (scopeEntry d (sn_scopeId s) c))"
    using assms(1,2) ingest1_scopes [of c "SnapshotIn n s" d] by simp
  then have "scopeEntry d (fr_scopeId f) (ingest1 (SnapshotIn n s) c) =
      (scopeEntry d (sn_scopeId s) c)\<lparr>scope_state := dc_fromSnapshot d s, appliedSeq := Some (sn_watermark s),
        acceptedFingerprint := None, epoch := sn_epoch s, repairPending := False\<rparr>"
    using assms(2,4,5)
    by (simp add: scopeEntry_def [of d "sn_scopeId s" "ingest1 (SnapshotIn n s) c"] snapshot_entry_def)
  then show ?thesis
    using assms(1,3,5-7)
    by (simp add: request_added ingestFrame_def domainOf_def Let_def epochMismatch_def pendingRequests_def requestSnapshot_def)
qed

end
