(* ===== verification/Sync_Properties.thy ===== *)
theory Sync_Properties
  imports Sync_Activity_Register Sync_Read_State Sync_Catchup
begin

text \<open>
  The properties of the sync core and its domains, each with a witness on a concrete core with the
  Activity domain registered.
\<close>

section \<open>A concrete core\<close>

definition demo_core :: "(activity_state, jsval, jsval) sync_core" where
  "demo_core = \<lparr>domains = [activity_domain \<mapsto> createActivityDomain], scopes = Map.empty,
     violations = \<lparr>vb_capacity = 256, vb_records = [], vb_nextIndex = 0, vb_onViolation = False, vb_rung = []\<rparr>,
     pending = []\<rparr>"

definition demo_event :: jsval where
  "demo_event = JObj [(''type'', JStr ''noop'')]"

definition demo_snapshot :: "jsval sync_snapshot" where
  "demo_snapshot = \<lparr>sn_scopeId = ''s'', sn_watermark = 0, sn_epoch = Some ''e1'', sn_state = JNull\<rparr>"

definition demo_frame :: "int \<Rightarrow> jsval sync_frame" where
  "demo_frame q = \<lparr>fr_scopeId = ''s'', fr_seq = q, fr_epoch = Some ''e1'', fr_event = demo_event\<rparr>"

lemma demo_create: "createSyncCore [createActivityDomain] None JUndef = Inr demo_core"
  by (simp add: createSyncCore_def createSyncViolationBuffer_def demo_core_def register_domain_def
      max_safe_integer_def)

lemma demo_domain [simp]:
  "domains demo_core activity_domain = Some createActivityDomain" "scopes demo_core = Map.empty"
  by (simp_all add: demo_core_def)

lemma demo_entries:
  "scopeEntry createActivityDomain ''s'' demo_core = initial_entry createActivityDomain"
  "scopeEntry createActivityDomain ''s'' (ingest1 (SnapshotIn activity_domain demo_snapshot) demo_core) =
     \<lparr>appliedSeq = Some 0, acceptedFingerprint = None, epoch = Some ''e1'', repairPending = False,
      scope_state = initialActivityState\<rparr>"
proof -
  have wn: "well_named demo_core" using demo_create by (rule well_named_create)
  show 1: "scopeEntry createActivityDomain ''s'' demo_core = initial_entry createActivityDomain"
    by (simp add: scopeEntry_def)
  show "scopeEntry createActivityDomain ''s'' (ingest1 (SnapshotIn activity_domain demo_snapshot) demo_core) =
     \<lparr>appliedSeq = Some 0, acceptedFingerprint = None, epoch = Some ''e1'', repairPending = False,
      scope_state = initialActivityState\<rparr>"
    using wn by (simp add: scopeEntry_ingest1 1 demo_snapshot_def snapshot_entry_def snapshot_stale_def
        initial_entry_def stateFromSnapshot_def)
qed

section \<open>Convergence\<close>

text \<open>
  C1. Convergence of the sync core. On a contiguous scope of a freshly created core, whatever the order, repetition or
  loss of honest frames, snapshots and difference pages (and whatever arrives for other scopes), the folded state is the
  producer's state at the entry's own epoch and position. And the scope catches up: when the entry is not ahead of the
  producer, one frame of the producer's head, followed by the producer's answers (in any order, repeated or not) to the
  requests that are then pending for the scope, brings the entry to the producer's epoch, position and state.
\<close>

theorem sync_core_converges:
  assumes "createSyncCore ds b cap = Inr c" "domains c (dc_name d) = Some d" "dc_density d = contiguous"
    and "base None = dc_initialState d" "honest_run d sid base lg c is"
    and "en = scopeEntry d sid (ingest_all is c)"
  shows "scope_state en = producer_state d sid base lg (epoch en) (pos en) \<and>
    (behind_head e H en \<and> head_frame sid lg e H f \<and> behind = ingest_all (is @ [FrameIn (dc_name d) f]) c \<and>
     set rqs = set (scope_requests (dc_name d) sid behind) \<and> list_all2 (answers d sid base lg e H) rqs replies \<longrightarrow>
       at_head d sid base lg e H (scopeEntry d sid (ingest_all replies behind)))"
proof -
  have inv: "catchup_inv d sid base lg (ingest_all is c)"
    by (rule catchup_inv_ingest_all [OF catchup_inv_create [where base = base, OF assms(1,2,4)] assms(3,5)])
  then have "scope_state en = producer_state d sid base lg (epoch en) (pos en)"
    by (simp add: catchup_inv_def synced_def assms(6))
  moreover have "at_head d sid base lg e H (scopeEntry d sid (ingest_all replies behind))"
    if "behind_head e H en" "head_frame sid lg e H f" "behind = ingest_all (is @ [FrameIn (dc_name d) f]) c"
      "set rqs = set (scope_requests (dc_name d) sid behind)" "list_all2 (answers d sid base lg e H) rqs replies"
    using catches_up [OF inv assms(3), of e H f rqs replies] that assms(6) by (simp add: ingest_all_def)
  ultimately show ?thesis by blast
qed

definition demo_page_to :: "int \<Rightarrow> jsval sync_difference" where
  "demo_page_to q = \<lparr>df_scopeId = ''s'', df_epoch = Some ''e1'', df_fromSeq = 0, df_toSeq = q,
     df_events = map (\<lambda>i. (i, demo_event)) [1..q], df_partial = False, df_snapshotRequired = False\<rparr>"

theorem sync_core_converges_witness:
  "at_head createActivityDomain ''s'' (\<lambda>_. initialActivityState) (\<lambda>_ _. demo_event) ''e1'' 3
     (scopeEntry createActivityDomain ''s'' (ingest_all [DifferenceIn activity_domain (demo_page_to 3)]
       (ingest_all [SnapshotIn activity_domain demo_snapshot, FrameIn activity_domain (demo_frame 3)] demo_core)))"
proof -
  let ?is = "[SnapshotIn activity_domain demo_snapshot]"
  let ?d = createActivityDomain
  let ?rq = "DifferenceRequest activity_domain ''s'' 0 (Some ''e1'')"
  define en where "en = scopeEntry ?d ''s'' (ingest_all ?is demo_core)"
  have wn: "well_named demo_core" using demo_create by (rule well_named_create)
  have run: "honest_run ?d ''s'' (\<lambda>_. initialActivityState) (\<lambda>_ _. demo_event) demo_core ?is"
    by (simp add: demo_snapshot_def producer_state_def stateFromSnapshot_def)
  have en: "en = \<lparr>appliedSeq = Some 0, acceptedFingerprint = None, epoch = Some ''e1'', repairPending = False,
      scope_state = initialActivityState\<rparr>"
    by (simp add: en_def demo_entries)
  define behind where "behind = ingest_all (?is @ [FrameIn (dc_name ?d) (demo_frame 3)]) demo_core"
  have rqs: "set [?rq] = set (scope_requests (dc_name ?d) ''s'' behind)"
    by (simp add: behind_def) code_simp
  have "fst ` set (df_events (demo_page_to 3)) = {0<..3}" by (force simp: demo_page_to_def)
  then have ans: "list_all2 (answers ?d ''s'' (\<lambda>_. initialActivityState) (\<lambda>_ _. demo_event) ''e1'' 3) [?rq]
      [DifferenceIn activity_domain (demo_page_to 3)]"
    by (auto simp: demo_page_to_def)
  have "behind_head ''e1'' 3 en" "head_frame ''s'' (\<lambda>_ _. demo_event) ''e1'' 3 (demo_frame 3)"
    by (simp_all add: en behind_head_def pos_def head_frame_def demo_frame_def)
  then have "at_head ?d ''s'' (\<lambda>_. initialActivityState) (\<lambda>_ _. demo_event) ''e1'' 3
      (scopeEntry ?d ''s'' (ingest_all [DifferenceIn activity_domain (demo_page_to 3)] behind))"
    using sync_core_converges [OF demo_create _ _ _ run en_def, of "''e1''" 3 "demo_frame 3" behind "[?rq]"
        "[DifferenceIn activity_domain (demo_page_to 3)]"] rqs ans behind_def
    by simp
  then show ?thesis by (simp add: behind_def)
qed

text \<open>
  C2. Watermarks never move backwards, except by a snapshot of another epoch: any other input to any
  scope leaves every applied position in place or advances it.
\<close>

theorem sync_watermark_monotone:
  assumes "well_named c" "ingest i c = Inr (out, c')" "scopes c (n, sid) = Some en" "appliedSeq en = Some a"
    and "(n, sid) = (in_domain i, in_scope i) \<longrightarrow> \<not> rebaseline i en"
  shows "\<exists>en' a'. scopes c' (n, sid) = Some en' \<and> appliedSeq en' = Some a' \<and> a \<le> a'"
proof (cases "(n, sid) = (in_domain i, in_scope i)")
  case True
  obtain d where d: "domains c (in_domain i) = Some d"
    using assms(2) ingest_unregistered [of c i] by (cases "domains c (in_domain i)") auto
  then have nm: "dc_name d = in_domain i" using assms(1) by (simp add: well_named_def)
  have "scopes c' (n, sid) = Some (input_entry d i en)"
    using ingest_registered [OF d] assms(2,3) True nm by (auto simp: scopeEntry_def)
  with input_entry_mono [OF assms(4), of i d] assms(5) True show ?thesis by auto
next
  case False
  have "c' = ingest1 i c" using assms(2) by (simp add: ingest1_def)
  with False assms(3,4) ingest1_other_scope [OF assms(1), of i n sid] show ?thesis by auto
qed

theorem sync_watermark_monotone_witness:
  "\<exists>en' a'. scopes (ingest1 (FrameIn activity_domain (demo_frame 7))
       (ingest1 (SnapshotIn activity_domain demo_snapshot) demo_core)) (activity_domain, ''s'') = Some en' \<and>
     appliedSeq en' = Some a' \<and> 0 \<le> a'"
proof -
  let ?c = "ingest1 (SnapshotIn activity_domain demo_snapshot) demo_core"
  let ?i = "FrameIn activity_domain (demo_frame 7) :: (jsval, jsval) sync_input"
  have wn: "well_named ?c" using demo_create by (simp add: well_named_create well_named_ingest1)
  have dom: "domains ?c (in_domain ?i) = Some createActivityDomain" by simp
  then obtain out c' where c': "ingest ?i ?c = Inr (out, c')" using ingest_registered by blast
  obtain en where en: "scopes ?c (activity_domain, ''s'') = Some en" "appliedSeq en = Some 0"
    using demo_entries(2) ingest1_scopes [of demo_core "SnapshotIn activity_domain demo_snapshot"]
    by (auto simp: scopeEntry_def demo_snapshot_def split: option.splits)
  have "c' = ingest1 ?i ?c" using c' by (simp add: ingest1_def)
  with sync_watermark_monotone [OF wn c' en] show ?thesis by (simp add: rebaseline_def)
qed

section \<open>Repair\<close>

lemma demo_core_inv: "core_inv demo_core"
  using core_inv_create [OF demo_create] by (simp add: colon_free_def activity_domain_def)

lemma demo_in_scope [simp]:
  "fr_scopeId (demo_frame q) = ''s''" "fr_seq (demo_frame q) = q" "fr_event (demo_frame q) = demo_event"
  "fr_epoch (demo_frame q) = Some ''e1''" "sn_scopeId demo_snapshot = ''s''"
  by (simp_all add: demo_frame_def demo_snapshot_def)

text \<open>
  C3. Repair is tracked and can end. In every state reachable from a core created with the default violation buffer and
  domain names that contain no colon, a scope marked \<open>repairPending\<close> has a pending request of the same domain and scope;
  and any answer to the scope that the core accepts in full (a snapshot that is not stale, or a difference page of the
  entry's epoch that is neither partial nor asks for a snapshot) clears the mark and leaves no request of the scope. A stale
  snapshot does not: see \<open>conflict_answer_dropped\<close>.
\<close>

theorem sync_repair_has_request:
  assumes "createSyncCore ds None cap = Inr c" "\<forall>d \<in> set ds. colon_free (dc_name d)"
    and "scopes (ingest_all is c) (n, sid) = Some en" "repairPending en"
  shows "(\<exists>rq \<in> set (pendingRequests (ingest_all is c)). rq_domain rq = n \<and> rq_scopeId rq = sid) \<and>
    (domains c n = Some d \<and> in_domain i = n \<and> in_scope i = sid \<and> settles d i en \<longrightarrow>
       (\<exists>en'. scopes (ingest_all (is @ [i]) c) (n, sid) = Some en' \<and> \<not> repairPending en') \<and>
       scope_requests n sid (ingest_all (is @ [i]) c) = [])"
proof -
  let ?c = "ingest_all is c"
  have inv: "core_inv ?c"
    by (rule core_inv_ingest_all [OF core_inv_create [OF assms(1,2)]])
  have "n \<in> dom (domains ?c)"
    using inv assms(3) by (auto simp: core_inv_def dest: scopes_registeredD)
  then have "colon_free n" using inv by (auto simp: core_inv_def colon_free_domains_def)
  then have "\<exists>rq \<in> set (pendingRequests ?c). rq_domain rq = n \<and> rq_scopeId rq = sid"
    using inv assms(3,4) by (intro has_request_pending) (auto simp: core_inv_def repair_tracked_def)
  moreover have "(\<exists>en'. scopes (ingest_all (is @ [i]) c) (n, sid) = Some en' \<and> \<not> repairPending en') \<and>
      scope_requests n sid (ingest_all (is @ [i]) c) = []"
    if i: "domains c n = Some d" "in_domain i = n" "in_scope i = sid" "settles d i en"
  proof -
    have last: "ingest_all (is @ [i]) c = ingest1 i ?c" by (simp add: ingest_all_def)
    have "domains ?c n = Some d" using i(1) by (simp add: ingest_all_domains)
    moreover from this have "dc_name d = n" using inv by (simp add: core_inv_def well_named_def)
    moreover from this have "scopeEntry d sid ?c = en" using assms(3) by (simp add: scopeEntry_def)
    ultimately show ?thesis
      using settles_requests [of ?c n d i sid] settles_entry [OF i(4)] ingest1_scopes [of ?c i d] inv i
      by (simp add: last core_inv_def)
  qed
  ultimately show ?thesis by blast
qed

theorem sync_repair_has_request_witness:
  "(\<exists>rq \<in> set (pendingRequests (ingest_all [FrameIn activity_domain (demo_frame 5)] demo_core)).
     rq_domain rq = activity_domain \<and> rq_scopeId rq = ''s'') \<and>
   scope_requests activity_domain ''s''
     (ingest_all ([FrameIn activity_domain (demo_frame 5)] @ [SnapshotIn activity_domain demo_snapshot]) demo_core) = []"
proof -
  let ?i = "FrameIn activity_domain (demo_frame 5) :: (jsval, jsval) sync_input"
  let ?en = "(initial_entry createActivityDomain)\<lparr>repairPending := True\<rparr>"
  have cf: "\<forall>d \<in> set [createActivityDomain]. colon_free (dc_name d)"
    by (simp add: colon_free_def activity_domain_def)
  have "scopes (ingest_all [?i] demo_core) (activity_domain, ''s'') = Some ?en"
    using ingest1_scopes [of demo_core ?i createActivityDomain]
    by (simp add: demo_entries frame_entry_def epochMismatch_def initial_entry_def)
  from sync_repair_has_request [OF demo_create cf this, of createActivityDomain "SnapshotIn activity_domain demo_snapshot"]
  show ?thesis by (simp add: snapshot_stale_def initial_entry_def)
qed

text \<open>
  The stop-gate: a frame beyond the next position of a contiguous scope is not applied; the state
  and the position stay, the gap is reported, and a difference request from the applied position is
  the one outstanding under the scope's key.
\<close>

theorem sync_gap_stop_gate:
  assumes "domains c n = Some d" "dc_name d = n" "dc_density d = contiguous"
    and "scopes c (n, fr_scopeId f) = Some en" "appliedSeq en = Some a" "a + 1 < fr_seq f"
    and "\<not> epochMismatch en (fr_epoch f)"
  shows "\<exists>c'. ingestFrame n f c = Inr (GapRepairRequested (fr_scopeId f) (a + 1) (fr_seq f - 1), c') \<and>
    scopes c' (n, fr_scopeId f) = Some (en\<lparr>repairPending := True\<rparr>) \<and>
    oget (pending c') (requestKey (DifferenceRequest n (fr_scopeId f) a (epoch en))) =
      Some (DifferenceRequest n (fr_scopeId f) a (epoch en)) \<and> violations c' = violations c"
  using assms by (auto simp: ingestFrame_def domainOf_def scopeEntry_def Let_def requestDifference_def map_specs)

theorem sync_gap_stop_gate_witness:
  "\<exists>c'. ingestFrame activity_domain (demo_frame 7)
       (ingest1 (SnapshotIn activity_domain demo_snapshot) demo_core) =
     Inr (GapRepairRequested ''s'' 1 6, c')"
proof -
  let ?c = "ingest1 (SnapshotIn activity_domain demo_snapshot) demo_core"
  let ?en = "\<lparr>appliedSeq = Some 0, acceptedFingerprint = None, epoch = Some ''e1'', repairPending = False,
      scope_state = initialActivityState\<rparr>"
  have "scopes ?c (activity_domain, ''s'') = Some ?en"
    using demo_entries ingest1_scopes [of demo_core "SnapshotIn activity_domain demo_snapshot"]
    by (auto simp: scopeEntry_def split: option.splits)
  then show ?thesis
    using sync_gap_stop_gate [of ?c activity_domain createActivityDomain "demo_frame 7" ?en 0]
    by (auto simp: epochMismatch_def)
qed

text \<open>
  Scopes are isolated: an input never changes the entry of another scope, nor the requests
  pending for it.
\<close>

theorem sync_scopes_isolated:
  assumes "core_inv c" "ingest i c = Inr (out, c')" "(n, sid) \<noteq> (in_domain i, in_scope i)" "colon_free n"
  shows "state_of n sid c' = state_of n sid c \<and> scopeSyncState n sid c' = scopeSyncState n sid c \<and>
    oget (pending c') (dkey n sid) = oget (pending c) (dkey n sid) \<and>
    oget (pending c') (skey n sid) = oget (pending c) (skey n sid)"
proof -
  have "c' = ingest1 i c" using assms(2) by (simp add: ingest1_def)
  then have sc: "scopes c' (n, sid) = scopes c (n, sid)"
    using ingest1_other_scope [of c i n sid] assms(1,3) by (auto simp: core_inv_def)
  have "in_domain i \<in> dom (domains c)"
    using assms(2) ingest_unregistered [of c i] by (cases "domains c (in_domain i)") auto
  then have "colon_free (in_domain i)" using assms(1) by (auto simp: core_inv_def colon_free_domains_def)
  with assms(3,4) have "dkey n sid \<noteq> dkey (in_domain i) (in_scope i)" "skey n sid \<noteq> skey (in_domain i) (in_scope i)"
    using colon_split [of n "in_domain i" sid "in_scope i"] by auto
  with sc ingest_pending_other [OF assms(2)] key_neq show ?thesis
    by (simp add: state_of_def scopeSyncState_def)
qed

theorem sync_scopes_isolated_witness:
  "\<exists>out c'. ingest (FrameIn activity_domain (demo_frame 5)) demo_core = Inr (out, c') \<and>
     state_of activity_domain ''other'' c' = state_of activity_domain ''other'' demo_core"
proof -
  let ?i = "FrameIn activity_domain (demo_frame 5) :: (jsval, jsval) sync_input"
  obtain out c' where i: "ingest ?i demo_core = Inr (out, c')"
    using ingest_registered [of demo_core ?i createActivityDomain] by auto
  have "colon_free activity_domain" by (simp add: colon_free_def activity_domain_def)
  with sync_scopes_isolated [OF demo_core_inv i, of activity_domain "''other''"] i show ?thesis by auto
qed

text \<open>
  The converse of the request invariant fails on one path: a difference page of another epoch queues a snapshot
  request, yet leaves \<open>repairPending\<close> as it was, so a scope can report no outstanding repair while
  its request is pending.
\<close>

theorem sync_difference_epoch_mismatch_untracked:
  assumes "domains c n = Some d" "dc_name d = n" "scopes c (n, df_scopeId r) = Some en"
    and "epochMismatch en (df_epoch r)" "\<not> repairPending en"
  shows "\<exists>c' st. ingestDifference n r c = Inr (EpochRebaselineRequested (df_scopeId r), c') \<and>
    SnapshotRequest n (df_scopeId r) epoch_mismatch \<in> set (pendingRequests c') \<and>
    scopeSyncState n (df_scopeId r) c' = Some st \<and> \<not> ss_repairPending st"
proof -
  let ?rq = "SnapshotRequest n (df_scopeId r) epoch_mismatch"
  have "?rq \<in> set (map snd (oset (requestKey ?rq) ?rq m))" for m
    by (induction m) auto
  then show ?thesis
    using assms
    by (auto simp: ingestDifference_def domainOf_def scopeEntry_def Let_def requestSnapshot_def
        pendingRequests_def scopeSyncState_def)
qed

theorem sync_difference_epoch_mismatch_untracked_witness:
  "\<exists>c' st. ingestDifference activity_domain
       \<lparr>df_scopeId = ''s'', df_epoch = Some ''e2'', df_fromSeq = 0, df_toSeq = 1, df_events = [],
        df_partial = False, df_snapshotRequired = False\<rparr>
       (ingest1 (SnapshotIn activity_domain demo_snapshot) demo_core) = Inr (EpochRebaselineRequested ''s'', c') \<and>
     scopeSyncState activity_domain ''s'' c' = Some st \<and> \<not> ss_repairPending st"
proof -
  let ?c = "ingest1 (SnapshotIn activity_domain demo_snapshot) demo_core"
  let ?r = "\<lparr>df_scopeId = ''s'', df_epoch = Some ''e2'', df_fromSeq = 0, df_toSeq = 1, df_events = [],
        df_partial = False, df_snapshotRequired = False\<rparr> :: jsval sync_difference"
  let ?en = "\<lparr>appliedSeq = Some 0, acceptedFingerprint = None, epoch = Some ''e1'', repairPending = False,
      scope_state = initialActivityState\<rparr>"
  have "scopes ?c (activity_domain, df_scopeId ?r) = Some ?en"
    using demo_entries ingest1_scopes [of demo_core "SnapshotIn activity_domain demo_snapshot"]
    by (auto simp: scopeEntry_def split: option.splits)
  from sync_difference_epoch_mismatch_untracked [OF _ _ this] show ?thesis
    by (auto simp: epochMismatch_def)
qed

section \<open>The domains\<close>

text \<open>
  The read-state register does not depend on the arrival order: two permutations of the same
  frames of one scope, in which a version is never reused for a different fact, leave the same fact.
\<close>

theorem read_state_order_independent:
  assumes "createSyncCore ds b cap = Inr c" "domains c read_state_domain = Some createReadStateDomain"
    and "\<forall>f \<in> set fs. encodeReadStateScopeId f = sid" "mset fs = mset gs"
    and "\<forall>f \<in> set fs. \<forall>g \<in> set fs. rs_readStateVersion f = rs_readStateVersion g \<longrightarrow> f = g"
  shows "state_of read_state_domain sid (ingest_all (read_state_inputs fs) c) =
    state_of read_state_domain sid (ingest_all (read_state_inputs gs) c)"
proof -
  let ?d = createReadStateDomain
  have wn: "well_named c" using assms(1) by (rule well_named_create)
  have fresh: "scopes c (read_state_domain, sid) = None"
    using assms(1) by (auto simp: createSyncCore_def Let_def split: sum.splits)
  have name: "dc_name ?d = read_state_domain" by (simp add: createReadStateDomain_def)
  have reg: "register_entry (scopeEntry ?d sid c)"
    using fresh by (simp add: register_entry_def scopeEntry_def name initial_entry_def createReadStateDomain_def)
  have gs: "\<forall>g \<in> set gs. encodeReadStateScopeId g = sid" using assms(3,4) by (metis set_mset_mset)
  have ver: "x = y" if xy: "x \<in> set (map Some fs)" "y \<in> set (map Some fs)" and "version_rank x = version_rank y" for x y
  proof -
    obtain f g where "x = Some f" "y = Some g" "f \<in> set fs" "g \<in> set fs" using xy by auto
    with that assms(5) show ?thesis by fastforce
  qed
  have "mset (map Some fs) = mset (map Some gs)" using assms(4) by simp
  then have "fold (max_write version_rank) (map Some fs) (scope_state (scopeEntry ?d sid c)) =
      fold (max_write version_rank) (map Some gs) (scope_state (scopeEntry ?d sid c))"
    by (rule fold_max_write_permute) (use ver in blast)
  then have eq: "scope_state (scopeEntry ?d sid (ingest_all (read_state_inputs fs) c)) =
      scope_state (scopeEntry ?d sid (ingest_all (read_state_inputs gs) c))"
    using read_state_run [OF wn assms(2,3) reg] read_state_run [OF wn assms(2) gs reg] by simp
  have dom: "state_of read_state_domain sid (ingest_all (read_state_inputs hs) c) =
      (if hs = [] then None else Some (scope_state (scopeEntry ?d sid (ingest_all (read_state_inputs hs) c))))"
    if "\<forall>h \<in> set hs. encodeReadStateScopeId h = sid" for hs
    using that wn assms(2) fresh by (rule read_state_present)
  show ?thesis using dom [OF assms(3)] dom [OF gs] eq assms(4) by auto
qed

definition demo_fact :: "int \<Rightarrow> read_state_fact" where
  "demo_fact v = \<lparr>rs_serverId = ''srv'', rs_principalId = ''p'', rs_scopeId = ''c'', rs_maxReadSeq = 10 * v,
     rs_readStateVersion = v\<rparr>"

theorem read_state_order_independent_witness:
  "\<exists>c. createSyncCore [createReadStateDomain] None JUndef = Inr c \<and>
     state_of read_state_domain (encodeReadStateScopeId (demo_fact 1))
       (ingest_all (read_state_inputs [demo_fact 1, demo_fact 3, demo_fact 2]) c) =
     state_of read_state_domain (encodeReadStateScopeId (demo_fact 1))
       (ingest_all (read_state_inputs [demo_fact 3, demo_fact 2, demo_fact 1]) c)"
proof -
  obtain c where c: "createSyncCore [createReadStateDomain] None JUndef = Inr c"
    and d: "domains c read_state_domain = Some createReadStateDomain"
    by (simp add: createSyncCore_def createSyncViolationBuffer_def register_domain_def max_safe_integer_def)
      (simp add: createReadStateDomain_def)
  have "\<forall>f \<in> set [demo_fact 1, demo_fact 3, demo_fact 2].
      encodeReadStateScopeId f = encodeReadStateScopeId (demo_fact 1)"
    by (simp add: demo_fact_def encodeReadStateScopeId_def)
  from read_state_order_independent [OF c d this, of "[demo_fact 3, demo_fact 2, demo_fact 1]"] c
  show ?thesis by (auto simp: demo_fact_def)
qed


definition demo_row :: "string \<Rightarrow> string \<Rightarrow> jsval" where
  "demo_row i v = JObj [(''rowId'', JStr i), (''rowVersion'', JStr v), (''maxReadSeq'', JStr ''0''),
     (''readStateVersion'', JStr ''0''), (''lastActivityAt'', JStr ''2026''), (''type'', JStr ''channel'')]"


definition demo_page :: "jsval list \<Rightarrow> jsval list \<Rightarrow> jsval" where
  "demo_page rs ts = JObj [(''type'', JStr ''frame''), (''rows'', JArr rs), (''tombstones'', JArr ts)]"



text \<open>
  C22. No resurrection: once a row id is buried at a version, no sequence of events whatever (frames,
  read-state updates, unknown events) shows a row of that id at that version or an older one.
\<close>

theorem activity_no_resurrection:
  assumes "activity_inv st" "tombstones st k = Some v" "r \<in> set (rows (fold_events es st))" "rowId r = k"
  shows "dec_val v < dec_val (rowVersion r)"
proof -
  have inv: "activity_inv (fold_events es st)" and
    mono: "rank (state_reg st k) \<le> rank (state_reg (fold_events es st) k)"
    using fold_events_inv_rank [OF assms(1)] by auto
  have "state_reg st k = Dead v" using assms(2) by (simp add: state_reg_Dead)
  moreover have "state_reg (fold_events es st) k = Live r"
    using assms(3,4) by (simp add: state_reg_Live [OF inv])
  ultimately have "rank (Dead v) < rank (Live r)" using mono by (auto simp: le_less)
  then have "0 < compareUInt64String (rowVersion r) v" using rank_order(2) by simp
  moreover have "decimal_uint64 v" "decimal_uint64 (rowVersion r)"
    using assms(1-3) inv by (auto simp: activity_inv_def isRowD)
  ultimately show ?thesis by (simp add: compareUInt64String_sgn)
qed

theorem activity_no_resurrection_witness:
  "dec_val ''9'' < dec_val (rowVersion (demo_row ''a'' ''10''))"
proof -
  let ?st = "initialActivityState\<lparr>tombstones := [''a'' \<mapsto> ''9'']\<rparr>"
  have inv: "activity_inv ?st"
    by (simp add: activity_inv_def initialActivityState_def is_digit_def)
  have mem: "demo_row ''a'' ''10'' \<in> set (rows (fold_events [demo_page [demo_row ''a'' ''10''] []] ?st))"
    by (simp add: demo_page_def foldActivityEvent_def applyRowsAndTombstones_def apply_row_def Let_def
        initialActivityState_def index_rows_def sortRows_def demo_row_def isRow_def rowId_def rowVersion_def
        is_digit_def compareUInt64String_def)
  show ?thesis
    by (rule activity_no_resurrection [OF inv _ mem]) (simp_all add: demo_row_def rowId_def)
qed

text \<open>
  C29. The Activity state is canonical after any history: starting from a snapshot of any raw value,
  after any events, the rows are sorted by recency and row id, their ids are distinct, every row is
  valid, no row is also buried, and every tombstone version is a canonical number.
\<close>

theorem activity_state_canonical: "activity_inv (fold_events es (stateFromSnapshot raw))"
  using fold_events_inv_rank [OF snapshot_activity_inv] by blast

section \<open>Primitives\<close>

text \<open>
  The comparison of canonical decimal strings is exact: its result is the sign of the numeric
  difference, without a bound on the number of digits.
\<close>

theorem compareUInt64String_exact:
  assumes "isUInt64String (JStr a)" "isUInt64String (JStr b)"
  shows "compareUInt64String a b = sgn (int (dec_val a) - int (dec_val b))"
  using assms by (intro compareUInt64String_sgn) simp_all

theorem compareUInt64String_exact_witness:
  "compareUInt64String ''9007199254740993'' ''9007199254740992'' =
     sgn (int (dec_val ''9007199254740993'') - int (dec_val ''9007199254740992''))"
  by (rule compareUInt64String_exact) (simp_all add: is_digit_def)

text \<open>
  The violation buffer is the tail of the log: after any pushes onto a fresh buffer, a drain from
  an index returns exactly the logged records from that index on that the capacity still holds, in
  order, and counts those lost to rollover.
\<close>

theorem violation_drain_exact:
  assumes "createSyncViolationBuffer cap d = Inr b" "0 \<le> i" "i \<le> max_safe_integer"
  shows "vb_drain (JInt i) (vb_push_all log b) = Inr
    \<lparr>vd_records = drop (max (nat i) (length log - nat (vb_capacity b))) (number_from 0 log),
     vd_droppedCount = max 0 (int (length log - nat (vb_capacity b)) - i),
     vd_nextIndex = int (length log)\<rparr>"
proof -
  have "buffer_of_log log (vb_push_all log b)"
    using push_all_buffer_of_log [OF create_buffer_of_log [OF assms(1)], of log] by simp
  from drain_of_log [OF this assms(2,3)] show ?thesis
    by (simp add: vb_push_all_capacity)
qed

definition demo_violation :: "string \<Rightarrow> violation_fact" where
  "demo_violation sid = \<lparr>vf_kind = stale_flood, vf_domain = ''d'', vf_scopeId = sid, vf_seq = None, vf_epoch = None\<rparr>"

theorem violation_drain_exact_witness:
  "\<exists>b. createSyncViolationBuffer (JInt 1) False = Inr b \<and>
     vb_drain (JInt 0) (vb_push_all [demo_violation ''x'', demo_violation ''y''] b) = Inr
       \<lparr>vd_records = [indexed (demo_violation ''y'') 1], vd_droppedCount = 1, vd_nextIndex = 2\<rparr>"
proof -
  have c: "createSyncViolationBuffer (JInt 1) False =
      Inr \<lparr>vb_capacity = 1, vb_records = [], vb_nextIndex = 0, vb_onViolation = False, vb_rung = []\<rparr>"
    by (simp add: createSyncViolationBuffer_def max_safe_integer_def)
  from violation_drain_exact [OF c, of 0 "[demo_violation ''x'', demo_violation ''y'']"] c show ?thesis
    by (simp add: max_safe_integer_def)
qed

text \<open>
  Read-state scope ids are collision-safe: facts with the same encoded scope id have the same
  server, principal and scope.
\<close>

theorem read_state_scope_id_injective:
  assumes "encodeReadStateScopeId f = encodeReadStateScopeId g"
  shows "rs_serverId f = rs_serverId g \<and> rs_principalId f = rs_principalId g \<and> rs_scopeId f = rs_scopeId g"
  using assms unfolding encodeReadStateScopeId_def by (rule json_array3_inj)

theorem read_state_scope_id_injective_witness:
  "rs_serverId (demo_fact 1) = rs_serverId (demo_fact 2) \<and> rs_principalId (demo_fact 1) = rs_principalId (demo_fact 2) \<and>
   rs_scopeId (demo_fact 1) = rs_scopeId (demo_fact 2)"
  by (rule read_state_scope_id_injective) (simp add: encodeReadStateScopeId_def demo_fact_def)

end
