(* ===== verification/Machine_Convergence.thy ===== *)
theory Machine_Convergence
  imports Js_Json
begin

text \<open>
  \<open>packages/computer/src/machineConvergenceReducer.ts\<close> with the record types of
  \<open>machineOperationStore.ts\<close>: the pure reducer that drives one machine operation (a restart or an
  upgrade of the machine's supervisor) from its acceptance to its final receipt. Every event names
  the phase version it expects; an event that changes the record produces the next version and the
  effect intents a worker has to perform.

  A nullable string of the code is an option, and where the code tests it for truth the empty
  string counts as absent (\<open>truthy\<close>). Phase versions, epochs and ordinals are unbounded integers:
  the code counts them from zero in steps of one.
\<close>

section \<open>Types\<close>

datatype machine_role = RoleOriginRunner | RoleCoordinator | RoleStandby | RoleService | RoleManagedRunner

record machine_process =
  mp_pid :: int
  mp_startIdentity :: string
  mp_role :: machine_role
  mp_serverId :: "string option"
  mp_version :: "string option"

datatype dispatch_action = Restart | Upgrade

record machine_identity =
  dispatchOperationId :: string
  parentUserOperationId :: "string option"
  dispatchAction :: dispatch_action
  targetVersion :: string
  adapter :: string
  originServerId :: string
  machineId :: string

record machine_acceptance =
  sourceServiceGeneration :: string
  acceptedManagedSetRevision :: int
  acceptedManagedServerIds :: "string list"
  capturedOldProcessIdentities :: "machine_process list"

datatype machine_phase =
    Accepted | Mutation_claimed | First_hop_observed | Handoff_arming | Handoff_armed
  | Old_service_stop_claimed | Old_service_dead | Target_supervisor_live | Managed_set_converged
  | Terminal_outbox | Receipt_observed | Finalized

datatype effect_kind =
    Spawn_coordinator | Spawn_standby | Stop_old_service | Promote_standby | Spawn_managed_runner
  | Write_terminal_outbox

record machine_effect =
  ef_key :: string
  ef_kind :: effect_kind
  ef_process :: "machine_process option"
  ef_managedSetRevision :: "int option"
  ef_targetGeneration :: "string option"

record machine_operation =
  identity :: machine_identity
  acceptance :: machine_acceptance
  phase :: machine_phase
  phaseVersion :: int
  claimEpoch :: int
  leaseHolder :: "string option"
  leaseUntil :: "string option"
  firstHopProgressOrdinal :: int
  currentManagedSetRevision :: int
  observedTargetGeneration :: "string option"
  originRunner :: "machine_process option"
  coordinator :: "machine_process option"
  standby :: "machine_process option"
  targetSupervisor :: "machine_process option"
  observedOldProcesses :: "machine_process list"
  effectIntents :: "machine_effect list"
  terminalOutbox :: "(string \<times> string) option"
  receipt :: "(string \<times> string) option"

datatype arm_role = ArmCoordinator | ArmStandby

datatype crash_role = CrashOriginRunner | CrashCoordinator | CrashStandby | CrashTargetSupervisor

datatype machine_event =
    Claim (ev_expected: int) int string string
  | First_hop (ev_expected: int) int
  | Arm_leg (ev_expected: int) arm_role machine_process
  | Leg_crashed (ev_expected: int) crash_role machine_process
  | Request_old_service_stop (ev_expected: int) machine_process
  | Old_service_gone (ev_expected: int) machine_process
  | Target_generation_allocated (ev_expected: int) string
  | Target_live (ev_expected: int) string machine_process
  | Managed_set_observed (ev_expected: int) int "machine_process list"
  | Write_outbox (ev_expected: int) string
  | Observe_receipt (ev_expected: int) string
  | Progress (ev_expected: int) int
  | Reconcile (ev_expected: int) crash_role
  | Explicit_start (ev_expected: int) machine_process

datatype machine_result =
    Applied (result_record: machine_operation) (result_effects: "machine_effect list")
  | Replay (result_record: machine_operation)
  | Conflict (result_record: machine_operation)
  | Rejected string (result_record: machine_operation)

section \<open>Helpers\<close>

definition sameIdentity :: "machine_identity \<Rightarrow> machine_identity \<Rightarrow> bool" where
  "sameIdentity l r \<longleftrightarrow>
     dispatchOperationId l = dispatchOperationId r \<and>
     parentUserOperationId l = parentUserOperationId r \<and>
     dispatchAction l = dispatchAction r \<and>
     targetVersion l = targetVersion r \<and>
     adapter l = adapter r \<and>
     originServerId l = originServerId r \<and>
     machineId l = machineId r"

definition sameProcess :: "machine_process option \<Rightarrow> machine_process \<Rightarrow> bool" where
  "sameProcess left r = (case left of
     None \<Rightarrow> False
   | Some l \<Rightarrow>
       mp_pid l = mp_pid r \<and> mp_startIdentity l = mp_startIdentity r \<and> mp_role l = mp_role r \<and>
       mp_serverId l = mp_serverId r \<and> mp_version l = mp_version r)"

definition PHASE_ORDER :: "machine_phase list" where
  "PHASE_ORDER = [Accepted, Mutation_claimed, First_hop_observed, Handoff_arming, Handoff_armed,
     Old_service_stop_claimed, Old_service_dead, Target_supervisor_live, Managed_set_converged,
     Terminal_outbox, Receipt_observed, Finalized]"

text \<open>\<open>indexOf\<close>: every phase is listed, so the not-found value does not occur.\<close>

fun index_of :: "'a \<Rightarrow> 'a list \<Rightarrow> nat" where
  "index_of x [] = 0"
| "index_of x (y # ys) = (if x = y then 0 else Suc (index_of x ys))"

definition phase_index :: "machine_phase \<Rightarrow> nat" where
  "phase_index p = index_of p PHASE_ORDER"

definition atLeast_phase :: "machine_operation \<Rightarrow> machine_phase \<Rightarrow> bool" where
  "atLeast_phase r p \<longleftrightarrow> phase_index p \<le> phase_index (phase r)"

definition truthy :: "string option \<Rightarrow> bool" where
  "truthy g \<longleftrightarrow> g \<noteq> None \<and> g \<noteq> Some ''''"

definition appendProcess :: "machine_process list \<Rightarrow> machine_process \<Rightarrow> machine_process list" where
  "appendProcess ps p = (if \<exists>q \<in> set ps. sameProcess (Some q) p then ps else ps @ [p])"

definition createMachineOperationRecord ::
  "machine_identity \<Rightarrow> machine_acceptance \<Rightarrow> machine_process \<Rightarrow> machine_operation" where
  "createMachineOperationRecord i a p =
     \<lparr>identity = i, acceptance = a, phase = Accepted, phaseVersion = 0, claimEpoch = 0, leaseHolder = None,
      leaseUntil = None, firstHopProgressOrdinal = 0,
      currentManagedSetRevision = acceptedManagedSetRevision a, observedTargetGeneration = None,
      originRunner = Some p, coordinator = None, standby = None, targetSupervisor = None,
      observedOldProcesses = [], effectIntents = [], terminalOutbox = None, receipt = None\<rparr>"

definition acceptMachineOperation :: "machine_operation option \<Rightarrow> machine_operation \<Rightarrow> machine_result" where
  "acceptMachineOperation existing incoming = (case existing of
     None \<Rightarrow> Applied incoming []
   | Some e \<Rightarrow> if \<not> sameIdentity (identity e) (identity incoming) then Conflict e else Replay e)"

definition withEffect :: "machine_operation \<Rightarrow> machine_effect \<Rightarrow> machine_operation \<times> machine_effect list" where
  "withEffect r e = (r\<lparr>effectIntents := effectIntents r @ [e]\<rparr>, [e])"

definition applied :: "machine_operation \<times> machine_effect list \<Rightarrow> machine_result" where
  "applied re = Applied ((fst re)\<lparr>phaseVersion := phaseVersion (fst re) + 1\<rparr>) (snd re)"

definition withUniqueEffect ::
  "machine_operation \<Rightarrow> machine_effect \<Rightarrow> machine_operation \<times> machine_effect list" where
  "withUniqueEffect r e =
     (if \<exists>c \<in> set (effectIntents r). ef_key c = ef_key e then (r, []) else withEffect r e)"

definition effect :: "string \<Rightarrow> effect_kind \<Rightarrow> machine_effect" where
  "effect k kd = \<lparr>ef_key = k, ef_kind = kd, ef_process = None, ef_managedSetRevision = None,
     ef_targetGeneration = None\<rparr>"

definition coordinator_effect :: "machine_operation \<Rightarrow> machine_effect" where
  "coordinator_effect r = effect
     (''coordinator:'' @ dispatchOperationId (identity r) @ '':'' @ show_int (claimEpoch r + 1)) Spawn_coordinator"

definition standby_effect :: "machine_operation \<Rightarrow> machine_effect" where
  "standby_effect r = effect
     (''standby:'' @ dispatchOperationId (identity r) @ '':'' @ show_int (claimEpoch r + 1)) Spawn_standby"

definition outbox_effect :: "machine_operation \<Rightarrow> machine_effect" where
  "outbox_effect r = effect (''outbox:'' @ dispatchOperationId (identity r)) Write_terminal_outbox"

definition stop_effect :: "machine_operation \<Rightarrow> machine_process \<Rightarrow> machine_effect" where
  "stop_effect r p = (effect (''stop:'' @ dispatchOperationId (identity r) @ '':'' @ show_int (mp_pid p) @ '':'' @
     mp_startIdentity p) Stop_old_service)\<lparr>ef_process := Some p\<rparr>"

definition source_service :: "machine_operation \<Rightarrow> machine_process option" where
  "source_service r = List.find (\<lambda>p. mp_role p = RoleService) (capturedOldProcessIdentities (acceptance r))"

definition advance_phase :: "machine_phase \<Rightarrow> machine_operation \<Rightarrow> machine_operation" where
  "advance_phase p r = (if atLeast_phase r p then r else r\<lparr>phase := p\<rparr>)"

section \<open>One definition per event\<close>

definition reduce_claim :: "int \<Rightarrow> string \<Rightarrow> string \<Rightarrow> machine_operation \<Rightarrow> machine_result" where
  "reduce_claim ce holder until r =
     (if ce < claimEpoch r then Rejected ''STALE_CLAIM_EPOCH'' r
      else if ce = claimEpoch r \<and> leaseHolder r = Some holder then Replay r
      else if ce = claimEpoch r \<and> leaseHolder r \<noteq> Some holder then Rejected ''CLAIM_EPOCH_CONFLICT'' r
      else applied ((advance_phase Mutation_claimed r)
        \<lparr>claimEpoch := ce, leaseHolder := Some holder, leaseUntil := Some until\<rparr>, []))"

definition reduce_progress :: "int \<Rightarrow> machine_operation \<Rightarrow> machine_result" where
  "reduce_progress ordinal r =
     (if ordinal \<le> firstHopProgressOrdinal r then Replay r
      else applied ((advance_phase First_hop_observed r)\<lparr>firstHopProgressOrdinal := ordinal\<rparr>, []))"

definition leg_of :: "arm_role \<Rightarrow> machine_operation \<Rightarrow> machine_process option" where
  "leg_of rl r = (case rl of ArmCoordinator \<Rightarrow> coordinator r | ArmStandby \<Rightarrow> standby r)"

definition set_leg :: "arm_role \<Rightarrow> machine_process \<Rightarrow> machine_operation \<Rightarrow> machine_operation" where
  "set_leg rl p r = (case rl of ArmCoordinator \<Rightarrow> r\<lparr>coordinator := Some p\<rparr> | ArmStandby \<Rightarrow> r\<lparr>standby := Some p\<rparr>)"

definition reduce_arm_leg :: "arm_role \<Rightarrow> machine_process \<Rightarrow> machine_operation \<Rightarrow> machine_result" where
  "reduce_arm_leg rl p r =
     (if atLeast_phase r Old_service_stop_claimed then Rejected ''HANDOFF_ALREADY_COMMITTED'' r
      else if leg_of rl r \<noteq> None \<and> \<not> sameProcess (leg_of rl r) p then Rejected ''HANDOFF_LEG_IDENTITY_CONFLICT'' r
      else if leg_of rl r \<noteq> None then Replay r
      else applied (set_leg rl p (r\<lparr>phase :=
        (if rl = ArmStandby \<and> coordinator r \<noteq> None \<or> rl = ArmCoordinator \<and> standby r \<noteq> None
         then Handoff_armed else Handoff_arming)\<rparr>), []))"

definition crash_leg_of :: "crash_role \<Rightarrow> machine_operation \<Rightarrow> machine_process option" where
  "crash_leg_of rl r = (case rl of
     CrashOriginRunner \<Rightarrow> originRunner r
   | CrashCoordinator \<Rightarrow> coordinator r
   | CrashStandby \<Rightarrow> standby r
   | CrashTargetSupervisor \<Rightarrow> targetSupervisor r)"

definition drop_leg :: "crash_role \<Rightarrow> machine_operation \<Rightarrow> machine_operation" where
  "drop_leg rl r = (case rl of
     CrashOriginRunner \<Rightarrow> r\<lparr>originRunner := None\<rparr>
   | CrashCoordinator \<Rightarrow> r\<lparr>coordinator := None\<rparr>
   | CrashStandby \<Rightarrow> r\<lparr>standby := None\<rparr>
   | CrashTargetSupervisor \<Rightarrow>
       r\<lparr>phase := Old_service_dead, observedTargetGeneration := None, targetSupervisor := None,
         currentManagedSetRevision := acceptedManagedSetRevision (acceptance r), terminalOutbox := None,
         receipt := None\<rparr>)"

definition crash_effect :: "crash_role \<Rightarrow> machine_operation \<Rightarrow> machine_effect option" where
  "crash_effect rl r = (case rl of
     CrashCoordinator \<Rightarrow> Some (coordinator_effect r)
   | CrashStandby \<Rightarrow> Some (standby_effect r)
   | CrashTargetSupervisor \<Rightarrow> Some (effect
       (''promote:'' @ dispatchOperationId (identity r) @ '':'' @ show_int (claimEpoch r + 1)) Promote_standby)
   | CrashOriginRunner \<Rightarrow> None)"

definition reduce_leg_crashed :: "crash_role \<Rightarrow> machine_process \<Rightarrow> machine_operation \<Rightarrow> machine_result" where
  "reduce_leg_crashed rl p r =
     (if receipt r \<noteq> None then Replay r
      else if \<not> sameProcess (crash_leg_of rl r) p then Replay r
      else let nxt = (drop_leg rl r)\<lparr>observedOldProcesses := appendProcess (observedOldProcesses r) p\<rparr> in
        case crash_effect rl r of
          None \<Rightarrow> applied (nxt, [])
        | Some e \<Rightarrow> applied (withUniqueEffect nxt e))"

definition reduce_request_stop :: "machine_process \<Rightarrow> machine_operation \<Rightarrow> machine_result" where
  "reduce_request_stop src r =
     (if coordinator r = None \<or> standby r = None \<or> phase r \<noteq> Handoff_armed then Rejected ''HANDOFF_NOT_ARMED'' r
      else if source_service r = None \<or> \<not> sameProcess (source_service r) src
        then Rejected ''SOURCE_SERVICE_IDENTITY_MISMATCH'' r
      else applied (withUniqueEffect (r\<lparr>phase := Old_service_stop_claimed\<rparr>) (stop_effect r src)))"

definition reduce_old_service_dead :: "machine_process \<Rightarrow> machine_operation \<Rightarrow> machine_result" where
  "reduce_old_service_dead src r =
     (if phase r \<noteq> Old_service_stop_claimed then Rejected ''OLD_SERVICE_STOP_NOT_CLAIMED'' r
      else if source_service r = None \<or> \<not> sameProcess (source_service r) src
        then Rejected ''SOURCE_SERVICE_IDENTITY_MISMATCH'' r
      else applied (r\<lparr>phase := Old_service_dead,
        observedOldProcesses := appendProcess (observedOldProcesses r) src\<rparr>, []))"

definition reduce_generation :: "string \<Rightarrow> machine_operation \<Rightarrow> machine_result" where
  "reduce_generation g r =
     (if observedTargetGeneration r = Some g then Replay r
      else if truthy (observedTargetGeneration r) then Rejected ''TARGET_GENERATION_CONFLICT'' r
      else applied (r\<lparr>observedTargetGeneration := Some g\<rparr>, []))"

definition reduce_target_live :: "string \<Rightarrow> machine_process \<Rightarrow> machine_operation \<Rightarrow> machine_result" where
  "reduce_target_live g p r =
     (if \<not> atLeast_phase r Old_service_dead then Rejected ''OLD_SERVICE_STILL_LIVE'' r
      else if observedTargetGeneration r \<noteq> Some g then Rejected ''TARGET_GENERATION_MISMATCH'' r
      else if mp_role p \<noteq> RoleService \<or> mp_version p \<noteq> Some (targetVersion (identity r))
        then Rejected ''TARGET_SUPERVISOR_ATTESTATION_INVALID'' r
      else applied (r\<lparr>phase := Target_supervisor_live, observedTargetGeneration := Some g,
        targetSupervisor := Some p\<rparr>, []))"

definition reduce_managed_set :: "int \<Rightarrow> machine_process list \<Rightarrow> machine_operation \<Rightarrow> machine_result" where
  "reduce_managed_set rv live r =
     (if phase r \<noteq> Target_supervisor_live then Rejected ''TARGET_SUPERVISOR_NOT_LIVE'' r
      else if rv < acceptedManagedSetRevision (acceptance r)
        \<or> (\<exists>sid \<in> set (acceptedManagedServerIds (acceptance r)). Some sid \<notin> set (map mp_serverId live))
        \<or> (\<exists>p \<in> set live. mp_role p \<noteq> RoleManagedRunner \<or> mp_version p \<noteq> Some (targetVersion (identity r)))
        then Rejected ''MANAGED_SET_NOT_CONVERGED'' r
      else applied (r\<lparr>phase := Managed_set_converged, currentManagedSetRevision := rv\<rparr>, []))"

definition reduce_write_outbox :: "string \<Rightarrow> machine_operation \<Rightarrow> machine_result" where
  "reduce_write_outbox at r =
     (if phase r \<noteq> Managed_set_converged then Rejected ''MACHINE_CONVERGENCE_INCOMPLETE'' r
      else if terminalOutbox r \<noteq> None then Replay r
      else applied (withUniqueEffect
        (r\<lparr>phase := Terminal_outbox, terminalOutbox := Some (dispatchOperationId (identity r), at)\<rparr>)
        (outbox_effect r)))"

definition reduce_observe_receipt :: "string \<Rightarrow> machine_operation \<Rightarrow> machine_result" where
  "reduce_observe_receipt at r =
     (if terminalOutbox r = None then Rejected ''TERMINAL_OUTBOX_MISSING'' r
      else if receipt r \<noteq> None then Replay r
      else applied (r\<lparr>phase := Receipt_observed, receipt := Some (dispatchOperationId (identity r), at)\<rparr>, []))"

definition reduce_explicit_start :: "machine_process \<Rightarrow> machine_operation \<Rightarrow> machine_result" where
  "reduce_explicit_start p r =
     (if originRunner r \<noteq> None \<and> sameProcess (originRunner r) p then Replay r
      else applied (r\<lparr>originRunner := Some p, leaseHolder := None, leaseUntil := None\<rparr>, []))"

definition reconcile_effect :: "machine_operation \<Rightarrow> machine_effect option" where
  "reconcile_effect r =
     (if coordinator r = None \<and> \<not> atLeast_phase r Target_supervisor_live then Some (coordinator_effect r)
      else if coordinator r \<noteq> None \<and> standby r = None \<and> \<not> atLeast_phase r Old_service_stop_claimed
        then Some (standby_effect r)
      else if phase r = Old_service_dead \<and> truthy (observedTargetGeneration r)
        then Some ((effect (''promote:'' @ dispatchOperationId (identity r) @ '':'' @ the (observedTargetGeneration r))
          Promote_standby)\<lparr>ef_targetGeneration := observedTargetGeneration r\<rparr>)
      else if phase r = Managed_set_converged \<and> terminalOutbox r = None then Some (outbox_effect r)
      else None)"

definition reduce_reconcile :: "machine_operation \<Rightarrow> machine_result" where
  "reduce_reconcile r =
     (if phase r = Receipt_observed
      then applied (r\<lparr>phase := Finalized, leaseHolder := None, leaseUntil := None\<rparr>, [])
      else case reconcile_effect r of
        None \<Rightarrow> Replay r
      | Some e \<Rightarrow> applied (withUniqueEffect r e))"

fun is_reconcile :: "machine_event \<Rightarrow> bool" where
  "is_reconcile (Reconcile _ _) = True"
| "is_reconcile _ = False"

fun reduce_event :: "machine_event \<Rightarrow> machine_operation \<Rightarrow> machine_result" where
  "reduce_event (Claim _ ce holder until) r = reduce_claim ce holder until r"
| "reduce_event (First_hop _ ordinal) r = reduce_progress ordinal r"
| "reduce_event (Arm_leg _ rl p) r = reduce_arm_leg rl p r"
| "reduce_event (Leg_crashed _ rl p) r = reduce_leg_crashed rl p r"
| "reduce_event (Request_old_service_stop _ src) r = reduce_request_stop src r"
| "reduce_event (Old_service_gone _ src) r = reduce_old_service_dead src r"
| "reduce_event (Target_generation_allocated _ g) r = reduce_generation g r"
| "reduce_event (Target_live _ g p) r = reduce_target_live g p r"
| "reduce_event (Managed_set_observed _ rv live) r = reduce_managed_set rv live r"
| "reduce_event (Write_outbox _ at) r = reduce_write_outbox at r"
| "reduce_event (Observe_receipt _ at) r = reduce_observe_receipt at r"
| "reduce_event (Progress _ ordinal) r = reduce_progress ordinal r"
| "reduce_event (Explicit_start _ p) r = reduce_explicit_start p r"
| "reduce_event (Reconcile _ _) r = reduce_reconcile r"

definition reduceMachineConvergence :: "machine_operation \<Rightarrow> machine_event \<Rightarrow> machine_result" where
  "reduceMachineConvergence r ev =
     (if ev_expected ev \<noteq> phaseVersion r then Rejected ''STALE_PHASE_VERSION'' r
      else if phase r = Finalized \<and> \<not> is_reconcile ev then Replay r
      else reduce_event ev r)"

end
