(* ===== verification/Machine_Safety.thy ===== *)
theory Machine_Safety
  imports Machine_Convergence
begin

text \<open>
  Runs of the machine convergence reducer. A run is a chain of applied events; the invariant of the
  reachable records ties the phase to the evidence the record holds, and the log of effect intents
  to the effects that were handed to the worker.
\<close>

section \<open>The reducer changes a record only when it applies\<close>

lemma sameProcess_iff [simp]: "sameProcess (Some q) p \<longleftrightarrow> q = p" "\<not> sameProcess None p"
  by (auto simp: sameProcess_def)

lemma sameProcess_Some: "sameProcess x p \<longleftrightarrow> x = Some p"
  by (cases x) auto

lemma sameIdentity_iff [simp]: "sameIdentity i j \<longleftrightarrow> i = j"
  by (auto simp: sameIdentity_def)

lemmas reduce_defs = reduce_claim_def reduce_progress_def reduce_arm_leg_def reduce_leg_crashed_def
  reduce_request_stop_def reduce_old_service_dead_def reduce_generation_def reduce_target_live_def
  reduce_managed_set_def reduce_write_outbox_def reduce_observe_receipt_def reduce_explicit_start_def
  reduce_reconcile_def

lemma applied_simps [simp]:
  "applied re = Applied r fs \<longleftrightarrow> r = (fst re)\<lparr>phaseVersion := phaseVersion (fst re) + 1\<rparr> \<and> fs = snd re"
  "applied re \<noteq> Replay q" "applied re \<noteq> Conflict q" "applied re \<noteq> Rejected c q"
  by (auto simp: applied_def)

lemma withUniqueEffect_cases:
  obtains "withUniqueEffect r e = (r, [])" "ef_key e \<in> ef_key ` set (effectIntents r)"
  | "withUniqueEffect r e = (r\<lparr>effectIntents := effectIntents r @ [e]\<rparr>, [e])" "ef_key e \<notin> ef_key ` set (effectIntents r)"
proof (cases "ef_key e \<in> ef_key ` set (effectIntents r)")
  case True
  then have "withUniqueEffect r e = (r, [])" by (auto simp: withUniqueEffect_def)
  then show thesis using True by (rule that(1))
next
  case False
  then have "\<not> (\<exists>c \<in> set (effectIntents r). ef_key c = ef_key e)" by (metis imageI)
  then have "withUniqueEffect r e = (r\<lparr>effectIntents := effectIntents r @ [e]\<rparr>, [e])"
    unfolding withUniqueEffect_def withEffect_def by simp
  then show thesis using False by (rule that(2))
qed

lemma advance_phase_frame [frame_specs, simp]:
  "phaseVersion (advance_phase p r) = phaseVersion r" "identity (advance_phase p r) = identity r"
  "acceptance (advance_phase p r) = acceptance r" "effectIntents (advance_phase p r) = effectIntents r"
  "terminalOutbox (advance_phase p r) = terminalOutbox r" "receipt (advance_phase p r) = receipt r"
  "targetSupervisor (advance_phase p r) = targetSupervisor r"
  "observedTargetGeneration (advance_phase p r) = observedTargetGeneration r"
  by (simp_all add: advance_phase_def)

lemma leg_frame [frame_specs, simp]:
  "phaseVersion (set_leg rl p r) = phaseVersion r" "identity (set_leg rl p r) = identity r"
  "acceptance (set_leg rl p r) = acceptance r" "effectIntents (set_leg rl p r) = effectIntents r"
  "terminalOutbox (set_leg rl p r) = terminalOutbox r" "receipt (set_leg rl p r) = receipt r"
  "targetSupervisor (set_leg rl p r) = targetSupervisor r" "phase (set_leg rl p r) = phase r"
  "observedTargetGeneration (set_leg rl p r) = observedTargetGeneration r"
  "phaseVersion (drop_leg cl r) = phaseVersion r" "identity (drop_leg cl r) = identity r"
  "acceptance (drop_leg cl r) = acceptance r" "effectIntents (drop_leg cl r) = effectIntents r"
  by (cases rl; cases cl; simp add: set_leg_def drop_leg_def)+

text \<open>Every applied event is an update of the record followed by at most one fresh intent.\<close>

definition extends_log :: "machine_operation \<Rightarrow> machine_operation \<Rightarrow> machine_effect list \<Rightarrow> bool" where
  "extends_log r r' fs \<longleftrightarrow>
     identity r' = identity r \<and> acceptance r' = acceptance r \<and> phaseVersion r' = phaseVersion r + 1 \<and>
     effectIntents r' = effectIntents r @ fs \<and>
     (fs = [] \<or> (\<exists>e. fs = [e] \<and> ef_key e \<notin> ef_key ` set (effectIntents r)))"

lemma unique_effect_frame [frame_specs, simp]:
  "identity (fst (withUniqueEffect q e)) = identity q" "acceptance (fst (withUniqueEffect q e)) = acceptance q"
  "phaseVersion (fst (withUniqueEffect q e)) = phaseVersion q" "phase (fst (withUniqueEffect q e)) = phase q"
  "terminalOutbox (fst (withUniqueEffect q e)) = terminalOutbox q" "receipt (fst (withUniqueEffect q e)) = receipt q"
  "targetSupervisor (fst (withUniqueEffect q e)) = targetSupervisor q"
  "observedTargetGeneration (fst (withUniqueEffect q e)) = observedTargetGeneration q"
  "effectIntents (fst (withUniqueEffect q e)) = effectIntents q @ snd (withUniqueEffect q e)"
  by (rule withUniqueEffect_cases [of q e]; simp)+

lemma unique_effect_fresh:
  "snd (withUniqueEffect q e) = [] \<or>
    snd (withUniqueEffect q e) = [e] \<and> ef_key e \<notin> ef_key ` set (effectIntents q)"
  by (rule withUniqueEffect_cases [of q e]) simp_all

lemma unique_effect_fresh':
  assumes "effectIntents q = fs"
  shows "snd (withUniqueEffect q e) = [] \<or>
    (\<exists>e'. snd (withUniqueEffect q e) = [e'] \<and> ef_key e' \<notin> ef_key ` set fs)"
  using unique_effect_fresh [of q e] assms by blast

lemma reduce_event_extends_log:
  assumes "reduce_event ev r = Applied r' fs"
  shows "extends_log r r' fs"
  using assms
  by (cases ev)
    (auto simp: reduce_defs extends_log_def Let_def split: if_splits option.splits simp del: disj_not1
      intro!: unique_effect_fresh')

lemma reduce_event_unchanged:
  "\<forall>r' fs. reduce_event ev r \<noteq> Applied r' fs \<Longrightarrow> result_record (reduce_event ev r) = r"
  by (cases ev) (auto simp: reduce_defs applied_def Let_def split: if_splits option.splits)


section \<open>The invariant\<close>

lemma phase_index_simps [simp]:
  "phase_index Accepted = 0" "phase_index Mutation_claimed = 1" "phase_index First_hop_observed = 2"
  "phase_index Handoff_arming = 3" "phase_index Handoff_armed = 4" "phase_index Old_service_stop_claimed = 5"
  "phase_index Old_service_dead = 6" "phase_index Target_supervisor_live = 7"
  "phase_index Managed_set_converged = 8" "phase_index Terminal_outbox = 9" "phase_index Receipt_observed = 10"
  "phase_index Finalized = 11"
  by (simp_all add: phase_index_def PHASE_ORDER_def)

lemma phase_index_inject [simp]: "phase_index p = phase_index q \<longleftrightarrow> p = q"
  by (cases p; cases q) simp_all

lemma advance_phase_cases: "advance_phase p r = r \<or> advance_phase p r = r\<lparr>phase := p\<rparr> \<and> phase_index (phase r) < phase_index p"
  by (auto simp: advance_phase_def atLeast_phase_def)

lemma advance_phase_early [simp]:
  "phase_index p < n \<Longrightarrow> n \<le> phase_index (phase (advance_phase p r)) \<longleftrightarrow> n \<le> phase_index (phase r)"
  "phase_index p < phase_index q \<Longrightarrow> phase (advance_phase p r) = q \<longleftrightarrow> phase r = q"
  using advance_phase_cases [of p r] by auto

text \<open>The phase is backed by the evidence the record holds.\<close>

definition evidence_inv :: "machine_operation \<Rightarrow> bool" where
  "evidence_inv r \<longleftrightarrow>
     (targetSupervisor r \<noteq> None \<longleftrightarrow> 7 \<le> phase_index (phase r)) \<and>
     (\<forall>p. targetSupervisor r = Some p \<longrightarrow>
        mp_role p = RoleService \<and> mp_version p = Some (targetVersion (identity r)) \<and>
        observedTargetGeneration r \<noteq> None) \<and>
     (terminalOutbox r \<noteq> None \<longrightarrow> targetSupervisor r \<noteq> None) \<and>
     (receipt r \<noteq> None \<longrightarrow> terminalOutbox r \<noteq> None) \<and>
     (phase r = Terminal_outbox \<longrightarrow> terminalOutbox r \<noteq> None) \<and>
     (phase r = Receipt_observed \<or> phase r = Finalized \<longrightarrow> receipt r \<noteq> None)"

lemma evidence_inv_create: "evidence_inv (createMachineOperationRecord i a p)"
  by (simp add: evidence_inv_def createMachineOperationRecord_def)

lemma evidence_inv_event:
  assumes "evidence_inv r" "reduce_event ev r = Applied r' fs" "phase r \<noteq> Finalized \<or> is_reconcile ev"
  shows "evidence_inv r'"
  using assms
proof (cases ev)
  case (Leg_crashed n rl p)
  with assms show ?thesis
    by (cases rl) (auto simp: reduce_defs evidence_inv_def Let_def drop_leg_def crash_effect_def
        split: if_splits)
qed (auto simp: reduce_defs evidence_inv_def atLeast_phase_def split: if_splits option.splits)

text \<open>
  The log of intents. A stop intent is recognised by its key, names the captured service, and is in
  the log exactly when the stop was claimed.
\<close>

definition stop_intents :: "machine_operation \<Rightarrow> machine_effect list" where
  "stop_intents r = filter (\<lambda>e. ef_kind e = Stop_old_service) (effectIntents r)"

definition log_inv :: "machine_operation \<Rightarrow> bool" where
  "log_inv r \<longleftrightarrow>
     distinct (map ef_key (effectIntents r)) \<and>
     (\<forall>e \<in> set (effectIntents r). take 5 (ef_key e) = ''stop:'' \<longleftrightarrow> ef_kind e = Stop_old_service) \<and>
     (\<forall>e \<in> set (stop_intents r). ef_process e = source_service r \<and> source_service r \<noteq> None) \<and>
     length (stop_intents r) = (if atLeast_phase r Old_service_stop_claimed then 1 else 0)"

lemma log_inv_create: "log_inv (createMachineOperationRecord i a p)"
  by (simp add: log_inv_def createMachineOperationRecord_def stop_intents_def atLeast_phase_def)

lemma effect_simps [simp]:
  "ef_key (effect k kd) = k" "ef_kind (effect k kd) = kd" "ef_process (effect k kd) = None"
  by (simp_all add: effect_def)

lemma extends_log_distinct:
  assumes "extends_log r r' fs" "distinct (map ef_key (effectIntents r))"
  shows "distinct (map ef_key (effectIntents r'))"
proof -
  consider "fs = []" | e where "fs = [e]" "ef_key e \<notin> set (map ef_key (effectIntents r))"
    using assms(1) by (auto simp: extends_log_def)
  then show ?thesis
    by cases (use assms in \<open>simp_all add: extends_log_def\<close>)
qed

lemma log_inv_quiet:
  assumes "log_inv r" "extends_log r r' fs"
    "\<forall>e \<in> set fs. ef_kind e \<noteq> Stop_old_service \<and> take 5 (ef_key e) \<noteq> ''stop:''"
    "atLeast_phase r' Old_service_stop_claimed \<longleftrightarrow> atLeast_phase r Old_service_stop_claimed"
  shows "log_inv r'"
proof -
  have "filter (\<lambda>e. ef_kind e = Stop_old_service) fs = []" using assms(3) by (simp add: filter_empty_conv)
  then have "stop_intents r' = stop_intents r" using assms(2) by (simp add: stop_intents_def extends_log_def)
  moreover have "source_service r' = source_service r" using assms(2) by (simp add: source_service_def extends_log_def)
  moreover have "distinct (map ef_key (effectIntents r'))"
    using assms(1,2) by (simp add: log_inv_def extends_log_distinct)
  moreover have "set (effectIntents r') = set (effectIntents r) \<union> set fs"
    using assms(2) by (simp add: extends_log_def)
  ultimately show ?thesis using assms(1,3,4) by (auto simp: log_inv_def)
qed

lemma log_inv_stop:
  assumes "log_inv r" "reduce_request_stop src r = Applied r' fs"
  shows "log_inv r' \<and> fs = [stop_effect r src]"
proof -
  let ?e = "stop_effect r src" and ?q = "r\<lparr>phase := Old_service_stop_claimed\<rparr>"
  have src: "source_service r = Some src" and ph: "phase r = Handoff_armed"
    using assms(2) by (auto simp: reduce_request_stop_def sameProcess_Some split: if_splits)
  have none: "stop_intents r = []" using assms(1) ph by (simp add: log_inv_def atLeast_phase_def)
  have key: "take 5 (ef_key ?e) = ''stop:''" "ef_kind ?e = Stop_old_service" "ef_process ?e = Some src"
    by (simp_all add: stop_effect_def effect_def)
  have fresh: "ef_key ?e \<notin> ef_key ` set (effectIntents ?q)"
  proof
    assume "ef_key ?e \<in> ef_key ` set (effectIntents ?q)"
    then obtain d where "d \<in> set (effectIntents r)" "ef_key d = ef_key ?e" by auto
    moreover from this key(1) have "take 5 (ef_key d) = ''stop:''" by simp
    ultimately have "ef_kind d = Stop_old_service" using assms(1) unfolding log_inv_def by blast
    with \<open>d \<in> set (effectIntents r)\<close> have "d \<in> set (stop_intents r)" by (simp add: stop_intents_def)
    with none show False by simp
  qed
  then have w: "withUniqueEffect ?q ?e = (?q\<lparr>effectIntents := effectIntents r @ [?e]\<rparr>, [?e])"
    by (rule_tac withUniqueEffect_cases [of ?q ?e]) simp_all
  then have r': "r' = r\<lparr>phase := Old_service_stop_claimed, effectIntents := effectIntents r @ [?e],
      phaseVersion := phaseVersion r + 1\<rparr>" and fs: "fs = [?e]"
    using assms(2) by (auto simp: reduce_request_stop_def split: if_splits)
  have "stop_intents r' = [?e]" "source_service r' = source_service r"
    using none key(2) r' by (simp_all add: stop_intents_def source_service_def)
  then show ?thesis
    using assms(1) r' fs key src fresh by (simp add: log_inv_def atLeast_phase_def)
qed


lemma other_effect_keys:
  "ef_kind (coordinator_effect r) \<noteq> Stop_old_service \<and> take 5 (ef_key (coordinator_effect r)) \<noteq> ''stop:''"
  "ef_kind (standby_effect r) \<noteq> Stop_old_service \<and> take 5 (ef_key (standby_effect r)) \<noteq> ''stop:''"
  "ef_kind (outbox_effect r) \<noteq> Stop_old_service \<and> take 5 (ef_key (outbox_effect r)) \<noteq> ''stop:''"
  by (simp_all add: coordinator_effect_def standby_effect_def outbox_effect_def)

lemma crash_effect_other:
  "crash_effect rl r = Some e \<Longrightarrow> ef_kind e \<noteq> Stop_old_service \<and> take 5 (ef_key e) \<noteq> ''stop:''"
  by (cases rl) (auto simp: crash_effect_def other_effect_keys)

lemma reconcile_effect_other:
  "reconcile_effect r = Some e \<Longrightarrow> ef_kind e \<noteq> Stop_old_service \<and> take 5 (ef_key e) \<noteq> ''stop:''"
  by (auto simp: reconcile_effect_def other_effect_keys effect_def split: if_splits)

lemma unique_effect_member: "d \<in> set (snd (withUniqueEffect q e)) \<Longrightarrow> d = e"
  using unique_effect_fresh [of q e] by auto

lemma quiet_event_effects:
  assumes "reduce_event ev r = Applied r' fs" "\<forall>n src. ev \<noteq> Request_old_service_stop n src" "e \<in> set fs"
  shows "ef_kind e \<noteq> Stop_old_service \<and> take 5 (ef_key e) \<noteq> ''stop:''"
  using assms
proof (cases ev)
  case (Leg_crashed n rl p)
  with assms(1) have "fs = [] \<or> (\<exists>q d. crash_effect rl r = Some d \<and> fs = snd (withUniqueEffect q d))"
    by (auto simp: reduce_leg_crashed_def Let_def split: if_splits option.splits)
  with assms(3) have "crash_effect rl r = Some e" using unique_effect_member by fastforce
  then show ?thesis by (rule crash_effect_other)
next
  case (Reconcile n rl)
  with assms(1) have "fs = [] \<or> (\<exists>d. reconcile_effect r = Some d \<and> fs = snd (withUniqueEffect r d))"
    by (auto simp: reduce_reconcile_def split: if_splits option.splits)
  with assms(3) have "reconcile_effect r = Some e" using unique_effect_member by fastforce
  then show ?thesis by (rule reconcile_effect_other)
next
  case (Write_outbox n a)
  with assms(1,3) have "e = outbox_effect r"
    by (auto simp: reduce_write_outbox_def dest: unique_effect_member split: if_splits)
  then show ?thesis by (simp only: other_effect_keys simp_thms)
qed (auto simp: reduce_defs split: if_splits option.splits)

lemma quiet_event_phase:
  assumes "evidence_inv r" "reduce_event ev r = Applied r' fs" "\<forall>n src. ev \<noteq> Request_old_service_stop n src"
  shows "atLeast_phase r' Old_service_stop_claimed \<longleftrightarrow> atLeast_phase r Old_service_stop_claimed"
  using assms
proof (cases ev)
  case (Leg_crashed n rl p)
  with assms show ?thesis
    by (cases rl) (auto simp: reduce_defs evidence_inv_def Let_def drop_leg_def crash_effect_def atLeast_phase_def
        crash_leg_of_def sameProcess_Some split: if_splits)
next
  case (Observe_receipt n a)
  with assms show ?thesis
    by (auto simp: reduce_defs evidence_inv_def atLeast_phase_def split: if_splits)
qed (auto simp: reduce_defs atLeast_phase_def split: if_splits option.splits)

lemma log_inv_event:
  assumes "evidence_inv r" "log_inv r" "reduce_event ev r = Applied r' fs"
  shows "log_inv r'"
proof (cases "\<exists>n src. ev = Request_old_service_stop n src")
  case True
  with assms log_inv_stop show ?thesis by fastforce
next
  case False
  with assms(3) have "\<forall>e \<in> set fs. ef_kind e \<noteq> Stop_old_service \<and> take 5 (ef_key e) \<noteq> ''stop:''"
    using quiet_event_effects by blast
  moreover have "atLeast_phase r' Old_service_stop_claimed \<longleftrightarrow> atLeast_phase r Old_service_stop_claimed"
    using quiet_event_phase assms(1,3) False by blast
  ultimately show ?thesis
    using log_inv_quiet assms(2) reduce_event_extends_log [OF assms(3)] by blast
qed

section \<open>Runs\<close>

text \<open>A chain of applied events from one record to another, with the effects handed out on the way.\<close>

inductive machine_run :: "machine_operation \<Rightarrow> machine_operation \<Rightarrow> machine_effect list \<Rightarrow> bool" where
  run_refl: "machine_run r r []"
| run_step: "machine_run r0 r es \<Longrightarrow> reduceMachineConvergence r ev = Applied r' fs \<Longrightarrow>
    machine_run r0 r' (es @ fs)"

definition machine_inv :: "machine_operation \<Rightarrow> bool" where
  "machine_inv r \<longleftrightarrow> evidence_inv r \<and> log_inv r"

lemma reduce_appliedD:
  "reduceMachineConvergence r ev = Applied r' fs \<Longrightarrow>
    ev_expected ev = phaseVersion r \<and> (phase r \<noteq> Finalized \<or> is_reconcile ev) \<and> reduce_event ev r = Applied r' fs"
  by (auto simp: reduceMachineConvergence_def split: if_splits)

lemma machine_inv_create [inv_intros]: "machine_inv (createMachineOperationRecord i a p)"
  by (simp add: machine_inv_def evidence_inv_create log_inv_create)

lemma machine_inv_step [inv_intros]:
  "machine_inv r \<Longrightarrow> reduceMachineConvergence r ev = Applied r' fs \<Longrightarrow> machine_inv r'"
  using reduce_appliedD [of r ev r' fs] evidence_inv_event log_inv_event
  unfolding machine_inv_def by blast

lemma machine_run_inv: "machine_run r0 r es \<Longrightarrow> machine_inv r0 \<Longrightarrow> machine_inv r"
  by (induction rule: machine_run.induct) (auto intro: machine_inv_step)

lemma machine_run_log:
  "machine_run r0 r es \<Longrightarrow>
    effectIntents r = effectIntents r0 @ es \<and> identity r = identity r0 \<and> acceptance r = acceptance r0 \<and>
    phaseVersion r0 \<le> phaseVersion r"
proof (induction rule: machine_run.induct)
  case (run_step r0 r es ev r' fs)
  from reduce_appliedD [OF run_step.hyps(2)] have "extends_log r r' fs"
    using reduce_event_extends_log by blast
  with run_step.IH show ?case by (simp add: extends_log_def)
qed simp

lemma machine_run_trans: "machine_run b c fs \<Longrightarrow> machine_run a b es \<Longrightarrow> machine_run a c (es @ fs)"
proof (induction rule: machine_run.induct)
  case (run_step r0 r es' ev r' fs)
  then show ?case using machine_run.run_step [of a r "es @ es'" ev r' fs] by simp
qed simp

end
