(* ===== verification/Machine_Store.thy ===== *)
theory Machine_Store
  imports Machine_Safety
begin

text \<open>
  The durable side of a machine operation: the compare-and-swap store of
  \<open>packages/computer/src/machineOperationStore.ts\<close> and the worker loop of
  \<open>machineOperationRuntime.ts\<close>. The text cell is the record it holds (JSON there and back), or
  nothing when no file exists; \<open>createIfAbsent\<close> and \<open>compareAndSwap\<close> run under the cell's lock and
  are single steps. A worker of \<open>reduceDurableMachineOperation\<close> takes two steps per attempt, the load
  and the swap, and other workers may run in between.
\<close>

section \<open>The store\<close>

type_synonym text_cell = "machine_operation option"

datatype create_result = Created machine_operation | Exists machine_operation

datatype swap_result = Swapped machine_operation | Stale machine_operation | Missing

definition createIfAbsent :: "machine_operation \<Rightarrow> text_cell \<Rightarrow> create_result \<times> text_cell" where
  "createIfAbsent r c = (case c of
     Some e \<Rightarrow> (Exists e, c)
   | None \<Rightarrow> (Created r, Some r))"

definition compareAndSwap :: "int \<Rightarrow> machine_operation \<Rightarrow> text_cell \<Rightarrow> swap_result \<times> text_cell" where
  "compareAndSwap expected nxt c = (case c of
     None \<Rightarrow> (Missing, c)
   | Some cur \<Rightarrow> if phaseVersion cur \<noteq> expected then (Stale cur, c) else (Swapped nxt, Some nxt))"

definition acceptDurableMachineOperation ::
  "machine_identity \<Rightarrow> machine_acceptance \<Rightarrow> machine_process \<Rightarrow> text_cell \<Rightarrow> (string + machine_operation) \<times> text_cell" where
  "acceptDurableMachineOperation i a p c =
     (let incoming = createMachineOperationRecord i a p;
          (created, c') = createIfAbsent incoming c
      in (case acceptMachineOperation (case created of Exists e \<Rightarrow> Some e | Created _ \<Rightarrow> None) incoming of
            Conflict _ \<Rightarrow> Inl ''OPERATION_IDENTITY_CONFLICT''
          | Rejected code _ \<Rightarrow> Inl code
          | Applied r _ \<Rightarrow> Inr r
          | Replay r \<Rightarrow> Inr r, c'))"

section \<open>The worker loop\<close>

fun with_expected :: "int \<Rightarrow> machine_event \<Rightarrow> machine_event" where
  "with_expected v (Claim _ ce h u) = Claim v ce h u"
| "with_expected v (First_hop _ n) = First_hop v n"
| "with_expected v (Arm_leg _ rl p) = Arm_leg v rl p"
| "with_expected v (Leg_crashed _ rl p) = Leg_crashed v rl p"
| "with_expected v (Request_old_service_stop _ src) = Request_old_service_stop v src"
| "with_expected v (Old_service_gone _ src) = Old_service_gone v src"
| "with_expected v (Target_generation_allocated _ g) = Target_generation_allocated v g"
| "with_expected v (Target_live _ g p) = Target_live v g p"
| "with_expected v (Managed_set_observed _ rv live) = Managed_set_observed v rv live"
| "with_expected v (Write_outbox _ at) = Write_outbox v at"
| "with_expected v (Observe_receipt _ at) = Observe_receipt v at"
| "with_expected v (Progress _ n) = Progress v n"
| "with_expected v (Reconcile _ rl) = Reconcile v rl"
| "with_expected v (Explicit_start _ p) = Explicit_start v p"

definition max_attempts :: nat where
  "max_attempts = 20"

text \<open>The program points of one call: before a load, before the swap, returned, thrown.\<close>

datatype worker =
    Attempt nat
  | Loaded nat machine_operation
  | Returned machine_result
  | Failed string

definition load_step :: "nat \<Rightarrow> text_cell \<Rightarrow> worker" where
  "load_step n c =
     (if max_attempts \<le> n then Failed ''MACHINE_OPERATION_CAS_EXHAUSTED''
      else case c of
        None \<Rightarrow> Failed ''MACHINE_OPERATION_RECORD_MISSING''
      | Some r \<Rightarrow> Loaded n r)"

definition swap_step :: "machine_event \<Rightarrow> nat \<Rightarrow> machine_operation \<Rightarrow> text_cell \<Rightarrow> worker \<times> text_cell" where
  "swap_step ev n cur c =
     (case reduceMachineConvergence cur (with_expected (phaseVersion cur) ev) of
        Applied nxt fs \<Rightarrow>
          (case compareAndSwap (phaseVersion cur) nxt c of
             (Swapped r, c') \<Rightarrow> (Returned (Applied r fs), c')
           | (Missing, c') \<Rightarrow> (Failed ''MACHINE_OPERATION_RECORD_MISSING'', c')
           | (Stale _, c') \<Rightarrow> (Attempt (Suc n), c'))
      | res \<Rightarrow> (Returned res, c))"

fun worker_step :: "machine_event \<Rightarrow> worker \<Rightarrow> text_cell \<Rightarrow> worker \<times> text_cell" where
  "worker_step ev (Attempt n) c = (load_step n c, c)"
| "worker_step ev (Loaded n cur) c = swap_step ev n cur c"
| "worker_step ev w c = (w, c)"

text \<open>The call without interference: the steps of one worker until it returns or throws.\<close>

fun is_done :: "worker \<Rightarrow> bool" where
  "is_done (Returned _) = True"
| "is_done (Failed _) = True"
| "is_done _ = False"

fun run_worker :: "nat \<Rightarrow> machine_event \<Rightarrow> worker \<Rightarrow> text_cell \<Rightarrow> worker \<times> text_cell" where
  "run_worker 0 ev w c = (w, c)"
| "run_worker (Suc k) ev w c =
     (if is_done w then (w, c) else (case worker_step ev w c of (w', c') \<Rightarrow> run_worker k ev w' c'))"

definition reduceDurableMachineOperation :: "machine_event \<Rightarrow> text_cell \<Rightarrow> worker \<times> text_cell" where
  "reduceDurableMachineOperation ev c = run_worker (2 * max_attempts + 1) ev (Attempt 0) c"

section \<open>Concurrent workers\<close>

text \<open>Any worker may take the next step.\<close>

inductive workers_step :: "text_cell \<times> (machine_event \<times> worker) list \<Rightarrow> text_cell \<times> (machine_event \<times> worker) list \<Rightarrow> bool" where
  "i < length ws \<Longrightarrow> ws ! i = (ev, w) \<Longrightarrow> worker_step ev w c = (w', c') \<Longrightarrow>
    workers_step (c, ws) (c', ws[i := (ev, w')])"

inductive workers_run :: "text_cell \<times> (machine_event \<times> worker) list \<Rightarrow> text_cell \<times> (machine_event \<times> worker) list \<Rightarrow> bool" where
  "workers_run s s"
| "workers_run s t \<Longrightarrow> workers_step t u \<Longrightarrow> workers_run s u"

fun worker_effects :: "worker \<Rightarrow> machine_effect list" where
  "worker_effects (Returned (Applied _ fs)) = fs"
| "worker_effects _ = []"

lemma with_expected_expected [simp]: "ev_expected (with_expected v ev) = v"
  by (cases ev) simp_all

text \<open>
  No lost update: the record a worker loaded is either the current one or has an older version, so
  a swap that succeeds is the reducer's step on the record in the cell.
\<close>

definition load_ok :: "machine_operation \<Rightarrow> worker \<Rightarrow> bool" where
  "load_ok r w = (case w of
     Loaded _ q \<Rightarrow> phaseVersion q \<le> phaseVersion r \<and> (phaseVersion q = phaseVersion r \<longrightarrow> q = r)
   | _ \<Rightarrow> True)"

definition workers_inv :: "machine_operation \<Rightarrow> text_cell \<times> (machine_event \<times> worker) list \<Rightarrow> bool" where
  "workers_inv r0 s = (case s of (c, ws) \<Rightarrow>
     (\<exists>r es. c = Some r \<and> machine_run r0 r es \<and> (\<forall>w \<in> snd ` set ws. load_ok r w) \<and>
       mset es = (\<Sum>w \<in># image_mset snd (mset ws). mset (worker_effects w))))"

lemma reduce_version:
  "reduceMachineConvergence r ev = Applied r' fs \<Longrightarrow> phaseVersion r' = phaseVersion r + 1"
  using reduce_appliedD [of r ev r' fs] reduce_event_extends_log [of ev r r' fs]
  by (simp add: extends_log_def)

lemma load_ok_step:
  assumes "load_ok r w" "worker_step ev w (Some r) = (w', c')"
  shows "\<exists>r' fs. c' = Some r' \<and> load_ok r' w' \<and> (\<not> is_done w \<longrightarrow> worker_effects w' = fs) \<and>
     (is_done w \<longrightarrow> w' = w \<and> fs = []) \<and>
     (r' = r \<and> fs = [] \<or> (\<exists>ev'. reduceMachineConvergence r ev' = Applied r' fs))"
proof (cases w)
  case (Attempt n)
  with assms show ?thesis by (auto simp: load_step_def load_ok_def)
next
  case (Loaded n q)
  show ?thesis
  proof (cases "\<exists>nxt fs. reduceMachineConvergence q (with_expected (phaseVersion q) ev) = Applied nxt fs")
    case True
    then obtain nxt fs where red: "reduceMachineConvergence q (with_expected (phaseVersion q) ev) = Applied nxt fs"
      by blast
    show ?thesis
    proof (cases "phaseVersion q = phaseVersion r")
      case True
      with Loaded assms(1) have "q = r" by (simp add: load_ok_def)
      with True Loaded assms red show ?thesis
        by (auto simp: swap_step_def compareAndSwap_def load_ok_def)
    next
      case False
      with Loaded assms red show ?thesis
        by (auto simp: swap_step_def compareAndSwap_def load_ok_def)
    qed
  next
    case False
    with Loaded assms show ?thesis
      by (cases "reduceMachineConvergence q (with_expected (phaseVersion q) ev)")
        (auto simp: swap_step_def load_ok_def)
  qed
qed (use assms in \<open>auto simp: load_ok_def\<close>)


lemma load_ok_mono:
  assumes "load_ok r w" "r' = r \<or> reduceMachineConvergence r ev = Applied r' fs"
  shows "load_ok r' w"
  using assms reduce_version [of r ev r' fs] by (auto simp: load_ok_def split: worker.splits)

lemma not_done_no_effects: "\<not> is_done w \<Longrightarrow> worker_effects w = []"
  by (cases w) simp_all

lemma workers_inv_step:
  assumes "workers_inv r0 s" "workers_step s t"
  shows "workers_inv r0 t"
  using assms(2)
proof cases
  case (1 i ws ev w c w' c')
  obtain r es where c: "c = Some r" and run: "machine_run r0 r es"
    and ok: "\<And>v. v \<in> snd ` set ws \<Longrightarrow> load_ok r v"
    and effs: "mset es = (\<Sum>w \<in># image_mset snd (mset ws). mset (worker_effects w))"
    using assms(1) 1(1) by (auto simp: workers_inv_def)
  have mem: "(ev, w) \<in> set ws" using 1(3,4) by (metis nth_mem)
  then have "load_ok r w" using ok by force
  from load_ok_step [OF this, of ev w' c'] 1(5) c obtain r' fs where
    c': "c' = Some r'" and ok': "load_ok r' w'" and act: "\<not> is_done w \<longrightarrow> worker_effects w' = fs"
    and idle: "is_done w \<longrightarrow> w' = w \<and> fs = []"
    and red: "r' = r \<and> fs = [] \<or> (\<exists>ev'. reduceMachineConvergence r ev' = Applied r' fs)" by blast
  have run': "machine_run r0 r' (es @ fs)"
    using red run machine_run.run_step [OF run] by auto
  have "load_ok r' v" if "v \<in> snd ` set ws" for v
    using load_ok_mono [OF ok [OF that]] red by blast
  then have all: "\<forall>v \<in> snd ` set (ws[i := (ev, w')]). load_ok r' v"
    using ok' set_update_subset_insert [of ws i "(ev, w')"] by fastforce
  have "mset ws = add_mset (ev, w) (mset ws - {#(ev, w)#})" using mem by simp
  then have "mset es = mset (worker_effects w) +
      (\<Sum>w \<in># image_mset snd (mset ws - {#(ev, w)#}). mset (worker_effects w))"
    using effs by (metis image_mset_add_mset sum_mset.insert snd_conv)
  moreover have "mset (worker_effects w') = mset (worker_effects w) + mset fs"
    using act idle not_done_no_effects [of w] by (cases "is_done w") simp_all
  ultimately have "mset (es @ fs) = (\<Sum>w \<in># image_mset snd (mset (ws[i := (ev, w')])). mset (worker_effects w))"
    using 1(3,4) by (simp add: mset_update)
  with c' run' all show ?thesis using 1(2) by (auto simp: workers_inv_def)
qed

lemma workers_run_inv: "workers_run s t \<Longrightarrow> workers_inv r0 s \<Longrightarrow> workers_inv r0 t"
  by (induction rule: workers_run.induct) (auto intro: workers_inv_step)

lemma workers_inv_start: "workers_inv r0 (Some r0, map (\<lambda>ev. (ev, Attempt 0)) evs)"
  by (auto simp: workers_inv_def load_ok_def image_mset.compositionality comp_def intro: run_refl)

text \<open>Without interference the first attempt succeeds.\<close>

lemma run_worker_Suc:
  "\<not> is_done w \<Longrightarrow> worker_step ev w c = (w', c') \<Longrightarrow> run_worker (Suc k) ev w c = run_worker k ev w' c'"
  by simp

lemma run_worker_done [simp]: "is_done w \<Longrightarrow> run_worker k ev w c = (w, c)"
  by (cases k) simp_all

lemma swap_step_solo:
  "swap_step ev n r (Some r) =
    (Returned (reduceMachineConvergence r (with_expected (phaseVersion r) ev)),
     Some (result_record (reduceMachineConvergence r (with_expected (phaseVersion r) ev))))"
proof (cases "reduceMachineConvergence r (with_expected (phaseVersion r) ev)")
  case (Applied x y)
  then show ?thesis by (simp add: swap_step_def compareAndSwap_def)
qed (use reduce_event_unchanged [of "with_expected (phaseVersion r) ev" r] in
  \<open>auto simp: swap_step_def reduceMachineConvergence_def split: if_splits\<close>)

lemma reduceDurable_solo:
  "reduceDurableMachineOperation ev (Some r) =
    (Returned (reduceMachineConvergence r (with_expected (phaseVersion r) ev)),
     Some (result_record (reduceMachineConvergence r (with_expected (phaseVersion r) ev))))"
proof -
  have "2 * max_attempts + 1 = Suc (Suc 39)" by (simp add: max_attempts_def)
  then have "reduceDurableMachineOperation ev (Some r) = run_worker (Suc (Suc 39)) ev (Attempt 0) (Some r)"
    unfolding reduceDurableMachineOperation_def by (rule arg_cong)
  also have "\<dots> = run_worker (Suc 39) ev (Loaded 0 r) (Some r)"
    by (rule run_worker_Suc) (simp_all add: load_step_def max_attempts_def)
  also have "\<dots> = run_worker 39 ev
      (Returned (reduceMachineConvergence r (with_expected (phaseVersion r) ev)))
      (Some (result_record (reduceMachineConvergence r (with_expected (phaseVersion r) ev))))"
    by (rule run_worker_Suc) (simp_all add: swap_step_solo)
  finally show ?thesis by simp
qed

text \<open>Every step of a worker that is not done brings it nearer to its end, whatever the others do.\<close>

fun worker_measure :: "worker \<Rightarrow> nat" where
  "worker_measure (Attempt n) = 2 * (max_attempts - n) + 1"
| "worker_measure (Loaded n _) = 2 * (max_attempts - n)"
| "worker_measure _ = 0"

fun worker_ok :: "worker \<Rightarrow> bool" where
  "worker_ok (Loaded n _) = (n < max_attempts)"
| "worker_ok _ = True"

lemma worker_step_decreases:
  assumes "worker_ok w" "\<not> is_done w" "worker_step ev w c = (w', c')"
  shows "worker_ok w' \<and> worker_measure w' < worker_measure w"
proof (cases w)
  case (Attempt n)
  with assms show ?thesis by (auto simp: load_step_def split: if_splits option.splits)
next
  case (Loaded n q)
  with assms show ?thesis
    by (auto simp: swap_step_def split: machine_result.splits prod.splits swap_result.splits)
qed (use assms in simp_all)

end
