(* ===== verification/Machine_Properties.thy ===== *)
theory Machine_Properties
  imports Machine_Store
begin

text \<open>
  What the machine operation promises: the reducer is a compare-and-swap, concurrent workers are
  serialised by it, the old service is stopped once and only with both handoff legs armed, the
  final phase is backed by evidence, and the operation can always be completed.
\<close>

section \<open>Events as a list\<close>

text \<open>A list of events that must all be applied, with the effects they emit.\<close>

fun run_events :: "machine_event list \<Rightarrow> machine_operation \<Rightarrow> machine_operation option" where
  "run_events [] r = Some r"
| "run_events (ev # evs) r =
     (case reduceMachineConvergence r ev of Applied r' fs \<Rightarrow> run_events evs r' | _ \<Rightarrow> None)"

lemma run_events_run: "run_events evs r = Some r' \<Longrightarrow> \<exists>es. machine_run r r' es"
proof (induction evs arbitrary: r)
  case (Cons ev evs)
  then obtain q fs where red: "reduceMachineConvergence r ev = Applied q fs" and q: "run_events evs q = Some r'"
    by (auto split: machine_result.splits)
  from Cons.IH [OF q] obtain es where "machine_run q r' es" by blast
  moreover have "machine_run r q ([] @ fs)" using run_refl red by (rule run_step)
  ultimately show ?case using machine_run_trans by blast
qed (auto intro: run_refl)

definition service_process :: "string \<Rightarrow> machine_process" where
  "service_process v = \<lparr>mp_pid = 7, mp_startIdentity = ''t'', mp_role = RoleService, mp_serverId = None,
     mp_version = Some v\<rparr>"

definition leg_process :: "machine_role \<Rightarrow> machine_process" where
  "leg_process rl = \<lparr>mp_pid = 8, mp_startIdentity = ''l'', mp_role = rl, mp_serverId = None, mp_version = None\<rparr>"

definition runner_process :: "string \<Rightarrow> string \<Rightarrow> machine_process" where
  "runner_process v sid = \<lparr>mp_pid = 9, mp_startIdentity = ''r'', mp_role = RoleManagedRunner, mp_serverId = Some sid,
     mp_version = Some v\<rparr>"

text \<open>The schedule of an undisturbed operation.\<close>

definition handoff_events :: "machine_process \<Rightarrow> machine_event list" where
  "handoff_events src = [Claim 0 1 ''w'' ''u'', Arm_leg 1 ArmCoordinator (leg_process RoleCoordinator),
     Arm_leg 2 ArmStandby (leg_process RoleStandby), Request_old_service_stop 3 src, Old_service_gone 4 src,
     Target_generation_allocated 5 ''g'']"

definition converge_events :: "machine_identity \<Rightarrow> machine_acceptance \<Rightarrow> machine_event list" where
  "converge_events i a = [Target_live 6 ''g'' (service_process (targetVersion i)),
     Managed_set_observed 7 (acceptedManagedSetRevision a)
       (map (runner_process (targetVersion i)) (acceptedManagedServerIds a)),
     Write_outbox 8 ''t1'', Observe_receipt 9 ''t2'']"

definition handed_off :: "machine_identity \<Rightarrow> machine_acceptance \<Rightarrow> machine_process \<Rightarrow> machine_process \<Rightarrow> machine_operation" where
  "handed_off i a p src =
     (createMachineOperationRecord i a p)\<lparr>phase := Old_service_dead, phaseVersion := 6, claimEpoch := 1,
       leaseHolder := Some ''w'', leaseUntil := Some ''u'', coordinator := Some (leg_process RoleCoordinator),
       standby := Some (leg_process RoleStandby), observedTargetGeneration := Some ''g'',
       observedOldProcesses := [src],
       effectIntents := [stop_effect (createMachineOperationRecord i a p) src]\<rparr>"

lemma run_handoff:
  assumes "List.find (\<lambda>q. mp_role q = RoleService) (capturedOldProcessIdentities a) = Some src"
  shows "run_events (handoff_events src) (createMachineOperationRecord i a p) = Some (handed_off i a p src)"
  using assms
  by (simp add: handoff_events_def createMachineOperationRecord_def reduceMachineConvergence_def reduce_defs
      applied_def advance_phase_def atLeast_phase_def leg_of_def set_leg_def withUniqueEffect_def withEffect_def
      source_service_def appendProcess_def handed_off_def truthy_def stop_effect_def)

definition received :: "machine_identity \<Rightarrow> machine_acceptance \<Rightarrow> machine_process \<Rightarrow> machine_process \<Rightarrow> machine_operation" where
  "received i a p src = (handed_off i a p src)
     \<lparr>phase := Receipt_observed, phaseVersion := 10, targetSupervisor := Some (service_process (targetVersion i)),
       effectIntents := [stop_effect (createMachineOperationRecord i a p) src,
         outbox_effect (createMachineOperationRecord i a p)],
       terminalOutbox := Some (dispatchOperationId i, ''t1''), receipt := Some (dispatchOperationId i, ''t2'')\<rparr>"

lemma run_converge:
  "run_events (converge_events i a) (handed_off i a p src) = Some (received i a p src)"
  by (simp add: converge_events_def handed_off_def received_def createMachineOperationRecord_def
      reduceMachineConvergence_def reduce_defs applied_def atLeast_phase_def withUniqueEffect_def withEffect_def
      service_process_def runner_process_def image_image stop_effect_def outbox_effect_def effect_def)

lemma run_received:
  assumes "List.find (\<lambda>q. mp_role q = RoleService) (capturedOldProcessIdentities a) = Some src"
  shows "\<exists>es. machine_run (createMachineOperationRecord i a p) (received i a p src) es"
  using run_events_run [OF run_handoff [OF assms, of i p]] run_events_run [OF run_converge [of i a p src]]
    machine_run_trans by blast


text \<open>A record with a receipt whose phase fell back to the convergence phases.\<close>

definition wedged :: "machine_operation \<Rightarrow> bool" where
  "wedged r \<longleftrightarrow> receipt r \<noteq> None \<and> terminalOutbox r \<noteq> None \<and>
     (phase r = Target_supervisor_live \<or> phase r = Managed_set_converged)"

lemma wedged_step:
  assumes "wedged r" "reduceMachineConvergence r ev = Applied r' fs"
  shows "wedged r'"
proof -
  have "reduce_event ev r = Applied r' fs" using reduce_appliedD [OF assms(2)] by blast
  then show ?thesis using assms(1)
    by (cases ev) (auto simp: wedged_def reduce_defs atLeast_phase_def advance_phase_def reconcile_effect_def
        split: if_splits)
qed

lemma wedged_run: "machine_run r r' es \<Longrightarrow> wedged r \<Longrightarrow> wedged r'"
  by (induction rule: machine_run.induct) (auto intro: wedged_step)

section \<open>Properties\<close>

text \<open>
  C5. Concurrent workers are serialised: whatever the interleaving of any number of calls of
  \<open>reduceDurableMachineOperation\<close> on one operation, the record in the cell is the outcome of a chain
  of reducer steps from the accepted record, its intent log is exactly the effects that were
  returned to the workers, and no two workers were handed an effect with the same key.
\<close>

theorem machine_workers_serialised:
  assumes "workers_run (Some (createMachineOperationRecord i a p), map (\<lambda>ev. (ev, Attempt 0)) evs) (c, ws)"
  shows "\<exists>r es. c = Some r \<and> machine_run (createMachineOperationRecord i a p) r es \<and> effectIntents r = es \<and>
    mset es = mset (concat (map (worker_effects \<circ> snd) ws)) \<and>
    distinct (map ef_key (concat (map (worker_effects \<circ> snd) ws)))"
proof -
  let ?r0 = "createMachineOperationRecord i a p"
  have sum: "(\<Sum>w \<in># image_mset snd (mset xs). mset (worker_effects w)) = mset (concat (map (worker_effects \<circ> snd) xs))"
    for xs :: "(machine_event \<times> worker) list" by (induction xs) simp_all
  from workers_run_inv [OF assms workers_inv_start] obtain r es where c: "c = Some r"
    and run: "machine_run ?r0 r es" and effs: "mset es = mset (concat (map (worker_effects \<circ> snd) ws))"
    by (auto simp: workers_inv_def sum)
  have "effectIntents r = es" using machine_run_log [OF run] by (simp add: createMachineOperationRecord_def)
  moreover from this have "distinct (map ef_key es)"
    using machine_run_inv [OF run machine_inv_create] by (simp add: machine_inv_def log_inv_def)
  moreover from effs have "mset (map ef_key es) = mset (map ef_key (concat (map (worker_effects \<circ> snd) ws)))"
    by (metis mset_map)
  ultimately show ?thesis using c run effs mset_eq_imp_distinct_iff by blast
qed

definition demo_identity :: machine_identity where
  "demo_identity = \<lparr>dispatchOperationId = ''op1'', parentUserOperationId = None, dispatchAction = Upgrade,
     targetVersion = ''2'', adapter = ''npm'', originServerId = ''s1'', machineId = ''m1''\<rparr>"

definition demo_acceptance :: machine_acceptance where
  "demo_acceptance = \<lparr>sourceServiceGeneration = ''g0'', acceptedManagedSetRevision = 3,
     acceptedManagedServerIds = [''s1'', ''s2''], capturedOldProcessIdentities = [service_process ''1'']\<rparr>"

abbreviation demo_operation :: machine_operation where
  "demo_operation \<equiv> createMachineOperationRecord demo_identity demo_acceptance (leg_process RoleOriginRunner)"

abbreviation demo_workers :: "(machine_event \<times> worker) list" where
  "demo_workers \<equiv> map (\<lambda>ev. (ev, Attempt 0)) [Reconcile 0 CrashOriginRunner, Reconcile 0 CrashCoordinator]"

text \<open>Two workers load the same record; the first swap wins, the second finds a newer version.\<close>

theorem machine_workers_serialised_witness:
  "\<exists>c ws. workers_run (Some demo_operation, demo_workers) (c, ws) \<and> map snd ws =
     [Returned (Applied (demo_operation\<lparr>effectIntents := [coordinator_effect demo_operation], phaseVersion := 1\<rparr>)
        [coordinator_effect demo_operation]), Attempt 1] \<and>
     distinct (map ef_key (concat (map (worker_effects \<circ> snd) ws)))"
proof -
  let ?r = demo_operation and ?e = "coordinator_effect demo_operation"
  let ?r1 = "?r\<lparr>effectIntents := [?e], phaseVersion := 1\<rparr>"
  let ?a = "Reconcile 0 CrashOriginRunner" and ?b = "Reconcile 0 CrashCoordinator"
  have red: "reduceMachineConvergence ?r (Reconcile 0 x) = Applied ?r1 [?e]" for x
    by (simp add: reduceMachineConvergence_def reduce_reconcile_def reconcile_effect_def atLeast_phase_def
        createMachineOperationRecord_def withUniqueEffect_def withEffect_def applied_def)
  have v: "phaseVersion ?r = 0" by (simp add: createMachineOperationRecord_def)
  have s1: "workers_step (Some ?r, [(?a, Attempt 0), (?b, Attempt 0)]) (Some ?r, [(?a, Loaded 0 ?r), (?b, Attempt 0)])"
    using workers_step.intros [of 0 "[(?a, Attempt 0), (?b, Attempt 0)]" ?a "Attempt 0" "Some ?r"]
    by (simp add: load_step_def max_attempts_def)
  have s2: "workers_step (Some ?r, [(?a, Loaded 0 ?r), (?b, Attempt 0)]) (Some ?r, [(?a, Loaded 0 ?r), (?b, Loaded 0 ?r)])"
    using workers_step.intros [of 1 "[(?a, Loaded 0 ?r), (?b, Attempt 0)]" ?b "Attempt 0" "Some ?r"]
    by (simp add: load_step_def max_attempts_def)
  have s3: "workers_step (Some ?r, [(?a, Loaded 0 ?r), (?b, Loaded 0 ?r)])
      (Some ?r1, [(?a, Returned (Applied ?r1 [?e])), (?b, Loaded 0 ?r)])"
    using workers_step.intros [of 0 "[(?a, Loaded 0 ?r), (?b, Loaded 0 ?r)]" ?a "Loaded 0 ?r" "Some ?r"]
    by (simp add: swap_step_def red v compareAndSwap_def)
  have s4: "workers_step (Some ?r1, [(?a, Returned (Applied ?r1 [?e])), (?b, Loaded 0 ?r)])
      (Some ?r1, [(?a, Returned (Applied ?r1 [?e])), (?b, Attempt 1)])"
    using workers_step.intros [of 1 "[(?a, Returned (Applied ?r1 [?e])), (?b, Loaded 0 ?r)]" ?b "Loaded 0 ?r" "Some ?r1"]
    by (simp add: swap_step_def red v compareAndSwap_def)
  have run: "workers_run (Some ?r, demo_workers) (Some ?r1, [(?a, Returned (Applied ?r1 [?e])), (?b, Attempt 1)])"
    unfolding list.map
    by (rule workers_run.intros(2) [OF workers_run.intros(2) [OF workers_run.intros(2) [OF
          workers_run.intros(2) [OF workers_run.intros(1) s1] s2] s3] s4])
  let ?ws = "[(?a, Returned (Applied ?r1 [?e])), (?b, Attempt 1)]"
  have "distinct (map ef_key (concat (map (worker_effects \<circ> snd) ?ws)))"
    using machine_workers_serialised [OF run] by blast
  then have "map snd ?ws = [Returned (Applied ?r1 [?e]), Attempt 1] \<and>
      distinct (map ef_key (concat (map (worker_effects \<circ> snd) ?ws)))" by simp
  note res = conjI [OF run this]
  show ?thesis by (rule exI [of _ "Some ?r1"], rule exI [of _ ?ws], rule res)
qed


text \<open>
  C6. The old service is stopped at most once and never early: when a step of a reachable operation
  emits a stop, both handoff legs are armed, the process is the service captured at acceptance, and
  no stop was emitted before. The stop is in the emitted effects exactly when the stop phase was reached.
\<close>

theorem machine_stop_once:
  assumes "machine_run (createMachineOperationRecord i a p) r es"
  shows "length (filter (\<lambda>e. ef_kind e = Stop_old_service) es) =
      (if atLeast_phase r Old_service_stop_claimed then 1 else 0) \<and>
    (\<forall>ev r' fs e. reduceMachineConvergence r ev = Applied r' fs \<longrightarrow> e \<in> set fs \<longrightarrow> ef_kind e = Stop_old_service \<longrightarrow>
      phase r = Handoff_armed \<and> coordinator r \<noteq> None \<and> standby r \<noteq> None \<and>
      ef_process e = List.find (\<lambda>q. mp_role q = RoleService) (capturedOldProcessIdentities a) \<and>
      ef_process e \<noteq> None)"
proof -
  have inv: "machine_inv r" using machine_run_inv [OF assms machine_inv_create] .
  have log: "effectIntents r = es" "acceptance r = a"
    using machine_run_log [OF assms] by (simp_all add: createMachineOperationRecord_def)
  have "phase r = Handoff_armed \<and> coordinator r \<noteq> None \<and> standby r \<noteq> None \<and>
      ef_process e = List.find (\<lambda>q. mp_role q = RoleService) (capturedOldProcessIdentities a) \<and> ef_process e \<noteq> None"
    if red: "reduceMachineConvergence r ev = Applied r' fs" and e: "e \<in> set fs" "ef_kind e = Stop_old_service"
    for ev r' fs e
  proof -
    have ev: "reduce_event ev r = Applied r' fs" using reduce_appliedD [OF red] by blast
    then obtain n src where stop: "ev = Request_old_service_stop n src"
      using quiet_event_effects [OF ev _ e(1)] e(2) by blast
    with ev have "reduce_request_stop src r = Applied r' fs" by simp
    moreover from this have "fs = [stop_effect r src]" using log_inv_stop inv by (auto simp: machine_inv_def)
    ultimately show ?thesis using e(1) log(2)
      by (auto simp: reduce_request_stop_def sameProcess_Some source_service_def stop_effect_def split: if_splits)
  qed
  moreover have "length (filter (\<lambda>e. ef_kind e = Stop_old_service) es) =
      (if atLeast_phase r Old_service_stop_claimed then 1 else 0)"
    using inv log(1) by (simp add: machine_inv_def log_inv_def stop_intents_def)
  ultimately show ?thesis by blast
qed

theorem machine_stop_once_witness:
  "\<exists>es. machine_run demo_operation
     (received demo_identity demo_acceptance (leg_process RoleOriginRunner) (service_process ''1'')) es \<and>
     length (filter (\<lambda>e. ef_kind e = Stop_old_service) es) = 1"
proof -
  have "List.find (\<lambda>q. mp_role q = RoleService) (capturedOldProcessIdentities demo_acceptance) = Some (service_process ''1'')"
    by (simp add: demo_acceptance_def service_process_def)
  from run_received [OF this] obtain es where run: "machine_run demo_operation
     (received demo_identity demo_acceptance (leg_process RoleOriginRunner) (service_process ''1'')) es" by blast
  moreover have "length (filter (\<lambda>e. ef_kind e = Stop_old_service) es) = 1"
    using machine_stop_once [OF run] by (simp add: received_def atLeast_phase_def)
  ultimately show ?thesis by blast
qed

text \<open>
  C23. The phases are backed by evidence: a reachable operation from the live phase on has a target
  supervisor that attested the service role at the target version under an allocated generation; a
  finalized one has a receipt and an outbox; and the effects emitted so far are the intent log, with
  pairwise different keys.
\<close>

theorem machine_phase_evidence:
  assumes "machine_run (createMachineOperationRecord i a p) r es"
  shows "(atLeast_phase r Target_supervisor_live \<longrightarrow>
      (\<exists>q. targetSupervisor r = Some q \<and> mp_role q = RoleService \<and> mp_version q = Some (targetVersion i)) \<and>
      observedTargetGeneration r \<noteq> None) \<and>
    (phase r = Receipt_observed \<or> phase r = Finalized \<longrightarrow> receipt r \<noteq> None \<and> terminalOutbox r \<noteq> None) \<and>
    (targetSupervisor r \<noteq> None \<longrightarrow> (\<exists>e \<in> set es. ef_kind e = Stop_old_service)) \<and>
    effectIntents r = es \<and> distinct (map ef_key es)"
proof -
  have inv: "evidence_inv r" "log_inv r"
    using machine_run_inv [OF assms machine_inv_create] by (simp_all add: machine_inv_def)
  have log: "effectIntents r = es" "identity r = i"
    using machine_run_log [OF assms] by (simp_all add: createMachineOperationRecord_def)
  have "\<exists>e \<in> set es. ef_kind e = Stop_old_service" if "targetSupervisor r \<noteq> None"
  proof -
    have "7 \<le> phase_index (phase r)" using that inv(1) unfolding evidence_inv_def by blast
    then have "length (stop_intents r) = 1" using inv(2) by (simp add: log_inv_def atLeast_phase_def)
    then have "stop_intents r \<noteq> []" by auto
    then show ?thesis using log(1) by (auto simp: stop_intents_def filter_empty_conv)
  qed
  moreover have "\<exists>q. targetSupervisor r = Some q \<and> mp_role q = RoleService \<and> mp_version q = Some (targetVersion i)"
    "observedTargetGeneration r \<noteq> None" if "atLeast_phase r Target_supervisor_live"
    using inv(1) log(2) that unfolding evidence_inv_def atLeast_phase_def by auto
  moreover have "receipt r \<noteq> None \<and> terminalOutbox r \<noteq> None" if "phase r = Receipt_observed \<or> phase r = Finalized"
    using inv(1) that unfolding evidence_inv_def by blast
  moreover have "distinct (map ef_key es)" using inv(2) log(1) by (simp add: log_inv_def)
  ultimately show ?thesis using log(1) by blast
qed

theorem machine_phase_evidence_witness:
  "\<exists>es. machine_run demo_operation
     (received demo_identity demo_acceptance (leg_process RoleOriginRunner) (service_process ''1'')) es \<and>
     es \<noteq> [] \<and> distinct (map ef_key es)"
proof -
  have "List.find (\<lambda>q. mp_role q = RoleService) (capturedOldProcessIdentities demo_acceptance) = Some (service_process ''1'')"
    by (simp add: demo_acceptance_def service_process_def)
  from run_received [OF this] obtain es where run: "machine_run demo_operation
     (received demo_identity demo_acceptance (leg_process RoleOriginRunner) (service_process ''1'')) es" by blast
  from machine_phase_evidence [OF run] have "distinct (map ef_key es)" "es \<noteq> []"
    by (auto simp: received_def)
  with run show ?thesis by blast
qed


text \<open>
  The reducer is a compare-and-swap on the phase version: it applies an event only at the version
  the event names, an applied event raises the version by one, keeps the identity and the accepted
  snapshot and emits at most one effect; every other answer hands back the record it was given.
\<close>

theorem machine_reduce_cas:
  "case reduceMachineConvergence r ev of
     Applied r' fs \<Rightarrow> ev_expected ev = phaseVersion r \<and> phaseVersion r' = phaseVersion r + 1 \<and>
       identity r' = identity r \<and> acceptance r' = acceptance r \<and> effectIntents r' = effectIntents r @ fs \<and>
       length fs \<le> 1
   | res \<Rightarrow> result_record res = r"
proof (cases "reduceMachineConvergence r ev")
  case (Applied r' fs)
  have "extends_log r r' fs" "ev_expected ev = phaseVersion r"
    using reduce_appliedD [OF Applied] reduce_event_extends_log by blast+
  then show ?thesis using Applied by (auto simp: extends_log_def)
qed (use reduce_event_unchanged [of ev r] in \<open>auto simp: reduceMachineConvergence_def split: if_splits\<close>)

text \<open>
  C24. An accepted operation can be completed: for every identity, accepted managed set and captured
  service there is a schedule of events that the reducer applies one after the other and that ends
  in the finalized phase.
\<close>

theorem machine_can_finalize:
  assumes "List.find (\<lambda>q. mp_role q = RoleService) (capturedOldProcessIdentities a) = Some src"
  shows "\<exists>r es. machine_run (createMachineOperationRecord i a p) r es \<and> phase r = Finalized"
proof -
  obtain es where run: "machine_run (createMachineOperationRecord i a p) (received i a p src) es"
    using run_received [OF assms] by blast
  let ?f = "(received i a p src)\<lparr>phase := Finalized, leaseHolder := None, leaseUntil := None, phaseVersion := 11\<rparr>"
  have "reduceMachineConvergence (received i a p src) (Reconcile 10 CrashCoordinator) = Applied ?f []"
    by (simp add: reduceMachineConvergence_def reduce_reconcile_def received_def applied_def)
  from run_step [OF run this] have "machine_run (createMachineOperationRecord i a p) ?f (es @ [])" .
  moreover have "phase ?f = Finalized" by simp
  ultimately show ?thesis by blast
qed

theorem machine_can_finalize_witness:
  "\<exists>r es. machine_run demo_operation r es \<and> phase r = Finalized"
  using machine_can_finalize [of demo_acceptance "service_process ''1''"]
  by (simp add: demo_acceptance_def service_process_def)

text \<open>
  C25. A repeated live attestation wedges a delivered operation: after the receipt was observed, the
  reducer still applies a \<open>target_supervisor_live\<close> event of the current generation, which moves the
  phase back; from that record no sequence of events reaches the finalized phase.
\<close>

theorem machine_repeated_live_wedges:
  assumes "machine_run (createMachineOperationRecord i a p) r es" "phase r = Receipt_observed"
    "observedTargetGeneration r = Some g" "mp_role q = RoleService" "mp_version q = Some (targetVersion i)"
  shows "\<exists>r'. reduceMachineConvergence r (Target_live (phaseVersion r) g q) = Applied r' [] \<and>
    phase r' = Target_supervisor_live \<and> (\<forall>r'' fs. machine_run r' r'' fs \<longrightarrow> phase r'' \<noteq> Finalized)"
proof -
  let ?r' = "r\<lparr>phase := Target_supervisor_live, observedTargetGeneration := Some g, targetSupervisor := Some q,
      phaseVersion := phaseVersion r + 1\<rparr>"
  have "identity r = i" using machine_run_log [OF assms(1)] by (simp add: createMachineOperationRecord_def)
  then have red: "reduceMachineConvergence r (Target_live (phaseVersion r) g q) = Applied ?r' []"
    using assms(2-5) by (simp add: reduceMachineConvergence_def reduce_target_live_def atLeast_phase_def applied_def)
  have "evidence_inv r" using machine_run_inv [OF assms(1) machine_inv_create] by (simp add: machine_inv_def)
  then have "wedged ?r'" using assms(2) by (auto simp: evidence_inv_def wedged_def)
  then have "\<forall>r'' fs. machine_run ?r' r'' fs \<longrightarrow> phase r'' \<noteq> Finalized"
    using wedged_run by (fastforce simp: wedged_def)
  then show ?thesis using red by auto
qed

theorem machine_repeated_live_wedges_witness:
  "\<exists>r es r'. machine_run demo_operation r es \<and> phase r = Receipt_observed \<and>
     reduceMachineConvergence r (Target_live (phaseVersion r) ''g'' (service_process ''2'')) = Applied r' [] \<and>
     (\<forall>r'' fs. machine_run r' r'' fs \<longrightarrow> phase r'' \<noteq> Finalized)"
proof -
  let ?r = "received demo_identity demo_acceptance (leg_process RoleOriginRunner) (service_process ''1'')"
  have "List.find (\<lambda>q. mp_role q = RoleService) (capturedOldProcessIdentities demo_acceptance) = Some (service_process ''1'')"
    by (simp add: demo_acceptance_def service_process_def)
  from run_received [OF this] obtain es where run: "machine_run demo_operation ?r es" by blast
  have ph: "phase ?r = Receipt_observed" and gen: "observedTargetGeneration ?r = Some ''g''"
    by (simp_all add: received_def handed_off_def)
  have q: "mp_role (service_process ''2'') = RoleService"
    "mp_version (service_process ''2'') = Some (targetVersion demo_identity)"
    by (simp_all add: service_process_def demo_identity_def)
  from machine_repeated_live_wedges [OF run ph gen q] run ph show ?thesis by blast
qed

text \<open>
  C26. The worker loop ends: in every interleaving each step of a call that has not returned brings it
  nearer to its end (at most two steps for each of the twenty attempts), and a call that is not
  disturbed returns the reducer's answer and leaves exactly the answered record in the cell.
\<close>

theorem machine_worker_terminates:
  "worker_ok (Attempt 0) \<and> worker_measure (Attempt 0) = 41 \<and>
   (\<forall>ev w c. worker_ok w \<and> \<not> is_done w \<longrightarrow>
      worker_ok (fst (worker_step ev w c)) \<and> worker_measure (fst (worker_step ev w c)) < worker_measure w) \<and>
   (\<forall>ev r. reduceDurableMachineOperation ev (Some r) =
      (Returned (reduceMachineConvergence r (with_expected (phaseVersion r) ev)),
       Some (result_record (reduceMachineConvergence r (with_expected (phaseVersion r) ev)))))"
  using worker_step_decreases reduceDurable_solo
  by (auto simp: max_attempts_def) (metis prod.collapse)+

theorem machine_worker_terminates_witness:
  "worker_measure (fst (worker_step (Progress 0 1) (Attempt 0) (Some demo_operation))) < worker_measure (Attempt 0)"
proof -
  have "worker_ok (Attempt 0) \<and> \<not> is_done (Attempt 0)" by simp
  then show ?thesis using machine_worker_terminates by blast
qed

end
