(* ===== verification/Runner_Supervision.thy ===== *)
theory Runner_Supervision
  imports Sync_UInt64
begin

text \<open>
  The supervision of one per-server daemon in the computer service: the pure transition surface of
  \<open>packages/computer/src/lib/runnerStateMachine.ts\<close>, the exit handling of \<open>service.ts\<close> and
  \<open>runnerLockConflict.ts\<close>, and the durable crash budget of \<open>health.ts\<close>.

  Times are epoch milliseconds. A live child is its pid; the health file is its parsed content, and a
  crash entry holds the parsed timestamp (\<open>None\<close> when it does not parse). The liveness test of a
  foreign pid is an argument.
\<close>

section \<open>Types\<close>

datatype runner_state = starting | running | degraded | crashed | stopped

datatype exit_class = graceful | config_error | already_running | unlinked_terminal | crash

record runner_record =
  rr_child :: "int option"
  rr_externalPid :: "int option"
  rr_lifecycle :: runner_state
  rr_backoffUntil :: "int option"
  rr_stopping :: bool

datatype runner_trigger =
    trigger_spawn | trigger_spawn_failed | trigger_ready | trigger_exit_graceful | trigger_exit_crash
  | trigger_exit_crash_degraded | trigger_exit_config_error | trigger_exit_already_running
  | trigger_exit_lock_owner_gone | trigger_exit_unlinked | trigger_operator_stop | trigger_shutdown_stop
  | trigger_reset

record crash_entry =
  ce_at :: "int option"
  ce_exitCode :: "int option"
  ce_signal :: "string option"

record health_file =
  crashes :: "crash_entry list"
  fatalConfig :: "crash_entry option"
  terminalUnlinked :: "string option"

definition CRASH_WINDOW_MS :: int where
  "CRASH_WINDOW_MS = 60000"

definition DEGRADED_THRESHOLD :: nat where
  "DEGRADED_THRESHOLD = 3"

definition CHILD_RESTART_BACKOFF_MS :: int where
  "CHILD_RESTART_BACKOFF_MS = 2000"

definition EX_CONFIG_EXIT_CODE :: int where
  "EX_CONFIG_EXIT_CODE = 78"

definition COMPUTER_MACHINE_UNLINKED_EXIT_CODE :: int where
  "COMPUTER_MACHINE_UNLINKED_EXIT_CODE = 77"

section \<open>The transition surface\<close>

definition nextRunnerStateOnExit :: "exit_class \<Rightarrow> bool \<Rightarrow> runner_state" where
  "nextRunnerStateOnExit ec breached =
     (if ec = config_error then degraded
      else if ec = already_running then running
      else if ec = unlinked_terminal then degraded
      else if ec = crash then (if breached then degraded else crashed)
      else stopped)"

definition exitTrigger :: "exit_class \<Rightarrow> bool \<Rightarrow> runner_trigger" where
  "exitTrigger ec breached =
     (if ec = config_error then trigger_exit_config_error
      else if ec = already_running then trigger_exit_already_running
      else if ec = unlinked_terminal then trigger_exit_unlinked
      else if ec = crash then (if breached then trigger_exit_crash_degraded else trigger_exit_crash)
      else trigger_exit_graceful)"

text \<open>A pid of zero is falsy in the code's test of \<open>externalPid\<close>.\<close>

definition truthy_pid :: "int option \<Rightarrow> bool" where
  "truthy_pid p \<longleftrightarrow> p \<noteq> None \<and> p \<noteq> Some 0"

definition canSpawn :: "runner_record option \<Rightarrow> bool \<Rightarrow> int \<Rightarrow> bool" where
  "canSpawn rc wanted now =
     (if \<not> wanted then False
      else case rc of
        None \<Rightarrow> True
      | Some r \<Rightarrow>
          if rr_child r \<noteq> None then False
          else if truthy_pid (rr_externalPid r) then False
          else if rr_lifecycle r \<noteq> crashed \<and> rr_lifecycle r \<noteq> stopped then False
          else (case rr_backoffUntil r of None \<Rightarrow> 0 \<le> now | Some t \<Rightarrow> t \<le> now))"

definition adoptExternalRunnerPid :: "int \<Rightarrow> runner_record \<Rightarrow> runner_record" where
  "adoptExternalRunnerPid pid r =
     r\<lparr>rr_child := None, rr_externalPid := Some pid, rr_lifecycle := running, rr_backoffUntil := None,
       rr_stopping := False\<rparr>"

definition clearExternalRunnerPidIfDead :: "(int \<Rightarrow> bool) \<Rightarrow> runner_record \<Rightarrow> bool \<times> runner_record" where
  "clearExternalRunnerPidIfDead isAlive r = (case rr_externalPid r of
     None \<Rightarrow> (False, r)
   | Some pid \<Rightarrow>
       if isAlive pid then (False, r)
       else (True, r\<lparr>rr_externalPid := None,
         rr_lifecycle := (if rr_lifecycle r = running then stopped else rr_lifecycle r)\<rparr>))"

definition rehydrateRunnerRecord :: "bool \<Rightarrow> runner_record" where
  "rehydrateRunnerRecord parked =
     \<lparr>rr_child = None, rr_externalPid = None, rr_lifecycle = (if parked then degraded else stopped),
      rr_backoffUntil = None, rr_stopping = False\<rparr>"

definition applyRunnerReset :: "runner_record \<Rightarrow> bool \<times> runner_record" where
  "applyRunnerReset r =
     (if rr_lifecycle r \<noteq> degraded then (False, r)
      else (True, r\<lparr>rr_lifecycle := stopped, rr_backoffUntil := None\<rparr>))"

section \<open>The crash budget\<close>

definition empty_health :: health_file where
  "empty_health = \<lparr>crashes = [], fatalConfig = None, terminalUnlinked = None\<rparr>"

definition recent_crash :: "int \<Rightarrow> crash_entry \<Rightarrow> bool" where
  "recent_crash now c = (case ce_at c of None \<Rightarrow> False | Some t \<Rightarrow> now - CRASH_WINDOW_MS \<le> t)"

definition recordCrash :: "int option \<Rightarrow> string option \<Rightarrow> int \<Rightarrow> health_file \<Rightarrow> health_file" where
  "recordCrash code signal now h =
     h\<lparr>crashes := filter (recent_crash now) (crashes h) @ [\<lparr>ce_at = Some now, ce_exitCode = code, ce_signal = signal\<rparr>]\<rparr>"

definition readCrashHistory :: "int \<Rightarrow> health_file \<Rightarrow> crash_entry list" where
  "readCrashHistory now h = filter (recent_crash now) (crashes h)"

definition isDegraded :: "int \<Rightarrow> health_file \<Rightarrow> bool" where
  "isDegraded now h = (if fatalConfig h \<noteq> None then True
     else DEGRADED_THRESHOLD \<le> length (filter (recent_crash now) (crashes h)))"

definition markFatalConfig :: "int option \<Rightarrow> string option \<Rightarrow> int \<Rightarrow> health_file \<Rightarrow> health_file" where
  "markFatalConfig code signal now h =
     h\<lparr>fatalConfig := Some \<lparr>ce_at = Some now, ce_exitCode = code, ce_signal = signal\<rparr>\<rparr>"

definition markTerminalUnlinked :: "string \<Rightarrow> health_file \<Rightarrow> health_file" where
  "markTerminalUnlinked machineId h = h\<lparr>terminalUnlinked := Some machineId\<rparr>"

text \<open>A marker of another machine id is dropped; either id being empty keeps it.\<close>

definition readTerminalUnlinked :: "string option \<Rightarrow> health_file \<Rightarrow> string option \<times> health_file" where
  "readTerminalUnlinked current h = (case (terminalUnlinked h, current) of
     (Some m, Some c) \<Rightarrow>
       if m \<noteq> '''' \<and> c \<noteq> '''' \<and> m \<noteq> c then (None, h\<lparr>terminalUnlinked := None\<rparr>) else (Some m, h)
   | (m, _) \<Rightarrow> (m, h))"

definition resetHealth :: "health_file \<Rightarrow> health_file" where
  "resetHealth h = empty_health\<lparr>terminalUnlinked := terminalUnlinked h\<rparr>"

section \<open>Exit classification\<close>

definition to_lower :: "char \<Rightarrow> char" where
  "to_lower ch = (let n = of_char ch :: nat in if 65 \<le> n \<and> n \<le> 90 then char_of (n + 32) else ch)"

fun starts_with :: "string \<Rightarrow> string \<Rightarrow> bool" where
  "starts_with [] _ = True"
| "starts_with (_ # _) [] = False"
| "starts_with (p # ps) (c # cs) = (p = c \<and> starts_with ps cs)"

fun contains :: "string \<Rightarrow> string \<Rightarrow> bool" where
  "contains p [] = starts_with p []"
| "contains p (c # cs) = (starts_with p (c # cs) \<or> contains p cs)"

definition daemon_already_running :: "string \<Rightarrow> bool" where
  "daemon_already_running text =
     contains (map to_lower ''Another Slock daemon is already running'') (map to_lower text)"

definition is_word_char :: "char \<Rightarrow> bool" where
  "is_word_char ch = (let n = of_char ch :: nat in
     48 \<le> n \<and> n \<le> 57 \<or> 65 \<le> n \<and> n \<le> 90 \<or> n = 95 \<or> 97 \<le> n \<and> n \<le> 122)"

text \<open>
  The first match of \<open>\bpid=(\d+)\b\<close>: the flag says whether the character before the position is a
  word character. The digits are all the digits that follow; a shorter match would end inside a word.
\<close>

fun lock_owner_digits :: "bool \<Rightarrow> string \<Rightarrow> string option" where
  "lock_owner_digits prev [] = None"
| "lock_owner_digits prev (c # cs) =
     (let digits = takeWhile is_digit (drop 3 cs); rest = dropWhile is_digit (drop 3 cs)
      in if \<not> prev \<and> starts_with ''pid='' (c # cs) \<and> digits \<noteq> [] \<and> (rest = [] \<or> \<not> is_word_char (hd rest))
         then Some digits else lock_owner_digits (is_word_char c) cs)"

definition parseDaemonLockConflictOwnerPid :: "string \<Rightarrow> int option" where
  "parseDaemonLockConflictOwnerPid text =
     (let pid = (if daemon_already_running text
        then (case lock_owner_digits False text of None \<Rightarrow> 0 | Some ds \<Rightarrow> int (dec_val ds)) else 0)
      in if 0 < pid then Some pid else None)"

definition classifyRunnerExit :: "int option \<Rightarrow> string option \<Rightarrow> string \<Rightarrow> exit_class" where
  "classifyRunnerExit code signal text =
     (if daemon_already_running text then already_running
      else if code = Some COMPUTER_MACHINE_UNLINKED_EXIT_CODE then unlinked_terminal
      else if code = Some EX_CONFIG_EXIT_CODE then config_error
      else if signal = Some ''SIGTERM'' \<or> signal = Some ''SIGINT'' then graceful
      else if code = Some 0 then graceful
      else crash)"

section \<open>Exit handling\<close>

definition handleRunnerLockConflict ::
  "int option \<Rightarrow> (int \<Rightarrow> bool) \<Rightarrow> int \<Rightarrow> int \<Rightarrow> runner_record \<Rightarrow> runner_record \<times> runner_trigger" where
  "handleRunnerLockConflict ownerPid isAlive now retryDelay r = (case ownerPid of
     Some pid \<Rightarrow>
       if isAlive pid then (adoptExternalRunnerPid pid r, trigger_exit_already_running)
       else (r\<lparr>rr_lifecycle := stopped, rr_backoffUntil := Some (now + retryDelay)\<rparr>, trigger_exit_lock_owner_gone)
   | None \<Rightarrow> (r\<lparr>rr_lifecycle := degraded, rr_backoffUntil := None\<rparr>, trigger_exit_already_running))"

text \<open>The attachment's machine id is \<open>None\<close> when the server is not attached.\<close>

definition mark_unlinked :: "string option \<Rightarrow> health_file \<Rightarrow> health_file" where
  "mark_unlinked attachment h = (case attachment of
     None \<Rightarrow> h
   | Some m \<Rightarrow> (case readTerminalUnlinked (Some m) h of
       (None, h') \<Rightarrow> markTerminalUnlinked m h'
     | (Some _, h') \<Rightarrow> h'))"

record exit_info =
  ex_code :: "int option"
  ex_signal :: "string option"
  ex_text :: string
  ex_attachment :: "string option"

definition handleRunnerExitForSupervisor ::
  "exit_info \<Rightarrow> bool \<Rightarrow> (int \<Rightarrow> bool) \<Rightarrow> int \<Rightarrow> runner_record \<times> health_file \<Rightarrow> (runner_record \<times> health_file) \<times> runner_trigger" where
  "handleRunnerExitForSupervisor ex shuttingDown isAlive now rh = (case rh of (r, h) \<Rightarrow>
     if rr_stopping r
     then ((r\<lparr>rr_lifecycle := stopped\<rparr>, h), if shuttingDown then trigger_shutdown_stop else trigger_operator_stop)
     else let ec = classifyRunnerExit (ex_code ex) (ex_signal ex) (ex_text ex) in
       if ec = config_error
       then ((r\<lparr>rr_lifecycle := degraded\<rparr>, markFatalConfig (ex_code ex) (ex_signal ex) now h), trigger_exit_config_error)
       else if ec = already_running
       then (case handleRunnerLockConflict (parseDaemonLockConflictOwnerPid (ex_text ex)) isAlive now
               CHILD_RESTART_BACKOFF_MS r of (r', t) \<Rightarrow> ((r', h), t))
       else if ec = unlinked_terminal
       then ((r\<lparr>rr_lifecycle := degraded\<rparr>, mark_unlinked (ex_attachment ex) h), trigger_exit_unlinked)
       else
         let h' = (if ec = crash then recordCrash (ex_code ex) (ex_signal ex) now h else h);
             breached = (if ec = crash then isDegraded now h' else False);
             to = nextRunnerStateOnExit ec breached
         in ((if to = degraded then r\<lparr>rr_lifecycle := to\<rparr>
              else r\<lparr>rr_lifecycle := to, rr_backoffUntil := Some (now + CHILD_RESTART_BACKOFF_MS)\<rparr>, h'),
             exitTrigger ec breached))"

section \<open>The service loop around one runner\<close>

definition spawn_begin :: "runner_record option \<Rightarrow> runner_record" where
  "spawn_begin existing =
     (case existing of None \<Rightarrow> rehydrateRunnerRecord False | Some r \<Rightarrow> r)
       \<lparr>rr_lifecycle := starting, rr_stopping := False, rr_backoffUntil := None, rr_child := None\<rparr>"

definition spawn_finish :: "int option \<Rightarrow> int \<Rightarrow> runner_record \<Rightarrow> runner_record" where
  "spawn_finish pid now r =
     (if \<not> truthy_pid pid
      then r\<lparr>rr_lifecycle := crashed, rr_backoffUntil := Some (now + CHILD_RESTART_BACKOFF_MS)\<rparr>
      else r\<lparr>rr_child := pid\<rparr>)"

definition markRunnerReadyIfConnected :: "bool \<Rightarrow> runner_record \<Rightarrow> bool \<times> runner_record" where
  "markRunnerReadyIfConnected evidence r =
     (if \<not> truthy_pid (rr_child r) then (False, r)
      else if \<not> evidence then (False, r)
      else (True, r\<lparr>rr_lifecycle := running, rr_backoffUntil := None\<rparr>))"

definition killChild :: "runner_record \<Rightarrow> runner_record" where
  "killChild r = r\<lparr>rr_stopping := True\<rparr>"

definition resetRunner :: "bool \<Rightarrow> runner_record \<times> health_file \<Rightarrow> runner_record \<times> health_file" where
  "resetRunner attached rh = (case rh of (r, h) \<Rightarrow>
     if \<not> attached then (r, h) else (snd (applyRunnerReset r), resetHealth h))"


text \<open>
  The state of the loop for one server: the record, the health file, the spawns between their
  synchronous start and the assignment of the child, and the exits whose handler has cleared the
  child and is still reading its diagnostics. The segments between two awaits are single steps; the
  exit handler's reads touch nothing another segment can change while the child is cleared, and the
  readiness probe awaits no input or output, so both are one step.
\<close>

record runner_sys =
  sys_record :: "runner_record option"
  sys_health :: health_file
  sys_spawning :: nat
  sys_exits :: "exit_info list"
  sys_shuttingDown :: bool

datatype runner_act =
    Clear_external "int \<Rightarrow> bool"
  | Ready_probe bool
  | Spawn int
  | Spawn_done "int option" int
  | Child_exit exit_info
  | Exit_done "int \<Rightarrow> bool" int
  | Kill
  | Reset bool
  | Shutdown

text \<open>\<open>None\<close>: the segment cannot run in this state.\<close>

fun runner_act_step :: "runner_act \<Rightarrow> runner_sys \<Rightarrow> runner_sys option" where
  "runner_act_step (Clear_external isAlive) s = (case sys_record s of
     None \<Rightarrow> None
   | Some r \<Rightarrow> Some (s\<lparr>sys_record := Some (snd (clearExternalRunnerPidIfDead isAlive r))\<rparr>))"
| "runner_act_step (Ready_probe evidence) s = (case sys_record s of
     None \<Rightarrow> None
   | Some r \<Rightarrow>
       if rr_child r \<noteq> None \<and> rr_lifecycle r = starting
       then Some (s\<lparr>sys_record := Some (snd (markRunnerReadyIfConnected evidence r))\<rparr>) else None)"
| "runner_act_step (Spawn now) s =
     (if \<not> canSpawn (sys_record s) True now then None
      else if sys_shuttingDown s then Some s
      else Some (s\<lparr>sys_record := Some (spawn_begin (sys_record s)), sys_spawning := sys_spawning s + 1\<rparr>))"
| "runner_act_step (Spawn_done pid now) s = (case sys_record s of
     None \<Rightarrow> None
   | Some r \<Rightarrow>
       if sys_spawning s = 0 then None
       else Some (s\<lparr>sys_record := Some (spawn_finish pid now r), sys_spawning := sys_spawning s - 1\<rparr>))"
| "runner_act_step (Child_exit ex) s = (case sys_record s of
     None \<Rightarrow> None
   | Some r \<Rightarrow>
       if rr_child r = None then None
       else Some (s\<lparr>sys_record := Some (r\<lparr>rr_child := None\<rparr>), sys_exits := sys_exits s @ [ex]\<rparr>))"
| "runner_act_step (Exit_done isAlive now) s = (case (sys_record s, sys_exits s) of
     (Some r, ex # exs) \<Rightarrow>
       (case handleRunnerExitForSupervisor ex (sys_shuttingDown s) isAlive now (r, sys_health s) of
          ((r', h'), _) \<Rightarrow> Some (s\<lparr>sys_record := Some r', sys_health := h', sys_exits := exs\<rparr>))
   | _ \<Rightarrow> None)"
| "runner_act_step Kill s = (case sys_record s of
     None \<Rightarrow> None
   | Some r \<Rightarrow>
       if rr_child r \<noteq> None \<or> rr_externalPid r \<noteq> None
       then Some (s\<lparr>sys_record := Some (killChild r)\<rparr>) else None)"
| "runner_act_step (Reset attached) s = (case sys_record s of
     None \<Rightarrow> Some (s\<lparr>sys_health := (if attached then resetHealth (sys_health s) else sys_health s)\<rparr>)
   | Some r \<Rightarrow> (case resetRunner attached (r, sys_health s) of
       (r', h') \<Rightarrow> Some (s\<lparr>sys_record := Some r', sys_health := h'\<rparr>)))"
| "runner_act_step Shutdown s = Some (s\<lparr>sys_shuttingDown := True\<rparr>)"

fun runner_acts :: "runner_act list \<Rightarrow> runner_sys \<Rightarrow> runner_sys option" where
  "runner_acts [] s = Some s"
| "runner_acts (a # as) s = (case runner_act_step a s of None \<Rightarrow> None | Some t \<Rightarrow> runner_acts as t)"

section \<open>Service boot next to the live loop\<close>

text \<open>
  When the service boots, its IPC surface is live before the rehydration of the servers: a reset that is
  dispatched meanwhile can schedule a reconcile pass. For each server the boot code awaits
  \<open>isDegraded\<close>, then (only when that is false) \<open>readTerminalUnlinked\<close>, and then writes a fresh
  record into the map, whatever is there. Each of the three is a step of its own, and every segment of the
  loop may run between them. A server that was not managed at boot takes no boot step.
\<close>

datatype boot_phase = Boot_pending | Boot_unlinked | Boot_parked bool | Booted

text \<open>
  \<open>sv_stray\<close> is the state of a record that the boot has overwritten: its spawn and its exit handler
  still hold it. \<open>sv_untracked\<close> counts the daemon processes that no record of the map refers to. When such a
  process exits, its handler looks the record up in the map, and so clears the child of the new one.
\<close>

record service_sys =
  sv_runner :: runner_sys
  sv_boot :: boot_phase
  sv_stray :: "runner_sys option"
  sv_untracked :: nat

datatype service_act =
    Act runner_act
  | Boot_degraded int
  | Boot_read "string option"
  | Boot_write
  | Stray_spawned "int option" int
  | Stray_child_exit exit_info
  | Stray_exit_done "int \<Rightarrow> bool" int

definition service_start :: "health_file \<Rightarrow> service_sys" where
  "service_start h =
     \<lparr>sv_runner = \<lparr>sys_record = None, sys_health = h, sys_spawning = 0, sys_exits = [], sys_shuttingDown = False\<rparr>,
      sv_boot = Boot_pending, sv_stray = None, sv_untracked = 0\<rparr>"

text \<open>A second spawn that completes on one record displaces the child of the first.\<close>

definition displaced :: "runner_act \<Rightarrow> runner_sys \<Rightarrow> nat" where
  "displaced a s = (case (a, sys_record s) of
     (Spawn_done pid _, Some r) \<Rightarrow> if truthy_pid pid \<and> rr_child r \<noteq> None then 1 else 0
   | _ \<Rightarrow> 0)"

definition boot_write :: "bool \<Rightarrow> service_sys \<Rightarrow> service_sys" where
  "boot_write p v = (let s = sv_runner v in
     v\<lparr>sv_runner := s\<lparr>sys_record := Some (rehydrateRunnerRecord p), sys_spawning := 0, sys_exits := []\<rparr>,
       sv_boot := Booted,
       sv_stray := (if sys_record s = None then None else Some s),
       sv_untracked := (case sys_record s of Some r \<Rightarrow> if rr_child r \<noteq> None then 1 else 0 | None \<Rightarrow> 0)\<rparr>)"

fun service_step :: "service_act \<Rightarrow> service_sys \<Rightarrow> service_sys option" where
  "service_step (Act a) v = (case runner_act_step a (sv_runner v) of
     None \<Rightarrow> None
   | Some s \<Rightarrow> Some (v\<lparr>sv_runner := s, sv_untracked := sv_untracked v + displaced a (sv_runner v)\<rparr>))"
| "service_step (Boot_degraded now) v =
     (if sv_boot v \<noteq> Boot_pending then None
      else Some (v\<lparr>sv_boot := (if isDegraded now (sys_health (sv_runner v)) then Boot_parked True else Boot_unlinked)\<rparr>))"
| "service_step (Boot_read attachment) v =
     (if sv_boot v \<noteq> Boot_unlinked then None
      else let (m, h) = readTerminalUnlinked attachment (sys_health (sv_runner v))
           in Some (v\<lparr>sv_runner := (sv_runner v)\<lparr>sys_health := h\<rparr>, sv_boot := Boot_parked (m \<noteq> None)\<rparr>))"
| "service_step Boot_write v = (case sv_boot v of Boot_parked p \<Rightarrow> Some (boot_write p v) | _ \<Rightarrow> None)"
| "service_step (Stray_spawned pid now) v = (case sv_stray v of
     None \<Rightarrow> None
   | Some s \<Rightarrow> (case runner_act_step (Spawn_done pid now) s of
       None \<Rightarrow> None
     | Some s' \<Rightarrow> Some (v\<lparr>sv_stray := Some s', sv_untracked := sv_untracked v + (if truthy_pid pid then 1 else 0)\<rparr>)))"
| "service_step (Stray_child_exit ex) v = (case sys_record (sv_runner v) of
     None \<Rightarrow> None
   | Some r \<Rightarrow>
       if sv_untracked v = 0 then None
       else Some (v\<lparr>sv_runner := (sv_runner v)\<lparr>sys_record := Some (r\<lparr>rr_child := None\<rparr>),
                                               sys_exits := sys_exits (sv_runner v) @ [ex]\<rparr>,
                    sv_untracked := (if rr_child r \<noteq> None then sv_untracked v else sv_untracked v - 1)\<rparr>))"
| "service_step (Stray_exit_done isAlive now) v = (case sv_stray v of
     None \<Rightarrow> None
   | Some s \<Rightarrow> (case runner_act_step (Exit_done isAlive now)
         (s\<lparr>sys_health := sys_health (sv_runner v), sys_shuttingDown := sys_shuttingDown (sv_runner v)\<rparr>) of
       None \<Rightarrow> None
     | Some s' \<Rightarrow> Some (v\<lparr>sv_stray := Some s', sv_runner := (sv_runner v)\<lparr>sys_health := sys_health s'\<rparr>\<rparr>)))"

fun service_acts :: "service_act list \<Rightarrow> service_sys \<Rightarrow> service_sys option" where
  "service_acts [] v = Some v"
| "service_acts (a # as) v = (case service_step a v of None \<Rightarrow> None | Some w \<Rightarrow> service_acts as w)"

end
