(* ===== verification/Runner_Properties.thy ===== *)
theory Runner_Properties
  imports Runner_Supervision
begin

text \<open>
  What the supervision loop guarantees for one server, in every interleaving of its segments: at
  most one daemon, a parked runner stays parked, no runner is forgotten, the backoff is kept, and
  the crash budget is what the health file says.
\<close>

section \<open>The invariant of the loop\<close>

text \<open>The daemons this service owns: spawns in flight, the registered child, exits being handled.\<close>

definition child_count :: "runner_record \<Rightarrow> nat" where
  "child_count r = (if rr_child r = None then 0 else 1)"

definition owned :: "runner_sys \<Rightarrow> nat" where
  "owned s = sys_spawning s + length (sys_exits s) + (case sys_record s of None \<Rightarrow> 0 | Some r \<Rightarrow> child_count r)"

text \<open>A record next to \<open>k\<close> spawns and exits under way.\<close>

definition record_ok :: "nat \<Rightarrow> runner_record \<Rightarrow> bool" where
  "record_ok k r \<longleftrightarrow>
     k + child_count r \<le> 1 \<and>
     (case rr_externalPid r of
        Some p \<Rightarrow> 0 < p \<and> k + child_count r = 0 \<and> rr_lifecycle r = running
      | None \<Rightarrow> k + child_count r = 1 \<longleftrightarrow> rr_lifecycle r = starting \<or> rr_lifecycle r = running)"

definition runner_inv :: "runner_sys \<Rightarrow> bool" where
  "runner_inv s = (case sys_record s of
     None \<Rightarrow> sys_spawning s = 0 \<and> sys_exits s = []
   | Some r \<Rightarrow> record_ok (sys_spawning s + length (sys_exits s)) r)"

lemma record_ok_clear: "record_ok k r \<Longrightarrow> record_ok k (snd (clearExternalRunnerPidIfDead f r))"
  by (auto simp: record_ok_def child_count_def clearExternalRunnerPidIfDead_def
      split: option.splits if_splits)

lemma record_ok_ready:
  "record_ok k r \<Longrightarrow> rr_child r \<noteq> None \<Longrightarrow> record_ok k (snd (markRunnerReadyIfConnected e r))"
  by (auto simp: record_ok_def child_count_def markRunnerReadyIfConnected_def split: option.splits)

lemma record_ok_idle:
  "record_ok k r \<Longrightarrow> canSpawn (Some r) True now \<Longrightarrow> k = 0 \<and> rr_child r = None \<and> rr_externalPid r = None"
  by (auto simp: record_ok_def child_count_def canSpawn_def truthy_pid_def split: option.splits if_splits)

lemma record_ok_spawn:
  "rr_externalPid r = None \<Longrightarrow> record_ok (Suc 0) (spawn_begin (Some r))" "record_ok (Suc 0) (spawn_begin None)"
  by (simp_all add: record_ok_def child_count_def spawn_begin_def rehydrateRunnerRecord_def)

lemma record_ok_spawned:
  assumes "record_ok (Suc k) r"
  shows "record_ok k (spawn_finish pid now r)"
proof -
  have "k = 0" "rr_child r = None" "rr_externalPid r = None" "rr_lifecycle r = starting \<or> rr_lifecycle r = running"
    using assms by (auto simp: record_ok_def child_count_def split: option.splits if_splits)
  then show ?thesis
    by (cases pid) (auto simp: record_ok_def child_count_def spawn_finish_def truthy_pid_def)
qed

lemma record_ok_exit: "record_ok k r \<Longrightarrow> rr_child r \<noteq> None \<Longrightarrow> record_ok (Suc k) (r\<lparr>rr_child := None\<rparr>)"
  by (auto simp: record_ok_def child_count_def split: option.splits)

lemma record_ok_kill: "record_ok k r \<Longrightarrow> record_ok k (killChild r)"
  by (auto simp: record_ok_def child_count_def killChild_def split: option.splits if_splits)

lemma record_ok_reset: "record_ok k r \<Longrightarrow> record_ok k (fst (resetRunner att (r, h)))"
  by (auto simp: record_ok_def child_count_def resetRunner_def applyRunnerReset_def split: option.splits if_splits)

lemma parse_owner_pos: "parseDaemonLockConflictOwnerPid text = Some p \<Longrightarrow> 0 < p"
  by (auto simp: parseDaemonLockConflictOwnerPid_def Let_def split: if_splits)

text \<open>The exit handler leaves no child and either adopts a live owner or rests.\<close>

lemma exit_rests:
  assumes "handleRunnerExitForSupervisor ex sd isAlive now (r, h) = ((r', h'), t)" "rr_child r = None"
    "rr_externalPid r = None"
  shows "rr_child r' = None \<and>
    (case rr_externalPid r' of
       Some p \<Rightarrow> 0 < p \<and> rr_lifecycle r' = running
     | None \<Rightarrow> rr_lifecycle r' \<noteq> starting \<and> rr_lifecycle r' \<noteq> running)"
proof (cases "rr_stopping r")
  case True
  with assms show ?thesis by (auto simp: handleRunnerExitForSupervisor_def)
next
  case False
  show ?thesis
  proof (cases "classifyRunnerExit (ex_code ex) (ex_signal ex) (ex_text ex)")
    case already_running
    with False assms show ?thesis
      by (auto simp: handleRunnerExitForSupervisor_def handleRunnerLockConflict_def adoptExternalRunnerPid_def
          parse_owner_pos split: option.splits if_splits)
  qed (use False assms in \<open>auto simp: handleRunnerExitForSupervisor_def nextRunnerStateOnExit_def Let_def
      split: if_splits\<close>)
qed

lemma record_ok_exited:
  assumes "record_ok (Suc k) r" "handleRunnerExitForSupervisor ex sd isAlive now (r, h) = ((r', h'), t)"
  shows "record_ok k r'"
proof -
  have "k = 0" "rr_child r = None" "rr_externalPid r = None"
    using assms(1) by (auto simp: record_ok_def child_count_def split: option.splits if_splits)
  with exit_rests [OF assms(2)] show ?thesis
    by (auto simp: record_ok_def child_count_def split: option.splits)
qed

lemmas record_ok_steps = record_ok_clear record_ok_ready record_ok_spawn record_ok_spawned record_ok_exit
  record_ok_kill

lemma runner_inv_step [inv_intros]:
  assumes "runner_inv s" "runner_act_step a s = Some t"
  shows "runner_inv t"
  using assms
proof (cases a)
  case (Spawn now)
  show ?thesis
  proof (cases "sys_record s")
    case None
    with assms Spawn show ?thesis by (auto simp: runner_inv_def record_ok_spawn split: if_splits)
  next
    case (Some r)
    have "canSpawn (Some r) True now" using assms(2) Spawn Some by (simp split: if_splits)
    then have "sys_spawning s = 0" "sys_exits s = []" "rr_externalPid r = None"
      using record_ok_idle [of "sys_spawning s + length (sys_exits s)" r now] assms(1) Some
      by (auto simp: runner_inv_def)
    with assms Spawn Some show ?thesis by (auto simp: runner_inv_def record_ok_spawn split: if_splits)
  qed
next
  case (Spawn_done pid now)
  with assms record_ok_spawned [of "sys_spawning s - 1 + length (sys_exits s)"] show ?thesis
    by (auto simp: runner_inv_def split: option.splits if_splits)
next
  case (Exit_done isAlive now)
  then obtain r ex exs where r: "sys_record s = Some r" and ex: "sys_exits s = ex # exs"
    using assms(2) by (auto split: option.splits list.splits)
  obtain r' h' tr where h: "handleRunnerExitForSupervisor ex (sys_shuttingDown s) isAlive now (r, sys_health s) =
      ((r', h'), tr)" by (metis surj_pair)
  have "t = s\<lparr>sys_record := Some r', sys_health := h', sys_exits := exs\<rparr>"
    using assms(2) Exit_done r ex h by simp
  then show ?thesis using record_ok_exited [OF _ h] assms(1) r ex by (simp add: runner_inv_def)
next
  case (Reset att)
  show ?thesis
  proof (cases "sys_record s")
    case None
    then show ?thesis using assms Reset by (auto simp: runner_inv_def)
  next
    case (Some r)
    then show ?thesis
      using assms Reset record_ok_reset [of _ r att "sys_health s"]
      by (auto simp: runner_inv_def split: prod.splits)
  qed
qed (auto simp: runner_inv_def record_ok_steps split: option.splits if_splits)

lemma runner_inv_acts: "runner_acts as s = Some t \<Longrightarrow> runner_inv s \<Longrightarrow> runner_inv t"
  by (induction as arbitrary: s) (auto split: option.splits intro: runner_inv_step)

section \<open>Parked runners\<close>

fun is_reset :: "runner_act \<Rightarrow> bool" where
  "is_reset (Reset _) = True"
| "is_reset _ = False"

definition parked :: "runner_sys \<Rightarrow> bool" where
  "parked s = (case sys_record s of None \<Rightarrow> False | Some r \<Rightarrow> rr_lifecycle r = degraded)"

lemma parked_owned:
  assumes "runner_inv s" "parked s"
  shows "owned s = 0"
proof -
  have "owned s \<le> 1" "owned s \<noteq> 1"
    using assms by (auto simp: parked_def runner_inv_def record_ok_def owned_def split: option.splits)
  then show ?thesis by simp
qed

lemma parked_step:
  assumes "runner_inv s" "parked s" "runner_act_step a s = Some t" "\<not> is_reset a"
  shows "parked t"
proof -
  obtain r where r: "sys_record s = Some r" "rr_lifecycle r = degraded"
    using assms(2) by (auto simp: parked_def split: option.splits)
  have "sys_spawning s = 0" "sys_exits s = []" "rr_child r = None"
    using parked_owned [OF assms(1,2)] r by (auto simp: owned_def child_count_def split: if_splits)
  then show ?thesis using assms(3,4) r
    by (cases a) (auto simp: parked_def clearExternalRunnerPidIfDead_def canSpawn_def killChild_def
        split: option.splits if_splits)
qed

lemma parked_acts:
  "runner_acts as s = Some t \<Longrightarrow> runner_inv s \<Longrightarrow> parked s \<Longrightarrow> \<forall>a \<in> set as. \<not> is_reset a \<Longrightarrow> parked t"
  by (induction as arbitrary: s) (auto split: option.splits intro: runner_inv_step parked_step)

section \<open>Boots that no spawn disturbs\<close>

fun is_boot_write :: "service_act \<Rightarrow> bool" where
  "is_boot_write Boot_write = True"
| "is_boot_write _ = False"

text \<open>No spawn of the server starts before the boot has written the server's record.\<close>

fun boot_undisturbed :: "service_act list \<Rightarrow> bool" where
  "boot_undisturbed [] = True"
| "boot_undisturbed (Act (Spawn _) # as) = list_all (\<lambda>a. \<not> is_boot_write a) as"
| "boot_undisturbed (_ # as) = boot_undisturbed as"

definition still_undisturbed :: "service_sys \<Rightarrow> service_act list \<Rightarrow> bool" where
  "still_undisturbed v as \<longleftrightarrow> sv_boot v = Booted \<or> list_all (\<lambda>a. \<not> is_boot_write a) as \<or>
     sys_record (sv_runner v) = None \<and> boot_undisturbed as"

text \<open>Every daemon of the server: those the loop owns, those of an overwritten record, and those no record refers to.\<close>

definition daemons :: "service_sys \<Rightarrow> nat" where
  "daemons v = owned (sv_runner v) + sv_untracked v +
     (case sv_stray v of None \<Rightarrow> 0 | Some s \<Rightarrow> sys_spawning s + length (sys_exits s))"

definition service_inv :: "service_sys \<Rightarrow> bool" where
  "service_inv v \<longleftrightarrow> runner_inv (sv_runner v) \<and> sv_stray v = None \<and> sv_untracked v = 0"

lemma service_inv_start [inv_intros]: "service_inv (service_start h)"
  by (simp add: service_inv_def service_start_def runner_inv_def)

lemma no_record_step:
  "runner_act_step a s = Some t \<Longrightarrow> sys_record s = None \<Longrightarrow> (\<And>now. a \<noteq> Spawn now) \<Longrightarrow> sys_record t = None"
  by (cases a) auto

lemma still_undisturbed_step:
  assumes "still_undisturbed v (a # as)" "service_step a v = Some w"
  shows "still_undisturbed w as"
proof (cases "sv_boot v = Booted \<or> list_all (\<lambda>a. \<not> is_boot_write a) as")
  case True
  then show ?thesis
    using assms(2) by (cases a) (auto simp: still_undisturbed_def boot_write_def Let_def split: option.splits if_splits prod.splits)
next
  case False
  then have none: "sys_record (sv_runner v) = None" "boot_undisturbed (a # as)"
    using assms(1) by (auto simp: still_undisturbed_def)
  show ?thesis
  proof (cases a)
    case (Act b)
    have spawn: "b \<noteq> Spawn now" for now using none(2) False Act by auto
    then have "boot_undisturbed as" using none(2) Act by (cases b) auto
    then show ?thesis
      using assms(2) Act no_record_step [OF _ none(1) spawn] by (auto simp: still_undisturbed_def split: option.splits)
  qed (use none assms(2) in \<open>auto simp: still_undisturbed_def boot_write_def Let_def split: option.splits boot_phase.splits if_splits prod.splits\<close>)
qed

lemma displaced_none: "runner_inv s \<Longrightarrow> runner_act_step a s = Some t \<Longrightarrow> displaced a s = 0"
  by (cases a) (auto simp: displaced_def runner_inv_def record_ok_def child_count_def split: option.splits if_splits)

lemma runner_inv_health [simp]: "runner_inv (s\<lparr>sys_health := h\<rparr>) = runner_inv s"
  by (auto simp: runner_inv_def split: option.splits)

lemma service_inv_step [inv_intros]:
  assumes "service_inv v" "still_undisturbed v (a # as)" "service_step a v = Some w"
  shows "service_inv w"
proof (cases a)
  case (Act b)
  then show ?thesis
    using assms(1,3) displaced_none [of "sv_runner v" b] runner_inv_step [of "sv_runner v" b]
    by (auto simp: service_inv_def split: option.splits)
next
  case Boot_write
  then obtain p where p: "sv_boot v = Boot_parked p" "w = boot_write p v" using assms(3) by (auto split: boot_phase.splits)
  then have "sys_record (sv_runner v) = None" using assms(2) Boot_write by (simp add: still_undisturbed_def)
  then show ?thesis
    using assms(1) p(2)
    by (simp add: service_inv_def boot_write_def Let_def runner_inv_def record_ok_def child_count_def rehydrateRunnerRecord_def)
qed (use assms in \<open>auto simp: service_inv_def Let_def split: option.splits if_splits prod.splits\<close>)

lemma service_inv_acts:
  "service_acts as v = Some w \<Longrightarrow> service_inv v \<Longrightarrow> still_undisturbed v (as @ bs) \<Longrightarrow> service_inv w \<and> still_undisturbed w bs"
proof (induction as arbitrary: v)
  case (Cons a as)
  then obtain u where u: "service_step a v = Some u" "service_acts as u = Some w" by (auto split: option.splits)
  show ?case
    using Cons.IH [OF u(2)] service_inv_step [OF Cons.prems(2) _ u(1)] still_undisturbed_step [OF _ u(1)] Cons.prems(3)
    by simp
qed simp

lemma service_inv_run:
  assumes "service_acts as (service_start h) = Some v" "boot_undisturbed (as @ bs)"
  shows "service_inv v \<and> still_undisturbed v bs"
  using service_inv_acts [OF assms(1) service_inv_start, of bs] assms(2)
  by (simp add: still_undisturbed_def service_start_def)

lemma service_inv_daemons: "service_inv v \<Longrightarrow> daemons v = owned (sv_runner v)"
  by (simp add: service_inv_def daemons_def)

fun is_operator_reset :: "service_act \<Rightarrow> bool" where
  "is_operator_reset (Act a) = is_reset a"
| "is_operator_reset _ = False"

lemma service_parked_step:
  assumes "service_inv v" "still_undisturbed v (a # as)" "service_step a v = Some w" "parked (sv_runner v)" "\<not> is_operator_reset a"
  shows "parked (sv_runner w)"
proof (cases a)
  case (Act b)
  then show ?thesis using assms parked_step [of "sv_runner v" b] by (auto simp: service_inv_def split: option.splits)
next
  case Boot_write
  then have "sv_boot v \<noteq> Booted" using assms(3) by (auto split: boot_phase.splits)
  then have "sys_record (sv_runner v) = None" using assms(2) Boot_write by (simp add: still_undisturbed_def)
  then show ?thesis using assms(4) by (simp add: parked_def)
qed (use assms in \<open>auto simp: service_inv_def parked_def Let_def split: option.splits if_splits prod.splits\<close>)

lemma service_parked_acts:
  "service_acts as v = Some w \<Longrightarrow> service_inv v \<Longrightarrow> still_undisturbed v as \<Longrightarrow> parked (sv_runner v) \<Longrightarrow>
    \<forall>a \<in> set as. \<not> is_operator_reset a \<Longrightarrow> parked (sv_runner w)"
proof (induction as arbitrary: v)
  case (Cons a as)
  then obtain u where u: "service_step a v = Some u" "service_acts as u = Some w" by (auto split: option.splits)
  show ?case
    using Cons.IH [OF u(2)] service_inv_step [OF Cons.prems(2,3) u(1)] still_undisturbed_step [OF Cons.prems(3) u(1)]
      service_parked_step [OF Cons.prems(2,3) u(1)] Cons.prems(4,5)
    by simp
qed simp

text \<open>
  A spawn that slips in before the record is written breaks this: while the boot awaits the health file of a server, a
  reconcile pass (scheduled by the reset of another, already rehydrated server) spawns its daemon; the boot then
  overwrites the record, and the next pass spawns a second one.
\<close>

lemma boot_race_second_daemon:
  "\<exists>v. service_acts [Boot_degraded 0, Act (Spawn 1), Boot_read None, Boot_write, Stray_spawned (Some 41) 2,
       Act (Spawn 3), Act (Spawn_done (Some 42) 4)] (service_start empty_health) = Some v \<and> daemons v = 2"
  by (simp add: service_start_def boot_write_def daemons_def owned_def child_count_def displaced_def Let_def
      readTerminalUnlinked_def empty_health_def isDegraded_def DEGRADED_THRESHOLD_def rehydrateRunnerRecord_def
      canSpawn_def truthy_pid_def spawn_begin_def spawn_finish_def)

section \<open>Properties\<close>

text \<open>
  C7. One daemon per server: from the start of the service on, in every interleaving of the boot's rehydration with
  reconcile passes, spawns, exits, kills, resets and readiness probes in which no spawn of the server starts before its
  record is written, there is at most one daemon of the server (a spawn under way, a registered child, or an exit being
  handled), and none at all while the service defers to a foreign owner of the machine lock. The condition cannot be
  dropped: \<open>boot_race_second_daemon\<close>.
\<close>

theorem runner_single_daemon:
  assumes "service_acts as (service_start h) = Some v" "boot_undisturbed as"
  shows "daemons v \<le> 1 \<and> (\<forall>r. sys_record (sv_runner v) = Some r \<longrightarrow> rr_externalPid r \<noteq> None \<longrightarrow> daemons v = 0)"
  using service_inv_run [OF assms(1), of "[]"] assms(2)
  by (auto simp: service_inv_daemons service_inv_def runner_inv_def record_ok_def owned_def split: option.splits)

definition demo_exit :: "int \<Rightarrow> exit_info" where
  "demo_exit code = \<lparr>ex_code = Some code, ex_signal = None, ex_text = '''', ex_attachment = Some ''m''\<rparr>"

definition demo_boot :: "service_act list" where
  "demo_boot = [Boot_degraded 0, Act (Reset True), Boot_read None, Boot_write]"

lemmas demo_runner_simps = readTerminalUnlinked_def empty_health_def isDegraded_def resetHealth_def
  DEGRADED_THRESHOLD_def rehydrateRunnerRecord_def canSpawn_def truthy_pid_def spawn_begin_def spawn_finish_def
  handleRunnerExitForSupervisor_def classifyRunnerExit_def daemon_already_running_def to_lower_def
  recordCrash_def recent_crash_def CRASH_WINDOW_MS_def nextRunnerStateOnExit_def CHILD_RESTART_BACKOFF_MS_def
  COMPUTER_MACHINE_UNLINKED_EXIT_CODE_def EX_CONFIG_EXIT_CODE_def demo_exit_def service_start_def boot_write_def
  demo_boot_def displaced_def

theorem runner_single_daemon_witness:
  "\<exists>v. service_acts (demo_boot @ map Act [Spawn 5, Spawn_done (Some 41) 6, Child_exit (demo_exit 1),
       Exit_done (\<lambda>_. True) 10, Spawn 2010]) (service_start empty_health) = Some v \<and> daemons v \<le> 1"
proof -
  let ?as = "demo_boot @ map Act [Spawn 5, Spawn_done (Some 41) 6, Child_exit (demo_exit 1), Exit_done (\<lambda>_. True) 10, Spawn 2010]"
  obtain v where v: "service_acts ?as (service_start empty_health) = Some v"
    by (simp add: demo_runner_simps Let_def)
  have "boot_undisturbed ?as" by (simp add: demo_boot_def)
  from runner_single_daemon [OF v this] v show ?thesis by blast
qed

text \<open>
  C27. A parked runner stays parked: from a degraded state nothing but an operator reset leads out of degraded, and
  meanwhile the server has no daemon. The runs are those of the whole service, the boot's steps included, in which no
  spawn of the server starts before its record is written.
\<close>

theorem runner_degraded_parked:
  assumes "service_acts as (service_start h) = Some v" "parked (sv_runner v)"
    and "service_acts bs v = Some w" "\<forall>b \<in> set bs. \<not> is_operator_reset b" "boot_undisturbed (as @ bs)"
  shows "parked (sv_runner w) \<and> daemons w = 0 \<and> (\<forall>now. \<not> canSpawn (sys_record (sv_runner w)) True now)"
proof -
  have v: "service_inv v" "still_undisturbed v bs" using service_inv_run [OF assms(1,5)] by simp_all
  have p: "parked (sv_runner w)" using service_parked_acts [OF assms(3) v assms(2,4)] .
  have "service_inv w" using service_inv_acts [OF assms(3) v(1), of "[]"] v(2) by simp
  then have "daemons w = 0" using parked_owned [of "sv_runner w"] p by (simp add: service_inv_daemons service_inv_def)
  then show ?thesis using p by (auto simp: parked_def canSpawn_def split: option.splits if_splits)
qed

definition crash_at :: "int \<Rightarrow> service_act list" where
  "crash_at t = map Act [Spawn t, Spawn_done (Some 41) t, Child_exit (demo_exit 1), Exit_done (\<lambda>_. True) t]"

definition demo_crashes :: "service_act list" where
  "demo_crashes = demo_boot @ crash_at 0 @ crash_at 2000 @ crash_at 4000"

theorem runner_degraded_parked_witness:
  "\<exists>v w. service_acts demo_crashes (service_start empty_health) = Some v \<and>
     service_acts [Act (Clear_external (\<lambda>_. False)), Act Shutdown] v = Some w \<and> parked (sv_runner w) \<and> daemons w = 0"
proof -
  obtain v where v: "service_acts demo_crashes (service_start empty_health) = Some v" and p: "parked (sv_runner v)"
    by (simp add: demo_runner_simps Let_def crash_at_def demo_crashes_def parked_def)
  obtain r where "sys_record (sv_runner v) = Some r" using p by (auto simp: parked_def split: option.splits)
  then obtain w where w: "service_acts [Act (Clear_external (\<lambda>_. False)), Act Shutdown] v = Some w" by simp
  have u: "boot_undisturbed (demo_crashes @ [Act (Clear_external (\<lambda>_. False)), Act Shutdown])"
    by (simp add: demo_crashes_def demo_boot_def crash_at_def)
  from runner_degraded_parked [OF v p w _ u] v w show ?thesis by auto
qed

text \<open>
  C28. No runner is forgotten: in every such state of the service in which the server has no daemon and the service
  defers to no foreign one, the runner is either eligible to spawn from some time on, or parked, and then an
  operator reset makes it eligible at once.
\<close>

theorem runner_never_forgotten:
  assumes "service_acts as (service_start h) = Some v" "boot_undisturbed as" "s = sv_runner v" "sys_record s = Some r"
    and "owned s = 0" "rr_externalPid r = None"
  shows "(\<exists>t. \<forall>now \<ge> t. canSpawn (sys_record s) True now) \<or>
    parked s \<and> (\<exists>s'. runner_act_step (Reset True) s = Some s' \<and> (\<forall>now \<ge> 0. canSpawn (sys_record s') True now))"
proof -
  have "record_ok (sys_spawning s + length (sys_exits s)) r" "rr_child r = None"
    using service_inv_run [OF assms(1), of "[]"] assms(2-5)
    by (auto simp: service_inv_def runner_inv_def owned_def child_count_def split: if_splits)
  then have "rr_lifecycle r \<noteq> starting" "rr_lifecycle r \<noteq> running"
    using assms(4-6) by (auto simp: record_ok_def owned_def)
  then consider "rr_lifecycle r = crashed \<or> rr_lifecycle r = stopped" | "rr_lifecycle r = degraded"
    by (cases "rr_lifecycle r") auto
  then show ?thesis
  proof cases
    case 1
    then have "\<forall>now \<ge> (case rr_backoffUntil r of None \<Rightarrow> 0 | Some t \<Rightarrow> t). canSpawn (Some r) True now"
      using \<open>rr_child r = None\<close> assms(6) by (auto simp: canSpawn_def truthy_pid_def split: option.splits)
    then show ?thesis using assms(4) by auto
  next
    case 2
    then show ?thesis using \<open>rr_child r = None\<close> assms(4,6)
      by (simp add: parked_def resetRunner_def applyRunnerReset_def canSpawn_def truthy_pid_def)
  qed
qed

theorem runner_never_forgotten_witness:
  "\<exists>v. service_acts demo_crashes (service_start empty_health) = Some v \<and> parked (sv_runner v) \<and>
     (\<exists>s'. runner_act_step (Reset True) (sv_runner v) = Some s' \<and> (\<forall>now \<ge> 0. canSpawn (sys_record s') True now))"
proof -
  obtain v where v: "service_acts demo_crashes (service_start empty_health) = Some v" and p: "parked (sv_runner v)"
    and o: "owned (sv_runner v) = 0" and e: "\<exists>r. sys_record (sv_runner v) = Some r \<and> rr_externalPid r = None"
    by (simp add: demo_runner_simps Let_def crash_at_def demo_crashes_def parked_def owned_def child_count_def)
  from e obtain r where r: "sys_record (sv_runner v) = Some r" "rr_externalPid r = None" by blast
  have "\<not> (\<exists>t. \<forall>now \<ge> t. canSpawn (sys_record (sv_runner v)) True now)"
    using p r by (auto simp: parked_def canSpawn_def)
  moreover have "boot_undisturbed demo_crashes" by (simp add: demo_crashes_def demo_boot_def crash_at_def)
  ultimately show ?thesis using runner_never_forgotten [OF v _ refl r(1) o r(2)] v p by blast
qed

text \<open>
  The exit handler and the crash budget: an exit that was not asked for and is a crash parks the
  runner exactly when the health file has a fatal configuration marker or at least two crashes of the
  last minute besides this one; otherwise the runner may be spawned again exactly from two seconds
  after the exit on. Either way the written health file holds only crashes of the last minute.
\<close>

theorem runner_crash_budget:
  assumes "classifyRunnerExit (ex_code ex) (ex_signal ex) (ex_text ex) = crash" "\<not> rr_stopping r"
    and "rr_child r = None" "rr_externalPid r = None"
    and "handleRunnerExitForSupervisor ex sd isAlive now (r, h) = ((r', h'), t)"
  shows "(rr_lifecycle r' = degraded \<longleftrightarrow> fatalConfig h \<noteq> None \<or> 2 \<le> length (readCrashHistory now h)) \<and>
    (rr_lifecycle r' \<noteq> degraded \<longrightarrow>
      (\<forall>at. canSpawn (Some r') True at \<longleftrightarrow> now + CHILD_RESTART_BACKOFF_MS \<le> at)) \<and>
    readCrashHistory now h' = crashes h' \<and> length (crashes h') = Suc (length (readCrashHistory now h))"
proof -
  let ?h = "recordCrash (ex_code ex) (ex_signal ex) now h"
  have recent: "recent_crash now \<lparr>ce_at = Some now, ce_exitCode = c, ce_signal = g\<rparr>" for c g
    by (simp add: recent_crash_def CRASH_WINDOW_MS_def)
  have h': "h' = ?h" and r': "r' = (if isDegraded now ?h then r\<lparr>rr_lifecycle := degraded\<rparr>
      else r\<lparr>rr_lifecycle := crashed, rr_backoffUntil := Some (now + CHILD_RESTART_BACKOFF_MS)\<rparr>)"
    using assms by (auto simp: handleRunnerExitForSupervisor_def nextRunnerStateOnExit_def Let_def split: if_splits)
  have "isDegraded now ?h \<longleftrightarrow> fatalConfig h \<noteq> None \<or> 2 \<le> length (readCrashHistory now h)"
    using recent by (auto simp: isDegraded_def recordCrash_def readCrashHistory_def DEGRADED_THRESHOLD_def)
  then show ?thesis using r' h' recent assms(3,4)
    by (simp add: canSpawn_def truthy_pid_def readCrashHistory_def recordCrash_def)
qed

theorem runner_crash_budget_witness:
  "\<exists>r' h' t. handleRunnerExitForSupervisor (demo_exit 1) False (\<lambda>_. True) 9000
     (rehydrateRunnerRecord False, empty_health) = ((r', h'), t) \<and>
     (\<forall>at. canSpawn (Some r') True at \<longleftrightarrow> 9000 + CHILD_RESTART_BACKOFF_MS \<le> at)"
proof -
  let ?r = "rehydrateRunnerRecord False"
  have c: "classifyRunnerExit (ex_code (demo_exit 1)) (ex_signal (demo_exit 1)) (ex_text (demo_exit 1)) = crash"
    by (simp add: demo_runner_simps Let_def)
  have r: "\<not> rr_stopping ?r" "rr_child ?r = None" "rr_externalPid ?r = None" by (simp_all add: rehydrateRunnerRecord_def)
  obtain r' h' t where h: "handleRunnerExitForSupervisor (demo_exit 1) False (\<lambda>_. True) 9000 (?r, empty_health) =
      ((r', h'), t)" by (metis surj_pair)
  have "rr_lifecycle r' \<noteq> degraded" using runner_crash_budget [OF c r h]
    by (simp add: empty_health_def readCrashHistory_def)
  with runner_crash_budget [OF c r h] h show ?thesis by blast
qed

text \<open>
  A reset unparks an unlinked runner: after the server-side unlink parked the runner and left its
  durable marker, an operator reset keeps the marker (the boot of the next service parks the runner again)
  and yet makes the runner eligible to spawn at once.
\<close>

theorem runner_reset_unparks_unlinked:
  assumes "terminalUnlinked h = Some m" "m \<noteq> ''''" "rr_lifecycle r = degraded" "rr_child r = None"
    "rr_externalPid r = None" "resetRunner True (r, h) = (r', h')"
  shows "terminalUnlinked h' = Some m \<and>
    (\<exists>v. service_acts [Boot_degraded now0, Boot_read (Some m), Boot_write] (service_start h') = Some v \<and> parked (sv_runner v)) \<and>
    (\<forall>now \<ge> 0. canSpawn (Some r') True now)"
  using assms
  by (auto simp: resetRunner_def applyRunnerReset_def resetHealth_def canSpawn_def truthy_pid_def service_start_def
      boot_write_def isDegraded_def empty_health_def DEGRADED_THRESHOLD_def readTerminalUnlinked_def parked_def
      rehydrateRunnerRecord_def)

theorem runner_reset_unparks_unlinked_witness:
  "\<exists>r' h'. resetRunner True (rehydrateRunnerRecord True, markTerminalUnlinked ''m'' empty_health) = (r', h') \<and>
     terminalUnlinked h' = Some ''m'' \<and> canSpawn (Some r') True 0"
proof -
  let ?r = "rehydrateRunnerRecord True" and ?h = "markTerminalUnlinked ''m'' empty_health"
  obtain r' h' where rh: "resetRunner True (?r, ?h) = (r', h')" by (metis surj_pair)
  have "terminalUnlinked ?h = Some ''m''" "''m'' \<noteq> ''''" "rr_lifecycle ?r = degraded" "rr_child ?r = None"
    "rr_externalPid ?r = None" by (simp_all add: markTerminalUnlinked_def rehydrateRunnerRecord_def)
  from runner_reset_unparks_unlinked [OF this rh] rh show ?thesis by auto
qed

end
