(* ===== verification/Version_Order.thy ===== *)
theory Version_Order
  imports Sync_UInt64
begin

text \<open>
  \<open>packages/computer/src/computerVersionOrder.ts\<close>: the strict order of computer versions. A string
  that is not \<open>x.y.z\<close> or \<open>x.y.z-pre\<close> is an error value. The order is compared with a key in a linear
  order of the library: numbers first, a release above its pre-releases, identifiers pairwise.
\<close>

section \<open>Parsing\<close>

datatype version_error = COMPUTER_VERSION_UNPARSABLE string

fun split_on :: "char \<Rightarrow> string \<Rightarrow> string list" where
  "split_on c [] = [[]]"
| "split_on c (x # xs) = (if x = c then [] # split_on c xs
     else (case split_on c xs of [] \<Rightarrow> [[x]] | w # ws \<Rightarrow> (x # w) # ws))"

definition is_identifier_char :: "char \<Rightarrow> bool" where
  "is_identifier_char ch = (let n = of_char ch :: nat in
     48 \<le> n \<and> n \<le> 57 \<or> 65 \<le> n \<and> n \<le> 90 \<or> 97 \<le> n \<and> n \<le> 122 \<or> n = 45)"

definition is_numeric_id :: "string \<Rightarrow> bool" where
  "is_numeric_id w \<longleftrightarrow> w \<noteq> [] \<and> list_all is_digit w"

definition zero_padded :: "string \<Rightarrow> bool" where
  "zero_padded w \<longleftrightarrow> is_numeric_id w \<and> 1 < length w \<and> hd w = CHR ''0''"

type_synonym version = "nat list \<times> string list option"

text \<open>
  The regular expression is anchored and its three numbers contain no dash, so the pre-release is
  what follows the first dash.
\<close>

definition parse_version :: "string \<Rightarrow> version_error + version" where
  "parse_version v =
     (let core = takeWhile (\<lambda>c. c \<noteq> CHR ''-'') v;
          rest = dropWhile (\<lambda>c. c \<noteq> CHR ''-'') v;
          nums = split_on CHR ''.'' core;
          pre = (if rest = [] then None else Some (split_on CHR ''.'' (tl rest)))
      in if \<not> (length nums = 3 \<and> list_all decimal_uint64 nums \<and>
               (case pre of None \<Rightarrow> True
                | Some ids \<Rightarrow> list_all (\<lambda>w. w \<noteq> [] \<and> list_all is_identifier_char w) ids))
         then Inl (COMPUTER_VERSION_UNPARSABLE v)
         else if (case pre of None \<Rightarrow> False | Some ids \<Rightarrow> list_ex zero_padded ids)
         then Inl (COMPUTER_VERSION_UNPARSABLE v)
         else Inr (map dec_val nums, pre))"

section \<open>Comparing\<close>

text \<open>The loop over the three numbers; 0 when they agree.\<close>

fun compare_nums :: "nat list \<Rightarrow> nat list \<Rightarrow> int" where
  "compare_nums (x # xs) (y # ys) = (if x \<noteq> y then if x < y then -1 else 1 else compare_nums xs ys)"
| "compare_nums _ _ = 0"

definition compare_ids :: "string \<Rightarrow> string \<Rightarrow> int" where
  "compare_ids left right =
     (if is_numeric_id left \<and> is_numeric_id right then if dec_val left < dec_val right then -1 else 1
      else if is_numeric_id left \<noteq> is_numeric_id right then if is_numeric_id left then -1 else 1
      else if left < right then -1 else 1)"

text \<open>The loop over the common identifiers, then the comparison of the lengths.\<close>

fun compare_pre :: "string list \<Rightarrow> string list \<Rightarrow> int" where
  "compare_pre [] [] = 0"
| "compare_pre [] (_ # _) = -1"
| "compare_pre (_ # _) [] = 1"
| "compare_pre (x # xs) (y # ys) = (if x = y then compare_pre xs ys else compare_ids x y)"

definition compare_versions :: "version \<Rightarrow> version \<Rightarrow> int" where
  "compare_versions a b =
     (let n = compare_nums (fst a) (fst b) in
      if n \<noteq> 0 then n
      else case (snd a, snd b) of
        (None, None) \<Rightarrow> 0
      | (None, Some _) \<Rightarrow> 1
      | (Some _, None) \<Rightarrow> -1
      | (Some p, Some q) \<Rightarrow> compare_pre p q)"

definition compareComputerVersions :: "string \<Rightarrow> string \<Rightarrow> version_error + int" where
  "compareComputerVersions a b = (case parse_version a of
     Inl e \<Rightarrow> Inl e
   | Inr pa \<Rightarrow> (case parse_version b of
       Inl e \<Rightarrow> Inl e
     | Inr pb \<Rightarrow> Inr (compare_versions pa pb)))"

section \<open>The key\<close>

type_synonym version_key = "nat list \<times> nat \<times> (nat \<times> nat \<times> string) list"

definition id_key :: "string \<Rightarrow> nat \<times> nat \<times> string" where
  "id_key w = (if is_numeric_id w then (0, dec_val w, []) else (1, 0, w))"

definition version_key :: "version \<Rightarrow> version_key" where
  "version_key v = (fst v, (case snd v of None \<Rightarrow> (1, []) | Some ids \<Rightarrow> (0, map id_key ids)))"

definition key_cmp :: "'k :: linorder \<Rightarrow> 'k \<Rightarrow> int" where
  "key_cmp x y = (if x < y then -1 else if x = y then 0 else 1)"

definition ids_ok :: "string list \<Rightarrow> bool" where
  "ids_ok ids \<longleftrightarrow> (\<forall>w \<in> set ids. w \<noteq> [] \<and> \<not> zero_padded w)"

lemma decimal_inj: "decimal_uint64 a \<Longrightarrow> decimal_uint64 b \<Longrightarrow> dec_val a = dec_val b \<Longrightarrow> a = b"
  using compareUInt64String_sgn [of a b] compareUInt64String_cases(3) [of a b] by simp

lemma numeric_decimal: "is_numeric_id w \<Longrightarrow> \<not> zero_padded w \<Longrightarrow> decimal_uint64 w"
  by (cases w) (auto simp: is_numeric_id_def zero_padded_def)

lemma id_key_inj: "id_key v = id_key w \<Longrightarrow> \<not> zero_padded v \<Longrightarrow> \<not> zero_padded w \<Longrightarrow> v = w"
  by (auto simp: id_key_def decimal_inj numeric_decimal split: if_splits)

lemma ids_key_inj: "map id_key vs = map id_key ws \<Longrightarrow> ids_ok vs \<Longrightarrow> ids_ok ws \<Longrightarrow> vs = ws"
proof (induction vs arbitrary: ws)
  case (Cons v vs)
  then show ?case by (cases ws) (auto simp: ids_ok_def dest: id_key_inj)
qed simp

lemma compare_ids_key:
  assumes "v \<noteq> w" "\<not> zero_padded v" "\<not> zero_padded w"
  shows "compare_ids v w = key_cmp (id_key v) (id_key w)" "id_key v \<noteq> id_key w"
proof -
  show "id_key v \<noteq> id_key w" using assms id_key_inj by blast
  then show "compare_ids v w = key_cmp (id_key v) (id_key w)"
    using assms(1) by (auto simp: compare_ids_def key_cmp_def id_key_def)
qed

lemma compare_pre_key:
  "ids_ok vs \<Longrightarrow> ids_ok ws \<Longrightarrow> compare_pre vs ws = key_cmp (map id_key vs) (map id_key ws)"
proof (induction vs ws rule: compare_pre.induct)
  case (4 x xs y ys)
  have "ids_ok xs" "ids_ok ys" "\<not> zero_padded x" "\<not> zero_padded y" using "4.prems" by (auto simp: ids_ok_def)
  with 4(1) compare_ids_key [of x y] show ?case
    by (cases "x = y") (auto simp: key_cmp_def)
qed (auto simp: key_cmp_def)

lemma compare_nums_key: "length xs = length ys \<Longrightarrow> compare_nums xs ys = key_cmp xs ys"
  by (induction xs ys rule: compare_nums.induct) (auto simp: key_cmp_def)

definition version_ok :: "version \<Rightarrow> bool" where
  "version_ok v \<longleftrightarrow> length (fst v) = 3 \<and> (case snd v of None \<Rightarrow> True | Some ids \<Rightarrow> ids_ok ids)"

lemma compare_versions_key:
  assumes "version_ok a" "version_ok b"
  shows "compare_versions a b = key_cmp (version_key a) (version_key b)"
proof -
  have "compare_nums (fst a) (fst b) = key_cmp (fst a) (fst b)"
    using assms by (intro compare_nums_key) (auto simp: version_ok_def)
  then show ?thesis using assms
    by (auto simp: compare_versions_def version_key_def version_ok_def key_cmp_def compare_pre_key split: option.splits)
qed

section \<open>Parsing is injective\<close>

fun join_with :: "char \<Rightarrow> string list \<Rightarrow> string" where
  "join_with c [] = []"
| "join_with c [w] = w"
| "join_with c (w # ws) = w @ c # join_with c ws"

lemma split_on_nonempty [simp]: "split_on c s \<noteq> []"
  by (induction s) (auto split: list.splits)

lemma join_split: "join_with c (split_on c s) = s"
proof (induction s)
  case (Cons x s)
  then show ?case
    by (cases "split_on c s" rule: list.exhaust; cases "tl (split_on c s)") (auto split: list.splits)
qed simp

lemma split_inj: "split_on c s = split_on c t \<Longrightarrow> s = t"
  by (metis join_split)

lemma decimals_inj:
  "map dec_val vs = map dec_val ws \<Longrightarrow> list_all decimal_uint64 vs \<Longrightarrow> list_all decimal_uint64 ws \<Longrightarrow> vs = ws"
proof (induction vs arbitrary: ws)
  case (Cons v vs)
  then show ?case by (cases ws) (auto dest: decimal_inj)
qed simp

lemma parse_versionD:
  assumes "parse_version v = Inr (ns, pre)"
  obtains nums where "split_on CHR ''.'' (takeWhile (\<lambda>c. c \<noteq> CHR ''-'') v) = nums" "length nums = 3"
    "list_all decimal_uint64 nums" "ns = map dec_val nums" "version_ok (ns, pre)"
    "pre = (if dropWhile (\<lambda>c. c \<noteq> CHR ''-'') v = [] then None
       else Some (split_on CHR ''.'' (tl (dropWhile (\<lambda>c. c \<noteq> CHR ''-'') v))))"
  using assms
  by (auto simp: parse_version_def Let_def version_ok_def ids_ok_def list_all_iff list_ex_iff split: if_splits)

lemma parse_version_inj:
  assumes "parse_version v = Inr (ns, pre)" "parse_version w = Inr (ns, pre)"
  shows "v = w"
proof -
  let ?dash = "\<lambda>c. c \<noteq> CHR ''-''"
  obtain nv where v: "split_on CHR ''.'' (takeWhile ?dash v) = nv" "list_all decimal_uint64 nv" "ns = map dec_val nv"
    "pre = (if dropWhile ?dash v = [] then None else Some (split_on CHR ''.'' (tl (dropWhile ?dash v))))"
    by (rule parse_versionD [OF assms(1)]) blast
  obtain nw where w: "split_on CHR ''.'' (takeWhile ?dash w) = nw" "list_all decimal_uint64 nw" "ns = map dec_val nw"
    "pre = (if dropWhile ?dash w = [] then None else Some (split_on CHR ''.'' (tl (dropWhile ?dash w))))"
    by (rule parse_versionD [OF assms(2)]) blast
  have "nv = nw" using decimals_inj v(2,3) w(2,3) by blast
  with v(1) w(1) have "split_on CHR ''.'' (takeWhile ?dash v) = split_on CHR ''.'' (takeWhile ?dash w)"
    by (simp only:)
  then have core: "takeWhile ?dash v = takeWhile ?dash w" by (rule split_inj)
  have "dropWhile ?dash v = dropWhile ?dash w"
  proof (cases "dropWhile ?dash v = []")
    case True
    have pv: "pre = None" using v(4) unfolding if_P [OF True] .
    have "dropWhile ?dash w = []"
    proof (rule ccontr)
      assume "dropWhile ?dash w \<noteq> []"
      from w(4) [unfolded if_not_P [OF this]] pv show False by (simp only: option.distinct)
    qed
    with True show ?thesis by (simp only:)
  next
    case False
    have pv: "pre = Some (split_on CHR ''.'' (tl (dropWhile ?dash v)))"
      using v(4) unfolding if_not_P [OF False] .
    have nw: "dropWhile ?dash w \<noteq> []"
    proof
      assume "dropWhile ?dash w = []"
      from w(4) [unfolded if_P [OF this]] pv show False by (simp only: option.distinct)
    qed
    have "pre = Some (split_on CHR ''.'' (tl (dropWhile ?dash w)))"
      using w(4) unfolding if_not_P [OF nw] .
    with pv have "split_on CHR ''.'' (tl (dropWhile ?dash v)) = split_on CHR ''.'' (tl (dropWhile ?dash w))"
      by (simp only: option.inject)
    then have "tl (dropWhile ?dash v) = tl (dropWhile ?dash w)" by (rule split_inj)
    moreover have "hd (dropWhile ?dash v) = CHR ''-''" "hd (dropWhile ?dash w) = CHR ''-''"
      using hd_dropWhile [OF False] hd_dropWhile [OF nw] by simp_all
    ultimately show ?thesis using False nw \<open>tl (dropWhile ?dash v) = tl (dropWhile ?dash w)\<close> by (metis list.expand)
  qed
  with core show ?thesis by (metis takeWhile_dropWhile_id)
qed

lemma version_key_inj:
  "version_ok a \<Longrightarrow> version_ok b \<Longrightarrow> version_key a = version_key b \<Longrightarrow> a = b"
  by (cases a; cases b) (auto simp: version_key_def version_ok_def dest: ids_key_inj split: option.splits)

section \<open>Property\<close>

text \<open>
  C40. The version comparison is a strict total order on the strings it accepts: there is one key in a
  linear order by which every pair of accepted versions is compared, different strings have
  different keys (so 0 means the same string), and a comparison fails exactly when one of its
  arguments does not parse.
\<close>

theorem compareComputerVersions_total_order:
  "\<exists>key :: string \<Rightarrow> version_key.
     (\<forall>a b. parse_version a \<in> range Inr \<and> parse_version b \<in> range Inr \<longrightarrow>
        compareComputerVersions a b = Inr (key_cmp (key a) (key b)) \<and> (key a = key b \<longleftrightarrow> a = b)) \<and>
     (\<forall>a b. (\<exists>e. compareComputerVersions a b = Inl e) \<longleftrightarrow>
        parse_version a \<notin> range Inr \<or> parse_version b \<notin> range Inr)"
proof -
  define key :: "string \<Rightarrow> version_key" where "key s = version_key (projr (parse_version s))" for s
  have "compareComputerVersions a b = Inr (key_cmp (key a) (key b)) \<and> (key a = key b \<longleftrightarrow> a = b)"
    if ab: "parse_version a = Inr x" "parse_version b = Inr y" for a b x y
  proof -
    have ok: "version_ok x" "version_ok y"
      using ab by (metis parse_versionD prod.collapse)+
    have "x = y \<longleftrightarrow> a = b" using ab parse_version_inj by (metis prod.collapse sum.inject(2))
    then show ?thesis using ab compare_versions_key [OF ok] version_key_inj [OF ok]
      by (auto simp: compareComputerVersions_def key_def)
  qed
  then show ?thesis
    by (intro exI [of _ key]) (auto simp: compareComputerVersions_def split: sum.splits)
qed

theorem compareComputerVersions_total_order_witness:
  "compareComputerVersions ''1.10.0-rc.2'' ''1.10.0-rc.10'' \<noteq> Inr 0"
proof -
  have p: "parse_version ''1.10.0-rc.2'' \<in> range Inr" "parse_version ''1.10.0-rc.10'' \<in> range Inr"
    by (simp_all add: parse_version_def is_digit_def is_identifier_char_def zero_padded_def is_numeric_id_def)
  obtain key :: "string \<Rightarrow> version_key" where
    key: "\<forall>a b. parse_version a \<in> range Inr \<and> parse_version b \<in> range Inr \<longrightarrow>
      compareComputerVersions a b = Inr (key_cmp (key a) (key b)) \<and> (key a = key b \<longleftrightarrow> a = b)"
    using compareComputerVersions_total_order by blast
  have "compareComputerVersions ''1.10.0-rc.2'' ''1.10.0-rc.10'' =
      Inr (key_cmp (key ''1.10.0-rc.2'') (key ''1.10.0-rc.10''))"
    "key ''1.10.0-rc.2'' \<noteq> key ''1.10.0-rc.10''"
    using key [rule_format, OF conjI [OF p]] by simp_all
  then show ?thesis by (simp add: key_cmp_def)
qed

end
