(* ===== verification/Apm_State.thy ===== *)
theory Apm_State
  imports Sync_Activity
begin

text \<open>
  \<open>packages/daemon/src/apmStateMachine.ts\<close>: the decision state of the agent process manager. The
  gated steering state says whether a runtime is idle, which termination the daemon expects, how many
  tool uses are outstanding and whether the runtime compacts or reviews; one reducer per runtime
  event. The trace projections and the activity projection are pure functions beside it.

  Attribute objects are values of the shared JSON type. SHA-256 is a parameter of the projections.
\<close>

section \<open>Gated steering\<close>

datatype termination_reason =
    turn_end | stalled_recovery | startup_timeout | startup_request_error | cold_idle_recycle

record gated_state =
  isIdle :: bool
  expectedTerminationReason :: "termination_reason option"
  outstandingToolUses :: int
  compacting :: bool
  reviewing :: "bool option"

datatype flush_reason = compaction_finished | review_finished | turn_end_flush

datatype steering_effect =
    Notify_stdin flush_reason
  | Deliver_stdin

record apm_state =
  stateHash :: string
  gatedSteering :: gated_state

definition createInitialApmGatedSteeringState :: gated_state where
  "createInitialApmGatedSteeringState =
     \<lparr>isIdle = False, expectedTerminationReason = None, outstandingToolUses = 0, compacting = False,
      reviewing = None\<rparr>"

definition createInitialApmDecisionState :: apm_state where
  "createInitialApmDecisionState =
     \<lparr>stateHash = ''apm:legacy:opaque:start'', gatedSteering = createInitialApmGatedSteeringState\<rparr>"

definition commitApmGatedSteeringDecisionState :: "gated_state \<Rightarrow> gated_state" where
  "commitApmGatedSteeringDecisionState n =
     (let committed = \<lparr>isIdle = isIdle n, expectedTerminationReason = expectedTerminationReason n,
            outstandingToolUses = outstandingToolUses n, compacting = compacting n, reviewing = None\<rparr>
      in if reviewing n \<noteq> None then committed\<lparr>reviewing := reviewing n\<rparr> else committed)"

definition reduceApmIdleState :: "bool \<Rightarrow> gated_state \<Rightarrow> gated_state" where
  "reduceApmIdleState idle s = s\<lparr>isIdle := idle\<rparr>"

datatype tool_use = tool_call | tool_output

definition reduceApmToolUse :: "tool_use \<Rightarrow> gated_state \<Rightarrow> gated_state" where
  "reduceApmToolUse k s =
     (if k = tool_call
      then \<lparr>isIdle = False, expectedTerminationReason = expectedTerminationReason s,
        outstandingToolUses = outstandingToolUses s + 1, compacting = compacting s, reviewing = reviewing s\<rparr>
      else \<lparr>isIdle = False, expectedTerminationReason = expectedTerminationReason s,
        outstandingToolUses = max 0 (outstandingToolUses s - 1), compacting = compacting s, reviewing = reviewing s\<rparr>)"

datatype compaction_kind = compaction_started | compaction_done | compaction_interrupted

definition reduceApmGatedCompaction :: "compaction_kind \<Rightarrow> gated_state \<Rightarrow> gated_state" where
  "reduceApmGatedCompaction k s =
     \<lparr>isIdle = False, expectedTerminationReason = expectedTerminationReason s,
      outstandingToolUses = outstandingToolUses s,
      compacting = (case k of compaction_started \<Rightarrow> True | compaction_interrupted \<Rightarrow> False | compaction_done \<Rightarrow> False),
      reviewing = reviewing s\<rparr>"

datatype review_kind = review_started | review_done

definition reduceApmGatedReview :: "review_kind \<Rightarrow> gated_state \<Rightarrow> gated_state" where
  "reduceApmGatedReview k s =
     \<lparr>isIdle = False, expectedTerminationReason = expectedTerminationReason s,
      outstandingToolUses = outstandingToolUses s, compacting = compacting s,
      reviewing = Some (k = review_started)\<rparr>"

record flush_input =
  fi_hasSession :: bool
  fi_supportsStdinNotification :: bool
  fi_inboxLength :: int
  fi_pendingNotificationCount :: int

definition boundary_flush :: "flush_reason \<Rightarrow> flush_input \<Rightarrow> steering_effect list" where
  "boundary_flush why i =
     (if \<not> fi_hasSession i \<or> \<not> fi_supportsStdinNotification i \<or> fi_inboxLength i = 0 then []
      else if fi_pendingNotificationCount i = 0 then []
      else [Notify_stdin why])"

definition reduceApmGatedCompactionBoundaryFlush :: "gated_state \<Rightarrow> flush_input \<Rightarrow> steering_effect list" where
  "reduceApmGatedCompactionBoundaryFlush s i = boundary_flush compaction_finished i"

definition reduceApmGatedReviewBoundaryFlush :: "gated_state \<Rightarrow> flush_input \<Rightarrow> steering_effect list" where
  "reduceApmGatedReviewBoundaryFlush s i = boundary_flush review_finished i"

text \<open>An absent option of the turn-end input is \<open>None\<close>; the code tests it for truth.\<close>

record turn_end_input =
  te_inboxLength :: "int option"
  te_supportsStdinNotification :: "bool option"
  te_hasSession :: "bool option"
  te_canDeliverWithoutSession :: "bool option"
  te_terminateProcessOnTurnEnd :: "bool option"

definition shouldDeliverQueuedMessages :: "turn_end_input \<Rightarrow> bool" where
  "shouldDeliverQueuedMessages i \<longleftrightarrow>
     (case te_inboxLength i of None \<Rightarrow> False | Some n \<Rightarrow> n \<noteq> 0 \<and> 0 < n) \<and>
     te_supportsStdinNotification i = Some True \<and>
     (te_hasSession i = Some True \<or> te_canDeliverWithoutSession i = Some True)"

definition reduceApmGatedTurnEnd :: "turn_end_input \<Rightarrow> gated_state \<Rightarrow> gated_state \<times> steering_effect list" where
  "reduceApmGatedTurnEnd i s =
     (\<lparr>isIdle = (\<not> shouldDeliverQueuedMessages i),
       expectedTerminationReason =
         (if te_terminateProcessOnTurnEnd i = Some True then Some turn_end else expectedTerminationReason s),
       outstandingToolUses = 0, compacting = False,
       reviewing = (if reviewing s \<noteq> None then Some False else None)\<rparr>,
      if shouldDeliverQueuedMessages i then [Deliver_stdin] else [])"

definition reduceApmGatedError :: "bool option \<Rightarrow> gated_state \<Rightarrow> gated_state" where
  "reduceApmGatedError terminalWakeable s =
     \<lparr>isIdle = (terminalWakeable = Some True), expectedTerminationReason = expectedTerminationReason s,
      outstandingToolUses = outstandingToolUses s, compacting = False,
      reviewing = (if reviewing s \<noteq> None then Some False else None)\<rparr>"

definition reduceApmGatedAssistantContinuation :: "gated_state \<Rightarrow> gated_state" where
  "reduceApmGatedAssistantContinuation s =
     \<lparr>isIdle = False, expectedTerminationReason = expectedTerminationReason s,
      outstandingToolUses = outstandingToolUses s, compacting = compacting s, reviewing = reviewing s\<rparr>"

definition reduceApmColdIdleRecycleTermination :: "gated_state \<Rightarrow> gated_state" where
  "reduceApmColdIdleRecycleTermination s = s\<lparr>expectedTerminationReason := Some cold_idle_recycle\<rparr>"

datatype busy_mode = direct | notification | no_delivery

datatype stalled_block = empty_inbox | runtime_not_restartable | runtime_progress_recent

record stalled_input =
  si_inboxLength :: int
  si_supportsStdinNotification :: bool
  si_busyDeliveryMode :: busy_mode
  si_hasSession :: bool
  si_hasDirectStdinRecoveryEvidence :: bool
  si_runtimeProgressIsStale :: bool
  si_staleForMs :: int
  si_staleThresholdMs :: int

record stalled_result =
  st_nextState :: gated_state
  st_shouldTerminate :: bool
  st_alreadyRecovering :: bool
  st_blockedReason :: "stalled_block option"

definition reduceApmStalledRecoveryTermination :: "stalled_input \<Rightarrow> gated_state \<Rightarrow> stalled_result" where
  "reduceApmStalledRecoveryTermination i s =
     (if si_inboxLength i = 0
      then \<lparr>st_nextState = s, st_shouldTerminate = False, st_alreadyRecovering = False,
        st_blockedReason = Some empty_inbox\<rparr>
      else if expectedTerminationReason s = Some stalled_recovery
      then \<lparr>st_nextState = s, st_shouldTerminate = False, st_alreadyRecovering = True, st_blockedReason = None\<rparr>
      else
        let directStdinRuntime = si_supportsStdinNotification i \<and> si_busyDeliveryMode i = direct;
            canRestartDirectStdinProcess = directStdinRuntime \<and> si_hasSession i \<and>
              (outstandingToolUses s = 0 \<or> si_hasDirectStdinRecoveryEvidence i);
            canRestartStalledProcess = \<not> si_supportsStdinNotification i \<or> canRestartDirectStdinProcess
        in if \<not> canRestartStalledProcess
           then \<lparr>st_nextState = s, st_shouldTerminate = False, st_alreadyRecovering = False,
             st_blockedReason = Some runtime_not_restartable\<rparr>
           else if si_staleForMs i < si_staleThresholdMs i \<and> \<not> si_runtimeProgressIsStale i
           then \<lparr>st_nextState = s, st_shouldTerminate = False, st_alreadyRecovering = False,
             st_blockedReason = Some runtime_progress_recent\<rparr>
           else \<lparr>st_nextState = s\<lparr>expectedTerminationReason := Some stalled_recovery\<rparr>, st_shouldTerminate = True,
             st_alreadyRecovering = False, st_blockedReason = None\<rparr>)"

text \<open>The flag is \<open>shouldTerminate\<close>; when it is false the block reason is \<open>runtime_progress_started\<close>.\<close>

definition reduceApmStartupTimeoutTermination :: "bool \<Rightarrow> gated_state \<Rightarrow> gated_state \<times> bool" where
  "reduceApmStartupTimeoutTermination hasRuntimeProgressEvent s =
     (if hasRuntimeProgressEvent then (s, False)
      else (s\<lparr>isIdle := False, expectedTerminationReason := Some startup_timeout\<rparr>, True))"

definition reduceApmStartupRequestErrorTermination :: "gated_state \<Rightarrow> gated_state \<times> bool" where
  "reduceApmStartupRequestErrorTermination s =
     (s\<lparr>isIdle := False, expectedTerminationReason := Some startup_request_error\<rparr>, True)"

definition reduceApmControlPlaneEvent :: "gated_state \<Rightarrow> gated_state \<times> bool" where
  "reduceApmControlPlaneEvent s = (s, False)"

section \<open>Trace projections\<close>

definition opt_str :: "string option \<Rightarrow> jsval" where
  "opt_str s = (case s of None \<Rightarrow> JUndef | Some t \<Rightarrow> JStr t)"

record termination_trace =
  tt_runtimeEventName :: "string option"
  tt_runtimeEventAttrs :: jsval
  tt_runtimeSpanAttrs :: jsval
  tt_processExitAttrs :: jsval
  tt_runtimeStopReason :: string

datatype termination_input =
    StartupTimeoutTrace int
  | TurnEndTrace
  | StalledRecoveryTrace string int string bool "string option" int

definition stalled_attrs :: "string \<Rightarrow> (string \<times> jsval) list" where
  "stalled_attrs turnReason = [(''turn_outcome'', JStr ''failed''), (''turn_subtype'', JStr ''runtime_stalled''),
     (''turn_reason'', JStr turnReason)]"

definition stalled_span_attrs :: "int \<Rightarrow> string \<Rightarrow> bool \<Rightarrow> string option \<Rightarrow> (string \<times> jsval) list" where
  "stalled_span_attrs staleForMs lastActivity present detailKind =
     [(''ageMs'', JInt staleForMs), (''lastActivity'', JStr lastActivity),
      (''lastActivityDetailPresent'', JBool present), (''lastActivityDetailKind'', opt_str detailKind)]"

fun projectApmRuntimeTerminationTrace :: "termination_input \<Rightarrow> termination_trace" where
  "projectApmRuntimeTerminationTrace (StartupTimeoutTrace timeoutMs) =
     (let attrs = JObj (stalled_attrs ''no_runtime_events'' @
            [(''runtime_start_failure_kind'', JStr ''runtime_start_timeout''), (''timeout_ms'', JInt timeoutMs)])
      in \<lparr>tt_runtimeEventName = Some ''runtime.start.timeout'', tt_runtimeEventAttrs = attrs,
          tt_runtimeSpanAttrs = attrs,
          tt_processExitAttrs = JObj [(''stop_source'', JStr ''startup_timeout''),
            (''expectedTerminationReason'', JStr ''startup_timeout''), (''timeout_ms'', JInt timeoutMs)],
          tt_runtimeStopReason = ''startup_timeout''\<rparr>)"
| "projectApmRuntimeTerminationTrace TurnEndTrace =
     \<lparr>tt_runtimeEventName = None, tt_runtimeEventAttrs = JUndef, tt_runtimeSpanAttrs = JUndef,
      tt_processExitAttrs = JObj [(''stop_source'', JStr ''turn_end''),
        (''expectedTerminationReason'', JStr ''turn_end'')],
      tt_runtimeStopReason = ''turn_end''\<rparr>"
| "projectApmRuntimeTerminationTrace (StalledRecoveryTrace turnReason staleForMs lastActivity present detailKind pendingMessages) =
     (let eventAttrs = stalled_attrs turnReason @
            [(''pendingMessages'', JInt pendingMessages), (''recovery'', JStr ''terminate_for_queued_message'')]
      in \<lparr>tt_runtimeEventName = Some ''runtime.progress.stalled'', tt_runtimeEventAttrs = JObj eventAttrs,
          tt_runtimeSpanAttrs = JObj (eventAttrs @ stalled_span_attrs staleForMs lastActivity present detailKind),
          tt_processExitAttrs = JObj [(''stop_source'', JStr ''stalled_recovery''),
            (''expectedTerminationReason'', JStr ''stalled_recovery''), (''queued_messages_count'', JInt pendingMessages)],
          tt_runtimeStopReason = ''stalled_recovery''\<rparr>)"

definition projectApmRuntimeProgressStalledTrace ::
  "string \<Rightarrow> int \<Rightarrow> string \<Rightarrow> bool \<Rightarrow> string option \<Rightarrow> jsval \<times> jsval" where
  "projectApmRuntimeProgressStalledTrace turnReason staleForMs lastActivity present detailKind =
     (JObj (stalled_attrs turnReason),
      JObj (stalled_attrs turnReason @ stalled_span_attrs staleForMs lastActivity present detailKind))"

definition formatDiagnosticAge :: "int option \<Rightarrow> string" where
  "formatDiagnosticAge ageMs =
     (let bounded = max 0 (case ageMs of None \<Rightarrow> 0 | Some n \<Rightarrow> n)
      in if bounded < 60000 then show_int (max 1 (bounded div 1000)) @ ''s''
         else if bounded < 3600000 then show_int (bounded div 60000) @ ''m''
         else show_int (bounded div 3600000) @ ''h'')"

datatype tool_classification =
    running_with_recent_progress | running_no_observed_progress | completion_loss | pending_liveness_unknown
  | runtime_inactive_without_pending_tool | not_pending | unknown_tool

record tool_snapshot =
  ts_classification :: tool_classification
  ts_toolAgeMs :: "int option"
  ts_lastProgressAgeMs :: "int option"

definition tool_sentence :: "tool_snapshot \<Rightarrow> string" where
  "tool_sentence t = (case ts_classification t of
     running_with_recent_progress \<Rightarrow>
       ''Bash tool has been running for '' @ formatDiagnosticAge (ts_toolAgeMs t) @
       ''; process is alive; progress observed '' @ formatDiagnosticAge (ts_lastProgressAgeMs t) @ '' ago.''
   | running_no_observed_progress \<Rightarrow>
       ''Bash tool has been running for '' @ formatDiagnosticAge (ts_toolAgeMs t) @
       ''; process is alive; no output/update observed for '' @
       formatDiagnosticAge (case ts_lastProgressAgeMs t of None \<Rightarrow> ts_toolAgeMs t | Some n \<Rightarrow> Some n) @ ''.''
   | completion_loss \<Rightarrow> ''Tool process exited, but the runtime has not completed the tool call.''
   | pending_liveness_unknown \<Rightarrow> ''Tool call is pending, but process liveness is unavailable.''
   | runtime_inactive_without_pending_tool \<Rightarrow> ''Runtime is inactive; no pending tool call was found.''
   | not_pending \<Rightarrow> ''No pending tool call was found.''
   | unknown_tool \<Rightarrow> ''Tool call status is unavailable.'')"

fun join_strings :: "string \<Rightarrow> string list \<Rightarrow> string" where
  "join_strings sep [] = []"
| "join_strings sep [w] = w"
| "join_strings sep (w # ws) = w @ sep @ join_strings sep ws"

definition projectRuntimeToolDiagnosticActivity :: "tool_snapshot list \<Rightarrow> string \<Rightarrow> string" where
  "projectRuntimeToolDiagnosticActivity snapshots legacyFallback =
     (if snapshots = [] then legacyFallback else join_strings '' '' (map tool_sentence snapshots))"


record stall_input =
  sd_staleForMs :: int
  sd_staleForMinutes :: int
  sd_lastActivityKind :: string
  sd_lastActivityDetail :: "string option"
  sd_lastActivityDetailKind :: "string option"
  sd_runtimeProgressLastEventKind :: "string option"
  sd_runtime :: string
  sd_model :: string
  sd_platform :: string
  sd_arch :: string
  sd_launchId :: "string option"
  sd_sessionIdPresent :: bool
  sd_inboxCount :: int
  sd_pendingNotificationCount :: int
  sd_processPidPresent :: bool
  sd_driverBusyDeliveryMode :: string
  sd_supportsStdinNotification :: bool
  sd_outstandingToolUses :: int
  sd_compacting :: bool
  sd_reviewing :: "bool option"
  sd_recentStderrCount :: int
  sd_recentStdoutCount :: int
  sd_runtimeTraceCounterAttrs :: "(string \<times> jsval) list"

record stall_projection =
  sp_detail :: string
  sp_turnReason :: string
  sp_lastActivityDetailPresent :: bool
  sp_lastActivityDetailKind :: "string option"
  sp_traceAttrs :: jsval

definition truthy_str :: "string option \<Rightarrow> bool" where
  "truthy_str s \<longleftrightarrow> s \<noteq> None \<and> s \<noteq> Some ''''"

definition stall_context :: "stall_input \<Rightarrow> string list" where
  "stall_context i =
     (if truthy_str (sd_lastActivityDetail i) then [''after '' @ the (sd_lastActivityDetail i)] else []) @
     (if 0 < sd_outstandingToolUses i then [''tools='' @ show_int (sd_outstandingToolUses i)] else []) @
     (if sd_compacting i then [''compacting''] else []) @
     (if sd_reviewing i = Some True then [''reviewing''] else []) @
     (if 0 < sd_inboxCount i then [''queued='' @ show_int (sd_inboxCount i)] else [])"

definition projectApmRuntimeStallDiagnostic :: "stall_input \<Rightarrow> stall_projection" where
  "projectApmRuntimeStallDiagnostic i =
     (let context = stall_context i;
          present = truthy_str (sd_lastActivityDetail i);
          detailKind = (if present then sd_lastActivityDetailKind i else None)
      in \<lparr>sp_detail = ''Runtime stalled: no runtime events for '' @ show_int (sd_staleForMinutes i) @ ''m'' @
            (if context \<noteq> [] then '' ('' @ join_strings '', '' context @ '')'' else ''''),
          sp_turnReason =
            (if sd_runtimeProgressLastEventKind i = Some ''tool_output'' \<and> sd_outstandingToolUses i = 0
             then ''harness_post_tool_silent_wedge'' else ''no_runtime_events''),
          sp_lastActivityDetailPresent = present,
          sp_lastActivityDetailKind = detailKind,
          sp_traceAttrs = JObj (
            [(''ageMs'', JInt (sd_staleForMs i)), (''staleForMinutes'', JInt (sd_staleForMinutes i)),
             (''lastActivity'', JStr (sd_lastActivityKind i)), (''lastActivityDetailPresent'', JBool present),
             (''lastActivityDetailKind'', opt_str detailKind), (''runtime'', JStr (sd_runtime i)),
             (''model'', JStr (sd_model i)), (''platform'', JStr (sd_platform i)), (''arch'', JStr (sd_arch i)),
             (''launchId'', if truthy_str (sd_launchId i) then opt_str (sd_launchId i) else JUndef),
             (''sessionIdPresent'', JBool (sd_sessionIdPresent i)), (''inboxCount'', JInt (sd_inboxCount i)),
             (''pendingNotificationCount'', JInt (sd_pendingNotificationCount i)),
             (''processPidPresent'', JBool (sd_processPidPresent i)),
             (''busyDeliveryMode'', JStr (sd_driverBusyDeliveryMode i)),
             (''supportsStdinNotification'', JBool (sd_supportsStdinNotification i)),
             (''outstandingToolUses'', JInt (sd_outstandingToolUses i)), (''compacting'', JBool (sd_compacting i))] @
            (if sd_reviewing i = Some True then [(''reviewing'', JBool True)] else []) @
            [(''recentStderrCount'', JInt (sd_recentStderrCount i)),
             (''recentStdoutCount'', JInt (sd_recentStdoutCount i))] @
            sd_runtimeTraceCounterAttrs i)\<rparr>)"

section \<open>The activity projection\<close>

text \<open>\<open>normalizeActivity\<close> of the shared package, called without a database status.\<close>

definition AGENT_ACTIVITIES :: "string list" where
  "AGENT_ACTIVITIES = [''online'', ''thinking'', ''working'', ''error'', ''offline'']"

definition normalizeActivity :: "string \<Rightarrow> string" where
  "normalizeActivity raw = (if raw \<in> set AGENT_ACTIVITIES then raw else ''offline'')"

definition projectTraceActivityFromFact :: "string option \<Rightarrow> string" where
  "projectTraceActivityFromFact detailKind = (case detailKind of
     None \<Rightarrow> ''working''
   | Some k \<Rightarrow>
       if k = ''thinking_started'' then ''thinking''
       else if k \<in> set [''runtime_error'', ''runtime_stalled'', ''computer_operation_failed''] then ''error''
       else if k \<in> set [''runtime_crashed'', ''runtime_unavailable'', ''stopped'', ''runtime_interrupted'',
         ''machine_disconnected''] then ''offline''
       else if k \<in> set [''idle'', ''ready'', ''computer_started'', ''computer_restarted'', ''computer_upgraded'',
         ''synthetic_repair''] then ''online''
       else ''working'')"

record activity_message =
  am_agentId :: string
  am_activity :: "string option"
  am_activityKind :: "string option"
  am_detail :: string
  am_detailKind :: "string option"
  am_clientSeq :: "int option"
  am_launchId :: "string option"

record projection_input =
  pi_transitionSeq :: int
  pi_scenario :: string
  pi_correlationId :: string
  pi_inputId :: string
  pi_inputKind :: string
  pi_inputSummary :: string
  pi_message :: activity_message

record transition_row =
  tr_seq :: int
  tr_scenario :: string
  tr_correlationId :: string
  tr_inputId :: string
  tr_inputKind :: string
  tr_previousStateHash :: string
  tr_nextStateHash :: string
  tr_effectId :: string
  tr_effectReason :: string
  tr_projectorId :: string
  tr_payloadHash :: string
  tr_producerFactId :: string
  tr_sourceEffectId :: string

record sequence_entry =
  se_producerFactId :: string
  se_agentId :: string
  se_activityKind :: string
  se_activity :: string
  se_detail :: string
  se_detailKind :: "string option"
  se_clientSeq :: "int option"
  se_launchId :: "string option"

text \<open>
  \<open>stableStringifyApm\<close> normalizes (drops undefined entries, sorts keys) and prints. The printer of
  the sync domain does both at once and agrees with it on every defined value.
\<close>

fun stableNormalize :: "jsval \<Rightarrow> jsval" where
  "stableNormalize (JArr xs) = JArr (map stableNormalize xs)"
| "stableNormalize (JObj kvs) =
     JObj (js_sort compare_keys (map (\<lambda>(k, v). (k, stableNormalize v)) (filter (\<lambda>(k, v). v \<noteq> JUndef) kvs)))"
| "stableNormalize v = v"

text \<open>\<open>JSON.stringify\<close> of a normalized value, in the order of its entries.\<close>

fun json_print :: "jsval \<Rightarrow> string" where
  "json_print (JArr xs) = ''['' @ json_elements (map json_print xs) @ '']''"
| "json_print (JObj kvs) =
     CHR 0x7B # json_elements (map (\<lambda>(k, v). json_string k @ '':'' @ json_print v) kvs) @ [CHR 0x7D]"
| "json_print v = json_primitive v"

definition stableStringifyApm :: "jsval \<Rightarrow> string" where
  "stableStringifyApm v = json_print (stableNormalize v)"

definition hashApmStable :: "(string \<Rightarrow> string) \<Rightarrow> jsval \<Rightarrow> string" where
  "hashApmStable sha256 v = sha256 (stableStringifyApm v)"

definition activity_kind_of :: "activity_message \<Rightarrow> string" where
  "activity_kind_of m = (case am_activityKind m of
     Some k \<Rightarrow> k
   | None \<Rightarrow>
       if truthy_str (am_activity m) then normalizeActivity (the (am_activity m))
       else projectTraceActivityFromFact (am_detailKind m))"

definition activity_payload :: "activity_message \<Rightarrow> jsval" where
  "activity_payload m = JObj
     [(''agentId'', JStr (am_agentId m)), (''activityKind'', JStr (activity_kind_of m)),
      (''activity'', opt_str (am_activity m)), (''detail'', JStr (am_detail m)),
      (''detailKind'', opt_str (am_detailKind m)),
      (''clientSeq'', case am_clientSeq m of None \<Rightarrow> JUndef | Some n \<Rightarrow> JInt n),
      (''launchId'', opt_str (am_launchId m))]"

definition reduceAgentActivityProjection ::
  "(string \<Rightarrow> string) \<Rightarrow> projection_input \<Rightarrow> apm_state \<Rightarrow> apm_state \<times> transition_row \<times> sequence_entry" where
  "reduceAgentActivityProjection sha256 i s =
     (let m = pi_message i;
          producerFactId = ''fact-'' @ pi_scenario i @ ''-'' @
            show_int (case am_clientSeq m of Some n \<Rightarrow> n | None \<Rightarrow> pi_transitionSeq i);
          effectId = ''effect-'' @ pi_scenario i @ ''-'' @ show_int (pi_transitionSeq i);
          projectorId = ''projector-'' @ pi_scenario i @ ''-'' @ show_int (pi_transitionSeq i);
          kind = activity_kind_of m;
          payload = activity_payload m;
          nextStateHash = ''apm:'' @ hashApmStable sha256
            (JObj [(''previousStateHash'', JStr (stateHash s)), (''payload'', payload)])
      in (\<lparr>stateHash = nextStateHash, gatedSteering = gatedSteering s\<rparr>,
          \<lparr>tr_seq = pi_transitionSeq i, tr_scenario = pi_scenario i, tr_correlationId = pi_correlationId i,
           tr_inputId = pi_inputId i, tr_inputKind = pi_inputKind i, tr_previousStateHash = stateHash s,
           tr_nextStateHash = nextStateHash, tr_effectId = effectId, tr_effectReason = pi_inputSummary i,
           tr_projectorId = projectorId, tr_payloadHash = hashApmStable sha256 payload,
           tr_producerFactId = producerFactId, tr_sourceEffectId = effectId\<rparr>,
          \<lparr>se_producerFactId = producerFactId, se_agentId = am_agentId m, se_activityKind = kind,
           se_activity = (case am_activity m of Some a \<Rightarrow> a | None \<Rightarrow> kind), se_detail = am_detail m,
           se_detailKind = am_detailKind m, se_clientSeq = am_clientSeq m, se_launchId = am_launchId m\<rparr>))"

end
