(* ===== verification/Json_Injective.thy ===== *)
theory Json_Injective
  imports Apm_State
begin

text \<open>
  The canonical printers of the repository are injective: a printed value determines the normalized
  value, so equal fingerprints and equal hash inputs mean equal facts. The proof is that the printed
  form is a prefix code before a delimiter. The two canonicalisers, \<open>stableStringify\<close> of the activity
  domain and \<open>stableStringifyApm\<close> of the process manager, print the same text.
\<close>

section \<open>Tokens\<close>

definition is_number_char :: "char \<Rightarrow> bool" where
  "is_number_char ch \<longleftrightarrow> is_digit ch \<or> ch \<in> set ''+-.eE''"

text \<open>The printed form of a Number that is not an integer has a point or an exponent.\<close>

definition number_like :: "string \<Rightarrow> bool" where
  "number_like s \<longleftrightarrow> s \<noteq> [] \<and> list_all is_number_char s \<and> list_ex (\<lambda>ch. ch \<in> set ''.eE'') s \<and>
     s \<noteq> ''NaN'' \<and> s \<noteq> ''Infinity'' \<and> s \<noteq> ''-Infinity'' \<and> (is_digit (hd s) \<or> hd s = CHR ''-'')"

fun json_norm :: "jsval \<Rightarrow> bool" where
  "json_norm JUndef = False"
| "json_norm (JNonInt s) = number_like s"
| "json_norm (JArr xs) = list_all json_norm xs"
| "json_norm (JObj kvs) = list_all (\<lambda>(k, v). json_norm v) kvs"
| "json_norm _ = True"

definition delimited :: "string \<Rightarrow> bool" where
  "delimited s \<longleftrightarrow> s = [] \<or> hd s \<in> set '',]'' \<or> hd s = CHR 0x7D"

lemma delimited_simps [simp]:
  "delimited []" "delimited (CHR '','' # s)" "delimited (CHR '']'' # s)" "delimited (CHR 0x7D # s)"
  by (simp_all add: delimited_def)

lemma delimited_not_number: "delimited s \<Longrightarrow> s = [] \<or> \<not> is_number_char (hd s)"
  by (auto simp: delimited_def is_number_char_def is_digit_def)

lemma show_int_token: "list_all is_number_char (show_int i)"
  "show_int i \<noteq> []" "is_digit (hd (show_int i)) \<or> hd (show_int i) = CHR ''-''"
  "\<not> list_ex (\<lambda>ch. ch \<in> set ''.eE'') (show_int i)"
proof -
  have d: "list_all is_digit (show_nat n)" "show_nat n \<noteq> []" for n using show_nat_digits by auto
  have hd: "is_digit (hd (show_nat n))" for n using d [of n] by (cases "show_nat n") auto
  have nodot: "\<not> list_ex (\<lambda>ch. ch \<in> set ''.eE'') (show_nat n)" for n
    using d(1) [of n] by (auto simp: list_ex_iff list_all_iff is_digit_def)
  show "list_all is_number_char (show_int i)" "show_int i \<noteq> []"
    "is_digit (hd (show_int i)) \<or> hd (show_int i) = CHR ''-''"
    "\<not> list_ex (\<lambda>ch. ch \<in> set ''.eE'') (show_int i)"
    using d hd nodot by (auto simp: show_int_def is_number_char_def list_all_iff)
qed

lemma token_prefix:
  assumes "list_all is_number_char a" "list_all is_number_char b" "delimited s" "delimited t" "a @ s = b @ t"
  shows "a = b \<and> s = t"
proof -
  have "takeWhile is_number_char (a @ s) = a" "takeWhile is_number_char (b @ t) = b"
    using assms(1-4) delimited_not_number [of s] delimited_not_number [of t]
    by (auto simp: takeWhile_append list_all_iff takeWhile_eq_Nil_iff)
  with assms(5) show ?thesis by auto
qed

section \<open>The first character tells the kind\<close>

datatype token_kind = Tnull | Tbool | Tnumber | Tstring | Tarray | Tobject

fun kind_of :: "jsval \<Rightarrow> token_kind" where
  "kind_of JUndef = Tnull"
| "kind_of JNull = Tnull"
| "kind_of (JBool _) = Tbool"
| "kind_of (JInt _) = Tnumber"
| "kind_of (JNonInt _) = Tnumber"
| "kind_of (JStr _) = Tstring"
| "kind_of (JArr _) = Tarray"
| "kind_of (JObj _) = Tobject"

definition kind_of_char :: "char \<Rightarrow> token_kind" where
  "kind_of_char ch =
     (if ch = CHR ''n'' then Tnull else if ch \<in> set ''tf'' then Tbool else if ch = CHR 0x22 then Tstring
      else if ch = CHR ''['' then Tarray else if ch = CHR 0x7B then Tobject else Tnumber)"

definition starts_ok :: "string \<Rightarrow> bool" where
  "starts_ok s \<longleftrightarrow> s \<noteq> [] \<and> hd s \<notin> set '',]'' \<and> hd s \<noteq> CHR 0x7D"

lemma print_number:
  "json_norm v \<Longrightarrow> kind_of v = Tnumber \<Longrightarrow>
    list_all is_number_char (json_print v) \<and> json_print v \<noteq> [] \<and>
    (is_digit (hd (json_print v)) \<or> hd (json_print v) = CHR ''-'')"
  using show_int_token by (cases v) (auto simp: json_primitive_def number_like_def)

lemma print_kind:
  assumes "json_norm v"
  shows "json_print v \<noteq> [] \<and> kind_of_char (hd (json_print v)) = kind_of v \<and> starts_ok (json_print v)"
proof (cases "kind_of v = Tnumber")
  case True
  then show ?thesis using print_number [OF assms True]
    by (auto simp: kind_of_char_def starts_ok_def is_digit_def)
next
  case False
  then show ?thesis using assms
    by (cases v) (auto simp: json_primitive_def kind_of_char_def starts_ok_def json_string_def)
qed

lemma print_kind_eq:
  assumes "json_norm v" "json_norm w" "json_print v @ s = json_print w @ t"
  shows "kind_of v = kind_of w"
  using print_kind [OF assms(1)] print_kind [OF assms(2)] assms(3) by (metis hd_append2)

section \<open>Lists of printed elements\<close>

lemma elements_Cons: "json_elements (x # xs) = x @ (if xs = [] then [] else CHR '','' # json_elements xs)"
  by (cases xs) simp_all

lemma starts_ok_not_close:
  assumes "starts_ok p" "c = CHR '']'' \<or> c = CHR 0x7D"
  shows "p @ r \<noteq> c # s"
  using assms by (cases p) (auto simp: starts_ok_def)

definition prefix_code :: "('a \<Rightarrow> string) \<Rightarrow> 'a \<Rightarrow> ('a \<Rightarrow> bool) \<Rightarrow> bool" where
  "prefix_code p x ok \<longleftrightarrow>
     (\<forall>y s t. ok y \<longrightarrow> delimited s \<longrightarrow> delimited t \<longrightarrow> p x @ s = p y @ t \<longrightarrow> x = y \<and> s = t)"

lemma prefix_codeD:
  "prefix_code p x ok \<Longrightarrow> ok y \<Longrightarrow> delimited s \<Longrightarrow> delimited t \<Longrightarrow> p x @ s = p y @ t \<Longrightarrow> x = y \<and> s = t"
  unfolding prefix_code_def by blast

lemma elements_prefix:
  assumes close: "c = CHR '']'' \<or> c = CHR 0x7D"
  shows "\<forall>x \<in> set xs. ok x \<and> prefix_code p x ok \<Longrightarrow> \<forall>y \<in> set ys. ok y \<Longrightarrow> \<forall>x. ok x \<longrightarrow> starts_ok (p x) \<Longrightarrow>
    json_elements (map p xs) @ c # s = json_elements (map p ys) @ c # t \<Longrightarrow> xs = ys \<and> s = t"
proof (induction xs arbitrary: ys)
  case Nil
  show ?case
  proof (cases ys)
    case (Cons y ys')
    then have "starts_ok (p y)" using Nil.prems(2,3) by simp
    from starts_ok_not_close [OF this close] show ?thesis
      using Nil.prems(4) Cons by (simp add: elements_Cons) metis
  qed (use Nil.prems in simp)
next
  case (Cons x xs)
  let ?rest = "\<lambda>zs. if zs = [] then [] else CHR '','' # json_elements (map p zs)"
  show ?case
  proof (cases ys)
    case Nil
    have "starts_ok (p x)" using Cons.prems(1,3) by simp
    from starts_ok_not_close [OF this close] show ?thesis
      using Cons.prems(4) Nil by (simp add: elements_Cons)
  next
    case ys: (Cons y ys')
    have eq: "p x @ ?rest xs @ c # s = p y @ ?rest ys' @ c # t"
      using Cons.prems(4) ys by (simp add: elements_Cons)
    have del: "delimited (?rest zs @ c # r)" for zs r using close by auto
    have "prefix_code p x ok" "ok y" using Cons.prems(1,2) ys by simp_all
    from prefix_codeD [OF this del del eq] have xy: "x = y" "?rest xs @ c # s = ?rest ys' @ c # t" by blast+
    show ?thesis
    proof (cases "xs = [] \<or> ys' = []")
      case True
      then show ?thesis using xy close ys by (auto split: if_splits)
    next
      case False
      with xy(2) have "json_elements (map p xs) @ c # s = json_elements (map p ys') @ c # t" by simp
      with Cons.IH [of ys'] Cons.prems(1-3) ys xy(1) show ?thesis by auto
    qed
  qed
qed


section \<open>Values\<close>

lemma print_array: "json_print (JArr xs) @ s = CHR ''['' # json_elements (map json_print xs) @ CHR '']'' # s"
  by simp

definition print_entry :: "string \<times> jsval \<Rightarrow> string" where
  "print_entry e = json_string (fst e) @ CHR '':'' # json_print (snd e)"

lemma print_object:
  "json_print (JObj kvs) @ s = CHR 0x7B # json_elements (map print_entry kvs) @ CHR 0x7D # s"
  by (simp add: print_entry_def case_prod_beta' cong: map_cong)

lemma entry_prefix_code:
  assumes "prefix_code json_print (snd e) json_norm"
  shows "prefix_code print_entry e (\<lambda>e. json_norm (snd e))"
  unfolding prefix_code_def
proof (intro allI impI)
  fix f s t
  assume f: "json_norm (snd f)" and d: "delimited s" "delimited t" and eq: "print_entry e @ s = print_entry f @ t"
  from json_string_prefix [of "fst e" "CHR '':'' # json_print (snd e) @ s" "fst f"] eq
  have "fst e = fst f" "json_print (snd e) @ s = json_print (snd f) @ t" by (auto simp: print_entry_def)
  with prefix_codeD [OF assms f d] show "e = f \<and> s = t" by (simp add: prod_eq_iff)
qed

lemma entry_starts_ok: "starts_ok (print_entry e)"
  by (simp add: starts_ok_def print_entry_def json_string_def)

lemma print_number_inj:
  assumes "json_norm v" "json_norm w" "kind_of v = Tnumber" "kind_of w = Tnumber" "json_print v = json_print w"
  shows "v = w"
proof -
  have "list_ex (\<lambda>ch. ch \<in> set ''.eE'') (json_print u) \<longleftrightarrow> (\<exists>s. u = JNonInt s)" if "json_norm u" "kind_of u = Tnumber" for u
    using that show_int_token(4) by (cases u) (auto simp: json_primitive_def number_like_def)
  with assms have "(\<exists>s. v = JNonInt s) \<longleftrightarrow> (\<exists>s. w = JNonInt s)" by metis
  with assms show ?thesis
    by (cases v; cases w) (auto simp: json_primitive_def number_like_def show_int_inj)
qed

lemma number_prefix_code:
  assumes "json_norm v" "kind_of v = Tnumber"
  shows "prefix_code json_print v json_norm"
  unfolding prefix_code_def
proof (intro allI impI)
  fix w s t
  assume w: "json_norm w" and d: "delimited s" "delimited t" and eq: "json_print v @ s = json_print w @ t"
  have k: "kind_of w = Tnumber" using print_kind_eq [OF assms(1) w eq] assms(2) by simp
  have "json_print v = json_print w \<and> s = t"
    using token_prefix [OF _ _ d eq] print_number [OF assms] print_number [OF w k] by blast
  with print_number_inj [OF assms(1) w assms(2) k] show "v = w \<and> s = t" by blast
qed

text \<open>The printed form of a normalized value is a prefix code before a delimiter.\<close>

lemma json_print_prefix_code: "json_norm v \<Longrightarrow> prefix_code json_print v json_norm"
proof (induction v)
  case (JArr xs)
  show ?case unfolding prefix_code_def
  proof (intro allI impI)
    fix w s t
    assume w: "json_norm w" and d: "delimited s" "delimited t" and eq: "json_print (JArr xs) @ s = json_print w @ t"
    have "kind_of w = Tarray" using print_kind_eq [OF JArr.prems w eq] by simp
    then obtain ys where ys: "w = JArr ys" by (cases w) auto
    have "\<forall>x \<in> set xs. json_norm x \<and> prefix_code json_print x json_norm"
      using JArr by (auto simp: list_all_iff)
    moreover have "\<forall>y \<in> set ys. json_norm y" "\<forall>x. json_norm x \<longrightarrow> starts_ok (json_print x)"
      using w ys print_kind by (auto simp: list_all_iff)
    moreover have "json_elements (map json_print xs) @ CHR '']'' # s = json_elements (map json_print ys) @ CHR '']'' # t"
      using eq ys by simp
    ultimately show "JArr xs = w \<and> s = t" using elements_prefix [of "CHR '']''"] ys by blast
  qed
next
  case (JObj kvs)
  show ?case unfolding prefix_code_def
  proof (intro allI impI)
    fix w s t
    assume w: "json_norm w" and d: "delimited s" "delimited t" and eq: "json_print (JObj kvs) @ s = json_print w @ t"
    have "kind_of w = Tobject" using print_kind_eq [OF JObj.prems w eq] by simp
    then obtain lvs where lvs: "w = JObj lvs" by (cases w) auto
    let ?ok = "\<lambda>e. json_norm (snd e)"
    have "\<forall>e \<in> set kvs. ?ok e \<and> prefix_code print_entry e ?ok"
      using JObj entry_prefix_code by (fastforce simp: list_all_iff)
    moreover have "\<forall>e \<in> set lvs. ?ok e" using w lvs by (auto simp: list_all_iff)
    moreover have "json_elements (map print_entry kvs) @ CHR 0x7D # s = json_elements (map print_entry lvs) @ CHR 0x7D # t"
      using eq unfolding lvs print_object by simp
    ultimately show "JObj kvs = w \<and> s = t"
      using elements_prefix [of "CHR 0x7D" kvs ?ok print_entry lvs s t] entry_starts_ok lvs by blast
  qed
next
  case (JStr a)
  show ?case unfolding prefix_code_def
  proof (intro allI impI)
    fix w s t
    assume w: "json_norm w" and eq: "json_print (JStr a) @ s = json_print w @ t"
    have "kind_of w = Tstring" using print_kind_eq [OF JStr.prems w eq] by simp
    then obtain b where b: "w = JStr b" by (cases w) auto
    then show "JStr a = w \<and> s = t" using json_string_prefix [of a s b t] eq by (simp add: json_primitive_def)
  qed
next
  case (JInt i)
  then show ?case by (rule number_prefix_code) simp
next
  case (JNonInt x)
  then show ?case by (rule number_prefix_code) simp
next
  case (JBool b)
  show ?case unfolding prefix_code_def
  proof (intro allI impI)
    fix w s t
    assume w: "json_norm w" and eq: "json_print (JBool b) @ s = json_print w @ t"
    have "kind_of w = Tbool" using print_kind_eq [OF JBool.prems w eq] by simp
    then obtain b' where b': "w = JBool b'" by (cases w) auto
    then show "JBool b = w \<and> s = t" using eq by (cases b; cases b') (auto simp: json_primitive_def)
  qed
next
  case JNull
  show ?case unfolding prefix_code_def
  proof (intro allI impI)
    fix w s t
    assume w: "json_norm w" and eq: "json_print JNull @ s = json_print w @ t"
    have "kind_of w = Tnull" using print_kind_eq [OF JNull.prems w eq] by simp
    then have "w = JNull" using w by (cases w) auto
    then show "JNull = w \<and> s = t" using eq by simp
  qed
qed simp

lemma json_print_inj: "json_norm v \<Longrightarrow> json_norm w \<Longrightarrow> json_print v = json_print w \<Longrightarrow> v = w"
  using prefix_codeD [OF json_print_prefix_code, of v w "[]" "[]"] by simp


section \<open>Canonical values\<close>

text \<open>
  What a printer can see of a value: an undefined array element prints as null, and a non-finite
  number too. On the values that JSON can carry nothing else is lost.
\<close>

fun json_visible :: "jsval \<Rightarrow> bool" where
  "json_visible JUndef = False"
| "json_visible (JNonInt s) = number_like s"
| "json_visible (JArr xs) = list_all json_visible xs"
| "json_visible (JObj kvs) = list_all (\<lambda>(k, v). v = JUndef \<or> json_visible v) kvs"
| "json_visible _ = True"

lemma stableNormalize_norm: "json_visible v \<Longrightarrow> json_norm (stableNormalize v)"
proof (induction v)
  case (JObj kvs)
  have "json_norm (stableNormalize x)" if "(k, x) \<in> set kvs" "x \<noteq> JUndef" for k x
    using that JObj by (auto simp: list_all_iff)
  then show ?case by (auto simp: list_all_iff)
qed (auto simp: list_all_iff)

lemma js_insert_map_snd:
  "js_insert compare_keys (k, f v) (map (\<lambda>(k, v). (k, f v)) xs) =
    map (\<lambda>(k, v). (k, f v)) (js_insert compare_keys (k, v) xs)"
  by (induction xs) (auto simp: compare_keys_def)

lemma js_sort_map_snd:
  "js_sort compare_keys (map (\<lambda>(k, v). (k, f v)) xs) = map (\<lambda>(k, v). (k, f v)) (js_sort compare_keys xs)"
proof (induction xs)
  case (Cons x xs)
  then show ?case using js_insert_map_snd [of "fst x" f "snd x"] by (cases x) simp
qed simp

lemma stableStringify_eq: "stableStringify v = json_print (stableNormalize v)"
proof (induction v)
  case (JArr xs)
  then show ?case by (simp cong: map_cong)
next
  case (JObj kvs)
  let ?kvs = "filter (\<lambda>(k, v). v \<noteq> JUndef) kvs"
  have "map (\<lambda>(k, v). (k, stableStringify v)) ?kvs = map (\<lambda>(k, v). (k, json_print (stableNormalize v))) ?kvs"
    using JObj by (auto simp: snds.simps intro!: map_cong)
  then have "js_sort compare_keys (map (\<lambda>(k, v). (k, stableStringify v)) ?kvs) =
      map (\<lambda>(k, v). (k, json_print (stableNormalize v))) (js_sort compare_keys ?kvs)"
    by (simp only: js_sort_map_snd)
  moreover have "js_sort compare_keys (map (\<lambda>(k, v). (k, stableNormalize v)) ?kvs) =
      map (\<lambda>(k, v). (k, stableNormalize v)) (js_sort compare_keys ?kvs)"
    by (rule js_sort_map_snd)
  ultimately show ?case
    unfolding stableStringify.simps stableNormalize.simps json_print.simps
    by (simp only: map_map) (simp add: comp_def case_prod_beta')
qed simp_all

interpretation keys: comparator "compare_keys :: (string \<times> 'a) cmp"
  by unfold_locales (auto simp: compare_keys_def split: if_splits)

lemma map_of_js_sort:
  assumes "distinct (map fst xs)"
  shows "map_of (js_sort compare_keys xs) = map_of xs"
proof
  fix k
  have "map_of (js_sort compare_keys xs) k = Some v \<longleftrightarrow> map_of xs k = Some v" for v
    using assms by (simp add: map_of_eq_Some_iff distinct_map_js_sort)
  then show "map_of (js_sort compare_keys xs) k = map_of xs k" by (metis option.exhaust)
qed

text \<open>Normalizing does not change what a key reads as.\<close>

lemma map_of_visible:
  "distinct (map fst kvs) \<Longrightarrow>
    map_of (map (\<lambda>(k, v). (k, stableNormalize v)) (filter (\<lambda>(k, v). v \<noteq> JUndef) kvs)) k =
    (case map_of kvs k of None \<Rightarrow> None | Some v \<Rightarrow> if v = JUndef then None else Some (stableNormalize v))"
proof (induction kvs)
  case (Cons e kvs)
  then show ?case
    by (cases e) (auto simp: map_of_eq_None_iff split: option.splits dest: map_of_SomeD intro: rev_image_eqI)
qed simp

lemma jget_stableNormalize:
  assumes "distinct (map fst kvs)"
  shows "jget (stableNormalize (JObj kvs)) k = stableNormalize (jget (JObj kvs) k)"
proof -
  have "distinct (map fst (map (\<lambda>(k, v). (k, stableNormalize v)) (filter (\<lambda>(k, v). v \<noteq> JUndef) kvs)))"
    using distinct_map_filter [OF assms, of "\<lambda>(k, v). v \<noteq> JUndef"] by (simp add: comp_def case_prod_beta')
  from map_of_js_sort [OF this] map_of_visible [OF assms, of k] show ?thesis
    by (auto split: option.splits)
qed

section \<open>Properties\<close>

text \<open>
  Fingerprints identify facts: on the values that JSON can carry the canonical text of the
  activity domain determines the value up to the order of its keys and its undefined entries, and
  the process manager's canonicaliser prints the same text.
\<close>

theorem stable_text_identifies_value:
  assumes "json_visible v" "json_visible w"
  shows "(stableStringify v = stableStringify w \<longleftrightarrow> stableNormalize v = stableNormalize w) \<and>
    stableStringifyApm v = stableStringify v"
  using json_print_inj [OF stableNormalize_norm stableNormalize_norm, OF assms]
  by (auto simp: stableStringify_eq stableStringifyApm_def)

theorem stable_text_identifies_value_witness:
  "stableStringify (JObj [(''b'', JInt 1), (''a'', JNull), (''c'', JUndef)]) =
     stableStringify (JObj [(''a'', JNull), (''b'', JInt 1)]) \<and>
   stableStringify (JArr [JStr ''1'', JInt 1]) \<noteq> stableStringify (JArr [JInt 1, JStr ''1''])"
  using stable_text_identifies_value [of "JObj [(''b'', JInt 1), (''a'', JNull), (''c'', JUndef)]"
      "JObj [(''a'', JNull), (''b'', JInt 1)]"]
    stable_text_identifies_value [of "JArr [JStr ''1'', JInt 1]" "JArr [JInt 1, JStr ''1'']"]
  by (simp add: compare_keys_def)

end
