(* ===== verification/Apm_Properties.thy ===== *)
theory Apm_Properties
  imports Json_Injective
begin

text \<open>
  What the process manager's decision state guarantees over sequences of runtime events, and what
  its hash chain proves about the projected activity.
\<close>

section \<open>Runs of the steering reducers\<close>

datatype apm_event =
    Idle_event bool
  | Tool_event tool_use
  | Compaction_event compaction_kind
  | Review_event review_kind
  | Turn_end_event turn_end_input
  | Error_event "bool option"
  | Continuation_event
  | Cold_idle_event
  | Stalled_event stalled_input
  | Startup_timeout_event bool
  | Startup_error_event
  | Control_plane_event

text \<open>The next state, committed as the daemon commits it, and whether the daemon must terminate the runtime.\<close>

fun apm_reduce :: "apm_event \<Rightarrow> gated_state \<Rightarrow> gated_state \<times> bool" where
  "apm_reduce (Idle_event b) s = (reduceApmIdleState b s, False)"
| "apm_reduce (Tool_event k) s = (reduceApmToolUse k s, False)"
| "apm_reduce (Compaction_event k) s = (reduceApmGatedCompaction k s, False)"
| "apm_reduce (Review_event k) s = (reduceApmGatedReview k s, False)"
| "apm_reduce (Turn_end_event i) s = (fst (reduceApmGatedTurnEnd i s), False)"
| "apm_reduce (Error_event w) s = (reduceApmGatedError w s, False)"
| "apm_reduce Continuation_event s = (reduceApmGatedAssistantContinuation s, False)"
| "apm_reduce Cold_idle_event s = (reduceApmColdIdleRecycleTermination s, False)"
| "apm_reduce (Stalled_event i) s =
     (let r = reduceApmStalledRecoveryTermination i s in (st_nextState r, st_shouldTerminate r))"
| "apm_reduce (Startup_timeout_event p) s = reduceApmStartupTimeoutTermination p s"
| "apm_reduce Startup_error_event s = reduceApmStartupRequestErrorTermination s"
| "apm_reduce Control_plane_event s = reduceApmControlPlaneEvent s"

definition apm_step :: "apm_event \<Rightarrow> gated_state \<Rightarrow> gated_state" where
  "apm_step e s = commitApmGatedSteeringDecisionState (fst (apm_reduce e s))"

definition apm_run :: "apm_event list \<Rightarrow> gated_state \<Rightarrow> gated_state" where
  "apm_run es s = fold apm_step es s"

lemma commit_id [simp]: "commitApmGatedSteeringDecisionState s = s"
  by (cases s) (auto simp: commitApmGatedSteeringDecisionState_def Let_def)

lemmas apm_reduce_defs = reduceApmIdleState_def reduceApmToolUse_def reduceApmGatedCompaction_def
  reduceApmGatedReview_def reduceApmGatedTurnEnd_def reduceApmGatedError_def
  reduceApmGatedAssistantContinuation_def reduceApmColdIdleRecycleTermination_def
  reduceApmStalledRecoveryTermination_def reduceApmStartupTimeoutTermination_def
  reduceApmStartupRequestErrorTermination_def reduceApmControlPlaneEvent_def

lemma apm_run_simps [simp]:
  "apm_run [] s = s" "apm_run (e # es) s = apm_run es (fst (apm_reduce e s))"
  by (simp_all add: apm_run_def apm_step_def)

text \<open>The tool counter as a reference: calls minus outputs, cut off at zero, cleared by a turn end.\<close>

fun tool_count :: "apm_event list \<Rightarrow> int \<Rightarrow> int" where
  "tool_count [] n = n"
| "tool_count (Tool_event k # es) n = tool_count es (if k = tool_call then n + 1 else max 0 (n - 1))"
| "tool_count (Turn_end_event i # es) n = tool_count es 0"
| "tool_count (e # es) n = tool_count es n"

lemma apm_run_tools: "outstandingToolUses (apm_run es s) = tool_count es (outstandingToolUses s)"
proof (induction es arbitrary: s)
  case (Cons e es)
  then show ?case by (cases e) (auto simp: apm_reduce_defs Let_def)
qed simp

lemma tool_count_nonneg: "0 \<le> n \<Longrightarrow> 0 \<le> tool_count es n"
  by (induction es n rule: tool_count.induct) auto

text \<open>The events that announce a termination.\<close>

fun announces :: "apm_event \<Rightarrow> bool" where
  "announces (Turn_end_event i) = (te_terminateProcessOnTurnEnd i = Some True)"
| "announces Cold_idle_event = True"
| "announces (Startup_timeout_event p) = (\<not> p)"
| "announces Startup_error_event = True"
| "announces _ = False"

lemma reason_step:
  "\<not> announces e \<Longrightarrow> expectedTerminationReason (fst (apm_reduce e s)) = expectedTerminationReason s \<or>
    expectedTerminationReason (fst (apm_reduce e s)) = Some stalled_recovery \<and> snd (apm_reduce e s)"
  by (cases e) (auto simp: apm_reduce_defs Let_def)

lemma reason_kept: "expectedTerminationReason s \<noteq> None \<Longrightarrow> expectedTerminationReason (fst (apm_reduce e s)) \<noteq> None"
  by (cases e) (auto simp: apm_reduce_defs Let_def)

lemma reason_run: "expectedTerminationReason s \<noteq> None \<Longrightarrow> expectedTerminationReason (apm_run es s) \<noteq> None"
proof (induction es arbitrary: s)
  case (Cons e es)
  from Cons.IH [OF reason_kept [OF Cons.prems]] show ?case by simp
qed simp

text \<open>The terminations a run asks for.\<close>

fun terminations :: "apm_event list \<Rightarrow> gated_state \<Rightarrow> nat" where
  "terminations [] s = 0"
| "terminations (e # es) s =
     (if snd (apm_reduce e s) then 1 else 0) + terminations es (fst (apm_reduce e s))"

lemma terminate_reason:
  "snd (apm_reduce e s) \<Longrightarrow> \<not> announces e \<Longrightarrow>
    expectedTerminationReason s \<noteq> Some stalled_recovery \<and>
    expectedTerminationReason (fst (apm_reduce e s)) = Some stalled_recovery"
  by (cases e) (auto simp: apm_reduce_defs Let_def split: if_splits)

lemma terminations_recovering:
  "\<forall>e \<in> set es. \<not> announces e \<Longrightarrow> expectedTerminationReason s = Some stalled_recovery \<Longrightarrow> terminations es s = 0"
proof (induction es arbitrary: s)
  case (Cons e es)
  have "\<not> snd (apm_reduce e s)" using terminate_reason [of e s] Cons.prems by auto
  moreover have "expectedTerminationReason (fst (apm_reduce e s)) = Some stalled_recovery"
    using reason_step [of e s] Cons.prems by auto
  ultimately show ?case using Cons by simp
qed simp

lemma terminations_once: "\<forall>e \<in> set es. \<not> announces e \<Longrightarrow> terminations es s \<le> 1"
proof (induction es arbitrary: s)
  case (Cons e es)
  show ?case
  proof (cases "snd (apm_reduce e s)")
    case True
    then have "expectedTerminationReason (fst (apm_reduce e s)) = Some stalled_recovery"
      using terminate_reason [of e s] Cons.prems by simp
    then show ?thesis using terminations_recovering [of es] True Cons.prems by simp
  qed (use Cons in simp)
qed simp

section \<open>Properties of the steering state\<close>

text \<open>
  Over every sequence of runtime events from the initial state the tool counter is the reference
  count (calls minus outputs, cut off at zero, cleared by a turn end) and so never negative, and an
  announced termination is never forgotten.
\<close>

theorem apm_run_counts_tools:
  "outstandingToolUses (apm_run es createInitialApmGatedSteeringState) = tool_count es 0 \<and>
   0 \<le> outstandingToolUses (apm_run es createInitialApmGatedSteeringState) \<and>
   (\<forall>fs s. expectedTerminationReason s \<noteq> None \<longrightarrow> expectedTerminationReason (apm_run fs s) \<noteq> None)"
  using apm_run_tools [of es createInitialApmGatedSteeringState] tool_count_nonneg [of 0 es] reason_run
  by (simp add: createInitialApmGatedSteeringState_def del: not_None_eq)

definition demo_stalled :: stalled_input where
  "demo_stalled = \<lparr>si_inboxLength = 1, si_supportsStdinNotification = False, si_busyDeliveryMode = no_delivery,
     si_hasSession = True, si_hasDirectStdinRecoveryEvidence = False, si_runtimeProgressIsStale = True,
     si_staleForMs = 0, si_staleThresholdMs = 1\<rparr>"

theorem apm_run_counts_tools_witness:
  "expectedTerminationReason (apm_run [Tool_event tool_call]
     (apm_run [Stalled_event demo_stalled] createInitialApmGatedSteeringState)) \<noteq> None"
proof -
  let ?s = "apm_run [Stalled_event demo_stalled] createInitialApmGatedSteeringState"
  have "expectedTerminationReason ?s \<noteq> None"
    by (simp add: demo_stalled_def reduceApmStalledRecoveryTermination_def createInitialApmGatedSteeringState_def)
  then show ?thesis using apm_run_counts_tools by blast
qed

text \<open>
  C31. A stalled runtime is terminated once: between announcements of another termination, a sequence
  of events of any length asks for at most one stalled-recovery termination, and a refused request
  leaves the state as it was.
\<close>

theorem apm_stalled_recovery_once:
  assumes "\<forall>e \<in> set es. \<not> announces e"
  shows "terminations es s \<le> 1 \<and>
    (\<forall>i. \<not> st_shouldTerminate (reduceApmStalledRecoveryTermination i s) \<longrightarrow>
       st_nextState (reduceApmStalledRecoveryTermination i s) = s)"
  using terminations_once [OF assms]
  by (auto simp: reduceApmStalledRecoveryTermination_def Let_def split: if_splits)

theorem apm_stalled_recovery_once_witness:
  "terminations [Stalled_event demo_stalled, Tool_event tool_call, Stalled_event demo_stalled]
     createInitialApmGatedSteeringState = 1"
proof -
  have "terminations [Stalled_event demo_stalled, Tool_event tool_call, Stalled_event demo_stalled]
     createInitialApmGatedSteeringState \<le> 1"
    using apm_stalled_recovery_once [of "[Stalled_event demo_stalled, Tool_event tool_call, Stalled_event demo_stalled]"]
    by simp
  then show ?thesis
    by (simp add: demo_stalled_def reduceApmStalledRecoveryTermination_def createInitialApmGatedSteeringState_def)
qed

text \<open>
  A turn end either hands over the queue or goes idle, never both and never neither: it delivers
  exactly when messages are queued and the runtime can take them, in one effect; it always clears the
  tool counter and the compaction and review flags.
\<close>

theorem apm_turn_end_delivers_or_idles:
  "case reduceApmGatedTurnEnd i s of (n, effects) \<Rightarrow>
     (isIdle n \<longleftrightarrow> effects = []) \<and>
     (effects = [Deliver_stdin] \<longleftrightarrow>
        (\<exists>k > 0. te_inboxLength i = Some k) \<and> te_supportsStdinNotification i = Some True \<and>
        (te_hasSession i = Some True \<or> te_canDeliverWithoutSession i = Some True)) \<and>
     length effects \<le> 1 \<and> outstandingToolUses n = 0 \<and> \<not> compacting n \<and> reviewing n \<noteq> Some True"
  by (auto simp: reduceApmGatedTurnEnd_def shouldDeliverQueuedMessages_def split: option.splits)

section \<open>The hash chain\<close>

definition apm_project :: "(string \<Rightarrow> string) \<Rightarrow> projection_input list \<Rightarrow> apm_state \<Rightarrow> apm_state" where
  "apm_project sha256 xs s = fold (\<lambda>i s. fst (reduceAgentActivityProjection sha256 i s)) xs s"

text \<open>What the projection records of a message.\<close>

definition recorded :: "activity_message \<Rightarrow> activity_message" where
  "recorded m = m\<lparr>am_activityKind := Some (activity_kind_of m)\<rparr>"

lemma stableNormalize_atoms [simp]:
  "stableNormalize (opt_str x) = opt_str x"
  "stableNormalize (case n of None \<Rightarrow> JUndef | Some k \<Rightarrow> JInt k) = (case n of None \<Rightarrow> JUndef | Some k \<Rightarrow> JInt k)"
  by (simp_all add: opt_str_def split: option.splits)

lemma opt_inj [simp]:
  "opt_str x = opt_str y \<longleftrightarrow> x = y"
  "((case m of None \<Rightarrow> JUndef | Some k \<Rightarrow> JInt k) = (case n of None \<Rightarrow> JUndef | Some k \<Rightarrow> JInt k)) \<longleftrightarrow> m = n"
  by (auto simp: opt_str_def split: option.splits)

lemma payload_determines:
  assumes "stableNormalize (activity_payload m) = stableNormalize (activity_payload n)"
  shows "recorded m = recorded n"
proof -
  obtain kvs lvs where kvs: "activity_payload m = JObj kvs" "activity_payload n = JObj lvs"
    and d: "distinct (map fst kvs)" "distinct (map fst lvs)"
    by (auto simp: activity_payload_def)
  have "stableNormalize (jget (activity_payload m) k) = stableNormalize (jget (activity_payload n) k)" for k
    using assms jget_stableNormalize [OF d(1), of k] jget_stableNormalize [OF d(2), of k] by (simp add: kvs)
  note key = this
  show ?thesis
    using key [of "''agentId''"] key [of "''activityKind''"] key [of "''activity''"] key [of "''detail''"]
      key [of "''detailKind''"] key [of "''clientSeq''"] key [of "''launchId''"]
    by (cases m; cases n) (simp add: activity_payload_def recorded_def)
qed

definition chain_value :: "string \<Rightarrow> activity_message \<Rightarrow> jsval" where
  "chain_value h m = JObj [(''previousStateHash'', JStr h), (''payload'', activity_payload m)]"

lemma chain_visible: "json_visible (chain_value h m)"
  by (auto simp: chain_value_def activity_payload_def opt_str_def split: option.splits)

lemma chain_value_inj:
  assumes "stableStringifyApm (chain_value h m) = stableStringifyApm (chain_value g n)"
  shows "h = g \<and> recorded m = recorded n"
proof -
  have eq: "stableNormalize (chain_value h m) = stableNormalize (chain_value g n)"
    using json_print_inj [OF stableNormalize_norm [OF chain_visible] stableNormalize_norm [OF chain_visible]] assms
    by (simp add: stableStringifyApm_def)
  have "stableNormalize (jget (chain_value h m) k) = stableNormalize (jget (chain_value g n) k)" for k
    using eq jget_stableNormalize [of "[(''previousStateHash'', JStr h), (''payload'', activity_payload m)]" k]
      jget_stableNormalize [of "[(''previousStateHash'', JStr g), (''payload'', activity_payload n)]" k]
    by (simp add: chain_value_def)
  note key = this
  have "h = g" using key [of "''previousStateHash''"] by (simp add: chain_value_def)
  moreover have "stableNormalize (activity_payload m) = stableNormalize (activity_payload n)"
    using key [of "''payload''"] by (simp only: chain_value_def) simp
  ultimately show ?thesis using payload_determines by blast
qed

lemma apm_project_snoc:
  "stateHash (apm_project sha256 (xs @ [i]) s) =
    ''apm:'' @ sha256 (stableStringifyApm (chain_value (stateHash (apm_project sha256 xs s)) (pi_message i)))"
  by (simp add: apm_project_def reduceAgentActivityProjection_def Let_def hashApmStable_def chain_value_def)

lemma apm_project_fresh:
  assumes "\<forall>x. sha256 x \<noteq> ''legacy:opaque:start''"
  shows "stateHash (apm_project sha256 (xs @ [i]) s) \<noteq> stateHash (apm_project sha256 [] createInitialApmDecisionState)"
    "stateHash (apm_project sha256 [] createInitialApmDecisionState) \<noteq> stateHash (apm_project sha256 (xs @ [i]) s)"
proof -
  have "stateHash (apm_project sha256 [] createInitialApmDecisionState) = ''apm:'' @ ''legacy:opaque:start''"
    by (simp add: apm_project_def createInitialApmDecisionState_def)
  then show "stateHash (apm_project sha256 (xs @ [i]) s) \<noteq> stateHash (apm_project sha256 [] createInitialApmDecisionState)"
    using assms by (simp only: apm_project_snoc append_same_eq same_append_eq) simp
  then show "stateHash (apm_project sha256 [] createInitialApmDecisionState) \<noteq> stateHash (apm_project sha256 (xs @ [i]) s)"
    by (rule not_sym)
qed

text \<open>The texts a sequence of projections hands to the hash function, in order.\<close>

fun hashed_texts :: "(string \<Rightarrow> string) \<Rightarrow> projection_input list \<Rightarrow> apm_state \<Rightarrow> string list" where
  "hashed_texts sha256 [] s = []"
| "hashed_texts sha256 (i # is) s =
     stableStringifyApm (chain_value (stateHash s) (pi_message i)) #
       hashed_texts sha256 is (fst (reduceAgentActivityProjection sha256 i s))"

lemma hashed_texts_snoc:
  "hashed_texts sha256 (xs @ [i]) s =
     hashed_texts sha256 xs s @ [stableStringifyApm (chain_value (stateHash (apm_project sha256 xs s)) (pi_message i))]"
  by (induction xs arbitrary: s) (simp_all add: apm_project_def)

text \<open>
  C30. The state hash commits to the whole activity history: two sequences of projected messages that
  end in the same state hash recorded the same messages in the same order, or two different texts, one
  hashed on the way by each of them, have the same digest. The only fact used of SHA-256 is that its
  hexadecimal digest is not the text of the initial hash.
\<close>

theorem apm_hash_commits_to_history:
  assumes "\<forall>x. sha256 x \<noteq> ''legacy:opaque:start''"
    and "stateHash (apm_project sha256 xs createInitialApmDecisionState) =
      stateHash (apm_project sha256 ys createInitialApmDecisionState)"
  shows "map (recorded \<circ> pi_message) xs = map (recorded \<circ> pi_message) ys \<or>
    (\<exists>x\<in>set (hashed_texts sha256 xs createInitialApmDecisionState).
      \<exists>y\<in>set (hashed_texts sha256 ys createInitialApmDecisionState). x \<noteq> y \<and> sha256 x = sha256 y)"
  using assms(2)
proof (induction xs arbitrary: ys rule: rev_induct)
  case Nil
  then show ?case using apm_project_fresh [OF assms(1)] by (cases ys rule: rev_cases) auto
next
  case (snoc i xs)
  show ?case
  proof (cases ys rule: rev_cases)
    case Nil
    then show ?thesis using snoc.prems apm_project_fresh [OF assms(1)] by metis
  next
    case ys: (snoc zs j)
    let ?s = "createInitialApmDecisionState"
    let ?x = "stableStringifyApm (chain_value (stateHash (apm_project sha256 xs ?s)) (pi_message i))"
    let ?y = "stableStringifyApm (chain_value (stateHash (apm_project sha256 zs ?s)) (pi_message j))"
    have eq: "sha256 ?x = sha256 ?y" using snoc.prems by (simp add: ys apm_project_snoc)
    show ?thesis
    proof (cases "?x = ?y")
      case True
      then have "stateHash (apm_project sha256 xs ?s) = stateHash (apm_project sha256 zs ?s) \<and>
          recorded (pi_message i) = recorded (pi_message j)" by (rule chain_value_inj)
      with snoc.IH [of zs] show ?thesis by (auto simp: ys hashed_texts_snoc)
    next
      case False
      with eq show ?thesis by (auto simp: ys hashed_texts_snoc)
    qed
  qed
qed

definition demo_activity :: "string \<Rightarrow> projection_input" where
  "demo_activity d = \<lparr>pi_transitionSeq = 1, pi_scenario = ''s'', pi_correlationId = ''c'', pi_inputId = ''i'',
     pi_inputKind = ''ParsedEvent'', pi_inputSummary = ''x'',
     pi_message = \<lparr>am_agentId = ''a'', am_activity = None, am_activityKind = None, am_detail = d, am_detailKind = None,
       am_clientSeq = Some 1, am_launchId = None\<rparr>\<rparr>"

text \<open>A hash that prefixes its input is collision free; there, different details give different hashes.\<close>

theorem apm_hash_commits_to_history_witness:
  "stateHash (apm_project ((#) CHR ''h'') [demo_activity ''one''] createInitialApmDecisionState) \<noteq>
   stateHash (apm_project ((#) CHR ''h'') [demo_activity ''two''] createInitialApmDecisionState)"
proof
  assume eq: "stateHash (apm_project ((#) CHR ''h'') [demo_activity ''one''] createInitialApmDecisionState) =
    stateHash (apm_project ((#) CHR ''h'') [demo_activity ''two''] createInitialApmDecisionState)"
  have "\<forall>x. CHR ''h'' # x \<noteq> ''legacy:opaque:start''" by simp
  from apm_hash_commits_to_history [OF this eq] show False
    by (auto simp: recorded_def demo_activity_def)
qed

end
