(* ===== verification/Sha256_Constants.thy ===== *)
theory Sha256_Constants
  imports Main
begin

text \<open>
  The constants of FIPS 180-4, from their definition in the standard: the first 32 bits of the fractional
  parts of the cube roots of the first 64 primes, and of the square roots of the first 8 primes. They
  are computed on integers, bit by bit; \<open>root_fraction_real\<close> of \<open>Sha256_Roots\<close> relates them to the real roots.
\<close>

section \<open>The first primes\<close>

text \<open>A number from 2 to 311, which is below \<open>19\<^sup>2\<close>, is prime when no prime up to 17 whose square does not exceed it divides it.\<close>

definition sha_prime :: "int \<Rightarrow> bool" where
  "sha_prime n \<longleftrightarrow> list_all (\<lambda>d. n < d * d \<or> n mod d \<noteq> 0) [2, 3, 5, 7, 11, 13, 17]"

definition sha_primes :: "int list" where
  "sha_primes = filter sha_prime [2..311]"

section \<open>Roots\<close>

fun root_bits :: "nat \<Rightarrow> int \<Rightarrow> nat \<Rightarrow> int \<Rightarrow> int" where
  "root_bits k n 0 x = x"
| "root_bits k n (Suc b) x = root_bits k n b (if (x + 2 ^ b) ^ k \<le> n then x + 2 ^ b else x)"

text \<open>The first 32 bits of the fractional part of the k-th root of p.\<close>

definition root_fraction :: "nat \<Rightarrow> int \<Rightarrow> int" where
  "root_fraction k p = root_bits k (p * 2 ^ (32 * k)) 41 0 mod 2 ^ 32"

lemma root_bits_bracket:
  "0 \<le> x \<Longrightarrow> x ^ k \<le> n \<Longrightarrow> n < (x + 2 ^ b) ^ k \<Longrightarrow>
   0 \<le> root_bits k n b x \<and> root_bits k n b x ^ k \<le> n \<and> n < (root_bits k n b x + 1) ^ k"
  by (induction b arbitrary: x) (auto simp: algebra_simps)

lemma bracket_unique:
  fixes x y :: int
  assumes "0 \<le> x" "x ^ k \<le> n" "n < (x + 1) ^ k" "0 \<le> y" "y ^ k \<le> n" "n < (y + 1) ^ k"
  shows "x = y"
proof -
  have "\<not> x + 1 \<le> y" using power_mono [of "x + 1" y k] assms by linarith
  moreover have "\<not> y + 1 \<le> x" using power_mono [of "y + 1" x k] assms by linarith
  ultimately show ?thesis by linarith
qed

lemma root_bits_root:
  assumes "0 < k" "0 \<le> p" "p < 2 ^ (9 * k)"
  defines "m \<equiv> root_bits k (p * 2 ^ (32 * k)) 41 0"
  shows "0 \<le> m \<and> m ^ k \<le> p * 2 ^ (32 * k) \<and> p * 2 ^ (32 * k) < (m + 1) ^ k"
proof -
  have "p * 2 ^ (32 * k) < 2 ^ (9 * k) * 2 ^ (32 * k)" using assms(3) by simp
  also have "\<dots> = 2 ^ (41 * k)" unfolding power_add [symmetric] by (rule arg_cong [of _ _ "(^) 2"]) simp
  also have "\<dots> = ((0 :: int) + 2 ^ 41) ^ k" by (simp only: power_mult add_0)
  finally have "p * 2 ^ (32 * k) < (0 + 2 ^ 41) ^ k" .
  moreover have "(0 :: int) ^ k \<le> p * 2 ^ (32 * k)" using assms(1,2) by (simp add: zero_power)
  ultimately show ?thesis unfolding m_def by (intro root_bits_bracket) simp_all
qed

definition root_fits :: "nat \<Rightarrow> int \<Rightarrow> int \<Rightarrow> int \<Rightarrow> bool" where
  "root_fits k q p c \<longleftrightarrow> 0 \<le> c \<and> c < 2 ^ 32 \<and> 0 \<le> q \<and> 0 \<le> p \<and> p < 2 ^ (9 * k) \<and>
     (q * 2 ^ 32 + c) ^ k \<le> p * 2 ^ (32 * k) \<and> p * 2 ^ (32 * k) < (q * 2 ^ 32 + c + 1) ^ k"

lemma root_fits_fraction:
  assumes "0 < k" "root_fits k q p c"
  shows "root_fraction k p = c"
proof -
  have f: "0 \<le> c" "c < 2 ^ 32" "0 \<le> q" "0 \<le> p" "p < 2 ^ (9 * k)"
    "(q * 2 ^ 32 + c) ^ k \<le> p * 2 ^ (32 * k)" "p * 2 ^ (32 * k) < (q * 2 ^ 32 + c + 1) ^ k"
    using assms(2) unfolding root_fits_def by blast+
  have "root_bits k (p * 2 ^ (32 * k)) 41 0 = q * 2 ^ 32 + c"
    using root_bits_root [OF assms(1) f(4,5)] f by (intro bracket_unique [of _ k "p * 2 ^ (32 * k)"]) auto
  then show ?thesis using f(1,2) by (simp add: root_fraction_def)
qed

lemma sha_primes_list: "sha_primes =
  [2, 3, 5, 7, 11, 13, 17, 19, 23, 29, 31, 37, 41, 43, 47, 53, 59, 61, 67, 71, 73, 79, 83, 89, 97, 101, 103, 107, 109, 113,
   127, 131, 137, 139, 149, 151, 157, 163, 167, 173, 179, 181, 191, 193, 197, 199, 211, 223, 227, 229, 233, 239, 241, 251,
   257, 263, 269, 271, 277, 281, 283, 293, 307, 311]"
  by code_simp

lemma fits_all: "list_all2 (\<lambda>p c. root_fits (Suc k) (f p) p c) ps cs \<Longrightarrow> map (root_fraction (Suc k)) ps = cs"
  by (induction rule: list_all2_induct) (auto intro: root_fits_fraction)

end
