(* ===== verification/Sha256.thy ===== *)
theory Sha256
  imports Js_Json Sha256_Constants "HOL-Library.Word"
begin

text \<open>
  The SHA-256 of \<open>packages/shared/src/apmHeldFreshness.ts\<close>. The source computes on JavaScript
  Numbers: sums are exact integers and may exceed 32 bits or be negative, and every bitwise operator
  first reduces its operands to signed 32-bit integers. The model keeps that: a Number is an
  \<open>int\<close>, the operators are written with their reductions, and the arrays are lists updated by index.

  The reference at the end of the file is the hash of FIPS 180-4 on 32-bit words: its functions, its
  recursive message schedule, its padding rule and its constants as the standard defines them (theory
  \<open>Sha256_Constants\<close>). \<open>number_word\<close> reads a Number as the word it
  stands for, and the theorem is that the code computes the reference hash of the UTF-8 bytes.
\<close>

unbundle bit_operations_syntax

named_theorems number_specs "a Number operation read as an operation on words"

section \<open>JavaScript bitwise operators\<close>

definition toInt32 :: "int \<Rightarrow> int" where
  "toInt32 x = signed_take_bit 31 x"

definition js_and :: "int \<Rightarrow> int \<Rightarrow> int" where
  "js_and x y = toInt32 x AND toInt32 y"

definition js_or :: "int \<Rightarrow> int \<Rightarrow> int" where
  "js_or x y = toInt32 x OR toInt32 y"

definition js_xor :: "int \<Rightarrow> int \<Rightarrow> int" where
  "js_xor x y = toInt32 x XOR toInt32 y"

definition js_not :: "int \<Rightarrow> int" where
  "js_not x = NOT (toInt32 x)"

text \<open>\<open>x >>> n\<close> and \<open>x << n\<close> for shift counts below 32.\<close>

definition js_ushr :: "int \<Rightarrow> nat \<Rightarrow> int" where
  "js_ushr x n = drop_bit n (take_bit 32 x)"

definition js_shl :: "int \<Rightarrow> nat \<Rightarrow> int" where
  "js_shl x n = toInt32 (push_bit n (toInt32 x))"

section \<open>UTF-8 and big-endian views\<close>

text \<open>\<open>new TextEncoder().encode(value)\<close> on code units up to 255.\<close>

definition utf8_char :: "char \<Rightarrow> int list" where
  "utf8_char ch =
     (if (of_char ch :: int) < 128 then [of_char ch]
      else [192 + of_char ch div 64, 128 + of_char ch mod 64])"

definition utf8_encode :: "string \<Rightarrow> int list" where
  "utf8_encode s = concat (map utf8_char s)"

text \<open>\<open>DataView.getUint32\<close> and \<open>DataView.setUint32\<close>, big-endian; a store takes the value modulo \<open>2^32\<close>.\<close>

definition getUint32 :: "int list \<Rightarrow> nat \<Rightarrow> int" where
  "getUint32 bs o' = ((bs ! o' * 256 + bs ! (o' + 1)) * 256 + bs ! (o' + 2)) * 256 + bs ! (o' + 3)"

definition setUint32 :: "int list \<Rightarrow> nat \<Rightarrow> int \<Rightarrow> int list" where
  "setUint32 bs o' v =
     bs[o' := v div 256 ^ 3 mod 256, o' + 1 := v div 256 ^ 2 mod 256, o' + 2 := v div 256 mod 256,
        o' + 3 := v mod 256]"

section \<open>The hash of the source\<close>

definition SHA256_INITIAL_STATE :: "int list" where
  "SHA256_INITIAL_STATE =
     [0x6a09e667, 0xbb67ae85, 0x3c6ef372, 0xa54ff53a,
      0x510e527f, 0x9b05688c, 0x1f83d9ab, 0x5be0cd19]"

definition SHA256_K :: "int list" where
  "SHA256_K =
     [0x428a2f98, 0x71374491, 0xb5c0fbcf, 0xe9b5dba5, 0x3956c25b, 0x59f111f1, 0x923f82a4, 0xab1c5ed5] @
     [0xd807aa98, 0x12835b01, 0x243185be, 0x550c7dc3, 0x72be5d74, 0x80deb1fe, 0x9bdc06a7, 0xc19bf174] @
     [0xe49b69c1, 0xefbe4786, 0x0fc19dc6, 0x240ca1cc, 0x2de92c6f, 0x4a7484aa, 0x5cb0a9dc, 0x76f988da] @
     [0x983e5152, 0xa831c66d, 0xb00327c8, 0xbf597fc7, 0xc6e00bf3, 0xd5a79147, 0x06ca6351, 0x14292967] @
     [0x27b70a85, 0x2e1b2138, 0x4d2c6dfc, 0x53380d13, 0x650a7354, 0x766a0abb, 0x81c2c92e, 0x92722c85] @
     [0xa2bfe8a1, 0xa81a664b, 0xc24b8b70, 0xc76c51a3, 0xd192e819, 0xd6990624, 0xf40e3585, 0x106aa070] @
     [0x19a4c116, 0x1e376c08, 0x2748774c, 0x34b0bcb5, 0x391c0cb3, 0x4ed8aa4a, 0x5b9cca4f, 0x682e6ff3] @
     [0x748f82ee, 0x78a5636f, 0x84c87814, 0x8cc70208, 0x90befffa, 0xa4506ceb, 0xbef9a3f7, 0xc67178f2]"

definition rotateRight :: "int \<Rightarrow> nat \<Rightarrow> int" where
  "rotateRight v bits = js_or (js_ushr v bits) (js_shl v (32 - bits))"

text \<open>Lines 294 to 303: the padded buffer.\<close>

definition sha256_padded :: "int list \<Rightarrow> int list" where
  "sha256_padded bytes =
     (let paddedLength = ((length bytes + 9 + 63) div 64) * 64;
          padded = bytes @ replicate (paddedLength - length bytes) 0;
          padded = padded[length bytes := 0x80];
          bitLength = int (length bytes) * 8;
          padded = setUint32 padded (paddedLength - 8) (bitLength div 0x100000000)
      in setUint32 padded (paddedLength - 4) (js_ushr bitLength 0))"

text \<open>Lines 309 to 316: the schedule array, reused from block to block.\<close>

definition load_words :: "int list \<Rightarrow> nat \<Rightarrow> int list \<Rightarrow> int list" where
  "load_words padded offset words =
     fold (\<lambda>i ws. ws[i := getUint32 padded (offset + i * 4)]) [0..<16] words"

definition extend_words :: "int list \<Rightarrow> int list" where
  "extend_words words =
     fold (\<lambda>i ws.
       let s0 = js_xor (js_xor (rotateRight (ws ! (i - 15)) 7) (rotateRight (ws ! (i - 15)) 18)) (js_ushr (ws ! (i - 15)) 3);
           s1 = js_xor (js_xor (rotateRight (ws ! (i - 2)) 17) (rotateRight (ws ! (i - 2)) 19)) (js_ushr (ws ! (i - 2)) 10)
       in ws[i := js_ushr (ws ! (i - 16) + s0 + ws ! (i - 7) + s1) 0]) [16..<64] words"

type_synonym 'a regs = "'a \<times> 'a \<times> 'a \<times> 'a \<times> 'a \<times> 'a \<times> 'a \<times> 'a"

text \<open>Lines 320 to 334: one round.\<close>

definition sha256_round :: "int list \<Rightarrow> nat \<Rightarrow> int regs \<Rightarrow> int regs" where
  "sha256_round words i r =
     (case r of (a, b, c, d, e, f, g, hh) \<Rightarrow>
        let s1 = js_xor (js_xor (rotateRight e 6) (rotateRight e 11)) (rotateRight e 25);
            ch = js_xor (js_and e f) (js_and (js_not e) g);
            temp1 = js_ushr (hh + s1 + ch + SHA256_K ! i + words ! i) 0;
            s0 = js_xor (js_xor (rotateRight a 2) (rotateRight a 13)) (rotateRight a 22);
            maj = js_xor (js_xor (js_and a b) (js_and a c)) (js_and b c);
            temp2 = js_ushr (s0 + maj) 0
        in (js_ushr (temp1 + temp2) 0, a, b, c, js_ushr (d + temp1) 0, e, f, g))"

definition regs_of :: "'a list \<Rightarrow> 'a regs" where
  "regs_of h = (h ! 0, h ! 1, h ! 2, h ! 3, h ! 4, h ! 5, h ! 6, h ! 7)"

text \<open>Lines 308 to 345: one block, and the loop over the blocks.\<close>

definition sha256_block :: "int list \<Rightarrow> nat \<Rightarrow> int list \<times> int list \<Rightarrow> int list \<times> int list" where
  "sha256_block padded offset st =
     (let words = extend_words (load_words padded offset (snd st));
          h = fst st
      in case fold (sha256_round words) [0..<64] (regs_of h) of
           (a, b, c, d, e, f, g, hh) \<Rightarrow>
             ([js_ushr (h ! 0 + a) 0, js_ushr (h ! 1 + b) 0, js_ushr (h ! 2 + c) 0, js_ushr (h ! 3 + d) 0,
               js_ushr (h ! 4 + e) 0, js_ushr (h ! 5 + f) 0, js_ushr (h ! 6 + g) 0, js_ushr (h ! 7 + hh) 0],
              words))"

definition sha256_blocks :: "int list \<Rightarrow> int list \<times> int list" where
  "sha256_blocks padded =
     fold (\<lambda>k. sha256_block padded (k * 64)) [0..<length padded div 64]
       (SHA256_INITIAL_STATE, replicate 64 0)"

text \<open>\<open>part.toString(16).padStart(8, "0")\<close>\<close>

function show_hex :: "int \<Rightarrow> string" where
  "show_hex n = (if n < 16 then [hex_char (nat n)] else show_hex (n div 16) @ [hex_char (nat (n mod 16))])"
  by pat_completeness auto
termination
  by (relation "measure nat") auto

declare show_hex.simps [simp del]

definition padStart :: "nat \<Rightarrow> char \<Rightarrow> string \<Rightarrow> string" where
  "padStart n ch s = replicate (n - length s) ch @ s"

definition sha256HexUtf8 :: "string \<Rightarrow> string" where
  "sha256HexUtf8 v =
     concat (map (\<lambda>part. padStart 8 (CHR ''0'') (show_hex part))
       (fst (sha256_blocks (sha256_padded (utf8_encode v)))))"

section \<open>The reference hash on words\<close>

definition sha_Ch :: "32 word \<Rightarrow> 32 word \<Rightarrow> 32 word \<Rightarrow> 32 word" where
  "sha_Ch x y z = (x AND y) XOR (NOT x AND z)"

definition sha_Maj :: "32 word \<Rightarrow> 32 word \<Rightarrow> 32 word \<Rightarrow> 32 word" where
  "sha_Maj x y z = (x AND y) XOR (x AND z) XOR (y AND z)"

definition sha_Sigma0 :: "32 word \<Rightarrow> 32 word" where
  "sha_Sigma0 x = word_rotr 2 x XOR word_rotr 13 x XOR word_rotr 22 x"

definition sha_Sigma1 :: "32 word \<Rightarrow> 32 word" where
  "sha_Sigma1 x = word_rotr 6 x XOR word_rotr 11 x XOR word_rotr 25 x"

definition sha_sigma0 :: "32 word \<Rightarrow> 32 word" where
  "sha_sigma0 x = word_rotr 7 x XOR word_rotr 18 x XOR drop_bit 3 x"

definition sha_sigma1 :: "32 word \<Rightarrow> 32 word" where
  "sha_sigma1 x = word_rotr 17 x XOR word_rotr 19 x XOR drop_bit 10 x"

fun sha_W :: "(nat \<Rightarrow> 32 word) \<Rightarrow> nat \<Rightarrow> 32 word" where
  "sha_W M t =
     (if t < 16 then M t
      else sha_sigma1 (sha_W M (t - 2)) + sha_W M (t - 7) + sha_sigma0 (sha_W M (t - 15)) + sha_W M (t - 16))"

declare sha_W.simps [simp del]

text \<open>The constants of the standard, which does not refer to the literals of the source.\<close>

definition sha_K :: "nat \<Rightarrow> 32 word" where
  "sha_K t = word_of_int (root_fraction 3 (sha_primes ! t))"

definition sha_H0 :: "32 word regs" where
  "sha_H0 = regs_of (map (\<lambda>p. word_of_int (root_fraction 2 p)) (take 8 sha_primes))"

definition sha_step :: "(nat \<Rightarrow> 32 word) \<Rightarrow> nat \<Rightarrow> 32 word regs \<Rightarrow> 32 word regs" where
  "sha_step M t r =
     (case r of (a, b, c, d, e, f, g, h) \<Rightarrow>
        let T1 = h + sha_Sigma1 e + sha_Ch e f g + sha_K t + sha_W M t;
            T2 = sha_Sigma0 a + sha_Maj a b c
        in (T1 + T2, a, b, c, d + T1, e, f, g))"

definition sha_compress :: "(nat \<Rightarrow> 32 word) \<Rightarrow> 32 word regs \<Rightarrow> 32 word regs" where
  "sha_compress M H =
     (case (H, fold (sha_step M) [0..<64] H) of
        ((h0, h1, h2, h3, h4, h5, h6, h7), (a, b, c, d, e, f, g, h)) \<Rightarrow>
          (h0 + a, h1 + b, h2 + c, h3 + d, h4 + e, h5 + f, h6 + g, h7 + h))"

text \<open>
  The padding of FIPS 180-4 on bytes: the bit 1, as few zeros as make the length 56 modulo 64, and
  the bit length as a 64-bit big-endian number.
\<close>

definition sha_pad :: "int list \<Rightarrow> int list" where
  "sha_pad bytes =
     bytes @ [0x80] @ replicate (nat ((55 - int (length bytes)) mod 64)) 0 @
     map (\<lambda>i. 8 * int (length bytes) div 256 ^ (7 - i) mod 256) [0..<8]"

definition sha_message :: "int list \<Rightarrow> nat \<Rightarrow> nat \<Rightarrow> 32 word" where
  "sha_message bs k t = word_of_int (sum_list (map (\<lambda>j. bs ! (k * 64 + t * 4 + j) * 256 ^ (3 - j)) [0, 1, 2, 3]))"

definition sha256_ref :: "int list \<Rightarrow> 32 word regs" where
  "sha256_ref bytes =
     (let bs = sha_pad bytes
      in fold (\<lambda>k. sha_compress (sha_message bs k)) [0..<length bs div 64]
           sha_H0)"

text \<open>A word as eight lower-case hexadecimal digits.\<close>

definition hex_word :: "32 word \<Rightarrow> string" where
  "hex_word w = map (\<lambda>i. hex_char (nat (uint w div 16 ^ (7 - i) mod 16))) [0..<8]"

definition hex_regs :: "32 word regs \<Rightarrow> string" where
  "hex_regs r =
     (case r of (a, b, c, d, e, f, g, h) \<Rightarrow> concat (map hex_word [a, b, c, d, e, f, g, h]))"

section \<open>Numbers as words\<close>

declare upt_rec_numeral [simp del]

abbreviation number_word :: "int \<Rightarrow> 32 word" where
  "number_word x \<equiv> word_of_int x"

lemma number_word_toInt32 [number_specs]: "number_word (toInt32 x) = number_word x"
proof (rule bit_word_eqI)
  fix n assume "n < LENGTH(32)"
  then have "min n 31 = n" by simp
  with \<open>n < LENGTH(32)\<close> show "bit (number_word (toInt32 x)) n = bit (number_word x) n"
    by (simp add: toInt32_def bit_simps)
qed

lemma number_word_bitwise [number_specs]:
  "number_word (js_and x y) = number_word x AND number_word y"
  "number_word (js_or x y) = number_word x OR number_word y"
  "number_word (js_xor x y) = number_word x XOR number_word y"
  "number_word (js_not x) = NOT (number_word x)"
  unfolding js_and_def js_or_def js_xor_def js_not_def toInt32_def
  by (auto intro!: bit_word_eqI simp: bit_simps)

lemma number_word_shifts [number_specs]:
  "number_word (js_ushr x n) = drop_bit n (number_word x)"
  "number_word (js_shl x n) = push_bit n (number_word x)"
  unfolding js_ushr_def js_shl_def toInt32_def
  by (auto intro!: bit_word_eqI simp: bit_simps)

lemma number_word_rotateRight [number_specs]:
  assumes "0 < n" "n < 32"
  shows "number_word (rotateRight v n) = word_rotr n (number_word v)"
proof (rule bit_word_eqI)
  fix i assume "i < LENGTH(32)"
  then have "bit (word_rotr n (number_word v)) i = bit (number_word v) ((i + n) mod 32)"
    by (simp add: bit_word_rotr_iff)
  moreover have "(i + n) mod 32 = (if i + n < 32 then i + n else i + n - 32)"
    using assms \<open>i < LENGTH(32)\<close> by (auto simp: mod_if)
  ultimately show "bit (number_word (rotateRight v n)) i = bit (word_rotr n (number_word v)) i"
    using assms \<open>i < LENGTH(32)\<close> unfolding rotateRight_def
    by (cases "i + n < 32") (auto simp: number_specs bit_simps add.commute)
qed

lemma number_word_ushr_add: "number_word (js_ushr (x + y) 0) = number_word x + number_word y"
  by (simp add: number_specs wi_hom_syms(1))

lemma js_ushr_uint: "js_ushr x 0 = uint (number_word x)"
  by (simp add: js_ushr_def uint_word_of_int take_bit_eq_mod)

section \<open>The schedule array\<close>

lemma length_fold_update: "length (fold (\<lambda>i ws. ws[i := f i ws]) is' ws) = length ws"
  by (induction is' arbitrary: ws) auto

lemma fold_update_nth:
  assumes "n \<le> length ws"
  shows "fold (\<lambda>i ws. ws[i := f i]) [0..<n] ws ! j = (if j < n then f j else ws ! j)"
  using assms
proof (induction n)
  case (Suc n)
  then show ?case
    using length_fold_update [of "\<lambda>i ws. f i" "[0..<n]" ws]
    by (cases "j = n") (auto simp: nth_list_update)
qed auto

lemma load_words_spec:
  assumes "length ws = 64"
  shows "length (load_words padded off ws) = 64"
    and "i < 16 \<Longrightarrow> load_words padded off ws ! i = getUint32 padded (off + i * 4)"
  using assms fold_update_nth [of 16 ws "\<lambda>i. getUint32 padded (off + i * 4)" i]
    length_fold_update [of "\<lambda>i ws. getUint32 padded (off + i * 4)" "[0..<16]" ws]
  by (auto simp: load_words_def)

definition extend_word :: "nat \<Rightarrow> int list \<Rightarrow> int list" where
  "extend_word i ws =
     ws[i := js_ushr (ws ! (i - 16)
         + js_xor (js_xor (rotateRight (ws ! (i - 15)) 7) (rotateRight (ws ! (i - 15)) 18)) (js_ushr (ws ! (i - 15)) 3)
         + ws ! (i - 7)
         + js_xor (js_xor (rotateRight (ws ! (i - 2)) 17) (rotateRight (ws ! (i - 2)) 19)) (js_ushr (ws ! (i - 2)) 10)) 0]"

lemma extend_words_fold: "extend_words ws = fold extend_word [16..<64] ws"
  unfolding extend_words_def extend_word_def [abs_def] Let_def by (rule refl)

definition schedule_upto :: "(nat \<Rightarrow> 32 word) \<Rightarrow> nat \<Rightarrow> int list \<Rightarrow> bool" where
  "schedule_upto M n ws \<longleftrightarrow> length ws = 64 \<and> (\<forall>i<n. number_word (ws ! i) = sha_W M i)"

lemma extend_word_schedule:
  assumes "schedule_upto M i ws" "16 \<le> i" "i < 64"
  shows "schedule_upto M (Suc i) (extend_word i ws)"
proof -
  have w: "number_word (ws ! j) = sha_W M j" if "j < i" for j
    using assms that by (simp add: schedule_upto_def)
  have "number_word (extend_word i ws ! i) = sha_W M i"
    using assms w [of "i - 16"] w [of "i - 15"] w [of "i - 7"] w [of "i - 2"]
    by (subst sha_W.simps)
       (simp add: schedule_upto_def extend_word_def number_specs sha_sigma0_def sha_sigma1_def ac_simps wi_hom_syms(1))
  then show ?thesis
    using assms by (auto simp: schedule_upto_def extend_word_def less_Suc_eq nth_list_update)
qed

lemma extend_words_schedule:
  assumes "schedule_upto M 16 ws"
  shows "schedule_upto M 64 (extend_words ws)"
proof -
  have "schedule_upto M m (fold extend_word [16..<m] ws)" if "16 \<le> m" "m \<le> 64" for m
    using that by (induction m rule: dec_induct) (simp_all add: assms extend_word_schedule)
  from this [of 64] show ?thesis by (simp add: extend_words_fold)
qed

lemma sha_message_code: "sha_message bs k t = word_of_int (getUint32 bs (k * 64 + t * 4))"
  by (simp add: sha_message_def getUint32_def algebra_simps)

lemma block_schedule:
  assumes "length ws = 64"
  shows "schedule_upto (sha_message padded k) 64 (extend_words (load_words padded (k * 64) ws))"
  using assms load_words_spec [OF assms, where padded = padded and off = "k * 64"]
  by (intro extend_words_schedule) (auto simp: schedule_upto_def sha_message_code sha_W.simps)

section \<open>Rounds and blocks\<close>

definition map_regs :: "('a \<Rightarrow> 'b) \<Rightarrow> 'a regs \<Rightarrow> 'b regs" where
  "map_regs f r =
     (case r of (a, b, c, d, e, g, h, i) \<Rightarrow> (f a, f b, f c, f d, f e, f g, f h, f i))"

lemma regs_cases: obtains a b c d e f g h where "r = (a, b, c, d, e, f, g, h)"
  by (cases r rule: prod_cases7) (metis surj_pair)

text \<open>The literals of the source are the constants of the standard.\<close>

lemma round_constants: "map (root_fraction 3) sha_primes = SHA256_K"
proof -
  have "list_all2 (\<lambda>p c. root_fits 3 (if p < 8 then 1 else if p < 27 then 2 else if p < 64 then 3 else
      if p < 125 then 4 else if p < 216 then 5 else 6) p c) sha_primes SHA256_K"
    unfolding sha_primes_list by code_simp
  then show ?thesis using fits_all [of 2 _ sha_primes SHA256_K] by (simp add: numeral_3_eq_3)
qed

lemma initial_constants: "map (root_fraction 2) (take 8 sha_primes) = SHA256_INITIAL_STATE"
proof -
  have "list_all2 (\<lambda>p c. root_fits 2 (if p < 4 then 1 else if p < 9 then 2 else if p < 16 then 3 else 4) p c)
      (take 8 sha_primes) SHA256_INITIAL_STATE"
    unfolding sha_primes_list by code_simp
  then show ?thesis using fits_all [of 1 _ "take 8 sha_primes" SHA256_INITIAL_STATE] by (simp add: numeral_2_eq_2)
qed

lemma sha_K_code: "t < 64 \<Longrightarrow> sha_K t = word_of_int (SHA256_K ! t)"
proof -
  assume "t < 64"
  moreover have "length sha_primes = 64" unfolding sha_primes_list by simp
  ultimately show ?thesis unfolding sha_K_def round_constants [symmetric] by (simp only: nth_map)
qed

lemma sha_H0_code: "sha_H0 = regs_of (map word_of_int SHA256_INITIAL_STATE)"
  unfolding sha_H0_def initial_constants [symmetric] by (simp only: map_map comp_def)

lemma sha256_round_step:
  assumes "schedule_upto M 64 ws" "t < 64"
  shows "map_regs number_word (sha256_round ws t r) = sha_step M t (map_regs number_word r)"
  using assms
  by (cases r rule: regs_cases)
     (simp add: map_regs_def sha256_round_def sha_step_def Let_def number_specs sha_K_code sha_Sigma0_def
        sha_Sigma1_def sha_Ch_def sha_Maj_def schedule_upto_def xor.assoc wi_hom_syms(1))

lemma sha256_rounds_step:
  assumes "schedule_upto M 64 ws" "n \<le> 64"
  shows "map_regs number_word (fold (sha256_round ws) [0..<n] r) =
         fold (sha_step M) [0..<n] (map_regs number_word r)"
  using assms(2) by (induction n) (auto simp: sha256_round_step [OF assms(1)])

definition chain_ok :: "int list \<Rightarrow> bool" where
  "chain_ok h \<longleftrightarrow> length h = 8 \<and> (\<forall>x\<in>set h. x = uint (number_word x))"

lemma sha256_block_compress:
  fixes padded :: "int list" and k :: nat
  assumes "length h = 8" "length ws = 64"
  defines "st \<equiv> sha256_block padded (k * 64) (h, ws)"
  shows "chain_ok (fst st)" "length (snd st) = 64"
    "map_regs number_word (regs_of (fst st)) = sha_compress (sha_message padded k) (map_regs number_word (regs_of h))"
proof -
  let ?ws = "extend_words (load_words padded (k * 64) ws)"
  have sched: "schedule_upto (sha_message padded k) 64 ?ws" by (rule block_schedule [OF assms(2)])
  obtain a b c d e f g hh where r: "fold (sha256_round ?ws) [0..<64] (regs_of h) = (a, b, c, d, e, f, g, hh)"
    by (rule regs_cases)
  show "chain_ok (fst st)"
    unfolding st_def sha256_block_def chain_ok_def by (simp add: Let_def r js_ushr_uint)
  show "length (snd st) = 64"
    using sched unfolding st_def sha256_block_def by (simp add: Let_def r schedule_upto_def)
  show "map_regs number_word (regs_of (fst st)) = sha_compress (sha_message padded k) (map_regs number_word (regs_of h))"
  proof -
    have F: "fold (sha_step (sha_message padded k)) [0..<64] (map_regs number_word (regs_of h)) =
             map_regs number_word (a, b, c, d, e, f, g, hh)"
      using sha256_rounds_step [OF sched order_refl, of "regs_of h"] by (simp add: r)
    have S: "fst st = [js_ushr (h ! 0 + a) 0, js_ushr (h ! 1 + b) 0, js_ushr (h ! 2 + c) 0, js_ushr (h ! 3 + d) 0,
               js_ushr (h ! 4 + e) 0, js_ushr (h ! 5 + f) 0, js_ushr (h ! 6 + g) 0, js_ushr (h ! 7 + hh) 0]"
      unfolding st_def sha256_block_def by (simp add: Let_def r)
    show ?thesis
      unfolding sha_compress_def F S
      by (simp add: map_regs_def regs_of_def number_word_ushr_add)
  qed
qed

lemma sha256_blocks_ref:
  defines "step \<equiv> \<lambda>padded k. sha256_block padded (k * 64)"
  shows "let st = fold (step padded) [0..<n] (SHA256_INITIAL_STATE, replicate 64 0)
         in chain_ok (fst st) \<and> length (snd st) = 64 \<and>
            map_regs number_word (regs_of (fst st)) =
              fold (\<lambda>k. sha_compress (sha_message padded k)) [0..<n]
                (regs_of (map word_of_int SHA256_INITIAL_STATE))"
proof (induction n)
  case 0
  show ?case
    by (simp add: chain_ok_def SHA256_INITIAL_STATE_def map_regs_def regs_of_def)
next
  case (Suc n)
  let ?st = "fold (step padded) [0..<n] (SHA256_INITIAL_STATE, replicate 64 0)"
  obtain h ws where st: "?st = (h, ws)" by fastforce
  from Suc have h: "length h = 8" "length ws = 64"
    "map_regs number_word (regs_of h) = fold (\<lambda>k. sha_compress (sha_message padded k)) [0..<n]
       (regs_of (map word_of_int SHA256_INITIAL_STATE))"
    by (simp_all add: st chain_ok_def)
  show ?case
    using sha256_block_compress [OF h(1,2), of padded n] by (simp add: st [unfolded step_def] step_def h(3) Let_def)
qed

section \<open>Padding\<close>

definition word_bytes :: "int \<Rightarrow> int list" where
  "word_bytes v = [v div 256 ^ 3 mod 256, v div 256 ^ 2 mod 256, v div 256 mod 256, v mod 256]"

lemma setUint32_append:
  assumes "length zs = 4"
  shows "setUint32 (xs @ zs @ ys) (length xs) v = xs @ word_bytes v @ ys"
proof -
  obtain a b c d where "zs = [a, b, c, d]"
    using assms by (auto simp: numeral_eq_Suc length_Suc_conv)
  then show ?thesis by (simp add: setUint32_def word_bytes_def list_update_append)
qed

lemma pad_length:
  fixes n :: nat
  defines "k \<equiv> nat ((55 - int n) mod 64)"
  shows "((n + 9 + 63) div 64) * 64 = n + 1 + k + 8"
proof -
  define q r where "q = n div 64" and "r = n mod 64"
  have n: "n = 64 * q + r" "r < 64" by (simp_all add: q_def r_def)
  have "(55 - int n) mod 64 = (55 - int r) mod 64"
    using mod_mult_self2 [of "55 - int r" 64 "- int q"] by (simp add: n(1) algebra_simps)
  also have "\<dots> = (if r \<le> 55 then 55 - int r else 119 - int r)"
    using n(2) mod_add_self2 [of "55 - int r" 64] by (auto simp: mod_pos_pos_trivial)
  finally have k: "k = (if r \<le> 55 then 55 - r else 119 - r)"
    using n(2) by (simp add: k_def nat_diff_distrib)
  have "(n + 9 + 63) div 64 = (if r \<le> 55 then q + 1 else q + 2)"
    using n(2) by (auto simp: n(1) intro!: div_nat_eqI)
  then show ?thesis using n(2) by (simp add: k n(1))
qed

lemma low_byte:
  fixes v :: int
  assumes "b + 8 \<le> 32"
  shows "v mod 2 ^ 32 div 2 ^ b mod 2 ^ 8 = v div 2 ^ b mod 2 ^ 8"
proof -
  have "take_bit 8 (drop_bit b (take_bit 32 v)) = take_bit 8 (drop_bit b v)"
    using assms by (auto intro!: bit_eqI simp: bit_simps)
  then show ?thesis by (simp add: take_bit_eq_mod drop_bit_eq_div)
qed

lemma bit_length_bytes:
  fixes v :: int
  assumes "0 \<le> v" "v < 2 ^ 64"
  shows "map (\<lambda>i. v div 256 ^ (7 - i) mod 256) [0..<8] =
         word_bytes (v div 0x100000000) @ word_bytes (js_ushr v 0)"
proof -
  have lo: "js_ushr v 0 = v mod 0x100000000" by (simp add: js_ushr_def take_bit_eq_mod)
  have p: "(0x100000000::int) = 2 ^ 32" "(256::int) = 2 ^ 8" "((2::int) ^ 8) ^ 3 = 2 ^ 24" "((2::int) ^ 8) ^ 2 = 2 ^ 16"
    by simp_all
  have "word_bytes (js_ushr v 0) =
      [v div 2 ^ 24 mod 2 ^ 8, v div 2 ^ 16 mod 2 ^ 8, v div 2 ^ 8 mod 2 ^ 8, v mod 2 ^ 8]"
  proof -
    have "v mod 2 ^ 32 div 2 ^ 24 mod 2 ^ 8 = v div 2 ^ 24 mod 2 ^ 8" by (rule low_byte) simp
    moreover have "v mod 2 ^ 32 div 2 ^ 16 mod 2 ^ 8 = v div 2 ^ 16 mod 2 ^ 8" by (rule low_byte) simp
    moreover have "v mod 2 ^ 32 div 2 ^ 8 mod 2 ^ 8 = v div 2 ^ 8 mod 2 ^ 8" by (rule low_byte) simp
    moreover have "v mod 2 ^ 32 mod 2 ^ 8 = v mod 2 ^ 8"
      by (rule mod_mod_cancel) (rule le_imp_power_dvd, simp)
    ultimately show ?thesis unfolding word_bytes_def lo p by (simp only:)
  qed
  moreover have "word_bytes (v div 0x100000000) =
      [v div 2 ^ 56 mod 2 ^ 8, v div 2 ^ 48 mod 2 ^ 8, v div 2 ^ 40 mod 2 ^ 8, v div 2 ^ 32 mod 2 ^ 8]"
    unfolding word_bytes_def p by (simp add: zdiv_zmult2_eq [symmetric])
  moreover have "[0..<8] = [0, 1, 2, 3, 4, 5, 6, 7::nat]" by (simp add: upt_rec)
  ultimately show ?thesis by simp
qed

lemma sha256_padded_ref:
  assumes "length bytes < 2 ^ 61"
  shows "sha256_padded bytes = sha_pad bytes"
proof -
  define k where "k = nat ((55 - int (length bytes)) mod 64)"
  define bitLength where "bitLength = int (length bytes) * 8"
  let ?P = "bytes @ [0x80] @ replicate k 0"
  have len: "((length bytes + 9 + 63) div 64) * 64 = length bytes + 1 + k + 8"
    unfolding k_def by (rule pad_length)
  have rep: "replicate (length bytes + 1 + k + 8 - length bytes) (0::int) =
     0 # replicate k 0 @ replicate 4 0 @ replicate 4 0"
    by (simp flip: replicate_add) (simp add: numeral_eq_Suc)
  have init: "(bytes @ replicate (length bytes + 1 + k + 8 - length bytes) (0::int))[length bytes := 0x80] =
     ?P @ replicate 4 0 @ replicate 4 0"
    unfolding rep by (simp add: list_update_append)
  have off: "length bytes + 1 + k + 8 - 8 = length ?P" by simp
  have "0 \<le> bitLength" "bitLength < 2 ^ 64" using assms by (simp_all add: bitLength_def)
  note bl = bit_length_bytes [OF this, symmetric]
  have "sha256_padded bytes = setUint32 (setUint32 (?P @ replicate 4 0 @ replicate 4 0) (length ?P)
      (bitLength div 0x100000000)) (length ?P + 4) (js_ushr bitLength 0)"
    unfolding sha256_padded_def Let_def len init off by (simp add: bitLength_def)
  also have "setUint32 (?P @ replicate 4 0 @ replicate 4 0) (length ?P) hi =
      (?P @ word_bytes hi) @ replicate 4 0 @ []" for hi
    using setUint32_append [of "replicate 4 0" ?P "replicate 4 0" hi] by (simp add: word_bytes_def)
  also have "length ?P + 4 = length (?P @ word_bytes (bitLength div 0x100000000))"
    by (simp add: word_bytes_def)
  also have "setUint32 ((?P @ word_bytes hi) @ replicate 4 0 @ []) (length (?P @ word_bytes hi)) lo =
      ?P @ word_bytes hi @ word_bytes lo" for hi lo
    using setUint32_append [of "replicate 4 0" "?P @ word_bytes hi" "[]" lo] by (simp add: word_bytes_def)
  also have "?P @ word_bytes (bitLength div 0x100000000) @ word_bytes (js_ushr bitLength 0) = sha_pad bytes"
    unfolding bl sha_pad_def k_def by (simp add: bitLength_def mult.commute)
  finally show ?thesis .
qed

section \<open>Hexadecimal output\<close>

fun hex_digits :: "nat \<Rightarrow> int \<Rightarrow> string" where
  "hex_digits 0 n = []"
| "hex_digits (Suc k) n = hex_digits k (n div 16) @ [hex_char (nat (n mod 16))]"

lemma hex_char_0: "hex_char 0 = CHR ''0''"
  by (simp add: hex_char_def char_of_def bit_0)

lemma div_16_less: "n < 16 * p \<Longrightarrow> n div 16 < (p::int)"
  by presburger

lemma hex_digits_0: "hex_digits k 0 = replicate k (CHR ''0'')"
  by (induction k) (auto simp: hex_char_0 replicate_append_same)

lemma padStart_snoc: "padStart (Suc k) ch (s @ [c]) = padStart k ch s @ [c]"
  by (simp add: padStart_def)

lemma padStart_show_hex:
  assumes "0 \<le> n" "n < 16 ^ k" "0 < k"
  shows "padStart k (CHR ''0'') (show_hex n) = hex_digits k n"
  using assms
proof (induction k arbitrary: n)
  case (Suc k)
  show ?case
  proof (cases "n < 16")
    case True
    then have "show_hex n = [hex_char (nat n)]" by (simp add: show_hex.simps)
    with True Suc.prems show ?thesis
      by (simp add: padStart_def hex_digits_0 div_pos_pos_trivial mod_pos_pos_trivial)
  next
    case False
    then have "0 < k" using Suc.prems by (cases k) auto
    moreover have "n div 16 < 16 ^ k" using Suc.prems by (simp add: div_16_less)
    ultimately have "padStart k (CHR ''0'') (show_hex (n div 16)) = hex_digits k (n div 16)"
      using Suc.prems by (intro Suc.IH) auto
    with False show ?thesis by (subst show_hex.simps) (simp add: padStart_snoc)
  qed
qed simp

lemma hex_digits_map: "hex_digits k n = map (\<lambda>i. hex_char (nat (n div 16 ^ (k - 1 - i) mod 16))) [0..<k]"
proof (induction k arbitrary: n)
  case (Suc k)
  have "n div 16 div 16 ^ (k - 1 - i) = n div 16 ^ (k - i)" if "i < k" for i
  proof -
    from that have "k - i = Suc (k - 1 - i)" by simp
    then show ?thesis by (simp add: zdiv_zmult2_eq)
  qed
  then show ?case by (simp add: Suc.IH)
qed simp

lemma show_part:
  assumes "x = uint (number_word x)"
  shows "padStart 8 (CHR ''0'') (show_hex x) = hex_word (number_word x)"
proof -
  have "0 \<le> x" "x < 16 ^ 8"
    using assms uint_lt2p [of "number_word x"] uint_nonnegative [of "number_word x"] by auto
  then have "padStart 8 (CHR ''0'') (show_hex x) = hex_digits 8 x" by (intro padStart_show_hex) auto
  then show ?thesis using assms by (simp add: hex_digits_map hex_word_def)
qed

lemma show_chain:
  assumes "chain_ok h"
  shows "concat (map (\<lambda>part. padStart 8 (CHR ''0'') (show_hex part)) h) = hex_regs (map_regs number_word (regs_of h))"
proof -
  have "h = [h ! 0, h ! 1, h ! 2, h ! 3, h ! 4, h ! 5, h ! 6, h ! 7]"
    using assms by (auto simp: chain_ok_def intro!: nth_equalityI simp: less_Suc_eq numeral_eq_Suc)
  then obtain a b c d e f g i where h: "h = [a, b, c, d, e, f, g, i]" by blast
  show ?thesis
    using assms by (simp add: h chain_ok_def hex_regs_def map_regs_def regs_of_def show_part)
qed

definition is_lower_hex :: "char \<Rightarrow> bool" where
  "is_lower_hex ch \<longleftrightarrow> CHR ''0'' \<le> ch \<and> ch \<le> CHR ''9'' \<or> CHR ''a'' \<le> ch \<and> ch \<le> CHR ''f''"

lemma hex_char_lower: "n < 16 \<Longrightarrow> is_lower_hex (hex_char n)"
  by (auto simp: is_lower_hex_def hex_char_def less_eq_char_def)

lemma hex_word_lower: "list_all is_lower_hex (hex_word w) \<and> length (hex_word w) = 8"
  by (auto simp: hex_word_def list_all_iff intro!: hex_char_lower)

lemma hex_regs_lower: "list_all is_lower_hex (hex_regs r) \<and> length (hex_regs r) = 64"
  using hex_word_lower by (cases r rule: regs_cases) (auto simp: hex_regs_def)

section \<open>Exactness\<close>

text \<open>
  The sums of the code are sums of doubles: they are exact because every operand is the result of a
  bitwise operator (a signed 32-bit integer) or of an unsigned shift (an unsigned one).
\<close>

lemma toInt32_range: "- (2 ^ 31) \<le> toInt32 x" "toInt32 x < 2 ^ 31"
  using signed_take_bit_int_greater_eq_minus_exp [of 31 x] signed_take_bit_int_less_exp [of 31 x]
  by (simp_all add: toInt32_def)

lemma js_xor_toInt32: "js_xor x y = toInt32 (x XOR y)"
  by (rule bit_eqI) (auto simp: js_xor_def toInt32_def bit_simps)

lemma js_xor_range: "- (2 ^ 31) \<le> js_xor x y" "js_xor x y < 2 ^ 31"
  using toInt32_range [of "x XOR y"] by (simp_all add: js_xor_toInt32)

lemma SHA256_K_range: "i < 64 \<Longrightarrow> 0 \<le> SHA256_K ! i \<and> SHA256_K ! i < 2 ^ 32"
proof -
  assume "i < 64"
  have "list_all (\<lambda>x. 0 \<le> x \<and> x < 2 ^ 32) SHA256_K" "length SHA256_K = 64" by (simp_all add: SHA256_K_def)
  with \<open>i < 64\<close> show ?thesis by (simp add: list_all_length)
qed

lemma round_sum_exact:
  assumes "0 \<le> hh" "hh < 2 ^ 32" "0 \<le> w" "w < 2 ^ 32" "i < 64"
  shows "\<bar>hh + js_xor p q + js_xor r s + SHA256_K ! i + w\<bar> \<le> max_safe_integer"
  using assms js_xor_range [of p q] js_xor_range [of r s] SHA256_K_range [of i]
  by (auto simp: max_safe_integer_def abs_le_iff)

section \<open>Properties\<close>

lemma length_utf8_encode: "length (utf8_encode s) \<le> 2 * length s"
  by (induction s) (auto simp: utf8_encode_def utf8_char_def)

text \<open>
  C18. The hash of the repository is SHA-256: for every string of fewer than \<open>2^60\<close> code units the text
  returned is the lower-case hexadecimal form (64 digits) of the FIPS 180-4 hash of its UTF-8 bytes,
  although the code computes with Numbers that are negative or exceed 32 bits between the reductions.
\<close>
theorem sha256HexUtf8_is_sha256:
  assumes "length s \<le> 2 ^ 60 - 1"
  shows "sha256HexUtf8 s = hex_regs (sha256_ref (utf8_encode s)) \<and>
         length (sha256HexUtf8 s) = 64 \<and> list_all is_lower_hex (sha256HexUtf8 s)"
proof -
  have "length (utf8_encode s) < 2 ^ 61"
    using assms length_utf8_encode [of s] by simp
  then have pad: "sha256_padded (utf8_encode s) = sha_pad (utf8_encode s)" by (rule sha256_padded_ref)
  have "sha256HexUtf8 s = hex_regs (sha256_ref (utf8_encode s))"
    using sha256_blocks_ref [of "sha_pad (utf8_encode s)" "length (sha_pad (utf8_encode s)) div 64"]
    unfolding sha256HexUtf8_def pad sha256_blocks_def sha256_ref_def Let_def sha_H0_code
    by (simp add: show_chain)
  then show ?thesis using hex_regs_lower by simp
qed

theorem sha256HexUtf8_is_sha256_witness:
  "sha256HexUtf8 ''abc'' = hex_regs (sha256_ref [97, 98, 99]) \<and> length (sha256HexUtf8 ''abc'') = 64"
  using sha256HexUtf8_is_sha256 [of "''abc''"] by (auto simp: utf8_encode_def utf8_char_def)

declare upt_rec_numeral [simp]

end
