(* ===== verification/Held_Freshness.thy ===== *)
theory Held_Freshness
  imports Sha256 Json_Injective
begin

text \<open>
  \<open>packages/shared/src/apmHeldFreshness.ts\<close>: the identifier of a freshness decision and the
  projections of a held side effect (the response to the agent, the activity entry, the trace row).
  The hash is the SHA-256 of the theory \<open>Sha256\<close>, so nothing here is a parameter.
\<close>

datatype side_action = Send | Task_claim | Task_update

datatype fresh_verdict = Local_hold | Syncing_hold | Forward | Bypass

datatype context_mode = Inline | Withheld

fun action_text :: "side_action \<Rightarrow> string" where
  "action_text Send = ''send''"
| "action_text Task_claim = ''task_claim''"
| "action_text Task_update = ''task_update''"

fun verdict_text :: "fresh_verdict \<Rightarrow> string" where
  "verdict_text Local_hold = ''local_hold''"
| "verdict_text Syncing_hold = ''syncing_hold''"
| "verdict_text Forward = ''forward''"
| "verdict_text Bypass = ''bypass''"

text \<open>
  The decision record of the inbox planner; the producer input of the shared module is the same
  record without the trust state, the pending count and the identifier.
\<close>

record freshness_decision =
  fd_action :: side_action
  fd_decision :: fresh_verdict
  fd_freshnessContextMode :: "context_mode option"
  fd_producerFactId :: "string option"
  fd_target :: "string option"
  fd_trusted :: bool
  fd_reason :: string
  fd_pendingCount :: "nat option"
  fd_pendingMaxSeq :: "int option"
  fd_modelSeenSeq :: "int option"
  fd_heldMessageCount :: "nat option"
  fd_omittedMessageCount :: "nat option"

section \<open>The stable hash\<close>

text \<open>The keys are sorted first and undefined children are skipped in the loop.\<close>

fun stableNormalizeApmHeldFreshness :: "jsval \<Rightarrow> jsval" where
  "stableNormalizeApmHeldFreshness (JArr xs) = JArr (map stableNormalizeApmHeldFreshness xs)"
| "stableNormalizeApmHeldFreshness (JObj kvs) =
     JObj (filter (\<lambda>(k, v). v \<noteq> JUndef)
       (js_sort compare_keys (map (\<lambda>(k, v). (k, stableNormalizeApmHeldFreshness v)) kvs)))"
| "stableNormalizeApmHeldFreshness v = v"

definition stableStringifyApmHeldFreshness :: "jsval \<Rightarrow> string" where
  "stableStringifyApmHeldFreshness v = json_print (stableNormalizeApmHeldFreshness v)"

definition hashApmHeldFreshnessStable :: "jsval \<Rightarrow> string" where
  "hashApmHeldFreshnessStable v = sha256HexUtf8 (stableStringifyApmHeldFreshness v)"

text \<open>\<open>x ?? null\<close>\<close>

definition or_null :: "('a \<Rightarrow> jsval) \<Rightarrow> 'a option \<Rightarrow> jsval" where
  "or_null f x = (case x of None \<Rightarrow> JNull | Some v \<Rightarrow> f v)"

abbreviation JNat :: "nat \<Rightarrow> jsval" where
  "JNat n \<equiv> JInt (int n)"

definition producer_fact_object :: "string \<Rightarrow> freshness_decision \<Rightarrow> jsval" where
  "producer_fact_object agentId d = JObj
     ([(''agentId'', JStr agentId), (''action'', JStr (action_text (fd_action d))),
       (''decision'', JStr (verdict_text (fd_decision d)))] @
      (if fd_freshnessContextMode d = Some Withheld then [(''freshnessContextMode'', JStr ''withheld'')] else []) @
      [(''target'', or_null JStr (fd_target d)), (''reason'', JStr (fd_reason d)),
       (''pendingMaxSeq'', or_null JInt (fd_pendingMaxSeq d)),
       (''modelSeenSeq'', or_null JInt (fd_modelSeenSeq d)),
       (''heldMessageCount'', or_null JNat (fd_heldMessageCount d)),
       (''omittedMessageCount'', or_null JNat (fd_omittedMessageCount d))])"

definition buildApmFreshnessDecisionProducerFactId :: "string \<Rightarrow> freshness_decision \<Rightarrow> string" where
  "buildApmFreshnessDecisionProducerFactId agentId d =
     ''freshness_decision_fact:'' @ hashApmHeldFreshnessStable (producer_fact_object agentId d)"

section \<open>Projections\<close>

fun apmHeldFreshnessAvailableActions :: "side_action \<Rightarrow> string list" where
  "apmHeldFreshnessAvailableActions Send = [''check_messages'', ''send_draft'', ''send_anyway'']"
| "apmHeldFreshnessAvailableActions _ = [''check_messages'', ''retry_action'']"

text \<open>The constant fields of the inline body (state, outcome, subtype, reason) are the constructor.\<close>

datatype 'm envelope_body =
    Withheld_body nat
  | Inline_body (ib_decision: fresh_verdict) (ib_producerFactId: string) (ib_available_actions: "string list")
      (ib_heldMessages: "'m list") (ib_newMessageCount: nat) (ib_shownMessageCount: nat)
      (ib_omittedMessageCount: nat) (ib_seenUpToSeq: int)

record 'm envelope =
  en_producerFactId :: string
  en_body :: "'m envelope_body"

definition projectApmHeldFreshnessEnvelope ::
  "string \<Rightarrow> side_action \<Rightarrow> fresh_verdict option \<Rightarrow> 'm list \<Rightarrow> nat \<Rightarrow> nat \<Rightarrow> int \<Rightarrow> context_mode option \<Rightarrow> 'm envelope" where
  "projectApmHeldFreshnessEnvelope producerFactId action decision heldMessages newMessageCount omittedMessageCount
       seenUpToSeq mode =
     \<lparr>en_producerFactId = producerFactId,
      en_body =
        (if mode = Some Withheld then Withheld_body newMessageCount
         else Inline_body (case decision of None \<Rightarrow> Local_hold | Some d \<Rightarrow> d) producerFactId
                (apmHeldFreshnessAvailableActions action) heldMessages newMessageCount (length heldMessages)
                omittedMessageCount seenUpToSeq)\<rparr>"

record activity_projection =
  ap_producerFactId :: string
  ap_title :: string
  ap_text :: string

fun held_title :: "side_action \<Rightarrow> string" where
  "held_title Send = ''Send held by freshness check''"
| "held_title Task_claim = ''Task claim held by freshness check''"
| "held_title Task_update = ''Task update held by freshness check''"

text \<open>\<open>lines.join("\n")\<close>\<close>

fun join_lines :: "string list \<Rightarrow> string" where
  "join_lines [] = []"
| "join_lines [l] = l"
| "join_lines (l # ls) = l @ CHR 0x0A # join_lines ls"

text \<open>The status entry and the action entry share title and identifier; their other fields are constant.\<close>

definition projectApmHeldFreshnessActivity ::
  "string \<Rightarrow> side_action \<Rightarrow> fresh_verdict \<Rightarrow> string option \<Rightarrow> nat \<Rightarrow> activity_projection" where
  "projectApmHeldFreshnessActivity producerFactId action decision target messageCount =
     (let messageNoun = (if messageCount = 1 then ''message'' else ''messages'');
          countLine =
            (if decision = Syncing_hold
             then ''unreviewed synced context for this target: '' @ show_nat messageCount @ '' '' @ messageNoun
             else ''new messages: '' @ show_nat messageCount @ '' newer '' @ messageNoun);
          decisionLines =
            (if decision = Syncing_hold
             then [''reason: this target's latest synced context was not yet in your reviewed context'',
                   if action = Send then ''action: review the synced context before sending''
                   else ''action: review the synced context, then retry this action'']
             else [''decision: local hold; review the newer context before retrying'']);
          targetLines =
            (case target of None \<Rightarrow> [] | Some t \<Rightarrow> if t = '''' then [] else [''target: '' @ t])
      in \<lparr>ap_producerFactId = producerFactId, ap_title = held_title action,
          ap_text = join_lines (targetLines @ countLine # decisionLines)\<rparr>)"

definition opt_field :: "string \<Rightarrow> ('a \<Rightarrow> jsval) \<Rightarrow> 'a option \<Rightarrow> string \<times> jsval" where
  "opt_field k f x = (k, case x of None \<Rightarrow> JUndef | Some v \<Rightarrow> f v)"

text \<open>The trace row of a decision: its identifier and the attributes.\<close>

definition projectApmFreshnessDecisionTrace :: "string \<Rightarrow> freshness_decision \<Rightarrow> string \<times> jsval" where
  "projectApmFreshnessDecisionTrace producerFactId d =
     (producerFactId, JObj
       ([(''producer_fact_id'', JStr producerFactId), (''action'', JStr (action_text (fd_action d))),
         (''decision'', JStr (verdict_text (fd_decision d)))] @
        (if fd_freshnessContextMode d = Some Withheld then [(''freshness_context_mode'', JStr ''withheld'')] else []) @
        [opt_field ''target'' JStr (fd_target d),
         (''inbox_trust_state'', JStr (if fd_trusted d then ''trusted'' else ''untrusted'')),
         (''reason'', JStr (fd_reason d)),
         opt_field ''pending_count'' JNat (fd_pendingCount d),
         opt_field ''pending_max_seq'' JInt (fd_pendingMaxSeq d),
         opt_field ''model_seen_seq'' JInt (fd_modelSeenSeq d),
         opt_field ''held_message_count'' JNat (fd_heldMessageCount d),
         opt_field ''omitted_message_count'' JNat (fd_omittedMessageCount d)]))"

section \<open>The two canonicalisers agree\<close>

lemma heldNormalize_undef [simp]: "stableNormalizeApmHeldFreshness v = JUndef \<longleftrightarrow> v = JUndef"
  by (cases v) auto

lemma stableNormalizeApmHeldFreshness_eq: "stableNormalizeApmHeldFreshness v = stableNormalize v"
proof (induction v)
  case (JObj kvs)
  let ?n = "\<lambda>(k, v). (k, stableNormalizeApmHeldFreshness v)"
  have "filter (\<lambda>(k, v). v \<noteq> JUndef) (js_sort compare_keys (map ?n kvs)) =
      js_sort compare_keys (filter (\<lambda>(k, v). v \<noteq> JUndef) (map ?n kvs))"
    by (rule keys.filter_js_sort)
  also have "filter (\<lambda>(k, v). v \<noteq> JUndef) (map ?n kvs) = map ?n (filter (\<lambda>(k, v). v \<noteq> JUndef) kvs)"
    by (simp add: filter_map comp_def case_prod_beta')
  also have "\<dots> = map (\<lambda>(k, v). (k, stableNormalize v)) (filter (\<lambda>(k, v). v \<noteq> JUndef) kvs)"
    using JObj by (auto simp: snds.simps intro!: map_cong)
  finally show ?case by simp
qed (auto cong: map_cong)

section \<open>Properties\<close>

definition fact_fields :: "freshness_decision \<Rightarrow>
  side_action \<times> fresh_verdict \<times> bool \<times> string option \<times> string \<times> int option \<times> int option \<times> nat option \<times> nat option" where
  "fact_fields d =
     (fd_action d, fd_decision d, fd_freshnessContextMode d = Some Withheld, fd_target d, fd_reason d,
      fd_pendingMaxSeq d, fd_modelSeenSeq d, fd_heldMessageCount d, fd_omittedMessageCount d)"

lemma or_null_inj:
  "or_null JStr x = or_null JStr y \<longleftrightarrow> x = y" "or_null JInt i = or_null JInt j \<longleftrightarrow> i = j"
  "or_null JNat m = or_null JNat n \<longleftrightarrow> m = n"
  by (auto simp: or_null_def split: option.splits)

lemma or_null_atoms [simp]:
  "stableNormalize (or_null JStr x) = or_null JStr x" "stableNormalize (or_null JInt i) = or_null JInt i"
  "stableNormalize (or_null JNat n) = or_null JNat n"
  "json_visible (or_null JStr x)" "json_visible (or_null JInt i)" "json_visible (or_null JNat n)"
  by (simp_all add: or_null_def split: option.splits)

lemma text_inj: "action_text a = action_text b \<longleftrightarrow> a = b" "verdict_text v = verdict_text w \<longleftrightarrow> v = w"
  by (cases a; cases b; simp) (cases v; cases w; simp)

lemma fact_object_determines:
  assumes "stableNormalize (producer_fact_object a d) = stableNormalize (producer_fact_object b e)"
  shows "a = b \<and> fact_fields d = fact_fields e"
proof -
  have obj: "\<exists>kvs. producer_fact_object x f = JObj kvs \<and> distinct (map fst kvs)" for x f
    by (simp add: producer_fact_object_def)
  have get: "stableNormalize (jget (producer_fact_object a d) k) = stableNormalize (jget (producer_fact_object b e) k)" for k
    using assms obj [of a d] obj [of b e] jget_stableNormalize by metis
  show ?thesis
    using get [of "''agentId''"] get [of "''action''"] get [of "''decision''"] get [of "''freshnessContextMode''"]
      get [of "''target''"] get [of "''reason''"] get [of "''pendingMaxSeq''"] get [of "''modelSeenSeq''"]
      get [of "''heldMessageCount''"] get [of "''omittedMessageCount''"]
    by (simp add: producer_fact_object_def fact_fields_def text_inj or_null_inj split: if_splits)
qed

lemma fact_object_visible: "json_visible (producer_fact_object a d)"
  by (simp add: producer_fact_object_def)

text \<open>
  C37. A freshness decision is named by its content: two decisions with the same producer fact id are
  of the same agent and agree in action, decision, context mode, target, reason and counters, unless
  the two hashed texts are a collision of SHA-256.
\<close>
theorem freshness_fact_id_identifies:
  assumes "buildApmFreshnessDecisionProducerFactId a d = buildApmFreshnessDecisionProducerFactId b e"
  shows "(a = b \<and> fact_fields d = fact_fields e) \<or>
    (let x = stableStringifyApmHeldFreshness (producer_fact_object a d);
         y = stableStringifyApmHeldFreshness (producer_fact_object b e)
     in x \<noteq> y \<and> sha256HexUtf8 x = sha256HexUtf8 y)"
proof (cases "stableStringifyApmHeldFreshness (producer_fact_object a d) =
    stableStringifyApmHeldFreshness (producer_fact_object b e)")
  case True
  then have "stableNormalize (producer_fact_object a d) = stableNormalize (producer_fact_object b e)"
    using json_print_inj [OF stableNormalize_norm stableNormalize_norm, OF fact_object_visible fact_object_visible]
    by (simp add: stableStringifyApmHeldFreshness_def stableNormalizeApmHeldFreshness_eq)
  then show ?thesis using fact_object_determines by blast
next
  case False
  then show ?thesis
    using assms by (simp add: buildApmFreshnessDecisionProducerFactId_def hashApmHeldFreshnessStable_def Let_def)
qed

definition sample_hold :: "nat \<Rightarrow> freshness_decision" where
  "sample_hold n = \<lparr>fd_action = Send, fd_decision = Local_hold, fd_freshnessContextMode = None, fd_producerFactId = None,
     fd_target = Some ''#ops'', fd_trusted = True, fd_reason = ''exact_target_pending'', fd_pendingCount = Some n,
     fd_pendingMaxSeq = Some 7, fd_modelSeenSeq = None, fd_heldMessageCount = Some 1, fd_omittedMessageCount = Some 0\<rparr>"

text \<open>The pending count is not part of the name.\<close>

theorem freshness_fact_id_identifies_witness:
  "buildApmFreshnessDecisionProducerFactId ''a1'' (sample_hold 1) =
     buildApmFreshnessDecisionProducerFactId ''a1'' (sample_hold 2) \<and>
   fact_fields (sample_hold 1) = fact_fields (sample_hold 2)"
proof -
  have eq: "producer_fact_object ''a1'' (sample_hold 1) = producer_fact_object ''a1'' (sample_hold 2)"
    by (simp add: producer_fact_object_def sample_hold_def)
  then have "buildApmFreshnessDecisionProducerFactId ''a1'' (sample_hold 1) =
      buildApmFreshnessDecisionProducerFactId ''a1'' (sample_hold 2)"
    by (simp add: buildApmFreshnessDecisionProducerFactId_def)
  with freshness_fact_id_identifies [OF this] eq show ?thesis by (simp add: Let_def)
qed

end
