(* ===== verification/Inbox_Plan.thy ===== *)
theory Inbox_Plan
  imports Held_Freshness
begin

text \<open>
  \<open>packages/daemon/src/agentInboxStateMachine.ts\<close>: the decision whether a side effect of an agent
  (sending a message, claiming or updating a task) is forwarded to the server or held because the
  target has messages the model has not seen.

  An inbox message is the JavaScript object the code handles, so that object spread, absent
  properties and properties that are present and undefined are as in the source. Sequence numbers
  are integers (the server assigns them), for which \<open>Math.floor\<close> and \<open>Number.isFinite\<close> are the
  identity and true. The callback \<open>isMessageModelSeen\<close> is an argument of the plan input. A plan
  carries its effects in order and its trace; a trace step without data has an empty data list.
\<close>

section \<open>JavaScript operators on values\<close>

definition nullish :: "jsval \<Rightarrow> bool" where
  "nullish v \<longleftrightarrow> v = JUndef \<or> v = JNull"

text \<open>\<open>a ?? b\<close>\<close>

definition coalesce :: "jsval \<Rightarrow> jsval \<Rightarrow> jsval" where
  "coalesce a b = (if nullish a then b else a)"

fun js_truthy :: "jsval \<Rightarrow> bool" where
  "js_truthy JUndef = False"
| "js_truthy JNull = False"
| "js_truthy (JBool b) = b"
| "js_truthy (JInt i) = (i \<noteq> 0)"
| "js_truthy (JNonInt s) = (s \<noteq> ''NaN'')"
| "js_truthy (JStr s) = (s \<noteq> [])"
| "js_truthy _ = True"

text \<open>\<open>{...a, ...b}\<close>\<close>

fun spread :: "jsval \<Rightarrow> jsval \<Rightarrow> jsval" where
  "spread a (JObj kvs) = fold (\<lambda>(k, v) x. jset x k v) kvs a"
| "spread a _ = a"

text \<open>\<open>typeof v === "string" && v.length > 0\<close>\<close>

fun nonempty_str :: "jsval \<Rightarrow> bool" where
  "nonempty_str (JStr s) = (s \<noteq> [])"
| "nonempty_str _ = False"

section \<open>Messages\<close>

type_synonym message = jsval

fun messageSeq :: "message \<Rightarrow> int" where
  "messageSeq m = (case coalesce (jget m ''seq'') (JInt 0) of JInt i \<Rightarrow> i | _ \<Rightarrow> 0)"

declare messageSeq.simps [simp del]

definition messageSenderId :: "message \<Rightarrow> string option" where
  "messageSenderId m =
     (if nonempty_str (jget m ''sender_id'') then Some (str_of (jget m ''sender_id''))
      else if nonempty_str (jget m ''senderId'') then Some (str_of (jget m ''senderId''))
      else None)"

text \<open>\<open>rest.split(":", 2)\<close>: the first piece, and the second one if there is a separator.\<close>

definition split_colon :: "string \<Rightarrow> string \<times> string option" where
  "split_colon s =
     (let p = takeWhile (\<lambda>ch. ch \<noteq> CHR '':'') s; r = dropWhile (\<lambda>ch. ch \<noteq> CHR '':'') s
      in (p, if r = [] then None else Some (takeWhile (\<lambda>ch. ch \<noteq> CHR '':'') (tl r))))"

definition target_fields :: "string \<Rightarrow> string \<Rightarrow> jsval" where
  "target_fields kind rest =
     (case split_colon rest of (channel, threadId) \<Rightarrow>
        case threadId of
          Some (c # cs) \<Rightarrow>
            JObj [(''channel_type'', JStr ''thread''), (''channel_name'', JStr (c # cs)),
                  (''parent_channel_type'', JStr kind), (''parent_channel_name'', JStr channel)]
        | _ \<Rightarrow> JObj [(''channel_type'', JStr kind), (''channel_name'', JStr channel)])"

definition starts_with :: "string \<Rightarrow> string \<Rightarrow> bool" where
  "starts_with p s \<longleftrightarrow> take (length p) s = p"

definition parseTargetFields :: "string \<Rightarrow> jsval" where
  "parseTargetFields target =
     (if starts_with ''dm:@'' target then target_fields ''dm'' (drop 4 target)
      else if starts_with ''#'' target then target_fields ''channel'' (drop 1 target)
      else JObj [])"

definition normalizeInboxVisibleMessage :: "message \<Rightarrow> string option \<Rightarrow> message" where
  "normalizeInboxVisibleMessage m target =
     (let targetFields = (case target of Some (c # cs) \<Rightarrow> parseTargetFields (c # cs) | _ \<Rightarrow> JObj []);
          channel = coalesce (jget m ''channel_id'') (jget m ''channelId'');
          n = spread targetFields m;
          n = jset n ''message_id'' (coalesce (jget m ''message_id'') (jget m ''id''));
          n = (if js_truthy channel then jset n ''channel_id'' channel else n);
          n = jset n ''timestamp'' (coalesce (jget m ''timestamp'') (jget m ''createdAt''));
          n = jset n ''sender_type'' (coalesce (jget m ''sender_type'') (jget m ''senderType''));
          n = jset n ''sender_name'' (coalesce (jget m ''sender_name'') (jget m ''senderName''));
          n = jset n ''sender_description''
                (coalesce (coalesce (jget m ''sender_description'') (jget m ''senderDescription'')) JNull);
          n = jset n ''sender_timezone''
                (coalesce (coalesce (jget m ''sender_timezone'') (jget m ''senderTimezone'')) JNull)
      in case messageSenderId m of None \<Rightarrow> n | Some s \<Rightarrow> jset n ''sender_id'' (JStr s))"

definition normalizeInboxVisibleMessages :: "message list \<Rightarrow> string option \<Rightarrow> message list" where
  "normalizeInboxVisibleMessages ms target = map (\<lambda>m. normalizeInboxVisibleMessage m target) ms"

definition maxInboxMessageSeq :: "message list \<Rightarrow> int option" where
  "maxInboxMessageSeq ms =
     (let maxSeq = fold (\<lambda>m acc. if 0 < messageSeq m then max acc (messageSeq m) else acc) ms 0
      in if 0 < maxSeq then Some maxSeq else None)"

definition compare_message_seq :: "message cmp" where
  "compare_message_seq a b = messageSeq a - messageSeq b"

definition sortInboxMessagesBySeq :: "message list \<Rightarrow> message list" where
  "sortInboxMessagesBySeq ms = js_sort compare_message_seq ms"

definition latestVisibleMessages :: "message list \<Rightarrow> int \<Rightarrow> message list" where
  "latestVisibleMessages ms limit =
     (let sorted = sortInboxMessagesBySeq ms
      in drop (nat (max 0 (int (length sorted) - limit))) sorted)"

section \<open>Plans\<close>

datatype consume_source = Server_held_context | Agent_api_events_local | Agent_api_events_server
  | Agent_api_history | Agent_api_send_commit | Side_effect_preflight_context

datatype inbox_effect =
    Record_freshness_decision freshness_decision
  | Consume_visible_messages (cv_target: "string option") (cv_messages: "message list")
      (cv_boundarySeq: "int option") (cv_source: consume_source)

datatype plan_outcome = Forwarded | Held

type_synonym trace_step = "string \<times> (string \<times> jsval) list"

record side_effect_plan =
  sp_outcome :: plan_outcome
  sp_target :: string
  sp_effects :: "inbox_effect list"
  sp_trace :: "trace_step list"
  sp_forwardSeenUpToSeq :: "int option"
  sp_localResponse :: "message envelope_body option"

record plan_input =
  in_agentId :: string
  in_action :: side_action
  in_target :: string
  in_continueAnyway :: bool
  in_freshnessContextMode :: "context_mode option"
  in_existingSeenUpToSeq :: "int option"
  in_modelSeenSeq :: "int option"
  in_pendingMessages :: "message list"
  in_recentMessages :: "message list"
  in_isMessageModelSeen :: "(string \<Rightarrow> message \<Rightarrow> bool) option"
  in_heldContextLimit :: "int option"

definition compactTraceData :: "(string \<times> jsval) list \<Rightarrow> (string \<times> jsval) list" where
  "compactTraceData data = filter (\<lambda>(k, v). v \<noteq> JUndef) data"

definition appendTrace :: "trace_step list \<Rightarrow> string \<Rightarrow> (string \<times> jsval) list \<Rightarrow> trace_step list" where
  "appendTrace trace step data = trace @ [(step, compactTraceData data)]"

definition opt_value :: "('a \<Rightarrow> jsval) \<Rightarrow> 'a option \<Rightarrow> jsval" where
  "opt_value f x = (case x of None \<Rightarrow> JUndef | Some v \<Rightarrow> f v)"

fun mode_text :: "context_mode \<Rightarrow> string" where
  "mode_text Inline = ''inline''"
| "mode_text Withheld = ''withheld''"

definition known_boundary :: "plan_input \<Rightarrow> int" where
  "known_boundary i =
     max (case in_existingSeenUpToSeq i of None \<Rightarrow> 0 | Some s \<Rightarrow> s) (case in_modelSeenSeq i of None \<Rightarrow> 0 | Some s \<Rightarrow> s)"

definition maxKnownContiguousBoundary :: "plan_input \<Rightarrow> int option" where
  "maxKnownContiguousBoundary i = (if 0 < known_boundary i then Some (known_boundary i) else None)"

definition exactSeenConsumeMessages :: "plan_input \<Rightarrow> message list \<Rightarrow> message list" where
  "exactSeenConsumeMessages i ms =
     map (\<lambda>m.
       if 0 < messageSeq m \<and> (case maxKnownContiguousBoundary i of None \<Rightarrow> False | Some b \<Rightarrow> messageSeq m \<le> b)
       then m
       else if nonempty_str (jget m ''message_id'') \<or> nonempty_str (jget m ''id'') then jset m ''seq'' JUndef
       else m) ms"

definition isMessageModelSeen :: "plan_input \<Rightarrow> message \<Rightarrow> bool" where
  "isMessageModelSeen i m =
     (if messageSenderId m = Some (in_agentId i) then True
      else if 0 < messageSeq m \<and> (case in_modelSeenSeq i of None \<Rightarrow> False | Some s \<Rightarrow> messageSeq m \<le> s) then True
      else case in_isMessageModelSeen i of None \<Rightarrow> False | Some f \<Rightarrow> f (in_target i) m)"

text \<open>\<open>{ ok: true, seenUpToSeq } | { ok: false }\<close>\<close>

definition resolveFreshnessBoundary :: "message list \<Rightarrow> int option" where
  "resolveFreshnessBoundary ms = maxInboxMessageSeq ms"

record held_context =
  hc_heldMessages :: "message list"
  hc_newMessageCount :: nat
  hc_shownMessageCount :: nat
  hc_omittedMessageCount :: nat
  hc_seenUpToSeq :: int

definition heldPlan ::
  "plan_input \<Rightarrow> freshness_decision \<Rightarrow> held_context \<Rightarrow> message list \<Rightarrow> int \<Rightarrow> trace_step list \<Rightarrow> side_effect_plan" where
  "heldPlan i heldDecision context' consumeMessages consumeBoundarySeq trace =
     (let withholdContext = (in_freshnessContextMode i = Some Withheld);
          decisionInput =
            (if withholdContext then heldDecision\<lparr>fd_freshnessContextMode := Some Withheld\<rparr> else heldDecision);
          producerFactId = buildApmFreshnessDecisionProducerFactId (in_agentId i) decisionInput;
          decision = decisionInput\<lparr>fd_producerFactId := Some producerFactId\<rparr>;
          trace = appendTrace trace ''plan_built''
            [(''outcome'', JStr ''held''), (''decision'', JStr (verdict_text (fd_decision decision))),
             (''freshnessContextMode'', opt_value (\<lambda>m. JStr (mode_text m)) (in_freshnessContextMode i)),
             (''effectCount'', JInt (if withholdContext then 1 else 2)),
             (''localResponseState'', JStr ''held''),
             (''seenUpToSeq'', if withholdContext then JUndef else JInt (hc_seenUpToSeq context'))]
      in \<lparr>sp_outcome = Held, sp_target = in_target i,
          sp_effects =
            (if withholdContext then [Record_freshness_decision decision]
             else [Consume_visible_messages (Some (in_target i)) consumeMessages (Some consumeBoundarySeq)
                     Side_effect_preflight_context,
                   Record_freshness_decision decision]),
          sp_trace = trace, sp_forwardSeenUpToSeq = None,
          sp_localResponse = Some (en_body
            (projectApmHeldFreshnessEnvelope producerFactId (in_action i) (Some (fd_decision heldDecision))
               (hc_heldMessages context') (hc_newMessageCount context') (hc_omittedMessageCount context')
               (hc_seenUpToSeq context') (in_freshnessContextMode i)))\<rparr>)"

definition forwardPlan ::
  "plan_input \<Rightarrow> freshness_decision \<Rightarrow> trace_step list \<Rightarrow> int option \<Rightarrow> inbox_effect option \<Rightarrow> side_effect_plan" where
  "forwardPlan i decision trace forwardSeenUpToSeq consumeEffect =
     \<lparr>sp_outcome = Forwarded, sp_target = in_target i,
      sp_effects = (case consumeEffect of None \<Rightarrow> [] | Some e \<Rightarrow> [e]) @ [Record_freshness_decision decision],
      sp_trace = appendTrace trace ''plan_built''
        [(''outcome'', JStr ''forward''), (''decision'', JStr (verdict_text (fd_decision decision))),
         (''effectCount'', JInt (if consumeEffect = None then 1 else 2)),
         (''forwardSeenUpToSeq'', opt_value JInt forwardSeenUpToSeq)],
      sp_forwardSeenUpToSeq = forwardSeenUpToSeq, sp_localResponse = None\<rparr>"

definition forwardWithoutDecision :: "plan_input \<Rightarrow> trace_step list \<Rightarrow> side_effect_plan" where
  "forwardWithoutDecision i trace =
     \<lparr>sp_outcome = Forwarded, sp_target = in_target i, sp_effects = [],
      sp_trace = appendTrace trace ''plan_built''
        [(''outcome'', JStr ''forward''), (''decision'', JStr ''none''), (''effectCount'', JInt 0)],
      sp_forwardSeenUpToSeq = None, sp_localResponse = None\<rparr>"

text \<open>The fields every decision of the planner carries.\<close>

definition base_decision :: "plan_input \<Rightarrow> fresh_verdict \<Rightarrow> bool \<Rightarrow> string \<Rightarrow> freshness_decision" where
  "base_decision i verdict trusted reason =
     \<lparr>fd_action = in_action i, fd_decision = verdict, fd_freshnessContextMode = None, fd_producerFactId = None,
      fd_target = Some (in_target i), fd_trusted = trusted, fd_reason = reason, fd_pendingCount = None,
      fd_pendingMaxSeq = None, fd_modelSeenSeq = None, fd_heldMessageCount = None, fd_omittedMessageCount = None\<rparr>"

definition planFirstTouchRecentContext :: "plan_input \<Rightarrow> int \<Rightarrow> trace_step list \<Rightarrow> side_effect_plan" where
  "planFirstTouchRecentContext i heldContextLimit trace =
     (let recent = sortInboxMessagesBySeq (normalizeInboxVisibleMessages (in_recentMessages i) (Some (in_target i)));
          unconsumed = filter (\<lambda>m. \<not> isMessageModelSeen i m) recent;
          trace = appendTrace trace ''recent_context_loaded''
            [(''recentCount'', JNat (length recent)), (''unseenCount'', JNat (length unconsumed))]
      in case resolveFreshnessBoundary recent of
           None \<Rightarrow>
             forwardPlan i
               ((base_decision i Forward False ''target_first_touch_recent_context_without_seq_boundary'')
                  \<lparr>fd_pendingCount := Some 0, fd_modelSeenSeq := Some 0\<rparr>)
               (appendTrace trace ''recent_context_missing_boundary'' []) None None
         | Some boundary \<Rightarrow>
             let trace = appendTrace trace ''recent_boundary_resolved'' [(''boundarySeq'', JInt boundary)]
             in if unconsumed = [] then
                  forwardPlan i
                    ((base_decision i Forward False ''target_first_touch_recent_context_already_seen'')
                       \<lparr>fd_pendingCount := Some 0, fd_pendingMaxSeq := Some boundary, fd_modelSeenSeq := Some boundary,
                        fd_heldMessageCount := Some 0, fd_omittedMessageCount := Some 0\<rparr>)
                    (appendTrace trace ''recent_context_already_seen'' [])
                    (if in_action i = Send then Some boundary else None)
                    (Some (Consume_visible_messages (Some (in_target i)) recent (Some boundary)
                       Side_effect_preflight_context))
                else case resolveFreshnessBoundary unconsumed of
                  None \<Rightarrow>
                    forwardPlan i
                      ((base_decision i Forward False ''target_first_touch_unseen_context_without_seq_boundary'')
                         \<lparr>fd_pendingCount := Some 0, fd_modelSeenSeq := Some 0\<rparr>)
                      (appendTrace trace ''unseen_context_missing_boundary'' []) None None
                | Some heldBoundary \<Rightarrow>
                    let trace = appendTrace trace ''unseen_boundary_resolved'' [(''boundarySeq'', JInt heldBoundary)];
                        heldMessages = latestVisibleMessages unconsumed heldContextLimit;
                        omitted = length unconsumed - length heldMessages;
                        trace = appendTrace trace ''unseen_hold_selected''
                          [(''heldCount'', JNat (length heldMessages)), (''omittedCount'', JNat omitted),
                           (''consumeBoundarySeq'', JInt boundary)]
                    in heldPlan i
                         ((base_decision i Syncing_hold False ''target_first_touch_recent_context'')
                            \<lparr>fd_pendingCount := Some 0, fd_pendingMaxSeq := Some heldBoundary, fd_modelSeenSeq := Some 0,
                             fd_heldMessageCount := Some (length heldMessages), fd_omittedMessageCount := Some omitted\<rparr>)
                         \<lparr>hc_heldMessages = heldMessages, hc_newMessageCount = length unconsumed,
                          hc_shownMessageCount = length heldMessages, hc_omittedMessageCount = omitted,
                          hc_seenUpToSeq = boundary\<rparr>
                         recent boundary trace)"

definition DEFAULT_HELD_CONTEXT_LIMIT :: int where
  "DEFAULT_HELD_CONTEXT_LIMIT = 3"

text \<open>Lines 150 to 240: the branch of a target with pending messages.\<close>

definition planPendingContext :: "plan_input \<Rightarrow> int \<Rightarrow> trace_step list \<Rightarrow> side_effect_plan" where
  "planPendingContext i heldContextLimit trace =
     (let trace = appendTrace trace ''pending_messages_found'' [(''pendingCount'', JNat (length (in_pendingMessages i)))];
          pending = sortInboxMessagesBySeq (normalizeInboxVisibleMessages (in_pendingMessages i) (Some (in_target i)))
      in case resolveFreshnessBoundary pending of
           None \<Rightarrow> forwardWithoutDecision i (appendTrace trace ''pending_context_missing_boundary'' [])
         | Some boundary \<Rightarrow>
             let alreadySeen = filter (isMessageModelSeen i) pending;
                 unconsumed = filter (\<lambda>m. \<not> isMessageModelSeen i m) pending;
                 trace = appendTrace trace ''pending_context_classified''
                   [(''pendingCount'', JNat (length pending)), (''unseenCount'', JNat (length unconsumed))]
             in if unconsumed = [] then
                  let contiguous = maxKnownContiguousBoundary i;
                      canAdvance = (case contiguous of None \<Rightarrow> False | Some b \<Rightarrow> boundary \<le> b)
                  in forwardPlan i
                       ((base_decision i Forward True ''exact_target_pending_already_seen'')
                          \<lparr>fd_pendingCount := Some (length pending), fd_pendingMaxSeq := Some boundary,
                           fd_modelSeenSeq := contiguous, fd_heldMessageCount := Some 0, fd_omittedMessageCount := Some 0\<rparr>)
                       (appendTrace trace ''pending_context_already_seen'' [(''boundarySeq'', JInt boundary)])
                       (if in_action i = Send \<and> canAdvance then Some boundary else None)
                       (Some (Consume_visible_messages (Some (in_target i)) (exactSeenConsumeMessages i pending)
                          (if canAdvance then Some boundary else None) Side_effect_preflight_context))
                else case resolveFreshnessBoundary unconsumed of
                  Some heldBoundary \<Rightarrow>
                    let heldMessages = latestVisibleMessages unconsumed heldContextLimit;
                        omitted = length unconsumed - length heldMessages;
                        trace = appendTrace trace ''held_context_built''
                          [(''boundarySeq'', JInt boundary), (''heldBoundarySeq'', JInt heldBoundary),
                           (''heldCount'', JNat (length heldMessages)), (''omittedCount'', JNat omitted)]
                    in heldPlan i
                         ((base_decision i Local_hold True ''exact_target_pending'')
                            \<lparr>fd_pendingCount := Some (length (in_pendingMessages i)),
                             fd_pendingMaxSeq := Some heldBoundary, fd_modelSeenSeq := in_modelSeenSeq i,
                             fd_heldMessageCount := Some (length heldMessages), fd_omittedMessageCount := Some omitted\<rparr>)
                         \<lparr>hc_heldMessages = heldMessages, hc_newMessageCount = length unconsumed,
                          hc_shownMessageCount = length heldMessages, hc_omittedMessageCount = omitted,
                          hc_seenUpToSeq = heldBoundary\<rparr>
                         (sortInboxMessagesBySeq (exactSeenConsumeMessages i alreadySeen @ heldMessages))
                         heldBoundary trace
                | None \<Rightarrow> forwardWithoutDecision i (appendTrace trace ''pending_unseen_context_missing_boundary'' []))"

definition input_trace :: "plan_input \<Rightarrow> trace_step list" where
  "input_trace i =
     [(''input'', compactTraceData
        [(''action'', JStr (action_text (in_action i))), (''target'', JStr (in_target i)),
         (''continueAnyway'', JBool (in_continueAnyway i)),
         (''freshnessContextMode'', opt_value (\<lambda>m. JStr (mode_text m)) (in_freshnessContextMode i)),
         (''pendingCount'', JNat (length (in_pendingMessages i))),
         (''recentCount'', JNat (length (in_recentMessages i))),
         (''existingSeenUpToSeq'', opt_value JInt (in_existingSeenUpToSeq i)),
         (''modelSeenSeq'', opt_value JInt (in_modelSeenSeq i))])]"

definition planAgentInboxSideEffect :: "plan_input \<Rightarrow> side_effect_plan" where
  "planAgentInboxSideEffect i =
     (let heldContextLimit = (case in_heldContextLimit i of None \<Rightarrow> DEFAULT_HELD_CONTEXT_LIMIT | Some l \<Rightarrow> l);
          trace = input_trace i
      in if in_continueAnyway i then
           forwardPlan i (base_decision i Bypass True ''continue_anyway'')
             (appendTrace trace ''continue_anyway_bypass'' []) None None
         else if in_pendingMessages i \<noteq> [] then planPendingContext i heldContextLimit trace
         else
           let boundary = known_boundary i;
               trace = appendTrace trace ''model_boundary_checked'' [(''boundary'', JInt boundary)]
           in if 0 < boundary then
                forwardPlan i
                  ((base_decision i Forward True ''model_seen_boundary'')
                     \<lparr>fd_pendingCount := Some 0, fd_modelSeenSeq := Some boundary\<rparr>)
                  (appendTrace trace ''model_boundary_selected'' [(''boundary'', JInt boundary)])
                  (if in_action i = Send then Some boundary else None) None
              else if in_recentMessages i \<noteq> [] then planFirstTouchRecentContext i heldContextLimit trace
              else forwardPlan i
                     ((base_decision i Forward True ''no_exact_target_pending_or_recent_context'')
                        \<lparr>fd_pendingCount := Some 0, fd_modelSeenSeq := Some 0\<rparr>)
                     (appendTrace trace ''no_context_available'' []) None None)"

end
