(* ===== verification/Inbox_Properties.thy ===== *)
theory Inbox_Properties
  imports Inbox_Plan
begin

text \<open>
  When the inbox planner holds a side effect, what a held plan shows and consumes, and what a
  forwarded plan attests.
\<close>

section \<open>Messages\<close>

interpretation by_seq: comparator compare_message_seq
  by unfold_locales (auto simp: compare_message_seq_def)

text \<open>An object literal has one entry per key.\<close>

fun message_ok :: "message \<Rightarrow> bool" where
  "message_ok (JObj kvs) = distinct (map fst kvs)"
| "message_ok _ = False"

lemma plain_fold_jset: "is_plain_object (fold (\<lambda>(k, v) x. jset x k v) kvs a) = is_plain_object a"
  by (induction kvs arbitrary: a) (simp_all add: split_beta)

lemma jget_fold_jset:
  assumes "distinct (map fst kvs)" "is_plain_object a"
  shows "jget (fold (\<lambda>(k, v) x. jset x k v) kvs a) k = (case map_of kvs k of None \<Rightarrow> jget a k | Some v \<Rightarrow> v)"
  using assms
proof (induction kvs arbitrary: a)
  case (Cons e kvs)
  then have "map_of kvs (fst e) = None" by (simp add: map_of_eq_None_iff)
  with Cons show ?case by (cases e) (simp split: option.splits)
qed simp

lemma plain_target_fields: "is_plain_object (parseTargetFields t)" "jget (parseTargetFields t) ''seq'' = JUndef"
  by (auto simp: parseTargetFields_def target_fields_def split: prod.splits option.splits list.splits)

lemma jget_normalize_seq:
  assumes "message_ok m"
  shows "jget (normalizeInboxVisibleMessage m t) ''seq'' = jget m ''seq''"
proof -
  obtain kvs where m: "m = JObj kvs" "distinct (map fst kvs)" using assms by (cases m) auto
  let ?tf = "case t of Some (c # cs) \<Rightarrow> parseTargetFields (c # cs) | _ \<Rightarrow> JObj []"
  have tf: "is_plain_object ?tf" "jget ?tf ''seq'' = JUndef"
    using plain_target_fields by (auto split: option.splits list.splits)
  have s: "is_plain_object (spread ?tf m)" "jget (spread ?tf m) ''seq'' = jget m ''seq''"
    using tf m(2) by (auto simp: m(1) plain_fold_jset jget_fold_jset split: option.splits)
  show ?thesis
    unfolding normalizeInboxVisibleMessage_def Let_def
    using s by (auto split: option.splits)
qed

lemma messageSeq_normalize [simp]: "message_ok m \<Longrightarrow> messageSeq (normalizeInboxVisibleMessage m t) = messageSeq m"
  by (simp add: messageSeq.simps jget_normalize_seq)

section \<open>Boundaries\<close>

lemma fold_max_seq:
  defines "step \<equiv> \<lambda>m acc. if 0 < messageSeq m then max acc (messageSeq m) else acc"
  assumes "0 \<le> acc"
  shows "acc \<le> fold step ms acc \<and> (\<forall>m\<in>set ms. messageSeq m \<le> fold step ms acc) \<and>
    (fold step ms acc = acc \<or> (\<exists>m\<in>set ms. messageSeq m = fold step ms acc))"
  using assms(2)
proof (induction ms arbitrary: acc)
  case (Cons m ms)
  have "0 \<le> step m acc" "acc \<le> step m acc" "messageSeq m \<le> step m acc" "step m acc = acc \<or> messageSeq m = step m acc"
    using Cons.prems by (auto simp: step_def)
  with Cons.IH [of "step m acc"] show ?case by auto
qed simp

lemma maxInboxMessageSeq_Some:
  assumes "maxInboxMessageSeq ms = Some b"
  shows "0 < b" "\<exists>m\<in>set ms. messageSeq m = b" "\<forall>m\<in>set ms. messageSeq m \<le> b"
  using assms fold_max_seq [of 0 ms] by (auto simp: maxInboxMessageSeq_def Let_def split: if_splits)

lemma maxInboxMessageSeq_None: "maxInboxMessageSeq ms = None \<longleftrightarrow> (\<forall>m\<in>set ms. messageSeq m \<le> 0)"
proof (cases "maxInboxMessageSeq ms")
  case None
  then have "\<forall>m\<in>set ms. messageSeq m \<le> 0"
    using fold_max_seq [of 0 ms] by (auto simp: maxInboxMessageSeq_def Let_def split: if_splits)
  with None show ?thesis by simp
next
  case (Some b)
  with maxInboxMessageSeq_Some [OF Some] show ?thesis by force
qed

section \<open>The shape of plans\<close>

lemma heldPlan_simps [simp]:
  "sp_outcome (heldPlan i d c ms b tr) = Held"
  "sp_forwardSeenUpToSeq (heldPlan i d c ms b tr) = None"
  by (simp_all add: heldPlan_def Let_def)

lemma forwardPlan_simps [simp]:
  "sp_outcome (forwardPlan i d tr s e) = Forwarded" "sp_forwardSeenUpToSeq (forwardPlan i d tr s e) = s"
  "sp_localResponse (forwardPlan i d tr s e) = None"
  by (simp_all add: forwardPlan_def)

lemma forwardWithoutDecision_simps [simp]:
  "sp_outcome (forwardWithoutDecision i tr) = Forwarded" "sp_forwardSeenUpToSeq (forwardWithoutDecision i tr) = None"
  "sp_localResponse (forwardWithoutDecision i tr) = None"
  by (simp_all add: forwardWithoutDecision_def)

text \<open>The unseen part of a message list, as the planner sees it.\<close>

definition unseen :: "plan_input \<Rightarrow> message list \<Rightarrow> message list" where
  "unseen i ms =
     filter (\<lambda>m. \<not> isMessageModelSeen i m)
       (sortInboxMessagesBySeq (normalizeInboxVisibleMessages ms (Some (in_target i))))"

definition hold_limit :: "plan_input \<Rightarrow> int" where
  "hold_limit i = (case in_heldContextLimit i of None \<Rightarrow> DEFAULT_HELD_CONTEXT_LIMIT | Some l \<Rightarrow> l)"

lemma unseen_boundary:
  assumes "resolveFreshnessBoundary (unseen i ms) = Some b"
  shows "unseen i ms \<noteq> []"
    "\<exists>c. resolveFreshnessBoundary (sortInboxMessagesBySeq (normalizeInboxVisibleMessages ms (Some (in_target i)))) = Some c"
proof -
  obtain m where m: "m \<in> set (unseen i ms)" "0 < messageSeq m"
    using maxInboxMessageSeq_Some [OF assms [unfolded resolveFreshnessBoundary_def]] by auto
  then show "unseen i ms \<noteq> []" by auto
  from m have "m \<in> set (sortInboxMessagesBySeq (normalizeInboxVisibleMessages ms (Some (in_target i))))"
    by (simp add: unseen_def)
  with m(2) show "\<exists>c. resolveFreshnessBoundary (sortInboxMessagesBySeq (normalizeInboxVisibleMessages ms (Some (in_target i)))) = Some c"
    unfolding resolveFreshnessBoundary_def
    by (metis maxInboxMessageSeq_None not_le option.exhaust)
qed

text \<open>Which list a held plan is about.\<close>

definition held_source :: "plan_input \<Rightarrow> message list" where
  "held_source i = (if in_pendingMessages i \<noteq> [] then in_pendingMessages i else in_recentMessages i)"

definition must_hold :: "plan_input \<Rightarrow> bool" where
  "must_hold i \<longleftrightarrow> \<not> in_continueAnyway i \<and> (in_pendingMessages i \<noteq> [] \<or> known_boundary i \<le> 0) \<and>
     resolveFreshnessBoundary (unseen i (held_source i)) \<noteq> None"

lemma pending_outcome:
  "sp_outcome (planPendingContext i l tr) = Held \<longleftrightarrow> resolveFreshnessBoundary (unseen i (in_pendingMessages i)) \<noteq> None"
proof (cases "resolveFreshnessBoundary (unseen i (in_pendingMessages i))")
  case None
  then show ?thesis by (auto simp: planPendingContext_def Let_def unseen_def split: option.splits)
next
  case (Some b)
  from unseen_boundary [OF Some] Some show ?thesis
    by (auto simp: planPendingContext_def Let_def unseen_def split: option.splits)
qed

lemma recent_outcome:
  "sp_outcome (planFirstTouchRecentContext i l tr) = Held \<longleftrightarrow>
    resolveFreshnessBoundary (unseen i (in_recentMessages i)) \<noteq> None"
proof (cases "resolveFreshnessBoundary (unseen i (in_recentMessages i))")
  case None
  then show ?thesis by (auto simp: planFirstTouchRecentContext_def Let_def unseen_def split: option.splits)
next
  case (Some b)
  from unseen_boundary [OF Some] Some show ?thesis
    by (auto simp: planFirstTouchRecentContext_def Let_def unseen_def split: option.splits)
qed

lemma unseen_empty: "resolveFreshnessBoundary (unseen i []) = None"
  by (simp add: unseen_def normalizeInboxVisibleMessages_def sortInboxMessagesBySeq_def resolveFreshnessBoundary_def
      maxInboxMessageSeq_def)

lemma plan_outcome: "sp_outcome (planAgentInboxSideEffect i) = Held \<longleftrightarrow> must_hold i"
  by (auto simp: planAgentInboxSideEffect_def Let_def must_hold_def held_source_def pending_outcome recent_outcome
      unseen_empty not_less)

lemma unseen_boundary_iff:
  assumes "list_all message_ok ms"
  shows "resolveFreshnessBoundary (unseen i ms) \<noteq> None \<longleftrightarrow>
    (\<exists>m\<in>set ms. 0 < messageSeq m \<and> \<not> isMessageModelSeen i (normalizeInboxVisibleMessage m (Some (in_target i))))"
proof -
  have "set (unseen i ms) = {m \<in> (\<lambda>m. normalizeInboxVisibleMessage m (Some (in_target i))) ` set ms. \<not> isMessageModelSeen i m}"
    by (auto simp: unseen_def sortInboxMessagesBySeq_def normalizeInboxVisibleMessages_def)
  then show ?thesis
    using assms unfolding resolveFreshnessBoundary_def
    by (auto simp: maxInboxMessageSeq_None list_all_iff not_le)
qed

section \<open>Held plans\<close>

lemma latest_length: "int (length (latestVisibleMessages ms l)) = min (int (length ms)) (max 0 l)"
  by (auto simp: latestVisibleMessages_def sortInboxMessagesBySeq_def Let_def)

lemma latest_suffix:
  "latestVisibleMessages ms l =
     drop (length ms - length (latestVisibleMessages ms l)) (sortInboxMessagesBySeq ms)"
proof -
  have "length ms - length (latestVisibleMessages ms l) = min (length ms) (nat (max 0 (int (length ms) - l)))"
    by (auto simp: latestVisibleMessages_def sortInboxMessagesBySeq_def Let_def)
  then show ?thesis
    by (auto simp: latestVisibleMessages_def sortInboxMessagesBySeq_def Let_def min_def)
qed

lemma unseen_sorted: "sortInboxMessagesBySeq (unseen i ms) = unseen i ms"
  unfolding unseen_def sortInboxMessagesBySeq_def
  by (intro by_seq.js_sort_id sorted_wrt_filter by_seq.js_sort_sorted)

lemma unseen_ascending: "sorted (map messageSeq (unseen i ms))"
proof -
  have "sorted_wrt (\<lambda>p q. compare_message_seq p q \<le> 0) (unseen i ms)"
    using by_seq.js_sort_sorted [of "unseen i ms"] unseen_sorted [of i ms] by (simp add: sortInboxMessagesBySeq_def)
  then show ?thesis by (simp add: compare_message_seq_def sorted_wrt_map)
qed

text \<open>The response and the effects of a held plan, for both kinds of hold.\<close>

definition held_verdict :: "plan_input \<Rightarrow> fresh_verdict" where
  "held_verdict i = (if in_pendingMessages i \<noteq> [] then Local_hold else Syncing_hold)"

lemma heldPlan_response:
  "sp_localResponse (heldPlan i d c ms b tr) =
     Some (if in_freshnessContextMode i = Some Withheld then Withheld_body (hc_newMessageCount c)
       else Inline_body (fd_decision d)
         (buildApmFreshnessDecisionProducerFactId (in_agentId i) d)
         (apmHeldFreshnessAvailableActions (in_action i)) (hc_heldMessages c) (hc_newMessageCount c)
         (length (hc_heldMessages c)) (hc_omittedMessageCount c) (hc_seenUpToSeq c))"
  by (simp add: heldPlan_def Let_def projectApmHeldFreshnessEnvelope_def)

lemma heldPlan_effects:
  "\<exists>d'. sp_effects (heldPlan i d c ms b tr) =
     (if in_freshnessContextMode i = Some Withheld then [Record_freshness_decision d']
      else [Consume_visible_messages (Some (in_target i)) ms (Some b) Side_effect_preflight_context,
            Record_freshness_decision d']) \<and>
     fd_decision d' = fd_decision d \<and> fd_producerFactId d' =
       Some (buildApmFreshnessDecisionProducerFactId (in_agentId i) (d'\<lparr>fd_producerFactId := fd_producerFactId d\<rparr>))"
  by (auto simp: heldPlan_def Let_def)

definition held_shape :: "plan_input \<Rightarrow> side_effect_plan \<Rightarrow> bool" where
  "held_shape i p \<longleftrightarrow>
     (\<exists>d c ms b tr. p = heldPlan i d c ms b tr \<and> fd_decision d = held_verdict i \<and>
        hc_heldMessages c = latestVisibleMessages (unseen i (held_source i)) (hold_limit i) \<and>
        hc_newMessageCount c = length (unseen i (held_source i)) \<and>
        hc_omittedMessageCount c = length (unseen i (held_source i)) - length (hc_heldMessages c) \<and>
        hc_seenUpToSeq c = b \<and> (\<forall>m\<in>set (unseen i (held_source i)). messageSeq m \<le> b))"

lemma held_shapeI:
  assumes "fd_decision d = held_verdict i"
    "hc_heldMessages c = latestVisibleMessages (unseen i (held_source i)) (hold_limit i)"
    "hc_newMessageCount c = length (unseen i (held_source i))"
    "hc_omittedMessageCount c = length (unseen i (held_source i)) - length (hc_heldMessages c)"
    "hc_seenUpToSeq c = b" "\<forall>m\<in>set (unseen i (held_source i)). messageSeq m \<le> b"
  shows "held_shape i (heldPlan i d c ms b tr)"
  unfolding held_shape_def using assms by blast

lemma pending_held_shape:
  assumes "sp_outcome (planPendingContext i (hold_limit i) tr) = Held" "in_pendingMessages i \<noteq> []"
  shows "held_shape i (planPendingContext i (hold_limit i) tr)"
proof -
  obtain b where b: "resolveFreshnessBoundary (unseen i (in_pendingMessages i)) = Some b"
    using assms(1) by (auto simp: pending_outcome)
  obtain c where c: "resolveFreshnessBoundary (sortInboxMessagesBySeq
      (normalizeInboxVisibleMessages (in_pendingMessages i) (Some (in_target i)))) = Some c"
    using unseen_boundary(2) [OF b] by blast
  have src: "held_source i = in_pendingMessages i" using assms(2) by (simp add: held_source_def)
  have ge: "\<forall>m\<in>set (unseen i (in_pendingMessages i)). messageSeq m \<le> b"
    using maxInboxMessageSeq_Some(3) b by (simp add: resolveFreshnessBoundary_def)
  show ?thesis
    unfolding planPendingContext_def Let_def c option.case unseen_def [symmetric] if_not_P [OF unseen_boundary(1) [OF b]] b
    using ge assms(2) by (intro held_shapeI) (simp_all add: src held_verdict_def base_decision_def)
qed

lemma recent_held_shape:
  assumes "sp_outcome (planFirstTouchRecentContext i (hold_limit i) tr) = Held" "in_pendingMessages i = []"
  shows "held_shape i (planFirstTouchRecentContext i (hold_limit i) tr)"
proof -
  obtain b where b: "resolveFreshnessBoundary (unseen i (in_recentMessages i)) = Some b"
    using assms(1) by (auto simp: recent_outcome)
  obtain c where c: "resolveFreshnessBoundary (sortInboxMessagesBySeq
      (normalizeInboxVisibleMessages (in_recentMessages i) (Some (in_target i)))) = Some c"
    using unseen_boundary(2) [OF b] by blast
  have src: "held_source i = in_recentMessages i" using assms(2) by (simp add: held_source_def)
  have ge: "\<forall>m\<in>set (unseen i (in_recentMessages i)). messageSeq m \<le> c"
    using maxInboxMessageSeq_Some(3) c by (auto simp: resolveFreshnessBoundary_def unseen_def)
  show ?thesis
    unfolding planFirstTouchRecentContext_def Let_def c option.case unseen_def [symmetric] if_not_P [OF unseen_boundary(1) [OF b]] b
    using ge assms(2) by (intro held_shapeI) (simp_all add: src held_verdict_def base_decision_def)
qed

lemma plan_held_shape:
  assumes "sp_outcome (planAgentInboxSideEffect i) = Held"
  shows "held_shape i (planAgentInboxSideEffect i)"
  using assms pending_held_shape [of i] recent_held_shape [of i]
  by (auto simp: planAgentInboxSideEffect_def Let_def hold_limit_def split: if_splits)

section \<open>Attestation\<close>

lemma normalized_members:
  "set (sortInboxMessagesBySeq (normalizeInboxVisibleMessages ms t)) = (\<lambda>m. normalizeInboxVisibleMessage m t) ` set ms"
  by (simp add: sortInboxMessagesBySeq_def normalizeInboxVisibleMessages_def)

text \<open>Every message of a list is seen by the model and lies below a boundary.\<close>

definition covered :: "plan_input \<Rightarrow> int \<Rightarrow> message list \<Rightarrow> bool" where
  "covered i s ms \<longleftrightarrow>
     (\<forall>m\<in>set ms. messageSeq m \<le> s \<and> isMessageModelSeen i (normalizeInboxVisibleMessage m (Some (in_target i))))"

lemma covered_by_boundary:
  assumes "list_all message_ok ms" "unseen i ms = []"
    "resolveFreshnessBoundary (sortInboxMessagesBySeq (normalizeInboxVisibleMessages ms (Some (in_target i)))) = Some b"
  shows "0 < b" "covered i b ms"
proof -
  note b = maxInboxMessageSeq_Some [OF assms(3) [unfolded resolveFreshnessBoundary_def]]
  show "0 < b" by (fact b(1))
  show "covered i b ms"
    using assms(1,2) b(3) by (auto simp: covered_def normalized_members unseen_def list_all_iff filter_empty_conv)
qed

lemma pending_attests:
  assumes "sp_forwardSeenUpToSeq (planPendingContext i l tr) = Some s" "list_all message_ok (in_pendingMessages i)"
  shows "in_action i = Send \<and> 0 < s \<and> covered i s (in_pendingMessages i) \<and> s \<le> known_boundary i"
  using assms covered_by_boundary [OF assms(2), of i]
  by (auto simp: planPendingContext_def Let_def maxKnownContiguousBoundary_def unseen_def
      split: option.splits if_splits)

lemma recent_attests:
  assumes "sp_forwardSeenUpToSeq (planFirstTouchRecentContext i l tr) = Some s" "list_all message_ok (in_recentMessages i)"
  shows "in_action i = Send \<and> 0 < s \<and> covered i s (in_recentMessages i)"
  using assms covered_by_boundary [OF assms(2), of i]
  by (auto simp: planFirstTouchRecentContext_def Let_def unseen_def split: option.splits if_splits)

section \<open>Properties\<close>

text \<open>
  C8. The planner holds exactly the stale side effects: without an explicit bypass, a side effect is
  held if and only if the context that counts (the pending messages, or the recent messages of a
  target that was never seen) contains a message with a sequence number that the model has not seen.
\<close>
theorem inbox_holds_exactly_stale:
  assumes "list_all message_ok (in_pendingMessages i)" "list_all message_ok (in_recentMessages i)"
  shows "sp_outcome (planAgentInboxSideEffect i) = Held \<longleftrightarrow>
    \<not> in_continueAnyway i \<and>
    (\<exists>m\<in>set (if in_pendingMessages i \<noteq> [] then in_pendingMessages i
             else if known_boundary i \<le> 0 then in_recentMessages i else []).
       0 < messageSeq m \<and> \<not> isMessageModelSeen i (normalizeInboxVisibleMessage m (Some (in_target i))))"
  using unseen_boundary_iff [OF assms(1), of i] unseen_boundary_iff [OF assms(2), of i]
  by (simp add: plan_outcome must_hold_def held_source_def Bex_def)

text \<open>A channel with two messages of a colleague, the model having seen the first.\<close>

definition sample_message :: "int \<Rightarrow> message" where
  "sample_message n = JObj [(''seq'', JInt n), (''id'', JStr ''m''), (''senderId'', JStr ''bob'')]"

definition sample_input :: "side_action \<Rightarrow> context_mode option \<Rightarrow> message list \<Rightarrow> plan_input" where
  "sample_input a mode ms =
     \<lparr>in_agentId = ''a1'', in_action = a, in_target = ''#ops'', in_continueAnyway = False,
      in_freshnessContextMode = mode, in_existingSeenUpToSeq = None, in_modelSeenSeq = Some 4,
      in_pendingMessages = ms, in_recentMessages = [], in_isMessageModelSeen = None, in_heldContextLimit = None\<rparr>"

lemma sample_seen:
  "isMessageModelSeen (sample_input a mode ms) (normalizeInboxVisibleMessage (sample_message n) (Some ''#ops'')) \<longleftrightarrow>
     0 < n \<and> n \<le> 4"
  by (simp add: isMessageModelSeen_def sample_input_def sample_message_def normalizeInboxVisibleMessage_def Let_def
      parseTargetFields_def starts_with_def target_fields_def split_colon_def messageSenderId_def messageSeq.simps
      coalesce_def nullish_def)

lemma sample_ok [simp]: "message_ok (sample_message n)" "messageSeq (sample_message n) = n"
  by (simp_all add: sample_message_def messageSeq.simps coalesce_def nullish_def)

lemma sample_input_simps [simp]:
  "in_pendingMessages (sample_input a mode ms) = ms" "in_recentMessages (sample_input a mode ms) = []"
  "in_continueAnyway (sample_input a mode ms) = False" "in_target (sample_input a mode ms) = ''#ops''"
  "in_freshnessContextMode (sample_input a mode ms) = mode" "in_action (sample_input a mode ms) = a"
  by (simp_all add: sample_input_def)

lemma sample_held: "sp_outcome (planAgentInboxSideEffect (sample_input a mode [sample_message 4, sample_message 9])) = Held"
  using unseen_boundary_iff [of "[sample_message 4, sample_message 9]" "sample_input a mode [sample_message 4, sample_message 9]"]
  by (simp add: plan_outcome must_hold_def held_source_def sample_seen)

theorem inbox_holds_exactly_stale_witness:
  "sp_outcome (planAgentInboxSideEffect (sample_input Send None [sample_message 4, sample_message 9])) = Held \<and>
   sp_outcome (planAgentInboxSideEffect (sample_input Send None [sample_message 3, sample_message 4])) \<noteq> Held"
  using inbox_holds_exactly_stale [of "sample_input Send None [sample_message 4, sample_message 9]"]
    inbox_holds_exactly_stale [of "sample_input Send None [sample_message 3, sample_message 4]"]
  by (simp add: sample_seen)

text \<open>
  C33. What a held side effect shows. In withheld mode the agent gets one number, the count of the
  unseen messages, and nothing is marked as consumed. Otherwise it gets the newest unseen messages, in
  ascending order of their sequence numbers and as many as the limit allows, with the number of those
  left out, none of which has a greater sequence number than a shown one, and a boundary at or above
  every unseen message, which is consumed before the decision is recorded.
\<close>
theorem inbox_held_context:
  assumes "sp_outcome (planAgentInboxSideEffect i) = Held"
  defines "p \<equiv> planAgentInboxSideEffect i"
    and "new \<equiv> unseen i (if in_pendingMessages i \<noteq> [] then in_pendingMessages i else in_recentMessages i)"
  shows "if in_freshnessContextMode i = Some Withheld then
      sp_localResponse p = Some (Withheld_body (length new)) \<and> (\<exists>d. sp_effects p = [Record_freshness_decision d])
    else \<exists>decision factId shown older boundary consumed d.
      sp_localResponse p = Some (Inline_body decision factId (apmHeldFreshnessAvailableActions (in_action i))
        shown (length new) (length shown) (length older) boundary) \<and>
      new = older @ shown \<and> int (length shown) = min (int (length new)) (max 0 (hold_limit i)) \<and>
      sorted (map messageSeq shown) \<and> (\<forall>x\<in>set older. \<forall>m\<in>set shown. messageSeq x \<le> messageSeq m) \<and>
      (\<forall>m\<in>set new. messageSeq m \<le> boundary) \<and>
      sp_effects p = [Consume_visible_messages (Some (in_target i)) consumed (Some boundary)
        Side_effect_preflight_context, Record_freshness_decision d]"
proof -
  have new: "new = unseen i (held_source i)" by (simp add: new_def held_source_def)
  obtain d c ms b tr where p: "p = heldPlan i d c ms b tr"
    and c: "hc_heldMessages c = latestVisibleMessages new (hold_limit i)" "hc_newMessageCount c = length new"
      "hc_omittedMessageCount c = length new - length (hc_heldMessages c)" "hc_seenUpToSeq c = b"
      "\<forall>m\<in>set new. messageSeq m \<le> b"
    using plan_held_shape [OF assms(1)] unfolding held_shape_def p_def new by blast
  obtain d' where d': "sp_effects p =
     (if in_freshnessContextMode i = Some Withheld then [Record_freshness_decision d']
      else [Consume_visible_messages (Some (in_target i)) ms (Some b) Side_effect_preflight_context,
            Record_freshness_decision d'])"
    using heldPlan_effects [of i d c ms b tr] p by blast
  define shown where "shown = latestVisibleMessages new (hold_limit i)"
  define older where "older = take (length new - length shown) new"
  have split: "new = older @ shown"
    using latest_suffix [of new "hold_limit i"] unseen_sorted [of i "held_source i"] new
    unfolding older_def shown_def by (metis append_take_drop_id)
  have lens: "length older = length new - length shown"
    "int (length shown) = min (int (length new)) (max 0 (hold_limit i))"
    using latest_length [of new "hold_limit i"] by (simp_all add: older_def shown_def)
  have order: "sorted (map messageSeq shown)" "\<forall>x\<in>set older. \<forall>m\<in>set shown. messageSeq x \<le> messageSeq m"
    using unseen_ascending [of i "held_source i"] unfolding new [symmetric] split by (auto simp: sorted_append)
  show ?thesis
  proof (cases "in_freshnessContextMode i = Some Withheld")
    case True
    then show ?thesis using d' heldPlan_response [of i d c ms b tr] c(2) by (simp add: p)
  next
    case False
    then have "sp_localResponse p = Some (Inline_body (fd_decision d)
        (buildApmFreshnessDecisionProducerFactId (in_agentId i) d) (apmHeldFreshnessAvailableActions (in_action i))
        shown (length new) (length shown) (length older) b)"
      using heldPlan_response [of i d c ms b tr] c lens(1) by (simp add: p shown_def)
    with False d' split lens(2) order c(5) show ?thesis unfolding if_not_P [OF False] by blast
  qed
qed

theorem inbox_held_context_witness:
  "sp_localResponse (planAgentInboxSideEffect
     (sample_input Task_claim (Some Withheld) [sample_message 4, sample_message 9])) = Some (Withheld_body 1)"
proof -
  let ?i = "sample_input Task_claim (Some Withheld) [sample_message 4, sample_message 9]"
  have "length (unseen ?i [sample_message 4, sample_message 9]) = 1"
    by (simp add: unseen_def by_seq.filter_js_sort sortInboxMessagesBySeq_def normalizeInboxVisibleMessages_def
        sample_seen)
  with inbox_held_context [OF sample_held, of Task_claim "Some Withheld"] show ?thesis by simp
qed

text \<open>
  C32. A forwarded send attests only what the model has seen: a plan that forwards a boundary is an
  unheld send, the boundary covers every pending message, the model has seen them all, and the
  boundary is one that was known before, or comes from recent messages all of which were seen.
\<close>
theorem inbox_attests_only_seen:
  assumes "sp_forwardSeenUpToSeq (planAgentInboxSideEffect i) = Some s"
    "list_all message_ok (in_pendingMessages i)" "list_all message_ok (in_recentMessages i)"
  shows "in_action i = Send \<and> sp_outcome (planAgentInboxSideEffect i) = Forwarded \<and> 0 < s \<and>
    covered i s (in_pendingMessages i) \<and>
    (s \<le> known_boundary i \<or> in_pendingMessages i = [] \<and> covered i s (in_recentMessages i))"
proof -
  have out: "sp_outcome (planAgentInboxSideEffect i) = Forwarded"
  proof (rule ccontr)
    assume "sp_outcome (planAgentInboxSideEffect i) \<noteq> Forwarded"
    then have "sp_outcome (planAgentInboxSideEffect i) = Held" by (cases "sp_outcome (planAgentInboxSideEffect i)") auto
    from plan_held_shape [OF this] assms(1) show False by (auto simp: held_shape_def)
  qed
  show ?thesis
    using assms(1) out pending_attests [OF _ assms(2)] recent_attests [OF _ assms(3)]
    by (auto simp: planAgentInboxSideEffect_def Let_def covered_def split: if_splits)
qed

lemma sample_attested:
  "sp_forwardSeenUpToSeq (planAgentInboxSideEffect (sample_input Send None [sample_message 3, sample_message 4])) = Some 4"
proof -
  let ?i = "sample_input Send None [sample_message 3, sample_message 4]"
  let ?ms = "sortInboxMessagesBySeq (normalizeInboxVisibleMessages [sample_message 3, sample_message 4] (Some ''#ops''))"
  have "unseen ?i [sample_message 3, sample_message 4] = []"
    by (simp add: unseen_def by_seq.filter_js_sort sortInboxMessagesBySeq_def normalizeInboxVisibleMessages_def
        sample_seen)
  moreover have "resolveFreshnessBoundary ?ms = Some 4"
  proof (cases "resolveFreshnessBoundary ?ms")
    case None
    then show ?thesis
      by (simp add: resolveFreshnessBoundary_def maxInboxMessageSeq_None normalized_members)
  next
    case (Some b)
    from maxInboxMessageSeq_Some [OF this [unfolded resolveFreshnessBoundary_def]] Some show ?thesis
      by (auto simp: normalized_members)
  qed
  moreover have "maxKnownContiguousBoundary ?i = Some 4"
    by (simp add: maxKnownContiguousBoundary_def known_boundary_def sample_input_def)
  ultimately show ?thesis
    by (simp add: planAgentInboxSideEffect_def planPendingContext_def Let_def unseen_def)
qed

theorem inbox_attests_only_seen_witness:
  "covered (sample_input Send None [sample_message 3, sample_message 4]) 4 [sample_message 3, sample_message 4]"
  using inbox_attests_only_seen [OF sample_attested] by simp

end
