(* ===== verification/Seen_Store.thy ===== *)
theory Seen_Store
  imports Raft_Prelude
begin

text \<open>
  The command state store of the seen policy (\<open>packages/shared/src/agentOps/seenPolicy\<close>): the
  interface of \<open>store.ts\<close> as a record of operations over a state type, the target and sequence
  normalisers of \<open>consumedSeqs.ts\<close> that stores share with the policy, and the reference store of
  \<open>memoryStore.ts\<close>.

  Every operation answers synchronously, which \<open>maybe.ts\<close> makes the same as awaiting it. Sequence
  numbers and times are integer Numbers; a missing or null one is \<open>None\<close>. The keys of an object of
  updates come in insertion order.
\<close>

section \<open>Text helpers\<close>

definition is_js_space :: "char \<Rightarrow> bool" where
  "is_js_space ch \<longleftrightarrow> of_char ch \<in> {9, 10, 11, 12, 13, 32, 160 :: nat}"

definition js_trim :: "string \<Rightarrow> string" where
  "js_trim s = List.rev (dropWhile is_js_space (List.rev (dropWhile is_js_space s)))"

definition lower_char :: "char \<Rightarrow> char" where
  "lower_char ch = (if CHR ''A'' \<le> ch \<and> ch \<le> CHR ''Z'' then char_of (of_char ch + 32 :: nat) else ch)"

definition lower :: "string \<Rightarrow> string" where
  "lower s = map lower_char s"

definition has_prefix :: "string \<Rightarrow> string \<Rightarrow> bool" where
  "has_prefix p s \<longleftrightarrow> take (length p) s = p"

definition has_suffix :: "string \<Rightarrow> string \<Rightarrow> bool" where
  "has_suffix p s \<longleftrightarrow> has_prefix (List.rev p) (List.rev s)"

text \<open>\<open>/^p(?::|$)/i\<close> for a lower-case text \<open>p\<close>\<close>

definition names_segment :: "string \<Rightarrow> string \<Rightarrow> bool" where
  "names_segment p s \<longleftrightarrow> lower s = p \<or> has_prefix (p @ '':'') (lower s)"

section \<open>Targets and sequence numbers\<close>

definition isTrustedCanonicalTarget :: "string \<Rightarrow> bool" where
  "isTrustedCanonicalTarget v =
     (let trimmed = js_trim v
      in if trimmed = [] \<or> trimmed \<noteq> v then False
         else if names_segment ''undefined'' trimmed \<or> names_segment ''#undefined'' trimmed \<or>
           names_segment ''dm:@undefined'' trimmed \<or> has_suffix '':undefined'' (lower trimmed) then False
         else True)"

definition positiveFiniteNumber :: "int option \<Rightarrow> int option" where
  "positiveFiniteNumber v = (case v of Some n \<Rightarrow> if 0 < n then Some n else None | None \<Rightarrow> None)"

definition MAX_EXACT_SEQS_PER_TARGET :: nat where
  "MAX_EXACT_SEQS_PER_TARGET = 2500"

text \<open>\<open>[...new Set(xs)]\<close>: the first occurrence stays.\<close>

fun js_dedupe :: "'a list \<Rightarrow> 'a list" where
  "js_dedupe [] = []"
| "js_dedupe (x # xs) = x # filter (\<lambda>y. y \<noteq> x) (js_dedupe xs)"

definition compare_number :: "int cmp" where
  "compare_number a b = a - b"

fun exact_candidates :: "jsval list \<Rightarrow> int \<Rightarrow> int list" where
  "exact_candidates [] after = []"
| "exact_candidates (JInt i # vs) after =
     (if 0 < i \<and> after < i then i # exact_candidates vs after else exact_candidates vs after)"
| "exact_candidates (v # vs) after = exact_candidates vs after"

definition normalizeExactSeqs :: "jsval \<Rightarrow> int \<Rightarrow> int list" where
  "normalizeExactSeqs v afterSeq =
     (case v of
        JArr vs \<Rightarrow>
          let xs = js_sort compare_number (js_dedupe (exact_candidates vs afterSeq))
          in drop (length xs - MAX_EXACT_SEQS_PER_TARGET) xs
      | _ \<Rightarrow> [])"

abbreviation JInts :: "int list \<Rightarrow> jsval" where
  "JInts xs \<equiv> JArr (map JInt xs)"

section \<open>The store interface\<close>

record stream_entry =
  se_seq :: "int option"
  se_readOrder :: "int option"
  se_contextId :: "string option"

record exact_entry =
  xe_seqs :: "int list"
  xe_contextId :: "string option"

record draft_entry =
  dr_content :: string
  dr_attachmentIds :: "jsval list"
  dr_idempotencyKey :: "string option"
  dr_mentions :: "jsval list option"
  dr_savedAt :: int
  dr_reholdCount :: int
  dr_seenUpToSeq :: "int option"
  dr_seenExactSeqs :: jsval

record 's store_ops =
  so_currentContextId :: "'s \<Rightarrow> string option"
  so_resolveCanonicalTarget :: "string \<Rightarrow> 's \<Rightarrow> string"
  so_bookTargetAlias :: "string \<Rightarrow> string \<Rightarrow> 's \<Rightarrow> 's"
  so_readStreamEntry :: "string \<Rightarrow> 's \<Rightarrow> stream_entry option"
  so_readAllStreamEntries :: "'s \<Rightarrow> (string, stream_entry) omap"
  so_bookStreamEntries :: "(string, int option) omap \<Rightarrow> string option \<Rightarrow> 's \<Rightarrow> 's"
  so_readExactSeqsWithContext :: "string \<Rightarrow> 's \<Rightarrow> exact_entry"
  so_bookExactSeqs :: "(string, int list) omap \<Rightarrow> string option \<Rightarrow> 's \<Rightarrow> 's"
  so_readDraft :: "string \<Rightarrow> 's \<Rightarrow> draft_entry option"
  so_writeDraft :: "string \<Rightarrow> draft_entry \<Rightarrow> 's \<Rightarrow> 's"
  so_deleteDraft :: "string \<Rightarrow> 's \<Rightarrow> 's"
  so_deleteDraftIfSavedAt :: "string \<Rightarrow> int \<Rightarrow> 's \<Rightarrow> bool \<times> 's"
  so_deleteDraftIfIdempotencyKeyMatches :: "string \<Rightarrow> string \<Rightarrow> 's \<Rightarrow> bool \<times> 's"
  so_incrementCounter :: "string \<Rightarrow> 's \<Rightarrow> 's"

section \<open>The reference store\<close>

record stream_row =
  sr_seq :: "int option"
  sr_readOrder :: "int option"
  sr_contextId :: "string option"

record mem_store =
  ms_contextId :: "string option"
  ms_nextReadOrder :: int
  ms_streams :: "(string, stream_row) omap"
  ms_exact :: "(string, exact_entry) omap"
  ms_aliases :: "(string, string) omap"
  ms_drafts :: "(string, draft_entry) omap"
  ms_counters :: "(string, int) omap"

definition createMemoryCommandStateStore :: "string option \<Rightarrow> mem_store" where
  "createMemoryCommandStateStore contextId =
     \<lparr>ms_contextId = contextId, ms_nextReadOrder = 1, ms_streams = [], ms_exact = [], ms_aliases = [],
      ms_drafts = [], ms_counters = []\<rparr>"

definition setContextId :: "string option \<Rightarrow> mem_store \<Rightarrow> mem_store" where
  "setContextId c s = s\<lparr>ms_contextId := c\<rparr>"

definition exactFloor :: "string \<Rightarrow> string option \<Rightarrow> mem_store \<Rightarrow> int" where
  "exactFloor target exactContextId s =
     (case oget (ms_streams s) target of
        Some row \<Rightarrow>
          if sr_contextId row = exactContextId
          then (case positiveFiniteNumber (sr_seq row) of None \<Rightarrow> 0 | Some n \<Rightarrow> n) else 0
      | None \<Rightarrow> 0)"

definition toEntry :: "stream_row \<Rightarrow> stream_entry option" where
  "toEntry row =
     (let seq = positiveFiniteNumber (sr_seq row); readOrder = positiveFiniteNumber (sr_readOrder row)
      in if seq = None \<and> readOrder = None then None
         else Some \<lparr>se_seq = seq, se_readOrder = readOrder, se_contextId = sr_contextId row\<rparr>)"

text \<open>
  The walk along the aliases: it stops at a target without alias, at an untrusted destination and at
  one it has already passed. It ends because every step visits a new destination.
\<close>

function follow_aliases :: "(string, string) omap \<Rightarrow> string list \<Rightarrow> string \<Rightarrow> string" where
  "follow_aliases aliases seen current =
     (case oget aliases current of
        None \<Rightarrow> current
      | Some canonical \<Rightarrow>
          if canonical \<in> set seen \<or> \<not> isTrustedCanonicalTarget canonical then current
          else follow_aliases aliases (seen @ [canonical]) canonical)"
  by pat_completeness auto
termination
proof (relation "measure (\<lambda>(aliases, seen, current). card (set (map snd aliases) - set seen))", goal_cases)
  case (2 aliases seen current canonical)
  have "canonical \<in> snd ` set aliases"
    using map_of_SomeD [OF 2(1)] by (rule image_eqI [rotated]) simp
  moreover have "canonical \<notin> set seen" using 2(2) by blast
  ultimately have "canonical \<in> set (map snd aliases) - set seen" by simp
  then have "card (set (map snd aliases) - set seen - {canonical}) < card (set (map snd aliases) - set seen)"
    by (rule card_Diff1_less [OF finite_Diff [OF finite_set]])
  moreover have "set (map snd aliases) - set (seen @ [canonical]) = set (map snd aliases) - set seen - {canonical}"
    by auto
  ultimately show ?case by (simp only: in_measure split_conv)
qed simp

declare follow_aliases.simps [simp del]

definition resolveCanonicalTarget :: "string \<Rightarrow> mem_store \<Rightarrow> string" where
  "resolveCanonicalTarget target s = follow_aliases (ms_aliases s) [target] target"

definition bookTargetAlias :: "string \<Rightarrow> string \<Rightarrow> mem_store \<Rightarrow> mem_store" where
  "bookTargetAlias spelling canonicalTarget s =
     (if \<not> isTrustedCanonicalTarget spelling \<or> \<not> isTrustedCanonicalTarget canonicalTarget \<or> spelling = canonicalTarget
      then s else s\<lparr>ms_aliases := oset spelling canonicalTarget (ms_aliases s)\<rparr>)"

definition readStreamEntry :: "string \<Rightarrow> mem_store \<Rightarrow> stream_entry option" where
  "readStreamEntry target s = (case oget (ms_streams s) target of None \<Rightarrow> None | Some row \<Rightarrow> toEntry row)"

definition readAllStreamEntries :: "mem_store \<Rightarrow> (string, stream_entry) omap" where
  "readAllStreamEntries s =
     fold (\<lambda>(target, row) entries. case toEntry row of None \<Rightarrow> entries | Some e \<Rightarrow> oset target e entries)
       (ms_streams s) []"

definition book_stream_entry :: "string option \<Rightarrow> string \<times> int option \<Rightarrow> mem_store \<Rightarrow> mem_store" where
  "book_stream_entry bookedContextId = (\<lambda>(target, rawSeq) s.
     if target = [] then s
     else
       let s = (case oget (ms_exact s) target of
                  Some x \<Rightarrow> if xe_contextId x \<noteq> bookedContextId then s\<lparr>ms_exact := odel target (ms_exact s)\<rparr> else s
                | None \<Rightarrow> s);
           seq = positiveFiniteNumber rawSeq;
           nextSeq =
             (case oget (ms_streams s) target of
                None \<Rightarrow> seq
              | Some prior \<Rightarrow>
                  if sr_contextId prior \<noteq> bookedContextId then seq
                  else case seq of
                    None \<Rightarrow> sr_seq prior
                  | Some n \<Rightarrow> (case sr_seq prior of None \<Rightarrow> Some n | Some p \<Rightarrow> if p < n then Some n else Some p));
           s = s\<lparr>ms_streams := oset target \<lparr>sr_seq = nextSeq, sr_readOrder = Some (ms_nextReadOrder s),
                                         sr_contextId = bookedContextId\<rparr> (ms_streams s),
                 ms_nextReadOrder := ms_nextReadOrder s + 1\<rparr>;
           floor' = (case positiveFiniteNumber nextSeq of None \<Rightarrow> 0 | Some n \<Rightarrow> n)
       in case oget (ms_exact s) target of
            Some kept \<Rightarrow>
              if 0 < floor' then
                let seqs = normalizeExactSeqs (JInts (xe_seqs kept)) floor'
                in if seqs = [] then s\<lparr>ms_exact := odel target (ms_exact s)\<rparr>
                   else s\<lparr>ms_exact := oset target \<lparr>xe_seqs = seqs, xe_contextId = xe_contextId kept\<rparr> (ms_exact s)\<rparr>
              else s
          | None \<Rightarrow> s)"

definition bookStreamEntries :: "(string, int option) omap \<Rightarrow> string option \<Rightarrow> mem_store \<Rightarrow> mem_store" where
  "bookStreamEntries entries bookedContextId s = fold (book_stream_entry bookedContextId) entries s"

definition readExactSeqsWithContext :: "string \<Rightarrow> mem_store \<Rightarrow> exact_entry" where
  "readExactSeqsWithContext target s =
     (let row = oget (ms_exact s) target;
          rowContextId = (case row of None \<Rightarrow> None | Some x \<Rightarrow> xe_contextId x);
          seqs = (case row of None \<Rightarrow> [] | Some x \<Rightarrow> xe_seqs x)
      in \<lparr>xe_seqs = normalizeExactSeqs (JInts seqs) (exactFloor target rowContextId s), xe_contextId = rowContextId\<rparr>)"

definition book_exact_entry :: "string option \<Rightarrow> string \<times> int list \<Rightarrow> mem_store \<Rightarrow> mem_store" where
  "book_exact_entry bookedContextId = (\<lambda>(target, rawSeqs) s.
     let seqs = normalizeExactSeqs (JInts rawSeqs) 0
     in if target = [] \<or> seqs = [] then s
        else
          let earlier = (case oget (ms_exact s) target of
                 Some x \<Rightarrow> if xe_contextId x = bookedContextId then xe_seqs x else []
               | None \<Rightarrow> []);
              merged = normalizeExactSeqs (JInts (earlier @ seqs)) (exactFloor target bookedContextId s)
          in if merged \<noteq> []
             then s\<lparr>ms_exact := oset target \<lparr>xe_seqs = merged, xe_contextId = bookedContextId\<rparr> (ms_exact s)\<rparr>
             else s)"

definition bookExactSeqs :: "(string, int list) omap \<Rightarrow> string option \<Rightarrow> mem_store \<Rightarrow> mem_store" where
  "bookExactSeqs entries bookedContextId s = fold (book_exact_entry bookedContextId) entries s"

definition readDraft :: "string \<Rightarrow> mem_store \<Rightarrow> draft_entry option" where
  "readDraft target s = oget (ms_drafts s) target"

definition writeDraft :: "string \<Rightarrow> draft_entry \<Rightarrow> mem_store \<Rightarrow> mem_store" where
  "writeDraft target d s = s\<lparr>ms_drafts := oset target d (ms_drafts s)\<rparr>"

definition deleteDraft :: "string \<Rightarrow> mem_store \<Rightarrow> mem_store" where
  "deleteDraft target s = s\<lparr>ms_drafts := odel target (ms_drafts s)\<rparr>"

definition deleteDraftIfSavedAt :: "string \<Rightarrow> int \<Rightarrow> mem_store \<Rightarrow> bool \<times> mem_store" where
  "deleteDraftIfSavedAt target savedAt s =
     (if map_option dr_savedAt (oget (ms_drafts s) target) \<noteq> Some savedAt then (False, s)
      else (True, deleteDraft target s))"

definition deleteDraftIfIdempotencyKeyMatches :: "string \<Rightarrow> string \<Rightarrow> mem_store \<Rightarrow> bool \<times> mem_store" where
  "deleteDraftIfIdempotencyKeyMatches target idempotencyKey s =
     (if Option.bind (oget (ms_drafts s) target) dr_idempotencyKey \<noteq> Some idempotencyKey then (False, s)
      else (True, deleteDraft target s))"

definition incrementCounter :: "string \<Rightarrow> mem_store \<Rightarrow> mem_store" where
  "incrementCounter key s =
     s\<lparr>ms_counters := oset key ((case oget (ms_counters s) key of None \<Rightarrow> 0 | Some n \<Rightarrow> n) + 1) (ms_counters s)\<rparr>"

definition memory_ops :: "mem_store store_ops" where
  "memory_ops =
     \<lparr>so_currentContextId = ms_contextId, so_resolveCanonicalTarget = resolveCanonicalTarget,
      so_bookTargetAlias = bookTargetAlias, so_readStreamEntry = readStreamEntry,
      so_readAllStreamEntries = readAllStreamEntries, so_bookStreamEntries = bookStreamEntries,
      so_readExactSeqsWithContext = readExactSeqsWithContext, so_bookExactSeqs = bookExactSeqs,
      so_readDraft = readDraft, so_writeDraft = writeDraft, so_deleteDraft = deleteDraft,
      so_deleteDraftIfSavedAt = deleteDraftIfSavedAt,
      so_deleteDraftIfIdempotencyKeyMatches = deleteDraftIfIdempotencyKeyMatches,
      so_incrementCounter = incrementCounter\<rparr>"

end
