(* ===== verification/Seen_Ledger.thy ===== *)
theory Seen_Ledger
  imports Seen_Store
begin

text \<open>
  The policy over the command state store: the ledger of consumed sequence numbers
  (\<open>consumedSeqs.ts\<close>), the recording rules of a history read (\<open>historyRead.ts\<close>) and the held drafts
  (\<open>drafts.ts\<close>). Every operation takes the store as the record of operations of the interface, as
  the classes of the source take a \<open>CommandStateStore\<close>; it returns its answer and the new state.
\<close>

section \<open>Target keys\<close>

definition canonicalizeConsumedTarget :: "string \<Rightarrow> string option" where
  "canonicalizeConsumedTarget target =
     (let trimmed = js_trim target
      in if trimmed = [] \<or> trimmed \<noteq> target then None
         else
           let normalized = (if has_prefix ''dm:@'' (lower target) then ''dm:@'' @ drop 4 target else target)
           in if normalized = ''#'' \<or> lower normalized = ''dm:@'' then None
              else if isTrustedCanonicalTarget normalized then Some normalized else None)"

text \<open>\<open>s.indexOf(":", from)\<close> and the text before the separator found\<close>

definition colon_from :: "nat \<Rightarrow> string \<Rightarrow> nat option" where
  "colon_from start s =
     (let k = length (takeWhile (\<lambda>ch. ch \<noteq> CHR '':'') (drop start s))
      in if start + k < length s then Some (start + k) else None)"

definition before_colon :: "nat \<Rightarrow> string \<Rightarrow> string option" where
  "before_colon start s =
     (case colon_from start s of Some i \<Rightarrow> if 0 < i then Some (take i s) else None | None \<Rightarrow> None)"

definition getParentTargetForThread :: "string \<Rightarrow> string option" where
  "getParentTargetForThread target =
     (if has_prefix ''dm:@'' target then before_colon 4 target
      else if has_prefix ''#'' target then before_colon 0 target
      else None)"

section \<open>The ledger\<close>

record 's ledger =
  lg_store :: 's
  lg_withheldForContext :: "string list"

definition set_store :: "'s \<Rightarrow> 's ledger \<Rightarrow> 's ledger" where
  "set_store s l = l\<lparr>lg_store := s\<rparr>"

definition canonicalTargetKey :: "'s store_ops \<Rightarrow> string \<Rightarrow> 's ledger \<Rightarrow> string" where
  "canonicalTargetKey ops target l =
     (case canonicalizeConsumedTarget target of
        None \<Rightarrow> []
      | Some t \<Rightarrow> so_resolveCanonicalTarget ops t (lg_store l))"

text \<open>An entry with the context it was booked in.\<close>

definition inThisContext ::
  "'s store_ops \<Rightarrow> ('e \<Rightarrow> string option) \<Rightarrow> string \<Rightarrow> 'e option \<Rightarrow> 's ledger \<Rightarrow> 'e option \<times> 's ledger" where
  "inThisContext ops contextOf key entry l =
     (case entry of
        None \<Rightarrow> (None, l)
      | Some e \<Rightarrow>
          let contextId = so_currentContextId ops (lg_store l)
          in if contextId = None \<or> contextOf e = contextId then (Some e, l)
             else (None, l\<lparr>lg_withheldForContext := List.insert key (lg_withheldForContext l)\<rparr>))"

definition wasEvidenceWithheldForContext :: "'s store_ops \<Rightarrow> string \<Rightarrow> 's ledger \<Rightarrow> bool" where
  "wasEvidenceWithheldForContext ops target l =
     (let key = canonicalTargetKey ops target l in key \<noteq> [] \<and> key \<in> set (lg_withheldForContext l))"

definition recordTargetAlias :: "'s store_ops \<Rightarrow> string \<Rightarrow> string \<Rightarrow> 's ledger \<Rightarrow> 's ledger" where
  "recordTargetAlias ops rawSpelling canonicalTarget l =
     (case (canonicalizeConsumedTarget rawSpelling, canonicalizeConsumedTarget canonicalTarget) of
        (Some spelling, Some canonical) \<Rightarrow>
          if spelling = canonical then l else set_store (so_bookTargetAlias ops spelling canonical (lg_store l)) l
      | _ \<Rightarrow> l)"

definition recordConsumedRead :: "'s store_ops \<Rightarrow> string \<Rightarrow> int option \<Rightarrow> 's ledger \<Rightarrow> 's ledger" where
  "recordConsumedRead ops target seq l =
     (let key = canonicalTargetKey ops target l
      in if key = [] then l
         else set_store (so_bookStreamEntries ops [(key, positiveFiniteNumber seq)]
                (so_currentContextId ops (lg_store l)) (lg_store l)) l)"

definition keyed_updates :: "'s store_ops \<Rightarrow> 's ledger \<Rightarrow> (string \<times> 'v) list \<Rightarrow> (string, 'v) omap" where
  "keyed_updates ops l candidates =
     fold (\<lambda>(target, v) updates.
       let key = canonicalTargetKey ops target l in if key = [] then updates else oset key v updates) candidates []"

definition recordConsumedSeqs :: "'s store_ops \<Rightarrow> (string, int) omap \<Rightarrow> 's ledger \<Rightarrow> 's ledger" where
  "recordConsumedSeqs ops entries l =
     (let candidates = filter (\<lambda>(target, seq). 0 < seq) entries;
          updates = keyed_updates ops l candidates
      in if updates = [] then l
         else set_store (so_bookStreamEntries ops (map (\<lambda>(k, v). (k, Some v)) updates)
                (so_currentContextId ops (lg_store l)) (lg_store l)) l)"

definition recordConsumedExactSeqs :: "'s store_ops \<Rightarrow> (string, int list) omap \<Rightarrow> 's ledger \<Rightarrow> 's ledger" where
  "recordConsumedExactSeqs ops entries l =
     (let candidates = filter (\<lambda>(target, seqs). seqs \<noteq> []) entries;
          updates = keyed_updates ops l candidates
      in if updates = [] then l
         else set_store (so_bookExactSeqs ops updates (so_currentContextId ops (lg_store l)) (lg_store l)) l)"

definition getConsumedSeq :: "'s store_ops \<Rightarrow> string \<Rightarrow> 's ledger \<Rightarrow> int option \<times> 's ledger" where
  "getConsumedSeq ops target l =
     (let key = canonicalTargetKey ops target l
      in if key = [] then (None, l)
         else case inThisContext ops se_contextId key (so_readStreamEntry ops key (lg_store l)) l of
           (entry, l) \<Rightarrow> (Option.bind entry se_seq, l))"

definition getConsumedExactSeqs :: "'s store_ops \<Rightarrow> string \<Rightarrow> 's ledger \<Rightarrow> int list \<times> 's ledger" where
  "getConsumedExactSeqs ops target l =
     (let key = canonicalTargetKey ops target l
      in if key = [] then ([], l)
         else
           let entry = so_readExactSeqsWithContext ops key (lg_store l)
           in case inThisContext ops xe_contextId key (if xe_seqs entry \<noteq> [] then Some entry else None) l of
             (e, l) \<Rightarrow> (case e of None \<Rightarrow> [] | Some x \<Rightarrow> xe_seqs x, l))"

definition read_order_of :: "stream_entry \<Rightarrow> int option" where
  "read_order_of e = (case se_readOrder e of Some r \<Rightarrow> Some r | None \<Rightarrow> se_seq e)"

definition getConsumedReadOrder :: "'s store_ops \<Rightarrow> string \<Rightarrow> 's ledger \<Rightarrow> int option \<times> 's ledger" where
  "getConsumedReadOrder ops target l =
     (let key = canonicalTargetKey ops target l
      in case (if key = [] then (None, l)
               else inThisContext ops se_contextId key (so_readStreamEntry ops key (lg_store l)) l) of
           (entry, l) \<Rightarrow> (positiveFiniteNumber (Option.bind entry read_order_of), l))"

record thread_target =
  tt_target :: string
  tt_seq :: int
  tt_readOrder :: int

definition better_thread ::
  "string option \<Rightarrow> string \<Rightarrow> string \<times> stream_entry \<Rightarrow> thread_target option \<Rightarrow> thread_target option" where
  "better_thread contextId parentTarget = (\<lambda>(target, record') best.
     if contextId \<noteq> None \<and> se_contextId record' \<noteq> contextId then best
     else case (positiveFiniteNumber (se_seq record'), positiveFiniteNumber (read_order_of record')) of
       (Some seq, Some readOrder) \<Rightarrow>
         if getParentTargetForThread target \<noteq> Some parentTarget then best
         else (case best of
                 None \<Rightarrow> Some \<lparr>tt_target = target, tt_seq = seq, tt_readOrder = readOrder\<rparr>
               | Some b \<Rightarrow>
                   if tt_readOrder b < readOrder
                   then Some \<lparr>tt_target = target, tt_seq = seq, tt_readOrder = readOrder\<rparr> else best)
     | _ \<Rightarrow> best)"

definition getMostRecentConsumedThreadForParent ::
  "'s store_ops \<Rightarrow> string \<Rightarrow> 's ledger \<Rightarrow> thread_target option" where
  "getMostRecentConsumedThreadForParent ops parentTarget l =
     fold (better_thread (so_currentContextId ops (lg_store l)) parentTarget)
       (so_readAllStreamEntries ops (lg_store l)) None"

section \<open>History reads\<close>

record history_data =
  hd_target :: jsval
  hd_messages :: "jsval list"
  hd_last_read_seq :: jsval
  hd_has_older :: jsval
  hd_model_seen_up_to_seq :: "jsval option"

record history_input =
  hi_requestedTarget :: string
  hi_around :: "string option"
  hi_after :: "string option"
  hi_data :: history_data

datatype history_record = Read_record "int option" | Exact_record "int list"

record history_plan =
  hp_target :: string
  hp_spelling :: string
  hp_record :: history_record

text \<open>\<open>/^\d+$/\<close> and the Number it reads as\<close>

definition all_digits :: "string \<Rightarrow> bool" where
  "all_digits s \<longleftrightarrow> s \<noteq> [] \<and> list_all (\<lambda>ch. CHR ''0'' \<le> ch \<and> ch \<le> CHR ''9'') s"

definition digits_value :: "string \<Rightarrow> int" where
  "digits_value s = fold (\<lambda>ch n. 10 * n + (of_char ch - 48)) s 0"

definition min_list0 :: "int list \<Rightarrow> int" where
  "min_list0 xs = (case xs of [] \<Rightarrow> 0 | x # ys \<Rightarrow> fold min ys x)"

definition max_list0 :: "int list \<Rightarrow> int" where
  "max_list0 xs = (case xs of [] \<Rightarrow> 0 | x # ys \<Rightarrow> fold max ys x)"

text \<open>
  The whole part of \<open>Math.max(0, Number(v) || 0)\<close>, which is compared with integers only. \<open>Number\<close> drops the
  white space around a string, and takes a sign, digits and a fraction; a negative number, \<open>NaN\<close> and text that is
  no number give 0. Numbers written with an exponent or a radix prefix, and infinities, are left out: they count as 0.
\<close>

definition number_whole :: "string \<Rightarrow> int" where
  "number_whole s =
     (let t = (case s of c # cs \<Rightarrow> if c = CHR ''+'' then cs else s | [] \<Rightarrow> s);
          whole = takeWhile (\<lambda>ch. ch \<noteq> CHR ''.'') t; fraction = drop 1 (dropWhile (\<lambda>ch. ch \<noteq> CHR ''.'') t)
      in if all_digits (whole @ fraction) then digits_value whole else 0)"

fun prior_seq :: "jsval \<Rightarrow> int" where
  "prior_seq (JInt i) = max 0 i"
| "prior_seq (JBool True) = 1"
| "prior_seq (JNonInt s) = number_whole s"
| "prior_seq (JStr s) = number_whole (js_trim s)"
| "prior_seq _ = 0"

lemma prior_seq_examples:
  "prior_seq (JStr '' 12 '') = 12" "prior_seq (JStr ''+12.75'') = 12" "prior_seq (JNonInt ''2.5'') = 2"
  "prior_seq (JStr ''-3'') = 0" "prior_seq (JStr ''.5'') = 0" "prior_seq (JStr ''1.2.3'') = 0" "prior_seq (JStr ''12x'') = 0"
  by code_simp+

fun js_false :: "jsval \<Rightarrow> bool" where
  "js_false JUndef = True"
| "js_false JNull = True"
| "js_false (JBool b) = (\<not> b)"
| "js_false (JInt i) = (i = 0)"
| "js_false (JNonInt s) = (s = ''NaN'')"
| "js_false (JStr s) = (s = [])"
| "js_false _ = False"

definition inferredLegacyBoundary :: "history_input \<Rightarrow> int list \<Rightarrow> int option" where
  "inferredLegacyBoundary i exactSeqs =
     (let priorReadSeq = prior_seq (hd_last_read_seq (hi_data i));
          minSeq = min_list0 exactSeqs; maxSeq = max_list0 exactSeqs
      in case hi_after i of
           Some after \<Rightarrow> if all_digits after \<and> digits_value after \<le> priorReadSeq then Some maxSeq else None
         | None \<Rightarrow> if js_false (hd_has_older (hi_data i)) \<or> minSeq \<le> priorReadSeq then Some maxSeq else None)"

definition planHistoryReadRecording :: "history_input \<Rightarrow> history_plan option" where
  "planHistoryReadRecording i =
     (let resolvedTarget = (case hd_target (hi_data i) of JStr t \<Rightarrow> t | _ \<Rightarrow> hi_requestedTarget i)
      in case canonicalizeConsumedTarget resolvedTarget of
           None \<Rightarrow> None
         | Some target \<Rightarrow>
             let exactSeqs = positive_ints (map (\<lambda>row. jget row ''seq'') (hd_messages (hi_data i)));
                 plan = (\<lambda>record'. Some \<lparr>hp_target = target, hp_spelling = hi_requestedTarget i, hp_record = record'\<rparr>)
             in if hi_around i \<noteq> None then plan (Exact_record exactSeqs)
                else
                  let modelSeenUpToSeq =
                        (case hd_model_seen_up_to_seq (hi_data i) of
                           Some v \<Rightarrow> (case v of JInt n \<Rightarrow> Some n | _ \<Rightarrow> None)
                         | None \<Rightarrow> inferredLegacyBoundary i exactSeqs)
                  in case modelSeenUpToSeq of
                       Some n \<Rightarrow>
                         if 0 < n then plan (Read_record (Some n))
                         else if exactSeqs = [] then plan (Read_record None)
                         else plan (Exact_record exactSeqs)
                     | None \<Rightarrow>
                         if exactSeqs = [] then plan (Read_record None)
                         else plan (Exact_record exactSeqs))"

definition recordHistoryRead :: "'s store_ops \<Rightarrow> history_plan option \<Rightarrow> 's ledger \<Rightarrow> 's ledger" where
  "recordHistoryRead ops plan l =
     (case plan of
        None \<Rightarrow> l
      | Some p \<Rightarrow>
          let l = recordTargetAlias ops (hp_spelling p) (hp_target p) l
          in case hp_record p of
               Exact_record seqs \<Rightarrow> recordConsumedExactSeqs ops [(hp_target p, seqs)] l
             | Read_record seq \<Rightarrow> recordConsumedRead ops (hp_target p) seq l)"

section \<open>Drafts\<close>

record saved_draft =
  sd_content :: string
  sd_attachmentIds :: "string list"
  sd_idempotencyKey :: "string option"
  sd_mentions :: "jsval list option"
  sd_savedAt :: int
  sd_reholdCount :: int
  sd_seenUpToSeq :: "int option"
  sd_seenExactSeqs :: "int list option"

datatype draft_lookup = Found saved_draft | Expired int string | Missing

definition DEFAULT_LOCAL_DRAFT_TTL_MS :: int where
  "DEFAULT_LOCAL_DRAFT_TTL_MS = 10 * 60 * 1000"

fun string_items :: "jsval list \<Rightarrow> string list" where
  "string_items [] = []"
| "string_items (JStr s # vs) = s # string_items vs"
| "string_items (v # vs) = string_items vs"

text \<open>The schema of a structured mention is an argument: the parsed mention, if it is one.\<close>

definition lookupSavedDraft ::
  "(jsval \<Rightarrow> jsval option) \<Rightarrow> 's store_ops \<Rightarrow> string \<Rightarrow> int \<Rightarrow> 's \<Rightarrow> draft_lookup \<times> 's" where
  "lookupSavedDraft parseMention ops target now s =
     (case so_readDraft ops target s of
        None \<Rightarrow> (Missing, s)
      | Some d \<Rightarrow>
          let mentions = map_option (\<lambda>ms. List.map_filter parseMention ms) (dr_mentions d);
              seenExactSeqs = normalizeExactSeqs (dr_seenExactSeqs d) 0;
              idempotencyKey =
                (case dr_idempotencyKey d of None \<Rightarrow> None | Some k \<Rightarrow> if js_trim k \<noteq> [] then Some (js_trim k) else None)
          in if DEFAULT_LOCAL_DRAFT_TTL_MS < now - dr_savedAt d
             then (Expired (dr_savedAt d) (dr_content d), snd (so_deleteDraftIfSavedAt ops target (dr_savedAt d) s))
             else (Found \<lparr>sd_content = dr_content d, sd_attachmentIds = string_items (dr_attachmentIds d),
                     sd_idempotencyKey = idempotencyKey,
                     sd_mentions = (case mentions of Some (m # ms) \<Rightarrow> Some (m # ms) | _ \<Rightarrow> None),
                     sd_savedAt = dr_savedAt d, sd_reholdCount = dr_reholdCount d,
                     sd_seenUpToSeq = dr_seenUpToSeq d,
                     sd_seenExactSeqs = (if seenExactSeqs \<noteq> [] then Some seenExactSeqs else None)\<rparr>, s))"

definition getSavedDraft ::
  "(jsval \<Rightarrow> jsval option) \<Rightarrow> 's store_ops \<Rightarrow> string \<Rightarrow> int \<Rightarrow> 's \<Rightarrow> saved_draft option \<times> 's" where
  "getSavedDraft parseMention ops target now s =
     (case lookupSavedDraft parseMention ops target now s of
        (Found d, s) \<Rightarrow> (Some d, s) | (_, s) \<Rightarrow> (None, s))"

definition setSavedDraft :: "'s store_ops \<Rightarrow> string \<Rightarrow> saved_draft \<Rightarrow> 's \<Rightarrow> 's" where
  "setSavedDraft ops target d s =
     (let seenExactSeqs = normalizeExactSeqs (case sd_seenExactSeqs d of None \<Rightarrow> JUndef | Some xs \<Rightarrow> JInts xs) 0
      in so_writeDraft ops target
           \<lparr>dr_content = sd_content d, dr_attachmentIds = map JStr (sd_attachmentIds d),
            dr_idempotencyKey = (case sd_idempotencyKey d of Some (c # cs) \<Rightarrow> Some (c # cs) | _ \<Rightarrow> None),
            dr_mentions = (case sd_mentions d of Some (m # ms) \<Rightarrow> Some (m # ms) | _ \<Rightarrow> None),
            dr_savedAt = sd_savedAt d, dr_reholdCount = sd_reholdCount d, dr_seenUpToSeq = sd_seenUpToSeq d,
            dr_seenExactSeqs = (if seenExactSeqs \<noteq> [] then JInts seenExactSeqs else JUndef)\<rparr> s)"

definition clearSavedDraft :: "'s store_ops \<Rightarrow> string \<Rightarrow> 's \<Rightarrow> 's" where
  "clearSavedDraft ops target s = so_deleteDraft ops target s"

definition clearSavedDraftIfIdempotencyKeyMatches :: "'s store_ops \<Rightarrow> string \<Rightarrow> string \<Rightarrow> 's \<Rightarrow> bool \<times> 's" where
  "clearSavedDraftIfIdempotencyKeyMatches ops target idempotencyKey s =
     so_deleteDraftIfIdempotencyKeyMatches ops target idempotencyKey s"

end
