(* ===== verification/Seen_Contract.thy ===== *)
theory Seen_Contract
  imports Seen_Ledger
begin

text \<open>
  What the seen policy relies on: the part of the store contract of \<open>store.ts\<close> that says what a
  read returns after a booking, as a locale, and what the ledger makes of it for any store that
  keeps the contract. A run of ledger calls is compared with the plain log of what was recorded:
  the attested sequence number is the greatest one recorded for that key since its context last
  changed. The reference store keeps the contract.
\<close>

section \<open>The log of recorded reads\<close>

type_synonym booking = "string \<times> string option \<times> int option"

definition bookings_of :: "string \<Rightarrow> booking list \<Rightarrow> (string option \<times> int option) list" where
  "bookings_of k log = map snd (filter (\<lambda>b. fst b = k) log)"

text \<open>The bookings since the context last changed, newest first, and their high-water mark.\<close>

definition trailing :: "(string option \<times> int option) list \<Rightarrow> (string option \<times> int option) list" where
  "trailing bs = takeWhile (\<lambda>b. fst b = fst (last bs)) (List.rev bs)"

definition high_water :: "(string option \<times> int option) list \<Rightarrow> int option" where
  "high_water bs = (let ns = List.map_filter snd bs in if ns = [] then None else Some (Max (set ns)))"

definition log_evidence :: "booking list \<Rightarrow> string \<Rightarrow> (string option \<times> int option) option" where
  "log_evidence log k =
     (let bs = bookings_of k log in if bs = [] then None else Some (fst (last bs), high_water (trailing bs)))"

definition merge_seq :: "(string option \<times> int option) option \<Rightarrow> int option \<Rightarrow> string option \<Rightarrow> int option" where
  "merge_seq old v c =
     (case old of
        None \<Rightarrow> v
      | Some (c', p) \<Rightarrow>
          if c' \<noteq> c then v
          else case v of None \<Rightarrow> p | Some n \<Rightarrow> (case p of None \<Rightarrow> Some n | Some m \<Rightarrow> Some (max m n)))"

lemma high_water_Cons:
  "high_water ((c, v) # bs) =
     (case v of None \<Rightarrow> high_water bs
      | Some n \<Rightarrow> (case high_water bs of None \<Rightarrow> Some n | Some m \<Rightarrow> Some (max m n)))"
  by (auto simp: high_water_def Let_def map_filter_simps max.commute split: option.splits)

lemma trailing_snoc:
  "trailing (bs @ [(c, v)]) = (c, v) # (if bs \<noteq> [] \<and> fst (last bs) = c then trailing bs else [])"
  by (cases bs rule: rev_cases) (auto simp: trailing_def)

lemma log_evidence_snoc_same:
  "log_evidence (log @ [(k, c, v)]) k = Some (c, merge_seq (log_evidence log k) v c)"
  by (auto simp: log_evidence_def bookings_of_def Let_def trailing_snoc high_water_Cons merge_seq_def
      high_water_def map_filter_simps split: option.splits)

lemma log_evidence_snoc_other: "k' \<noteq> k \<Longrightarrow> log_evidence (log @ [(k, c, v)]) k' = log_evidence log k'"
  by (simp add: log_evidence_def bookings_of_def)

lemmas log_evidence_snoc = log_evidence_snoc_same log_evidence_snoc_other

section \<open>Runs of the ledger\<close>

datatype seen_step =
    Set_context "string option"
  | Record_alias string string
  | Record_read string "int option"
  | Record_seqs "(string, int) omap"
  | Record_exact "(string, int list) omap"
  | Record_history history_input
  | Get_seq string
  | Get_exact string

definition seen_exec ::
  "'s store_ops \<Rightarrow> (string option \<Rightarrow> 's \<Rightarrow> 's) \<Rightarrow> seen_step \<Rightarrow> 's ledger \<Rightarrow> 's ledger" where
  "seen_exec ops set_ctx st l =
     (case st of
        Set_context c \<Rightarrow> set_store (set_ctx c (lg_store l)) l
      | Record_alias a b \<Rightarrow> recordTargetAlias ops a b l
      | Record_read t v \<Rightarrow> recordConsumedRead ops t v l
      | Record_seqs es \<Rightarrow> recordConsumedSeqs ops es l
      | Record_exact es \<Rightarrow> recordConsumedExactSeqs ops es l
      | Record_history i \<Rightarrow> recordHistoryRead ops (planHistoryReadRecording i) l
      | Get_seq t \<Rightarrow> snd (getConsumedSeq ops t l)
      | Get_exact t \<Rightarrow> snd (getConsumedExactSeqs ops t l))"

text \<open>What a call records: the key it resolves to, the context of the moment, the number.\<close>

definition read_bookings :: "'s store_ops \<Rightarrow> string \<Rightarrow> int option \<Rightarrow> 's ledger \<Rightarrow> booking list" where
  "read_bookings ops t v l =
     (let k = canonicalTargetKey ops t l
      in if k = [] then [] else [(k, so_currentContextId ops (lg_store l), positiveFiniteNumber v)])"

definition step_bookings :: "'s store_ops \<Rightarrow> seen_step \<Rightarrow> 's ledger \<Rightarrow> booking list" where
  "step_bookings ops st l =
     (case st of
        Record_read t v \<Rightarrow> read_bookings ops t v l
      | Record_seqs es \<Rightarrow>
          map (\<lambda>(k, v). (k, so_currentContextId ops (lg_store l), Some v))
            (keyed_updates ops l (filter (\<lambda>(t, v). 0 < v) es))
      | Record_history i \<Rightarrow>
          (case planHistoryReadRecording i of
             Some p \<Rightarrow>
               (case hp_record p of
                  Read_record v \<Rightarrow>
                    read_bookings ops (hp_target p) v (recordTargetAlias ops (hp_spelling p) (hp_target p) l)
                | Exact_record _ \<Rightarrow> [])
           | None \<Rightarrow> [])
      | _ \<Rightarrow> [])"

fun seen_run ::
  "'s store_ops \<Rightarrow> (string option \<Rightarrow> 's \<Rightarrow> 's) \<Rightarrow> seen_step list \<Rightarrow> 's ledger \<Rightarrow> 's ledger" where
  "seen_run ops set_ctx [] l = l"
| "seen_run ops set_ctx (st # sts) l = seen_run ops set_ctx sts (seen_exec ops set_ctx st l)"

fun run_bookings ::
  "'s store_ops \<Rightarrow> (string option \<Rightarrow> 's \<Rightarrow> 's) \<Rightarrow> seen_step list \<Rightarrow> 's ledger \<Rightarrow> booking list" where
  "run_bookings ops set_ctx [] l = []"
| "run_bookings ops set_ctx (st # sts) l =
     step_bookings ops st l @ run_bookings ops set_ctx sts (seen_exec ops set_ctx st l)"

section \<open>The contract\<close>

definition evidence :: "'s store_ops \<Rightarrow> string \<Rightarrow> 's \<Rightarrow> (string option \<times> int option) option" where
  "evidence ops k s = map_option (\<lambda>e. (se_contextId e, se_seq e)) (so_readStreamEntry ops k s)"

lemma lg_store_inThisContext [simp]: "lg_store (snd (inThisContext ops f k e l)) = lg_store l"
  by (auto simp: inThisContext_def Let_def split: option.splits)

lemma lg_store_getters [simp]:
  "lg_store (snd (getConsumedSeq ops t l)) = lg_store l" "lg_store (snd (getConsumedExactSeqs ops t l)) = lg_store l"
  by (simp_all add: getConsumedSeq_def getConsumedExactSeqs_def Let_def split_beta)

locale consumed_store =
  fixes ops :: "'s store_ops" and set_ctx :: "string option \<Rightarrow> 's \<Rightarrow> 's" and invar :: "'s \<Rightarrow> bool"
  assumes book_nil: "so_bookStreamEntries ops [] c s = s"
    and book_cons: "so_bookStreamEntries ops (e # es) c s = so_bookStreamEntries ops es c (so_bookStreamEntries ops [e] c s)"
    and read_booked: "invar s \<Longrightarrow> k \<noteq> [] \<Longrightarrow>
      evidence ops k (so_bookStreamEntries ops [(k, v)] c s) =
        Some (c, merge_seq (evidence ops k s) (positiveFiniteNumber v) c)"
    and read_booked_other: "invar s \<Longrightarrow> k' \<noteq> k \<Longrightarrow>
      evidence ops k' (so_bookStreamEntries ops [(k, v)] c s) = evidence ops k' s"
    and read_alias: "evidence ops k (so_bookTargetAlias ops a b s) = evidence ops k s"
    and read_exact: "evidence ops k (so_bookExactSeqs ops xs c s) = evidence ops k s"
    and read_set_ctx: "evidence ops k (set_ctx c s) = evidence ops k s"
    and invar_book: "invar s \<Longrightarrow> invar (so_bookStreamEntries ops [(k, v)] c s)"
    and invar_alias: "invar s \<Longrightarrow> invar (so_bookTargetAlias ops a b s)"
    and invar_exact: "invar s \<Longrightarrow> invar (so_bookExactSeqs ops xs c s)"
    and invar_set_ctx: "invar s \<Longrightarrow> invar (set_ctx c s)"
begin

text \<open>The store agrees with a log.\<close>

definition agrees :: "booking list \<Rightarrow> 's \<Rightarrow> bool" where
  "agrees log s \<longleftrightarrow> invar s \<and> (\<forall>k. evidence ops k s = log_evidence log k)"

lemma agrees_book:
  assumes "agrees log s" "k \<noteq> []"
  shows "agrees (log @ [(k, c, positiveFiniteNumber v)]) (so_bookStreamEntries ops [(k, v)] c s)"
  unfolding agrees_def
proof (intro conjI allI)
  show "invar (so_bookStreamEntries ops [(k, v)] c s)" using assms by (simp add: agrees_def invar_book)
  fix k'
  show "evidence ops k' (so_bookStreamEntries ops [(k, v)] c s) =
      log_evidence (log @ [(k, c, positiveFiniteNumber v)]) k'"
    using assms by (cases "k' = k") (simp_all add: agrees_def read_booked read_booked_other log_evidence_snoc)
qed

lemma agrees_book_all:
  assumes "agrees log s" "\<forall>(k, v)\<in>set es. k \<noteq> []"
  shows "agrees (log @ map (\<lambda>(k, v). (k, c, positiveFiniteNumber v)) es) (so_bookStreamEntries ops es c s)"
  using assms
proof (induction es arbitrary: log s)
  case (Cons e es)
  obtain k v where e: "e = (k, v)" by fastforce
  have "agrees (log @ [(k, c, positiveFiniteNumber v)]) (so_bookStreamEntries ops [(k, v)] c s)"
    using Cons.prems e by (intro agrees_book) auto
  from Cons.IH [OF this] Cons.prems show ?case unfolding e by (subst book_cons) simp
qed (simp add: book_nil)

lemma agrees_read:
  "agrees log (lg_store l) \<Longrightarrow> agrees (log @ read_bookings ops t v l) (lg_store (recordConsumedRead ops t v l))"
  using agrees_book [of log "lg_store l" "canonicalTargetKey ops t l" _ "positiveFiniteNumber v"]
  by (auto simp: read_bookings_def recordConsumedRead_def Let_def set_store_def positiveFiniteNumber_def
      split: option.splits if_splits)

lemma agrees_record_alias:
  "agrees log (lg_store l) \<Longrightarrow> agrees log (lg_store (recordTargetAlias ops a b l))"
  by (auto simp: agrees_def recordTargetAlias_def set_store_def read_alias invar_alias split: option.splits)

lemma agrees_record_exact:
  "agrees log (lg_store l) \<Longrightarrow> agrees log (lg_store (recordConsumedExactSeqs ops es l))"
  by (auto simp: agrees_def recordConsumedExactSeqs_def Let_def set_store_def read_exact invar_exact)


end

lemma keyed_updates_keys: "[] \<notin> fst ` set (keyed_updates ops l es)"
proof -
  have "[] \<notin> fst ` set (fold (\<lambda>(target, v) updates.
       let key = canonicalTargetKey ops target l in if key = [] then updates else oset key v updates) es acc)"
    if "[] \<notin> fst ` set acc" for acc
    using that
  proof (induction es arbitrary: acc)
    case (Cons e es)
    show ?case
      using Cons.prems unfolding fold_simps
      by (intro Cons.IH) (simp add: Let_def dom_update split_beta)
  qed simp
  from this [of "[]"] show ?thesis by (simp add: keyed_updates_def)
qed

lemma keyed_updates_positive:
  assumes "\<forall>(t, v)\<in>set es. P v"
  shows "\<forall>(k, v)\<in>set (keyed_updates ops l es). P v"
proof -
  have upd: "\<forall>(k, v)\<in>set (oset t v acc). P v" if "\<forall>(k, v)\<in>set acc. P v" "P v" for t v acc
    using that by (induction acc) (auto split: if_splits)
  have "\<forall>(k, v)\<in>set (fold (\<lambda>(target, v) updates.
       let key = canonicalTargetKey ops target l in if key = [] then updates else oset key v updates) es acc). P v"
    if "\<forall>(k, v)\<in>set acc. P v" for acc
    using that assms
  proof (induction es arbitrary: acc)
    case (Cons e es)
    obtain t v where e: "e = (t, v)" by fastforce
    show ?case
      using Cons.prems upd [OF Cons.prems(1), of v] unfolding fold_simps e
      by (intro Cons.IH) (auto simp: Let_def)
  qed simp
  from this [of "[]"] show ?thesis by (simp add: keyed_updates_def)
qed

context consumed_store
begin

lemma agrees_record_seqs:
  assumes "agrees log (lg_store l)"
  shows "agrees (log @ step_bookings ops (Record_seqs es) l) (lg_store (recordConsumedSeqs ops es l))"
proof -
  define us where "us = keyed_updates ops l (filter (\<lambda>(t, v). 0 < v) es)"
  let ?c = "so_currentContextId ops (lg_store l)"
  have keys: "\<forall>(k, v)\<in>set (map (\<lambda>(k, v). (k, Some v)) us). k \<noteq> []"
    using keyed_updates_keys [of ops l] unfolding us_def by force
  have "\<forall>(k, v)\<in>set us. 0 < v" unfolding us_def by (rule keyed_updates_positive) auto
  then have eq: "map (\<lambda>(k, v). (k, ?c, positiveFiniteNumber v)) (map (\<lambda>(k, v). (k, Some v)) us) =
      map (\<lambda>(k, v). (k, ?c, Some v)) us"
    by (auto simp: positiveFiniteNumber_def)
  have "agrees (log @ map (\<lambda>(k, v). (k, ?c, Some v)) us)
      (so_bookStreamEntries ops (map (\<lambda>(k, v). (k, Some v)) us) ?c (lg_store l))"
    using agrees_book_all [OF assms keys, of ?c] unfolding eq .
  with assms show ?thesis
    by (cases "us = []")
       (simp_all add: step_bookings_def recordConsumedSeqs_def Let_def set_store_def us_def [symmetric])
qed

lemma agrees_step:
  assumes "agrees log (lg_store l)"
  shows "agrees (log @ step_bookings ops st l) (lg_store (seen_exec ops set_ctx st l))"
proof (cases st)
  case (Set_context c)
  with assms show ?thesis
    by (simp add: seen_exec_def step_bookings_def agrees_def set_store_def read_set_ctx invar_set_ctx)
next
  case (Record_history i)
  show ?thesis
  proof (cases "planHistoryReadRecording i")
    case None
    with assms show ?thesis by (simp add: Record_history seen_exec_def step_bookings_def recordHistoryRead_def)
  next
    case (Some p)
    let ?l = "recordTargetAlias ops (hp_spelling p) (hp_target p) l"
    have "agrees log (lg_store ?l)" by (rule agrees_record_alias [OF assms])
    with Some show ?thesis
      using agrees_read [of log ?l "hp_target p"] agrees_record_exact [of log ?l]
      by (cases "hp_record p")
         (simp_all add: Record_history seen_exec_def step_bookings_def recordHistoryRead_def Let_def)
  qed
qed (use assms agrees_record_alias agrees_read agrees_record_exact agrees_record_seqs in
     \<open>simp_all add: seen_exec_def step_bookings_def\<close>)

lemma agrees_run:
  "agrees log (lg_store l) \<Longrightarrow> agrees (log @ run_bookings ops set_ctx sts l) (lg_store (seen_run ops set_ctx sts l))"
proof (induction sts arbitrary: log l)
  case (Cons st sts)
  from Cons.IH [OF agrees_step [OF Cons.prems]] show ?case by simp
qed simp

text \<open>What the ledger answers, read off the log.\<close>

lemma consumed_seq_from_log:
  assumes "agrees log (lg_store l)"
  shows "fst (getConsumedSeq ops t l) =
    (let k = canonicalTargetKey ops t l; c = so_currentContextId ops (lg_store l)
     in if k = [] then None
        else case log_evidence log k of
          None \<Rightarrow> None
        | Some (booked, seq) \<Rightarrow> if c = None \<or> booked = c then seq else None)"
proof -
  have ev: "log_evidence log k = evidence ops k (lg_store l)" for k using assms by (simp add: agrees_def)
  show ?thesis
    by (cases "so_readStreamEntry ops (canonicalTargetKey ops t l) (lg_store l)")
       (auto simp: ev getConsumedSeq_def Let_def inThisContext_def evidence_def)
qed

end

section \<open>The reference store keeps the contract\<close>

definition row_ok :: "stream_row \<Rightarrow> bool" where
  "row_ok r \<longleftrightarrow> (\<exists>n>0. sr_readOrder r = Some n) \<and> positiveFiniteNumber (sr_seq r) = sr_seq r"

definition mem_invar :: "mem_store \<Rightarrow> bool" where
  "mem_invar s \<longleftrightarrow> 0 < ms_nextReadOrder s \<and> (\<forall>k r. oget (ms_streams s) k = Some r \<longrightarrow> row_ok r)"

lemma memory_ops_simps [simp]:
  "so_currentContextId memory_ops = ms_contextId" "so_resolveCanonicalTarget memory_ops = resolveCanonicalTarget"
  "so_bookTargetAlias memory_ops = bookTargetAlias" "so_readStreamEntry memory_ops = readStreamEntry"
  "so_readAllStreamEntries memory_ops = readAllStreamEntries" "so_bookStreamEntries memory_ops = bookStreamEntries"
  "so_readExactSeqsWithContext memory_ops = readExactSeqsWithContext" "so_bookExactSeqs memory_ops = bookExactSeqs"
  "so_readDraft memory_ops = readDraft" "so_writeDraft memory_ops = writeDraft"
  "so_deleteDraft memory_ops = deleteDraft" "so_deleteDraftIfSavedAt memory_ops = deleteDraftIfSavedAt"
  "so_deleteDraftIfIdempotencyKeyMatches memory_ops = deleteDraftIfIdempotencyKeyMatches"
  by (simp_all add: memory_ops_def)

text \<open>The new row of a booking; the rest of it only touches the exact observations.\<close>

definition next_seq :: "mem_store \<Rightarrow> string \<Rightarrow> int option \<Rightarrow> string option \<Rightarrow> int option" where
  "next_seq s k v c =
     merge_seq (map_option (\<lambda>r. (sr_contextId r, sr_seq r)) (oget (ms_streams s) k)) (positiveFiniteNumber v) c"

lemma book_stream_entry_streams:
  assumes "k \<noteq> []"
  shows "ms_streams (book_stream_entry c (k, v) s) =
      oset k \<lparr>sr_seq = next_seq s k v c, sr_readOrder = Some (ms_nextReadOrder s), sr_contextId = c\<rparr> (ms_streams s)"
    "ms_nextReadOrder (book_stream_entry c (k, v) s) = ms_nextReadOrder s + 1"
    "ms_contextId (book_stream_entry c (k, v) s) = ms_contextId s"
    "ms_aliases (book_stream_entry c (k, v) s) = ms_aliases s"
  using assms
  by (auto simp: book_stream_entry_def Let_def next_seq_def merge_seq_def max_def split: option.splits)

lemma book_exact_entry_frame [simp]:
  "ms_streams (book_exact_entry c e s) = ms_streams s"
  "ms_nextReadOrder (book_exact_entry c e s) = ms_nextReadOrder s"
  "ms_contextId (book_exact_entry c e s) = ms_contextId s"
  "ms_aliases (book_exact_entry c e s) = ms_aliases s"
  by (auto simp: book_exact_entry_def Let_def split: prod.splits)

lemma bookExactSeqs_frame [simp]:
  "ms_streams (bookExactSeqs es c s) = ms_streams s" "ms_nextReadOrder (bookExactSeqs es c s) = ms_nextReadOrder s"
  "ms_contextId (bookExactSeqs es c s) = ms_contextId s" "ms_aliases (bookExactSeqs es c s) = ms_aliases s"
  unfolding bookExactSeqs_def by (induction es arbitrary: s) auto

lemma evidence_row:
  assumes "mem_invar s"
  shows "evidence memory_ops k s = map_option (\<lambda>r. (sr_contextId r, sr_seq r)) (oget (ms_streams s) k)"
proof (cases "oget (ms_streams s) k")
  case (Some r)
  with assms have "row_ok r" by (simp add: mem_invar_def)
  then have "toEntry r = Some \<lparr>se_seq = sr_seq r, se_readOrder = sr_readOrder r, se_contextId = sr_contextId r\<rparr>"
    by (auto simp: toEntry_def row_ok_def positiveFiniteNumber_def split: option.splits if_splits)
  with Some show ?thesis by (simp add: evidence_def readStreamEntry_def)
qed (simp add: evidence_def readStreamEntry_def)

lemma next_seq_positive:
  assumes "mem_invar s"
  shows "positiveFiniteNumber (next_seq s k v c) = next_seq s k v c"
proof (cases "oget (ms_streams s) k")
  case None
  then show ?thesis by (auto simp: next_seq_def merge_seq_def positiveFiniteNumber_def split: option.splits)
next
  case (Some r)
  with assms have "row_ok r" by (simp add: mem_invar_def)
  with Some show ?thesis
    by (auto simp: next_seq_def merge_seq_def positiveFiniteNumber_def row_ok_def split: option.splits if_splits)
qed

lemma mem_invar_book:
  assumes "mem_invar s"
  shows "mem_invar (book_stream_entry c (k, v) s)"
proof (cases "k = []")
  case True
  with assms show ?thesis by (simp add: book_stream_entry_def)
next
  case False
  with assms show ?thesis
    using next_seq_positive [OF assms, of k v c]
    by (auto simp: mem_invar_def book_stream_entry_streams map_specs row_ok_def split: if_splits)
qed

interpretation mem: consumed_store memory_ops setContextId mem_invar
proof
  show "so_bookStreamEntries memory_ops (e # es) c s =
      so_bookStreamEntries memory_ops es c (so_bookStreamEntries memory_ops [e] c s)" for e es c s
    by (simp add: bookStreamEntries_def)
  show "evidence memory_ops k (so_bookStreamEntries memory_ops [(k, v)] c s) =
      Some (c, merge_seq (evidence memory_ops k s) (positiveFiniteNumber v) c)" if "mem_invar s" "k \<noteq> []" for s k v c
    using that evidence_row [OF mem_invar_book [OF that(1), of c k v]]
    by (simp add: bookStreamEntries_def evidence_row book_stream_entry_streams map_specs next_seq_def)
  show "evidence memory_ops k' (so_bookStreamEntries memory_ops [(k, v)] c s) = evidence memory_ops k' s"
    if "mem_invar s" "k' \<noteq> k" for s k k' v c
    using that evidence_row [OF mem_invar_book [OF that(1), of c k v]]
    by (cases "k = []") (simp_all add: bookStreamEntries_def evidence_row book_stream_entry_streams map_specs,
        simp add: book_stream_entry_def evidence_row)
  show "mem_invar (so_bookStreamEntries memory_ops [(k, v)] c s)" if "mem_invar s" for s k v c
    using that by (simp add: bookStreamEntries_def mem_invar_book)
qed (auto simp: bookStreamEntries_def bookTargetAlias_def setContextId_def evidence_def readStreamEntry_def mem_invar_def)

lemma mem_agrees_empty: "mem.agrees [] (createMemoryCommandStateStore c)"
  by (simp add: mem.agrees_def mem_invar_def createMemoryCommandStateStore_def evidence_def readStreamEntry_def
      log_evidence_def bookings_of_def)

section \<open>The log as it was asked for\<close>

text \<open>
  \<open>step_bookings\<close> is what reaches the store. This is what the calls ask to record: every positive number of
  \<open>recordConsumedSeqs\<close> under the key of its target, before the code collects them in an object in which
  a later entry replaces an earlier one of the same key.
\<close>

definition asked_seqs :: "'s store_ops \<Rightarrow> (string, int) omap \<Rightarrow> 's ledger \<Rightarrow> (string \<times> int) list" where
  "asked_seqs ops es l =
     map (\<lambda>(t, v). (canonicalTargetKey ops t l, v)) (filter (\<lambda>(t, v). 0 < v \<and> canonicalTargetKey ops t l \<noteq> []) es)"

definition step_asked :: "'s store_ops \<Rightarrow> seen_step \<Rightarrow> 's ledger \<Rightarrow> booking list" where
  "step_asked ops st l =
     (case st of
        Record_seqs es \<Rightarrow> map (\<lambda>(k, v). (k, so_currentContextId ops (lg_store l), Some v)) (asked_seqs ops es l)
      | _ \<Rightarrow> step_bookings ops st l)"

fun run_asked ::
  "'s store_ops \<Rightarrow> (string option \<Rightarrow> 's \<Rightarrow> 's) \<Rightarrow> seen_step list \<Rightarrow> 's ledger \<Rightarrow> booking list" where
  "run_asked ops set_ctx [] l = []"
| "run_asked ops set_ctx (st # sts) l = step_asked ops st l @ run_asked ops set_ctx sts (seen_exec ops set_ctx st l)"

text \<open>No call names two spellings of one key.\<close>

definition step_apart :: "'s store_ops \<Rightarrow> seen_step \<Rightarrow> 's ledger \<Rightarrow> bool" where
  "step_apart ops st l = (case st of Record_seqs es \<Rightarrow> distinct (map fst (asked_seqs ops es l)) | _ \<Rightarrow> True)"

fun keys_apart :: "'s store_ops \<Rightarrow> (string option \<Rightarrow> 's \<Rightarrow> 's) \<Rightarrow> seen_step list \<Rightarrow> 's ledger \<Rightarrow> bool" where
  "keys_apart ops set_ctx [] l = True"
| "keys_apart ops set_ctx (st # sts) l = (step_apart ops st l \<and> keys_apart ops set_ctx sts (seen_exec ops set_ctx st l))"

lemma keyed_updates_asked:
  "keyed_updates ops l (filter (\<lambda>(t, v). 0 < v) es) = fold (\<lambda>(k, v). oset k v) (asked_seqs ops es l) []"
proof -
  have "fold (\<lambda>(target, v) updates. let key = canonicalTargetKey ops target l in if key = [] then updates else oset key v updates)
      (filter (\<lambda>(t, v). 0 < v) es) acc = fold (\<lambda>(k, v). oset k v) (asked_seqs ops es l) acc" for acc
    by (induction es arbitrary: acc) (auto simp: asked_seqs_def Let_def)
  then show ?thesis by (simp add: keyed_updates_def)
qed

lemma oset_absent: "k \<notin> fst ` set m \<Longrightarrow> oset k v m = m @ [(k, v)]"
  by (induction m) auto

lemma fold_oset_distinct: "distinct (map fst (acc @ xs)) \<Longrightarrow> fold (\<lambda>(k, v). oset k v) xs acc = acc @ xs"
proof (induction xs arbitrary: acc)
  case (Cons x xs)
  obtain k v where x: "x = (k, v)" by fastforce
  have "k \<notin> fst ` set acc" using Cons.prems by (auto simp: x)
  with Cons.IH [of "acc @ [x]"] Cons.prems show ?case by (simp add: x oset_absent)
qed simp

lemma set_oset_subset: "set (oset k v m) \<subseteq> insert (k, v) (set m)"
  by (induction m) auto

lemma fold_oset_subset: "set (fold (\<lambda>(k, v). oset k v) xs acc) \<subseteq> set acc \<union> set xs"
proof (induction xs arbitrary: acc)
  case (Cons x xs)
  obtain k v where x: "x = (k, v)" by fastforce
  show ?case using Cons.IH [of "oset k v acc"] set_oset_subset [of k v acc] by (auto simp: x)
qed simp

lemma step_bookings_apart: "step_apart ops st l \<Longrightarrow> step_bookings ops st l = step_asked ops st l"
  by (auto simp: step_apart_def step_asked_def step_bookings_def keyed_updates_asked fold_oset_distinct split: seen_step.splits)

lemma step_bookings_subset: "set (step_bookings ops st l) \<subseteq> set (step_asked ops st l)"
proof (cases st)
  case (Record_seqs es)
  have "set (fold (\<lambda>(k, v). oset k v) (asked_seqs ops es l) []) \<subseteq> set (asked_seqs ops es l)"
    using fold_oset_subset [of "asked_seqs ops es l" "[]"] by simp
  then show ?thesis by (simp add: Record_seqs step_asked_def step_bookings_def keyed_updates_asked image_mono)
qed (simp_all add: step_asked_def)

lemma run_bookings_apart: "keys_apart ops set_ctx sts l \<Longrightarrow> run_bookings ops set_ctx sts l = run_asked ops set_ctx sts l"
  by (induction sts arbitrary: l) (simp_all add: step_bookings_apart)

lemma run_bookings_subset: "set (run_bookings ops set_ctx sts l) \<subseteq> set (run_asked ops set_ctx sts l)"
proof (induction sts arbitrary: l)
  case (Cons st sts)
  then show ?case using step_bookings_subset [of ops st l] by fastforce
qed simp

lemma log_evidence_member:
  assumes "log_evidence log k = Some (c, Some n)"
  shows "(k, c, Some n) \<in> set log"
proof -
  let ?bs = "bookings_of k log"
  have bs: "?bs \<noteq> []" "c = fst (last ?bs)" "high_water (trailing ?bs) = Some n"
    using assms by (auto simp: log_evidence_def Let_def split: if_splits)
  then have "n \<in> set (List.map_filter snd (trailing ?bs))"
    by (auto simp: high_water_def Let_def split: if_splits)
  then obtain c' where "(c', Some n) \<in> set (trailing ?bs)" by (auto simp: map_filter_def)
  then have "(c', Some n) \<in> set ?bs" "c' = c"
    using bs(2) set_takeWhileD unfolding trailing_def by fastforce+
  then show ?thesis by (auto simp: bookings_of_def)
qed

end
