(* ===== verification/Seen_Properties.thy ===== *)
theory Seen_Properties
  imports Seen_Contract
begin

text \<open>
  The properties of the seen policy over its reference store: attested numbers come from the log of
  recorded reads, exact observations are sound and bounded, recorded aliases make spellings meet,
  and a held draft comes back as it was saved until it expires.
\<close>

section \<open>Exact sequence lists\<close>

interpretation numbers: total_comparator compare_number
  by unfold_locales (auto simp: compare_number_def)

lemma set_js_dedupe [simp]: "set (js_dedupe xs) = set xs"
  by (induction xs) auto

lemma distinct_js_dedupe [simp]: "distinct (js_dedupe xs)"
  by (induction xs) auto

lemma exact_candidates_ints: "exact_candidates (map JInt xs) a = filter (\<lambda>n. 0 < n \<and> a < n) xs"
  by (induction xs) auto

definition exact_sorted :: "int list \<Rightarrow> int \<Rightarrow> int list" where
  "exact_sorted xs a = js_sort compare_number (js_dedupe (filter (\<lambda>n. 0 < n \<and> a < n) xs))"

lemma normalize_ints:
  "normalizeExactSeqs (JInts xs) a =
     drop (length (exact_sorted xs a) - MAX_EXACT_SEQS_PER_TARGET) (exact_sorted xs a)"
  by (simp add: normalizeExactSeqs_def exact_sorted_def exact_candidates_ints Let_def)

lemma exact_sorted_props:
  "set (exact_sorted xs a) = {n \<in> set xs. 0 < n \<and> a < n}" "sorted_wrt (<) (exact_sorted xs a)"
proof -
  show "set (exact_sorted xs a) = {n \<in> set xs. 0 < n \<and> a < n}" by (auto simp: exact_sorted_def)
  have "distinct (exact_sorted xs a)"
    using distinct_map_js_sort [of "\<lambda>x. x" compare_number] by (simp add: exact_sorted_def)
  moreover have "sorted (exact_sorted xs a)"
    using numbers.js_sort_sorted [of "js_dedupe (filter (\<lambda>n. 0 < n \<and> a < n) xs)"]
    by (simp add: exact_sorted_def compare_number_def)
  ultimately show "sorted_wrt (<) (exact_sorted xs a)" by (simp add: strict_sorted_iff)
qed

lemma normalize_props:
  "set (normalizeExactSeqs (JInts xs) a) \<subseteq> {n \<in> set xs. 0 < n \<and> a < n}"
  "sorted_wrt (<) (normalizeExactSeqs (JInts xs) a)"
  "length (normalizeExactSeqs (JInts xs) a) \<le> MAX_EXACT_SEQS_PER_TARGET"
  using exact_sorted_props [of xs a] set_drop_subset [of _ "exact_sorted xs a"]
  by (auto simp: normalize_ints intro: sorted_wrt_drop)

lemma normalize_id:
  assumes "sorted_wrt (<) xs" "length xs \<le> MAX_EXACT_SEQS_PER_TARGET" "\<forall>n\<in>set xs. 0 < n"
  shows "normalizeExactSeqs (JInts xs) 0 = xs"
proof -
  have "js_dedupe ys = ys" if "distinct ys" for ys :: "int list"
    using that by (induction ys) (auto simp: filter_id_conv)
  moreover have "distinct xs" "sorted xs" using assms(1) by (simp_all add: strict_sorted_iff)
  moreover have "filter (\<lambda>n. 0 < n) xs = xs" using assms(3) by (simp add: filter_id_conv)
  moreover have "js_sort compare_number xs = xs"
    using \<open>sorted xs\<close> by (intro numbers.js_sort_id) (simp add: compare_number_def)
  ultimately have "exact_sorted xs 0 = xs" by (simp add: exact_sorted_def)
  with assms(2) show ?thesis by (simp add: normalize_ints)
qed

section \<open>Where exact observations come from\<close>

type_synonym observation = "string \<times> string option \<times> int"

definition observations :: "string option \<Rightarrow> (string, int list) omap \<Rightarrow> observation set" where
  "observations c es = {(k, c, n) | k n. \<exists>xs. (k, xs) \<in> set es \<and> n \<in> set xs}"

definition step_observations :: "'s store_ops \<Rightarrow> seen_step \<Rightarrow> 's ledger \<Rightarrow> observation set" where
  "step_observations ops st l =
     (case st of
        Record_exact es \<Rightarrow>
          observations (so_currentContextId ops (lg_store l)) (keyed_updates ops l (filter (\<lambda>(t, xs). xs \<noteq> []) es))
      | Record_history i \<Rightarrow>
          (case planHistoryReadRecording i of
             Some p \<Rightarrow>
               (case hp_record p of
                  Exact_record xs \<Rightarrow>
                    let l = recordTargetAlias ops (hp_spelling p) (hp_target p) l
                    in observations (so_currentContextId ops (lg_store l))
                         (keyed_updates ops l (filter (\<lambda>(t, xs). xs \<noteq> []) [(hp_target p, xs)]))
                | Read_record _ \<Rightarrow> {})
           | None \<Rightarrow> {})
      | _ \<Rightarrow> {})"

fun run_observations ::
  "'s store_ops \<Rightarrow> (string option \<Rightarrow> 's \<Rightarrow> 's) \<Rightarrow> seen_step list \<Rightarrow> 's ledger \<Rightarrow> observation set" where
  "run_observations ops set_ctx [] l = {}"
| "run_observations ops set_ctx (st # sts) l =
     step_observations ops st l \<union> run_observations ops set_ctx sts (seen_exec ops set_ctx st l)"

definition exact_sound :: "observation set \<Rightarrow> mem_store \<Rightarrow> bool" where
  "exact_sound obs s \<longleftrightarrow>
     (\<forall>k x. oget (ms_exact s) k = Some x \<longrightarrow> (\<forall>n\<in>set (xe_seqs x). (k, xe_contextId x, n) \<in> obs))"

lemma exact_soundD:
  "exact_sound obs s \<Longrightarrow> oget (ms_exact s) k = Some x \<Longrightarrow> n \<in> set (xe_seqs x) \<Longrightarrow> (k, xe_contextId x, n) \<in> obs"
  by (auto simp: exact_sound_def)

lemma exact_sound_mono: "exact_sound obs s \<Longrightarrow> obs \<subseteq> obs' \<Longrightarrow> exact_sound obs' s"
  by (auto simp: exact_sound_def)

lemma exact_sound_book_stream:
  assumes "exact_sound obs s"
  shows "exact_sound obs (book_stream_entry c (k, v) s)"
proof -
  have norm: "set (normalizeExactSeqs (JInts xs) a) \<subseteq> set xs" for xs a
    using normalize_props(1) [of xs a] by blast
  show ?thesis
    using assms norm
    by (fastforce simp: exact_sound_def book_stream_entry_def Let_def map_specs split: option.splits if_splits)
qed

lemma exact_sound_book_exact:
  assumes "exact_sound obs s"
  shows "exact_sound (obs \<union> observations c [(k, xs)]) (book_exact_entry c (k, xs) s)"
proof -
  define seqs where "seqs = normalizeExactSeqs (JInts xs) 0"
  define earlier where "earlier = (case oget (ms_exact s) k of
      Some x \<Rightarrow> if xe_contextId x = c then xe_seqs x else [] | None \<Rightarrow> [])"
  define merged where "merged = normalizeExactSeqs (JInts (earlier @ seqs)) (exactFloor k c s)"
  have sub: "set merged \<subseteq> set earlier \<union> set seqs" "set seqs \<subseteq> set xs"
    using normalize_props(1) [of "earlier @ seqs" "exactFloor k c s"] normalize_props(1) [of xs 0]
    unfolding merged_def seqs_def by auto
  have "(k, c, n) \<in> obs" if "n \<in> set earlier" for n
    using that exact_soundD [OF assms] by (auto simp: earlier_def split: option.splits if_splits)
  moreover have "(k, c, n) \<in> observations c [(k, xs)]" if "n \<in> set seqs" for n
    using that sub(2) by (auto simp: observations_def)
  ultimately have new: "\<forall>n\<in>set merged. (k, c, n) \<in> obs \<union> observations c [(k, xs)]" using sub(1) by blast
  have "book_exact_entry c (k, xs) s =
      (if k = [] \<or> seqs = [] \<or> merged = [] then s
       else s\<lparr>ms_exact := oset k \<lparr>xe_seqs = merged, xe_contextId = c\<rparr> (ms_exact s)\<rparr>)"
    by (simp add: book_exact_entry_def Let_def seqs_def earlier_def merged_def)
  with assms new show ?thesis by (auto simp: exact_sound_def map_specs split: if_splits)
qed

lemma exact_sound_book_streams:
  "exact_sound obs s \<Longrightarrow> exact_sound obs (bookStreamEntries es c s)"
  unfolding bookStreamEntries_def
  by (induction es arbitrary: s) (auto simp: exact_sound_book_stream split_paired_all)

lemma exact_sound_book_exacts:
  "exact_sound obs s \<Longrightarrow> exact_sound (obs \<union> observations c es) (bookExactSeqs es c s)"
proof (induction es arbitrary: obs s)
  case (Cons e es)
  obtain k xs where e: "e = (k, xs)" by fastforce
  have "obs \<union> observations c (e # es) = (obs \<union> observations c [(k, xs)]) \<union> observations c es"
    by (auto simp: e observations_def)
  with Cons.IH [OF exact_sound_book_exact [OF Cons.prems, of c k xs]] show ?case
    by (simp add: e bookExactSeqs_def)
qed (simp add: bookExactSeqs_def observations_def)

abbreviation mem_ledger :: "string option \<Rightarrow> mem_store ledger" where
  "mem_ledger c \<equiv> \<lparr>lg_store = createMemoryCommandStateStore c, lg_withheldForContext = []\<rparr>"

lemma exact_sound_frames:
  "exact_sound obs (bookTargetAlias a b s) = exact_sound obs s" "exact_sound obs (setContextId c s) = exact_sound obs s"
  by (simp_all add: exact_sound_def bookTargetAlias_def setContextId_def)

lemma exact_sound_alias:
  "exact_sound obs (lg_store l) \<Longrightarrow> exact_sound obs (lg_store (recordTargetAlias memory_ops a b l))"
  by (auto simp: recordTargetAlias_def set_store_def exact_sound_frames split: option.splits)

lemma exact_sound_read:
  "exact_sound obs (lg_store l) \<Longrightarrow> exact_sound obs (lg_store (recordConsumedRead memory_ops t v l))"
  by (auto simp: recordConsumedRead_def Let_def set_store_def exact_sound_book_streams)

lemma exact_sound_exact:
  assumes "exact_sound obs (lg_store l)"
  shows "exact_sound (obs \<union> observations (ms_contextId (lg_store l))
    (keyed_updates memory_ops l (filter (\<lambda>(t, xs). xs \<noteq> []) es))) (lg_store (recordConsumedExactSeqs memory_ops es l))"
  using assms exact_sound_book_exacts [OF assms] exact_sound_mono [OF assms]
  by (auto simp: recordConsumedExactSeqs_def Let_def set_store_def)

lemma exact_sound_step:
  assumes "exact_sound obs (lg_store l)"
  shows "exact_sound (obs \<union> step_observations memory_ops st l) (lg_store (seen_exec memory_ops setContextId st l))"
proof (cases st)
  case (Record_exact es)
  with exact_sound_exact [OF assms, of es] show ?thesis by (simp add: step_observations_def seen_exec_def)
next
  case (Record_history i)
  show ?thesis
  proof (cases "planHistoryReadRecording i")
    case None
    with assms show ?thesis by (simp add: Record_history seen_exec_def step_observations_def recordHistoryRead_def)
  next
    case (Some p)
    let ?l = "recordTargetAlias memory_ops (hp_spelling p) (hp_target p) l"
    have "exact_sound obs (lg_store ?l)" by (rule exact_sound_alias [OF assms])
    with Some exact_sound_exact [OF this] exact_sound_read [OF this] show ?thesis
      by (cases "hp_record p")
         (simp_all add: Record_history seen_exec_def step_observations_def recordHistoryRead_def Let_def
            del: filter.simps)
  qed
qed (use assms exact_sound_alias exact_sound_read exact_sound_book_streams in
     \<open>auto simp: seen_exec_def step_observations_def set_store_def exact_sound_frames recordConsumedSeqs_def Let_def\<close>)

lemma exact_sound_run:
  "exact_sound obs (lg_store l) \<Longrightarrow>
    exact_sound (obs \<union> run_observations memory_ops setContextId sts l) (lg_store (seen_run memory_ops setContextId sts l))"
proof (induction sts arbitrary: obs l)
  case (Cons st sts)
  from Cons.IH [OF exact_sound_step [OF Cons.prems]] show ?case by (simp add: Un_assoc)
qed simp

lemma exact_sound_from_empty:
  "exact_sound (run_observations memory_ops setContextId sts (mem_ledger c0))
    (lg_store (seen_run memory_ops setContextId sts (mem_ledger c0)))"
  using exact_sound_run [of "{}" "mem_ledger c0" sts]
  by (simp add: exact_sound_def createMemoryCommandStateStore_def)

text \<open>What the getter returns is a filtered row of its own context.\<close>

lemma consumed_exact_row:
  fixes l :: "mem_store ledger" and t :: string
  defines "k \<equiv> canonicalTargetKey memory_ops t l" and "c \<equiv> ms_contextId (lg_store l)"
  assumes "n \<in> set (fst (getConsumedExactSeqs memory_ops t l))"
  shows "\<exists>x. oget (ms_exact (lg_store l)) k = Some x \<and> n \<in> set (xe_seqs x) \<and> (c = None \<or> xe_contextId x = c) \<and>
    exactFloor k (xe_contextId x) (lg_store l) < n \<and> 0 < n"
proof (cases "oget (ms_exact (lg_store l)) k")
  case None
  with assms show ?thesis
    by (simp add: getConsumedExactSeqs_def Let_def readExactSeqsWithContext_def inThisContext_def
        normalizeExactSeqs_def split: if_splits)
next
  case (Some x)
  then have "n \<in> set (normalizeExactSeqs (JInts (xe_seqs x)) (exactFloor k (xe_contextId x) (lg_store l)))"
    "c = None \<or> xe_contextId x = c"
    using assms
    by (auto simp: getConsumedExactSeqs_def Let_def readExactSeqsWithContext_def inThisContext_def split: if_splits)
  with normalize_props(1) [of "xe_seqs x" "exactFloor k (xe_contextId x) (lg_store l)"] Some show ?thesis by blast
qed

lemma consumed_exact_shape:
  "sorted_wrt (<) (fst (getConsumedExactSeqs memory_ops t l))"
  "length (fst (getConsumedExactSeqs memory_ops t l)) \<le> MAX_EXACT_SEQS_PER_TARGET"
  using normalize_props(2,3)
  by (auto simp: getConsumedExactSeqs_def Let_def readExactSeqsWithContext_def inThisContext_def split: if_splits)

lemma consumed_seq_floor:
  assumes "fst (getConsumedSeq memory_ops t l) = Some s" "ms_contextId (lg_store l) = Some c"
  shows "exactFloor (canonicalTargetKey memory_ops t l) (Some c) (lg_store l) = s"
  using assms
  by (auto simp: getConsumedSeq_def Let_def inThisContext_def readStreamEntry_def toEntry_def exactFloor_def
      split: option.splits if_splits)

section \<open>Aliases\<close>

definition alias_rel :: "(string, string) omap \<Rightarrow> (string \<times> string) set" where
  "alias_rel al = {(x, y). oget al x = Some y}"

lemma follow_aliases_avoid:
  "(x, a) \<notin> (alias_rel al)\<^sup>* \<Longrightarrow> set seen' - {a} = set seen - {a} \<Longrightarrow>
    follow_aliases (oset a b al) seen' x = follow_aliases al seen x"
proof (induction al seen x arbitrary: seen' rule: follow_aliases.induct)
  case (1 al seen x)
  then have "x \<noteq> a" by auto
  show ?case
  proof (cases "oget al x")
    case None
    with \<open>x \<noteq> a\<close> show ?thesis by (simp add: follow_aliases.simps map_specs)
  next
    case (Some y)
    then have step: "(x, y) \<in> alias_rel al" by (simp add: alias_rel_def)
    then have y: "(y, a) \<notin> (alias_rel al)\<^sup>*" using "1.prems"(1) by (meson converse_rtrancl_into_rtrancl)
    then have "y \<noteq> a" by auto
    then have mem: "y \<in> set seen' \<longleftrightarrow> y \<in> set seen" using "1.prems"(2) by blast
    show ?thesis
    proof (cases "y \<in> set seen \<or> \<not> isTrustedCanonicalTarget y")
      case True
      with Some \<open>x \<noteq> a\<close> mem show ?thesis
        by (simp add: follow_aliases.simps [of _ _ x] map_specs)
    next
      case False
      have "follow_aliases (oset a b al) (seen' @ [y]) y = follow_aliases al (seen @ [y]) y"
        using False "1.prems"(2) by (intro "1.IH" [OF Some _ y]) auto
      with Some False \<open>x \<noteq> a\<close> mem show ?thesis
        by (simp add: follow_aliases.simps [of _ _ x] map_specs)
    qed
  qed
qed

lemma follow_aliases_trusted:
  "isTrustedCanonicalTarget x \<Longrightarrow> isTrustedCanonicalTarget (follow_aliases al seen x)"
proof (induction al seen x rule: follow_aliases.induct)
  case (1 al seen x)
  then show ?case by (subst follow_aliases.simps) (auto split: option.splits)
qed

lemma alias_booked:
  assumes "isTrustedCanonicalTarget a" "isTrustedCanonicalTarget b" "(b, a) \<notin> (alias_rel (ms_aliases s))\<^sup>*"
  shows "resolveCanonicalTarget a (bookTargetAlias a b s) = resolveCanonicalTarget b s"
    "resolveCanonicalTarget b (bookTargetAlias a b s) = resolveCanonicalTarget b s"
proof -
  have "a \<noteq> b" using assms(3) by auto
  then have al: "ms_aliases (bookTargetAlias a b s) = oset a b (ms_aliases s)" using assms by (simp add: bookTargetAlias_def)
  have "follow_aliases (oset a b (ms_aliases s)) [a] a = follow_aliases (oset a b (ms_aliases s)) [a, b] b"
    using assms(2) \<open>a \<noteq> b\<close> by (subst follow_aliases.simps) (simp add: map_specs)
  also have "\<dots> = follow_aliases (ms_aliases s) [b] b"
    using assms(3) by (intro follow_aliases_avoid) auto
  finally show "resolveCanonicalTarget a (bookTargetAlias a b s) = resolveCanonicalTarget b s"
    by (simp add: resolveCanonicalTarget_def al)
  show "resolveCanonicalTarget b (bookTargetAlias a b s) = resolveCanonicalTarget b s"
    using assms(3) follow_aliases_avoid [of b a "ms_aliases s" "[b]" "[b]" b] by (simp add: resolveCanonicalTarget_def al)
qed

lemma canonicalize_trusted: "canonicalizeConsumedTarget t = Some a \<Longrightarrow> isTrustedCanonicalTarget a"
  by (auto simp: canonicalizeConsumedTarget_def Let_def split: if_splits)

lemma lg_recordTargetAlias:
  assumes "canonicalizeConsumedTarget raw = Some a" "canonicalizeConsumedTarget canonical = Some b"
  shows "recordTargetAlias memory_ops raw canonical l = set_store (bookTargetAlias a b (lg_store l)) l"
  using assms by (simp add: recordTargetAlias_def bookTargetAlias_def set_store_def)

section \<open>Drafts\<close>

text \<open>A draft as the policy writes it: nothing in it would be normalised away.\<close>

definition draft_canonical :: "(jsval \<Rightarrow> jsval option) \<Rightarrow> saved_draft \<Rightarrow> bool" where
  "draft_canonical parseMention d \<longleftrightarrow>
     (\<forall>k. sd_idempotencyKey d = Some k \<longrightarrow> k \<noteq> [] \<and> js_trim k = k) \<and>
     (\<forall>ms. sd_mentions d = Some ms \<longrightarrow> ms \<noteq> [] \<and> (\<forall>m\<in>set ms. parseMention m = Some m)) \<and>
     (\<forall>xs. sd_seenExactSeqs d = Some xs \<longrightarrow>
        xs \<noteq> [] \<and> sorted_wrt (<) xs \<and> length xs \<le> MAX_EXACT_SEQS_PER_TARGET \<and> (\<forall>n\<in>set xs. 0 < n))"

lemma string_items_map: "string_items (map JStr xs) = xs"
  by (induction xs) auto

lemma map_filter_id: "\<forall>m\<in>set ms. f m = Some m \<Longrightarrow> List.map_filter f ms = ms"
  by (induction ms) (auto simp: map_filter_simps)

lemma canonical_exact:
  assumes "draft_canonical parseMention d"
  shows "normalizeExactSeqs (case sd_seenExactSeqs d of None \<Rightarrow> JUndef | Some xs \<Rightarrow> JInts xs) 0 =
      (case sd_seenExactSeqs d of None \<Rightarrow> [] | Some xs \<Rightarrow> xs)"
    "sd_seenExactSeqs d = Some xs \<Longrightarrow> normalizeExactSeqs (JInts xs) 0 = xs \<and> xs \<noteq> []"
  using assms normalize_id
  by (auto simp: draft_canonical_def normalizeExactSeqs_def [of JUndef] split: option.splits)

lemma canonical_key:
  assumes "draft_canonical parseMention d"
  shows "(case (case sd_idempotencyKey d of Some (c # cs) \<Rightarrow> Some (c # cs) | _ \<Rightarrow> None) of
      None \<Rightarrow> None | Some k \<Rightarrow> if js_trim k \<noteq> [] then Some (js_trim k) else None) = sd_idempotencyKey d"
  using assms by (auto simp: draft_canonical_def split: option.splits list.splits)

lemma canonical_mentions:
  assumes "draft_canonical parseMention d"
  shows "(case map_option (List.map_filter parseMention)
        (case sd_mentions d of Some (m # ms) \<Rightarrow> Some (m # ms) | _ \<Rightarrow> None) of
      Some (m # ms) \<Rightarrow> Some (m # ms) | _ \<Rightarrow> None) = sd_mentions d"
  using assms map_filter_id [of _ parseMention]
  by (auto simp: draft_canonical_def split: option.splits list.splits)

section \<open>Properties\<close>

text \<open>
  C17. The attested sequence number is what was read. The log has every number that a call asked to record
  (reads, sequence records, history windows), under the key its target resolves to and in the context of
  the moment. After any run of ledger calls in which no single sequence record names two spellings of one
  key, the number reported for a target is the greatest one logged under its key since that key's context
  last changed, and it is withheld exactly when the model context is another one than the one of the last
  record. Without that restriction a reported number was still logged under that key and, when there is
  a model context, in that context.
\<close>
theorem seen_attestation_refines_log:
  fixes t :: string and sts :: "seen_step list" and c0 :: "string option"
  defines "l \<equiv> seen_run memory_ops setContextId sts (mem_ledger c0)"
    and "log \<equiv> run_asked memory_ops setContextId sts (mem_ledger c0)"
    and "k \<equiv> canonicalTargetKey memory_ops t (seen_run memory_ops setContextId sts (mem_ledger c0))"
    and "c \<equiv> ms_contextId (lg_store (seen_run memory_ops setContextId sts (mem_ledger c0)))"
  shows "(keys_apart memory_ops setContextId sts (mem_ledger c0) \<longrightarrow>
      fst (getConsumedSeq memory_ops t l) =
        (if k = [] then None
         else case log_evidence log k of
           None \<Rightarrow> None
         | Some (booked, seq) \<Rightarrow> if c = None \<or> booked = c then seq else None)) \<and>
    (\<forall>n. fst (getConsumedSeq memory_ops t l) = Some n \<longrightarrow> (\<exists>booked. (k, booked, Some n) \<in> set log \<and> (c = None \<or> booked = c)))"
proof -
  let ?kept = "run_bookings memory_ops setContextId sts (mem_ledger c0)"
  have "mem.agrees ?kept (lg_store l)"
    using mem.agrees_run [of "[]" "mem_ledger c0" sts] mem_agrees_empty unfolding l_def by simp
  from mem.consumed_seq_from_log [OF this, of t]
  have g: "fst (getConsumedSeq memory_ops t l) =
      (if k = [] then None
       else case log_evidence ?kept k of None \<Rightarrow> None | Some (booked, seq) \<Rightarrow> if c = None \<or> booked = c then seq else None)"
    unfolding k_def c_def l_def Let_def memory_ops_simps .
  have "\<exists>booked. (k, booked, Some n) \<in> set log \<and> (c = None \<or> booked = c)" if got: "fst (getConsumedSeq memory_ops t l) = Some n" for n
  proof -
    obtain booked where "log_evidence ?kept k = Some (booked, Some n)" "c = None \<or> booked = c"
      using trans [OF g [symmetric] got] by (auto split: if_splits option.splits)
    then show ?thesis
      using log_evidence_member [of ?kept k booked n] run_bookings_subset [of memory_ops setContextId sts "mem_ledger c0"]
      unfolding log_def by blast
  qed
  then show ?thesis using g run_bookings_apart [of memory_ops setContextId sts "mem_ledger c0"] unfolding log_def by simp
qed

definition sample_reads :: "seen_step list" where
  "sample_reads = [Record_alias ''#Ops'' ''#ops'', Record_seqs [(''#Ops'', 10)], Record_seqs [(''#ops'', 5)]]"

theorem seen_attestation_refines_log_witness:
  "fst (getConsumedSeq memory_ops ''#ops'' (seen_run memory_ops setContextId sample_reads (mem_ledger None))) = Some 10"
proof -
  have a: "keys_apart memory_ops setContextId sample_reads (mem_ledger None)" by code_simp
  have k: "canonicalTargetKey memory_ops ''#ops'' (seen_run memory_ops setContextId sample_reads (mem_ledger None)) = ''#ops''"
    by code_simp
  have c: "ms_contextId (lg_store (seen_run memory_ops setContextId sample_reads (mem_ledger None))) = None" by code_simp
  have e: "run_asked memory_ops setContextId sample_reads (mem_ledger None) =
      [(''#ops'', None, Some 10), (''#ops'', None, Some 5)]" by code_simp
  have "log_evidence [(''#ops'', None, Some 10), (''#ops'', None, Some 5)] ''#ops'' = Some (None, Some 10)"
    by (simp add: log_evidence_def bookings_of_def trailing_def high_water_def map_filter_simps)
  then show ?thesis
    using seen_attestation_refines_log [of sample_reads None "''#ops''"] a k c e by simp
qed

text \<open>
  Two spellings of one key in a single record: the object of the code keeps the last entry, so the smaller
  number is attested although the larger one was asked to be recorded.
\<close>

lemma spellings_in_one_record_lose_max:
  "fst (getConsumedSeq memory_ops ''#ops''
     (seen_run memory_ops setContextId [Record_alias ''#Ops'' ''#ops'', Record_seqs [(''#Ops'', 10), (''#ops'', 5)]] (mem_ledger None))) =
   Some 5"
  by code_simp

text \<open>
  C34. Exact observations are sound and bounded: after any run of ledger calls the exact numbers
  reported for a target are strictly ascending, at most 2500, each of them was observed for this very
  key, in the current model context when there is one, and then they all lie above the attested
  high-water mark.
\<close>
theorem seen_exact_sound:
  fixes t :: string and sts :: "seen_step list" and c0 :: "string option"
  defines "l \<equiv> seen_run memory_ops setContextId sts (mem_ledger c0)"
  shows "let ns = fst (getConsumedExactSeqs memory_ops t l); c = ms_contextId (lg_store l)
    in sorted_wrt (<) ns \<and> length ns \<le> 2500 \<and>
      set ns \<subseteq> {n. 0 < n \<and> (\<exists>c'. (canonicalTargetKey memory_ops t l, c', n)
          \<in> run_observations memory_ops setContextId sts (mem_ledger c0) \<and> c \<in> {None, c'})} \<and>
      (c = None \<or> fst (getConsumedSeq memory_ops t l) = None \<or>
       set ns \<subseteq> {n. the (fst (getConsumedSeq memory_ops t l)) < n})"
proof -
  let ?ns = "fst (getConsumedExactSeqs memory_ops t l)" and ?c = "ms_contextId (lg_store l)"
  have sound: "exact_sound (run_observations memory_ops setContextId sts (mem_ledger c0)) (lg_store l)"
    unfolding l_def by (rule exact_sound_from_empty)
  have "0 < n \<and> (\<exists>c'. (canonicalTargetKey memory_ops t l, c', n)
      \<in> run_observations memory_ops setContextId sts (mem_ledger c0) \<and> ?c \<in> {None, c'})" if n: "n \<in> set ?ns" for n
  proof -
    obtain x where x: "oget (ms_exact (lg_store l)) (canonicalTargetKey memory_ops t l) = Some x" "n \<in> set (xe_seqs x)"
      "?c = None \<or> xe_contextId x = ?c" "0 < n"
      using consumed_exact_row [OF n] by blast
    from exact_soundD [OF sound x(1,2)] x(3,4) show ?thesis by auto
  qed
  moreover have "s < n" if "n \<in> set ?ns" "?c = Some c" "fst (getConsumedSeq memory_ops t l) = Some s" for n c s
    using consumed_exact_row [OF that(1)] consumed_seq_floor [OF that(3,2)] that(2) by auto
  ultimately show ?thesis
    using consumed_exact_shape [of t l] by (auto simp: MAX_EXACT_SEQS_PER_TARGET_def Let_def)
qed

text \<open>
  C35. Spellings meet on the canonical key: once an alias is recorded, the typed spelling and the
  canonical target resolve to the same evidence key, the one the canonical target had before, and
  that key is a trusted target, unless the canonical target itself leads back to the spelling.
\<close>
theorem seen_alias_joins_spellings:
  fixes l :: "mem_store ledger"
  assumes "canonicalizeConsumedTarget raw = Some a" "canonicalizeConsumedTarget canonical = Some b"
    "a = b \<or> (b, a) \<notin> (alias_rel (ms_aliases (lg_store l)))\<^sup>*"
  defines "l' \<equiv> recordTargetAlias memory_ops raw canonical l"
  shows "canonicalTargetKey memory_ops raw l' = canonicalTargetKey memory_ops canonical l \<and>
    canonicalTargetKey memory_ops canonical l' = canonicalTargetKey memory_ops canonical l \<and>
    isTrustedCanonicalTarget (canonicalTargetKey memory_ops canonical l)"
proof -
  have trusted: "isTrustedCanonicalTarget a" "isTrustedCanonicalTarget b"
    using assms(1,2) canonicalize_trusted by blast+
  have "isTrustedCanonicalTarget (resolveCanonicalTarget b (lg_store l))"
    unfolding resolveCanonicalTarget_def by (rule follow_aliases_trusted [OF trusted(2)])
  moreover have "resolveCanonicalTarget a (bookTargetAlias a b (lg_store l)) = resolveCanonicalTarget b (lg_store l) \<and>
      resolveCanonicalTarget b (bookTargetAlias a b (lg_store l)) = resolveCanonicalTarget b (lg_store l)"
    using alias_booked [OF trusted] assms(3) by (cases "a = b") (auto simp: bookTargetAlias_def)
  ultimately show ?thesis
    using assms(1,2) by (simp add: l'_def lg_recordTargetAlias canonicalTargetKey_def set_store_def)
qed

lemma sample_targets:
  "canonicalizeConsumedTarget ''#ops'' = Some ''#ops''" "canonicalizeConsumedTarget ''#Ops'' = Some ''#Ops''"
  by code_simp+

theorem seen_alias_joins_spellings_witness:
  "canonicalTargetKey memory_ops ''#Ops'' (recordTargetAlias memory_ops ''#Ops'' ''#ops'' (mem_ledger None)) =
     canonicalTargetKey memory_ops ''#ops'' (mem_ledger None)"
proof -
  have "(''#ops'', ''#Ops'') \<notin> (alias_rel (ms_aliases (lg_store (mem_ledger None))))\<^sup>*"
    by (simp add: alias_rel_def createMemoryCommandStateStore_def)
  with seen_alias_joins_spellings [OF sample_targets(2,1), of "mem_ledger None"] show ?thesis by simp
qed

text \<open>
  The exception is real: when a spelling and its canonical target have been recorded both ways (a
  channel renamed and renamed back) each resolves to the other, and their evidence stays apart.
\<close>

lemma alias_cycle_splits:
  "let l = seen_run memory_ops setContextId [Record_alias ''#a'' ''#b'', Record_alias ''#b'' ''#a''] (mem_ledger None)
   in canonicalTargetKey memory_ops ''#a'' l = ''#b'' \<and> canonicalTargetKey memory_ops ''#b'' l = ''#a''"
  by code_simp

text \<open>
  C36. A held draft survives until it expires: a draft in canonical form is read back exactly as it
  was saved for ten minutes; after that the lookup reports it as expired with its text and removes
  it, and no other target's draft is touched.
\<close>
theorem draft_roundtrip:
  fixes t t' :: string and s :: mem_store and now :: int
  assumes "draft_canonical parseMention d"
  defines "s' \<equiv> setSavedDraft memory_ops t d s"
  shows "if now - sd_savedAt d \<le> 600000
    then lookupSavedDraft parseMention memory_ops t now s' = (Found d, s')
    else fst (lookupSavedDraft parseMention memory_ops t now s') = Expired (sd_savedAt d) (sd_content d) \<and>
      readDraft t (snd (lookupSavedDraft parseMention memory_ops t now s')) = None \<and>
      (t' = t \<or> readDraft t' (snd (lookupSavedDraft parseMention memory_ops t now s')) = readDraft t' s)"
  using canonical_exact [OF assms(1)] canonical_key [OF assms(1)] canonical_mentions [OF assms(1)]
  by (auto simp: s'_def lookupSavedDraft_def setSavedDraft_def readDraft_def writeDraft_def map_specs Let_def
      DEFAULT_LOCAL_DRAFT_TTL_MS_def deleteDraftIfSavedAt_def deleteDraft_def string_items_map
      normalizeExactSeqs_def [of JUndef] split: option.splits if_splits)

definition sample_draft :: saved_draft where
  "sample_draft = \<lparr>sd_content = ''hello'', sd_attachmentIds = [''f1''], sd_idempotencyKey = Some ''k1'',
     sd_mentions = None, sd_savedAt = 1000, sd_reholdCount = 1, sd_seenUpToSeq = Some 4, sd_seenExactSeqs = Some [7, 9]\<rparr>"

theorem draft_roundtrip_witness:
  "fst (lookupSavedDraft Some memory_ops ''#ops'' 2000
     (setSavedDraft memory_ops ''#ops'' sample_draft (createMemoryCommandStateStore None))) = Found sample_draft \<and>
   fst (lookupSavedDraft Some memory_ops ''#ops'' 700000
     (setSavedDraft memory_ops ''#ops'' sample_draft (createMemoryCommandStateStore None))) = Expired 1000 ''hello''"
proof -
  have "draft_canonical Some sample_draft"
    by (simp add: draft_canonical_def sample_draft_def MAX_EXACT_SEQS_PER_TARGET_def js_trim_def is_js_space_def)
  from draft_roundtrip [OF this, of 2000 "''#ops''" "createMemoryCommandStateStore None"]
    draft_roundtrip [OF this, of 700000 "''#ops''" "createMemoryCommandStateStore None"]
  show ?thesis by (simp add: sample_draft_def)
qed

end
