(* ===== verification/Event_Buffer.thy ===== *)
theory Event_Buffer
  imports Complex_Main Sha256 Apm_State
begin

text \<open>
  \<open>packages/raft-event-buffer/src/core.ts\<close> with its counters (\<open>metrics.ts\<close>): the bounded in-memory
  queue between trace producers and the exporter. One worker takes batches in order, waits for the
  token bucket and for back-off, exports, and retries a rate-limited batch; a drain stops intake and
  gives up after a timeout.

  The class is single-threaded and asynchronous, so its behaviour is the interleaving of the
  segments between awaits. Each segment is a function here, the place where the worker is suspended
  is part of the state, and the step relation of the theory \<open>Event_Buffer_Properties\<close> interleaves
  them with any answers of the exporter. The clock is read once per segment. Sizes and times are
  integers, the token count and the rate are rationals. A row is a JSON value; encoding it cannot
  fail then. Waiters of \<open>waitForEmpty\<close> are counted.
\<close>

section \<open>Counters\<close>

datatype reject_reason = Unauthorized | Invalid_json | Invalid_envelope | Table_not_allowed | Schema_mismatch
  | Request_too_large | Batch_too_large | Row_too_large | Queue_full | Shutting_down

datatype drop_reason = Export_failure | Commit_mismatch | Drain_timeout

record buffer_metrics =
  mt_ingressAttemptedBatches :: nat
  mt_ingressAcceptedBatches :: nat
  mt_ingressAcceptedRows :: nat
  mt_rejectedBatches :: "reject_reason \<Rightarrow> nat"
  mt_ingressRejectedRows :: nat
  mt_exportAttempts :: nat
  mt_attemptedRows :: nat
  mt_committedRows :: nat
  mt_droppedRows :: "drop_reason \<Rightarrow> nat"
  mt_outcomeUnknownRows :: nat
  mt_rateLimitedAttempts :: nat

definition new_metrics :: buffer_metrics where
  "new_metrics =
     \<lparr>mt_ingressAttemptedBatches = 0, mt_ingressAcceptedBatches = 0, mt_ingressAcceptedRows = 0,
      mt_rejectedBatches = (\<lambda>_. 0), mt_ingressRejectedRows = 0, mt_exportAttempts = 0, mt_attemptedRows = 0,
      mt_committedRows = 0, mt_droppedRows = (\<lambda>_. 0), mt_outcomeUnknownRows = 0, mt_rateLimitedAttempts = 0\<rparr>"

definition recordIngressAttempt :: "buffer_metrics \<Rightarrow> buffer_metrics" where
  "recordIngressAttempt m = m\<lparr>mt_ingressAttemptedBatches := mt_ingressAttemptedBatches m + 1\<rparr>"

definition recordAccepted :: "nat \<Rightarrow> buffer_metrics \<Rightarrow> buffer_metrics" where
  "recordAccepted n m =
     m\<lparr>mt_ingressAcceptedBatches := mt_ingressAcceptedBatches m + 1,
       mt_ingressAcceptedRows := mt_ingressAcceptedRows m + n\<rparr>"

definition recordRejected :: "reject_reason \<Rightarrow> buffer_metrics \<Rightarrow> buffer_metrics" where
  "recordRejected r m = m\<lparr>mt_rejectedBatches := (mt_rejectedBatches m)(r := mt_rejectedBatches m r + 1)\<rparr>"

definition recordIngressRejectedRows :: "nat \<Rightarrow> buffer_metrics \<Rightarrow> buffer_metrics" where
  "recordIngressRejectedRows n m = m\<lparr>mt_ingressRejectedRows := mt_ingressRejectedRows m + n\<rparr>"

definition recordExportAttempt :: "nat \<Rightarrow> buffer_metrics \<Rightarrow> buffer_metrics" where
  "recordExportAttempt n m =
     m\<lparr>mt_exportAttempts := mt_exportAttempts m + 1, mt_attemptedRows := mt_attemptedRows m + n\<rparr>"

definition recordCommitted :: "nat \<Rightarrow> buffer_metrics \<Rightarrow> buffer_metrics" where
  "recordCommitted n m = m\<lparr>mt_committedRows := mt_committedRows m + n\<rparr>"

definition recordDropped :: "drop_reason \<Rightarrow> nat \<Rightarrow> buffer_metrics \<Rightarrow> buffer_metrics" where
  "recordDropped r n m = m\<lparr>mt_droppedRows := (mt_droppedRows m)(r := mt_droppedRows m r + n)\<rparr>"

definition recordOutcomeUnknown :: "nat \<Rightarrow> buffer_metrics \<Rightarrow> buffer_metrics" where
  "recordOutcomeUnknown n m = m\<lparr>mt_outcomeUnknownRows := mt_outcomeUnknownRows m + n\<rparr>"

definition recordRateLimited :: "buffer_metrics \<Rightarrow> buffer_metrics" where
  "recordRateLimited m = m\<lparr>mt_rateLimitedAttempts := mt_rateLimitedAttempts m + 1\<rparr>"

section \<open>Options and state\<close>

record buffer_options =
  bo_maxQueueRows :: int
  bo_maxQueueBytes :: int
  bo_maxBatchRows :: int
  bo_maxBatchBytes :: int
  bo_maxBatchAgeMs :: int
  bo_maxQps :: rat
  bo_rateLimitBackoffMs :: int
  bo_maxRateLimitBackoffMs :: int

definition MAX_QPS :: rat where
  "MAX_QPS = 3"

text \<open>The error thrown for invalid options, checked in the order of the source.\<close>

definition validateOptions :: "buffer_options \<Rightarrow> string option" where
  "validateOptions o' =
     (if bo_maxQueueRows o' \<le> 0 then Some ''maxQueueRows must be a positive integer''
      else if bo_maxBatchRows o' \<le> 0 then Some ''maxBatchRows must be a positive integer''
      else if bo_maxQueueBytes o' \<le> 0 then Some ''maxQueueBytes must be a positive finite number''
      else if bo_maxBatchBytes o' \<le> 0 then Some ''maxBatchBytes must be a positive finite number''
      else if bo_maxBatchAgeMs o' \<le> 0 then Some ''maxBatchAgeMs must be a positive finite number''
      else if bo_maxQps o' \<le> 0 then Some ''maxQps must be a positive finite number''
      else if MAX_QPS < bo_maxQps o' then Some ''maxQps must be <= 3''
      else if bo_maxQueueRows o' < bo_maxBatchRows o' then Some ''maxBatchRows must be <= maxQueueRows''
      else if bo_maxQueueBytes o' < bo_maxBatchBytes o' then Some ''maxBatchBytes must be <= maxQueueBytes''
      else if bo_rateLimitBackoffMs o' \<le> 0 then Some ''rateLimitBackoffMs must be positive''
      else if bo_maxRateLimitBackoffMs o' < bo_rateLimitBackoffMs o'
           then Some ''maxRateLimitBackoffMs must be >= rateLimitBackoffMs''
      else None)"

record token_bucket =
  tb_tokens :: rat
  tb_lastRefillMs :: int

record queue_entry =
  qe_row :: jsval
  qe_bytes :: int
  qe_enqueuedAtMs :: int

text \<open>Where the worker is: absent, waiting for a wake-up or a delay, waiting for the exporter, or returned
  with its \<open>finally\<close> handler still to run.\<close>

datatype worker_position = No_worker | Waiting | Exporting "queue_entry list" | Finishing

record event_buffer =
  eb_queue :: "queue_entry list"
  eb_queuedBytes :: int
  eb_inFlight :: "queue_entry list"
  eb_worker :: worker_position
  eb_accepting :: bool
  eb_draining :: bool
  eb_abandonInFlight :: bool
  eb_blockedUntilMs :: int
  eb_rateLimitStreak :: nat
  eb_bucket :: token_bucket
  eb_emptyWaiters :: nat
  eb_metrics :: buffer_metrics

definition createEventBuffer :: "int \<Rightarrow> event_buffer" where
  "createEventBuffer now =
     \<lparr>eb_queue = [], eb_queuedBytes = 0, eb_inFlight = [], eb_worker = No_worker, eb_accepting = True,
      eb_draining = False, eb_abandonInFlight = False, eb_blockedUntilMs = 0, eb_rateLimitStreak = 0,
      eb_bucket = \<lparr>tb_tokens = 1, tb_lastRefillMs = now\<rparr>, eb_emptyWaiters = 0, eb_metrics = new_metrics\<rparr>"

definition meter :: "(buffer_metrics \<Rightarrow> buffer_metrics) \<Rightarrow> event_buffer \<Rightarrow> event_buffer" where
  "meter f s = s\<lparr>eb_metrics := f (eb_metrics s)\<rparr>"

section \<open>Token bucket\<close>

definition refill :: "rat \<Rightarrow> int \<Rightarrow> token_bucket \<Rightarrow> token_bucket" where
  "refill rate now b =
     \<lparr>tb_tokens = min 1 (tb_tokens b + of_int (max 0 (now - tb_lastRefillMs b)) / 1000 * rate), tb_lastRefillMs = now\<rparr>"

definition waitMs :: "rat \<Rightarrow> int \<Rightarrow> token_bucket \<Rightarrow> int \<times> token_bucket" where
  "waitMs rate now b =
     (let b = refill rate now b
      in (if 1 \<le> tb_tokens b then 0 else \<lceil>(1 - tb_tokens b) / rate * 1000\<rceil>, b))"

definition consume :: "rat \<Rightarrow> int \<Rightarrow> token_bucket \<Rightarrow> token_bucket" where
  "consume rate now b = (let b = refill rate now b in b\<lparr>tb_tokens := max 0 (tb_tokens b - 1)\<rparr>)"

section \<open>Queue accounting\<close>

definition entries_bytes :: "queue_entry list \<Rightarrow> int" where
  "entries_bytes es = sum_list (map qe_bytes es)"

definition pendingRows :: "event_buffer \<Rightarrow> int" where
  "pendingRows s = int (length (eb_queue s)) + int (length (eb_inFlight s))"

definition pendingBytes :: "event_buffer \<Rightarrow> int" where
  "pendingBytes s = eb_queuedBytes s + entries_bytes (eb_inFlight s)"

definition notifyEmpty :: "event_buffer \<Rightarrow> event_buffer" where
  "notifyEmpty s = (if 0 < pendingRows s then s else s\<lparr>eb_emptyWaiters := 0\<rparr>)"

record queue_metrics =
  qm_depthRows :: int
  qm_depthBytes :: int
  qm_oldestAgeMs :: int

definition queueMetrics :: "int \<Rightarrow> event_buffer \<Rightarrow> queue_metrics" where
  "queueMetrics now s =
     (let stamps = map qe_enqueuedAtMs (take 1 (eb_queue s) @ take 1 (eb_inFlight s))
      in \<lparr>qm_depthRows = pendingRows s, qm_depthBytes = pendingBytes s,
          qm_oldestAgeMs = (case stamps of [] \<Rightarrow> 0 | t # ts \<Rightarrow> max 0 (now - fold min ts t))\<rparr>)"

definition batchThresholdReached :: "buffer_options \<Rightarrow> event_buffer \<Rightarrow> bool" where
  "batchThresholdReached o' s \<longleftrightarrow>
     bo_maxBatchRows o' \<le> int (length (eb_queue s)) \<or> bo_maxBatchBytes o' \<le> eb_queuedBytes s"

definition waitBeforeNextAttemptMs :: "buffer_options \<Rightarrow> int \<Rightarrow> event_buffer \<Rightarrow> int \<times> event_buffer" where
  "waitBeforeNextAttemptMs o' now s =
     (if now < eb_blockedUntilMs s then (eb_blockedUntilMs s - now, s)
      else
        case waitMs (bo_maxQps o') now (eb_bucket s) of (tokenWait, b) \<Rightarrow>
          let s = s\<lparr>eb_bucket := b\<rparr>
          in if 0 < tokenWait then (tokenWait, s)
             else if eb_draining s \<or> batchThresholdReached o' s then (0, s)
             else
               let oldestAt = (case eb_queue s of [] \<Rightarrow> now | e # _ \<Rightarrow> qe_enqueuedAtMs e)
               in (max 0 (oldestAt + bo_maxBatchAgeMs o' - now), s))"

fun take_batch :: "buffer_options \<Rightarrow> queue_entry list \<Rightarrow> int \<Rightarrow> queue_entry list \<Rightarrow> queue_entry list \<times> queue_entry list" where
  "take_batch o' batch bytes [] = (batch, [])"
| "take_batch o' batch bytes (e # q) =
     (if int (length batch) < bo_maxBatchRows o' then
        if batch \<noteq> [] \<and> bo_maxBatchBytes o' < bytes + qe_bytes e then (batch, e # q)
        else take_batch o' (batch @ [e]) (bytes + qe_bytes e) q
      else (batch, e # q))"

definition takeBatch :: "buffer_options \<Rightarrow> event_buffer \<Rightarrow> queue_entry list \<times> event_buffer" where
  "takeBatch o' s =
     (case take_batch o' [] 0 (eb_queue s) of (batch, rest) \<Rightarrow>
        (batch, s\<lparr>eb_queue := rest, eb_queuedBytes := eb_queuedBytes s - entries_bytes batch\<rparr>))"

section \<open>The worker\<close>

text \<open>From the head of the loop of \<open>runWorker\<close> to its next await.\<close>

definition worker_head :: "buffer_options \<Rightarrow> int \<Rightarrow> event_buffer \<Rightarrow> event_buffer" where
  "worker_head o' now s =
     (if eb_queue s = [] \<or> eb_abandonInFlight s then s\<lparr>eb_worker := Finishing\<rparr>
      else
        case waitBeforeNextAttemptMs o' now s of (wait, s) \<Rightarrow>
          if 0 < wait then s\<lparr>eb_worker := Waiting\<rparr>
          else
            let s = s\<lparr>eb_bucket := consume (bo_maxQps o') now (eb_bucket s)\<rparr>
            in case takeBatch o' s of (batch, s) \<Rightarrow>
                 meter (recordExportAttempt (length batch)) (s\<lparr>eb_inFlight := batch, eb_worker := Exporting batch\<rparr>))"

definition ensureWorker :: "buffer_options \<Rightarrow> int \<Rightarrow> event_buffer \<Rightarrow> event_buffer" where
  "ensureWorker o' now s = (if eb_worker s \<noteq> No_worker \<or> eb_queue s = [] then s else worker_head o' now s)"

text \<open>The \<open>finally\<close> handler.\<close>

definition worker_finished :: "buffer_options \<Rightarrow> int \<Rightarrow> event_buffer \<Rightarrow> event_buffer" where
  "worker_finished o' now s =
     (let s = s\<lparr>eb_worker := No_worker\<rparr>
      in notifyEmpty (if eb_queue s \<noteq> [] \<and> \<not> eb_abandonInFlight s then ensureWorker o' now s else s))"

datatype export_result = Committed_rows int | Rate_limited "int option" | Failed_export

definition handleExportResult ::
  "buffer_options \<Rightarrow> int \<Rightarrow> queue_entry list \<Rightarrow> export_result \<Rightarrow> event_buffer \<Rightarrow> event_buffer" where
  "handleExportResult o' now batch result s =
     (case result of
        Committed_rows n \<Rightarrow>
          if n = int (length batch)
          then meter (recordCommitted (length batch)) (s\<lparr>eb_rateLimitStreak := 0, eb_blockedUntilMs := 0\<rparr>)
          else meter (recordDropped Commit_mismatch (length batch)) (s\<lparr>eb_rateLimitStreak := 0, eb_blockedUntilMs := 0\<rparr>)
      | Rate_limited retryAfterMs \<Rightarrow>
          let streak = eb_rateLimitStreak s + 1;
              exponentialBackoff = min (bo_maxRateLimitBackoffMs o') (bo_rateLimitBackoffMs o' * 2 ^ (streak - 1));
              requestedBackoff =
                (case retryAfterMs of
                   Some r \<Rightarrow> if 0 < r then min (bo_maxRateLimitBackoffMs o') r else 0
                 | None \<Rightarrow> 0)
          in meter recordRateLimited
               (s\<lparr>eb_queue := batch @ eb_queue s, eb_queuedBytes := eb_queuedBytes s + entries_bytes batch,
                  eb_rateLimitStreak := streak, eb_blockedUntilMs := now + max exponentialBackoff requestedBackoff\<rparr>)
      | Failed_export \<Rightarrow>
          meter (recordDropped Export_failure (length batch)) (s\<lparr>eb_rateLimitStreak := 0, eb_blockedUntilMs := 0\<rparr>))"

text \<open>The exporter answers (an exception counts as a failure).\<close>

definition export_done :: "buffer_options \<Rightarrow> int \<Rightarrow> queue_entry list \<Rightarrow> export_result \<Rightarrow> event_buffer \<Rightarrow> event_buffer" where
  "export_done o' now batch result s =
     (if eb_abandonInFlight s then s\<lparr>eb_inFlight := [], eb_worker := Finishing\<rparr>
      else worker_head o' now (notifyEmpty ((handleExportResult o' now batch result s)\<lparr>eb_inFlight := []\<rparr>)))"

section \<open>Intake\<close>

definition TRACE_EVENT_ROW_V2_TABLE :: string where
  "TRACE_EVENT_ROW_V2_TABLE = ''raft.trace_events_v2''"

definition isTraceEventRowV2CompatibleSchemaFingerprint :: "string \<Rightarrow> bool" where
  "isTraceEventRowV2CompatibleSchemaFingerprint v \<longleftrightarrow>
     v = ''sha256:ac8d905d788da3021e79af74d1b46b0373cc79ec876b03f8531ac28c69db5a69'' \<or>
     v = ''sha256:bc054cd6b79fe489eac8252fd91e8dcb4663ddc4b8d249395f5317a0c6bb5f46'' \<or>
     v = ''sha256:d8cbabe44110bb2bc108a48021dbee4e37af732d6cc52c97fdcf06cb44b5e1ce''"

record buffer_envelope =
  be_table :: string
  be_schemaFingerprint :: string
  be_rows :: "jsval list"

text \<open>\<open>Buffer.byteLength(JSON.stringify(row))\<close>: undefined properties are left out.\<close>

fun drop_undefined :: "jsval \<Rightarrow> jsval" where
  "drop_undefined (JArr xs) = JArr (map drop_undefined xs)"
| "drop_undefined (JObj kvs) = JObj (filter (\<lambda>(k, v). v \<noteq> JUndef) (map (\<lambda>(k, v). (k, drop_undefined v)) kvs))"
| "drop_undefined v = v"

definition encodedBytes :: "jsval \<Rightarrow> int" where
  "encodedBytes row = int (length (utf8_encode (json_print (drop_undefined row))))"

definition validateEnvelope :: "buffer_envelope \<Rightarrow> event_buffer \<Rightarrow> reject_reason option" where
  "validateEnvelope e s =
     (if \<not> eb_accepting s then Some Shutting_down
      else if be_table e \<noteq> TRACE_EVENT_ROW_V2_TABLE then Some Table_not_allowed
      else if \<not> isTraceEventRowV2CompatibleSchemaFingerprint (be_schemaFingerprint e) then Some Schema_mismatch
      else if be_rows e = [] \<or> list_ex (\<lambda>row. \<not> is_plain_object row) (be_rows e) then Some Invalid_envelope
      else None)"

datatype enqueue_receipt =
    Queued (er_acceptedRows: nat) (er_rejectedRows: nat) (er_acceptedBytes: int) (er_queueDepthRows: int)
  | Rejected_batch reject_reason

definition reject :: "reject_reason \<Rightarrow> event_buffer \<Rightarrow> enqueue_receipt \<times> event_buffer" where
  "reject reason s = (Rejected_batch reason, meter (recordRejected reason) s)"

definition accepted_entries :: "buffer_options \<Rightarrow> int \<Rightarrow> buffer_envelope \<Rightarrow> queue_entry list" where
  "accepted_entries o' now e =
     filter (\<lambda>x. qe_bytes x \<le> bo_maxBatchBytes o')
       (map (\<lambda>row. \<lparr>qe_row = row, qe_bytes = encodedBytes row, qe_enqueuedAtMs = now\<rparr>) (be_rows e))"

definition enqueue :: "buffer_options \<Rightarrow> int \<Rightarrow> buffer_envelope \<Rightarrow> event_buffer \<Rightarrow> enqueue_receipt \<times> event_buffer" where
  "enqueue o' now e s =
     (let s = meter recordIngressAttempt s
      in case validateEnvelope e s of
           Some reason \<Rightarrow> reject reason s
         | None \<Rightarrow>
             let accepted' = accepted_entries o' now e;
                 rejectedRows = length (be_rows e) - length accepted';
                 s = (if 0 < rejectedRows then meter (recordIngressRejectedRows rejectedRows) s else s)
             in if accepted' = [] then reject Row_too_large s
                else
                  let acceptedBytes = entries_bytes accepted'
                  in if bo_maxQueueRows o' < pendingRows s + int (length accepted') \<or>
                        bo_maxQueueBytes o' < pendingBytes s + acceptedBytes then reject Queue_full s
                     else
                       let s = meter (recordAccepted (length accepted'))
                             (s\<lparr>eb_queue := eb_queue s @ accepted', eb_queuedBytes := eb_queuedBytes s + acceptedBytes\<rparr>);
                           s = ensureWorker o' now s
                       in (Queued (length accepted') rejectedRows acceptedBytes (pendingRows s), s))"

section \<open>Draining\<close>

datatype drain_start = Drain_error | Drain_done | Drain_waits

definition drain_begin :: "buffer_options \<Rightarrow> int \<Rightarrow> int \<Rightarrow> event_buffer \<Rightarrow> drain_start \<times> event_buffer" where
  "drain_begin o' now timeoutMs s =
     (if timeoutMs < 0 then (Drain_error, s)
      else
        let s = ensureWorker o' now (s\<lparr>eb_accepting := False, eb_draining := True\<rparr>)
        in if pendingRows s = 0 then (Drain_done, s)
           else (Drain_waits, s\<lparr>eb_emptyWaiters := eb_emptyWaiters s + 1\<rparr>))"

record drain_receipt =
  dt_pendingRows :: nat
  dt_droppedRows :: nat
  dt_abandonedInFlightRows :: nat

text \<open>The delay wins the race.\<close>

definition drain_timeout :: "event_buffer \<Rightarrow> drain_receipt \<times> event_buffer" where
  "drain_timeout s =
     (let droppedRows = length (eb_queue s); abandonedInFlightRows = length (eb_inFlight s);
          s = meter (recordOutcomeUnknown abandonedInFlightRows) (meter (recordDropped Drain_timeout droppedRows) s);
          s = s\<lparr>eb_queue := [], eb_queuedBytes := 0, eb_abandonInFlight := True, eb_inFlight := []\<rparr>
      in (\<lparr>dt_pendingRows = droppedRows + abandonedInFlightRows, dt_droppedRows = droppedRows,
           dt_abandonedInFlightRows = abandonedInFlightRows\<rparr>, notifyEmpty s))"

definition waitUntilIdle :: "event_buffer \<Rightarrow> event_buffer" where
  "waitUntilIdle s = (if pendingRows s = 0 then s else s\<lparr>eb_emptyWaiters := eb_emptyWaiters s + 1\<rparr>)"

end
