(* ===== verification/Event_Buffer_Run.thy ===== *)
theory Event_Buffer_Run
  imports Event_Buffer
begin

text \<open>
  The interleavings of the event buffer: the segments of \<open>Event_Buffer\<close> in any order the event loop may
  run them, at times that never go backwards, with any answer of the exporter. A history beside the
  state records what was accepted, what became of every row and when each export began; the
  invariants tie the state and its counters to that history.
\<close>

section \<open>The step relation\<close>

datatype row_fate = Committed | Dropped drop_reason | Outcome_unknown

record buffer_history =
  bh_accepted :: "queue_entry list"
  bh_resolved :: "(queue_entry \<times> row_fate) list"
  bh_exports :: "(int \<times> queue_entry list) list"

definition no_history :: buffer_history where
  "no_history = \<lparr>bh_accepted = [], bh_resolved = [], bh_exports = []\<rparr>"

definition with_fate :: "row_fate \<Rightarrow> queue_entry list \<Rightarrow> (queue_entry \<times> row_fate) list" where
  "with_fate f es = map (\<lambda>e. (e, f)) es"

definition log_accepted :: "queue_entry list \<Rightarrow> buffer_history \<Rightarrow> buffer_history" where
  "log_accepted es h = h\<lparr>bh_accepted := bh_accepted h @ es\<rparr>"

definition log_resolved :: "(queue_entry \<times> row_fate) list \<Rightarrow> buffer_history \<Rightarrow> buffer_history" where
  "log_resolved rs h = h\<lparr>bh_resolved := bh_resolved h @ rs\<rparr>"

text \<open>An export began in a segment when the attempt counter moved; newest first.\<close>

definition log_export :: "int \<Rightarrow> event_buffer \<Rightarrow> event_buffer \<Rightarrow> buffer_history \<Rightarrow> buffer_history" where
  "log_export now s s' h =
     (if mt_exportAttempts (eb_metrics s) < mt_exportAttempts (eb_metrics s')
      then h\<lparr>bh_exports := (now, eb_inFlight s') # bh_exports h\<rparr> else h)"

definition receipt_entries :: "buffer_options \<Rightarrow> int \<Rightarrow> buffer_envelope \<Rightarrow> enqueue_receipt \<Rightarrow> queue_entry list" where
  "receipt_entries o' now e r = (case r of Queued _ _ _ _ \<Rightarrow> accepted_entries o' now e | Rejected_batch _ \<Rightarrow> [])"

definition export_resolution :: "queue_entry list \<Rightarrow> export_result \<Rightarrow> event_buffer \<Rightarrow> (queue_entry \<times> row_fate) list" where
  "export_resolution batch result s =
     (if eb_abandonInFlight s then []
      else case result of
             Committed_rows n \<Rightarrow>
               with_fate (if n = int (length batch) then Committed else Dropped Commit_mismatch) batch
           | Rate_limited _ \<Rightarrow> []
           | Failed_export \<Rightarrow> with_fate (Dropped Export_failure) batch)"

definition timeout_resolution :: "event_buffer \<Rightarrow> (queue_entry \<times> row_fate) list" where
  "timeout_resolution s = with_fate Outcome_unknown (eb_inFlight s) @ with_fate (Dropped Drain_timeout) (eb_queue s)"

inductive buffer_run :: "buffer_options \<Rightarrow> int \<Rightarrow> buffer_history \<Rightarrow> event_buffer \<Rightarrow> bool" for o' where
  run_start: "buffer_run o' now no_history (createEventBuffer now)"
| run_enqueue:
    "buffer_run o' t h s \<Longrightarrow> t \<le> now \<Longrightarrow> enqueue o' now e s = (r, s') \<Longrightarrow>
     buffer_run o' now (log_export now s s' (log_accepted (receipt_entries o' now e r) h)) s'"
| run_resume:
    "buffer_run o' t h s \<Longrightarrow> t \<le> now \<Longrightarrow> eb_worker s = Waiting \<Longrightarrow> s' = worker_head o' now s \<Longrightarrow>
     buffer_run o' now (log_export now s s' h) s'"
| run_export_done:
    "buffer_run o' t h s \<Longrightarrow> t \<le> now \<Longrightarrow> eb_worker s = Exporting batch \<Longrightarrow> s' = export_done o' now batch result s \<Longrightarrow>
     buffer_run o' now (log_export now s s' (log_resolved (export_resolution batch result s) h)) s'"
| run_finished:
    "buffer_run o' t h s \<Longrightarrow> t \<le> now \<Longrightarrow> eb_worker s = Finishing \<Longrightarrow> s' = worker_finished o' now s \<Longrightarrow>
     buffer_run o' now (log_export now s s' h) s'"
| run_drain:
    "buffer_run o' t h s \<Longrightarrow> t \<le> now \<Longrightarrow> drain_begin o' now timeoutMs s = (d, s') \<Longrightarrow>
     buffer_run o' now (log_export now s s' h) s'"
| run_drain_timeout:
    "buffer_run o' t h s \<Longrightarrow> t \<le> now \<Longrightarrow> eb_draining s \<Longrightarrow> 0 < eb_emptyWaiters s \<Longrightarrow> drain_timeout s = (d, s') \<Longrightarrow>
     buffer_run o' now (log_resolved (timeout_resolution s) h) s'"
| run_wait_idle:
    "buffer_run o' t h s \<Longrightarrow> t \<le> now \<Longrightarrow> buffer_run o' now h (waitUntilIdle s)"

section \<open>Batches\<close>

lemma take_batch_append:
  "take_batch o' batch bytes q = (b, rest) \<Longrightarrow> b @ rest = batch @ q"
  by (induction o' batch bytes q rule: take_batch.induct) (auto split: if_splits)

lemma take_batch_nonempty:
  "take_batch o' batch bytes q = (b, rest) \<Longrightarrow> batch \<noteq> [] \<Longrightarrow> b \<noteq> []"
  by (induction o' batch bytes q rule: take_batch.induct) (auto split: if_splits)

lemma take_batch_rows:
  "take_batch o' batch bytes q = (b, rest) \<Longrightarrow> int (length batch) \<le> bo_maxBatchRows o' \<Longrightarrow>
   int (length b) \<le> bo_maxBatchRows o'"
  by (induction o' batch bytes q rule: take_batch.induct) (auto split: if_splits)

lemma take_batch_bytes:
  "take_batch o' batch bytes q = (b, rest) \<Longrightarrow> bytes = entries_bytes batch \<Longrightarrow>
   bytes \<le> bo_maxBatchBytes o' \<Longrightarrow> \<forall>e\<in>set q. qe_bytes e \<le> bo_maxBatchBytes o' \<Longrightarrow>
   entries_bytes b \<le> bo_maxBatchBytes o'"
  by (induction o' batch bytes q rule: take_batch.induct) (auto simp: entries_bytes_def split: if_splits)

lemma entries_bytes_simps [simp]:
  "entries_bytes [] = 0" "entries_bytes (e # es) = qe_bytes e + entries_bytes es"
  "entries_bytes (xs @ ys) = entries_bytes xs + entries_bytes ys"
  by (simp_all add: entries_bytes_def)

lemma with_fate_simps [simp]:
  "with_fate f [] = []" "map fst (with_fate f es) = es" "length (with_fate f es) = length es"
  "with_fate f es = [] \<longleftrightarrow> es = []"
  by (simp_all add: with_fate_def o_def)

section \<open>What a pass of the worker does\<close>

lemmas worker_unfolds = worker_head_def waitBeforeNextAttemptMs_def takeBatch_def waitMs_def consume_def Let_def meter_def

text \<open>The three ways through the head of the loop.\<close>

lemma worker_head_cases:
  assumes "0 < bo_maxQps o'" "0 < bo_maxBatchRows o'"
  obtains (stops) "eb_queue s = [] \<or> eb_abandonInFlight s" "worker_head o' now s = s\<lparr>eb_worker := Finishing\<rparr>"
  | (waits) b where "eb_queue s \<noteq> []" "\<not> eb_abandonInFlight s" "b = eb_bucket s \<or> b = refill (bo_maxQps o') now (eb_bucket s)"
      "worker_head o' now s = s\<lparr>eb_bucket := b, eb_worker := Waiting\<rparr>"
  | (exports) b batch rest where "eb_queue s \<noteq> []" "\<not> eb_abandonInFlight s" "take_batch o' [] 0 (eb_queue s) = (batch, rest)"
      "eb_blockedUntilMs s \<le> now" "b = refill (bo_maxQps o') now (eb_bucket s)" "1 \<le> tb_tokens b"
      "worker_head o' now s =
         s\<lparr>eb_bucket := consume (bo_maxQps o') now b, eb_queue := rest,
           eb_queuedBytes := eb_queuedBytes s - entries_bytes batch, eb_inFlight := batch, eb_worker := Exporting batch,
           eb_metrics := recordExportAttempt (length batch) (eb_metrics s)\<rparr>"
proof -
  let ?b = "refill (bo_maxQps o') now (eb_bucket s)"
  have ceil: "0 < \<lceil>(1 - tb_tokens ?b) / bo_maxQps o' * 1000\<rceil>" if "\<not> 1 \<le> tb_tokens ?b"
    using that assms by simp
  show thesis
  proof (cases "eb_queue s = [] \<or> eb_abandonInFlight s")
    case True
    then show ?thesis using stops by (simp add: worker_head_def)
  next
    case False
    obtain w s1 where w: "waitBeforeNextAttemptMs o' now s = (w, s1)" by fastforce
    have s1: "s1 = s \<or> s1 = s\<lparr>eb_bucket := ?b\<rparr>"
      using w by (auto simp: waitBeforeNextAttemptMs_def waitMs_def Let_def split: if_splits)
    show ?thesis
    proof (cases "0 < w")
      case True
      then have "worker_head o' now s = s1\<lparr>eb_worker := Waiting\<rparr>" using False w by (simp add: worker_head_def)
      then show ?thesis using s1 False waits [of "eb_bucket s1"] by auto
    next
      case nowait: False
      have e: "eb_blockedUntilMs s \<le> now" "1 \<le> tb_tokens ?b" "s1 = s\<lparr>eb_bucket := ?b\<rparr>"
        using w nowait ceil by (auto simp: waitBeforeNextAttemptMs_def waitMs_def Let_def split: if_splits)
      obtain batch rest where b: "take_batch o' [] 0 (eb_queue s) = (batch, rest)" by fastforce
      have "worker_head o' now s =
         s\<lparr>eb_bucket := consume (bo_maxQps o') now ?b, eb_queue := rest,
           eb_queuedBytes := eb_queuedBytes s - entries_bytes batch, eb_inFlight := batch, eb_worker := Exporting batch,
           eb_metrics := recordExportAttempt (length batch) (eb_metrics s)\<rparr>"
        using False w nowait e(3) b by (simp add: worker_head_def takeBatch_def Let_def meter_def)
      then show ?thesis using exports [OF _ _ b e(1) refl e(2)] False by blast
    qed
  qed
qed

section \<open>The invariant\<close>

definition fate_count :: "row_fate \<Rightarrow> (queue_entry \<times> row_fate) list \<Rightarrow> nat" where
  "fate_count f rs = length (filter (\<lambda>x. snd x = f) rs)"

lemma fate_count_simps [simp]:
  "fate_count f [] = 0" "fate_count f (xs @ ys) = fate_count f xs + fate_count f ys"
  "fate_count f (with_fate g es) = (if f = g then length es else 0)"
  by (auto simp: fate_count_def with_fate_def filter_map o_def)

definition valid_options :: "buffer_options \<Rightarrow> bool" where
  "valid_options o' \<longleftrightarrow> validateOptions o' = None"

lemma valid_optionsD:
  assumes "valid_options o'"
  shows "0 < bo_maxQps o'" "0 < bo_maxBatchRows o'" "0 < bo_maxBatchBytes o'" "0 < bo_maxQueueRows o'"
    "bo_maxBatchBytes o' \<le> bo_maxQueueBytes o'" "0 < bo_rateLimitBackoffMs o'" "0 < bo_maxBatchAgeMs o'"
    "bo_rateLimitBackoffMs o' \<le> bo_maxRateLimitBackoffMs o'"
  using assms by (auto simp: valid_options_def validateOptions_def split: if_splits)

text \<open>Where the rows are: accepted rows are resolved, in flight or queued, in that order and in the order
  of acceptance; only an exporting worker holds rows in flight; queued rows have a worker.\<close>

fun holds_rows :: "worker_position \<Rightarrow> bool \<Rightarrow> queue_entry list \<Rightarrow> bool" where
  "holds_rows (Exporting batch) abandoned es \<longleftrightarrow> batch \<noteq> [] \<and> es = (if abandoned then [] else batch)"
| "holds_rows _ abandoned es \<longleftrightarrow> es = []"

definition rows_inv :: "buffer_history \<Rightarrow> event_buffer \<Rightarrow> bool" where
  "rows_inv h s \<longleftrightarrow>
     bh_accepted h = map fst (bh_resolved h) @ eb_inFlight s @ eb_queue s \<and>
     eb_queuedBytes s = entries_bytes (eb_queue s) \<and>
     holds_rows (eb_worker s) (eb_abandonInFlight s) (eb_inFlight s) \<and>
     (eb_abandonInFlight s \<longrightarrow> eb_queue s = [] \<and> eb_draining s) \<and>
     (eb_draining s \<longrightarrow> \<not> eb_accepting s) \<and>
     (eb_queue s \<noteq> [] \<longrightarrow> eb_worker s \<noteq> No_worker) \<and>
     (0 < eb_emptyWaiters s \<longrightarrow> eb_queue s \<noteq> [] \<or> eb_inFlight s \<noteq> [])"

text \<open>The bounds of the options.\<close>

definition bounds_inv :: "buffer_options \<Rightarrow> buffer_history \<Rightarrow> event_buffer \<Rightarrow> bool" where
  "bounds_inv o' h s \<longleftrightarrow>
     pendingRows s \<le> bo_maxQueueRows o' \<and> pendingBytes s \<le> bo_maxQueueBytes o' \<and>
     (\<forall>e\<in>set (bh_accepted h). 0 \<le> qe_bytes e \<and> qe_bytes e \<le> bo_maxBatchBytes o') \<and>
     (\<forall>x\<in>set (bh_exports h). snd x \<noteq> [] \<and> int (length (snd x)) \<le> bo_maxBatchRows o' \<and>
        entries_bytes (snd x) \<le> bo_maxBatchBytes o')"

text \<open>The counters count the history.\<close>

definition counters_inv :: "buffer_history \<Rightarrow> buffer_metrics \<Rightarrow> bool" where
  "counters_inv h m \<longleftrightarrow>
     mt_ingressAcceptedRows m = length (bh_accepted h) \<and>
     mt_committedRows m = fate_count Committed (bh_resolved h) \<and>
     (\<forall>r. mt_droppedRows m r = fate_count (Dropped r) (bh_resolved h)) \<and>
     mt_outcomeUnknownRows m = fate_count Outcome_unknown (bh_resolved h) \<and>
     mt_exportAttempts m = length (bh_exports h) \<and>
     mt_attemptedRows m = sum_list (map (length \<circ> snd) (bh_exports h))"

definition buffer_inv :: "buffer_options \<Rightarrow> buffer_history \<Rightarrow> event_buffer \<Rightarrow> bool" where
  "buffer_inv o' h s \<longleftrightarrow> rows_inv h s \<and> bounds_inv o' h s \<and> counters_inv h (eb_metrics s)"

lemmas record_defs = recordIngressAttempt_def recordAccepted_def recordRejected_def recordIngressRejectedRows_def
  recordExportAttempt_def recordCommitted_def recordDropped_def recordOutcomeUnknown_def recordRateLimited_def

lemmas log_defs = log_export_def log_accepted_def log_resolved_def

lemmas inv_defs = buffer_inv_def rows_inv_def bounds_inv_def counters_inv_def pendingRows_def pendingBytes_def

text \<open>A suspended or absent worker with nothing in flight: where the head of the loop is entered.\<close>

definition at_head :: "buffer_options \<Rightarrow> buffer_history \<Rightarrow> event_buffer \<Rightarrow> bool" where
  "at_head o' h s \<longleftrightarrow> buffer_inv o' h (s\<lparr>eb_worker := Waiting\<rparr>)"

lemma bounds_inv_worker: "bounds_inv o' h (s\<lparr>eb_worker := w\<rparr>) = bounds_inv o' h s"
  by (simp add: bounds_inv_def pendingRows_def pendingBytes_def)

lemma at_headI: "buffer_inv o' h s \<Longrightarrow> eb_worker s = Waiting \<Longrightarrow> at_head o' h s"
  by (auto simp: at_head_def inv_defs)

lemma worker_head_inv:
  assumes "valid_options o'" and i: "at_head o' h s"
  shows "buffer_inv o' (log_export now s (worker_head o' now s) h) (worker_head o' now s)"
  using valid_optionsD(1,2) [OF assms(1)]
proof (cases rule: worker_head_cases [of o' s now])
  case stops
  then show ?thesis using i by (auto simp: at_head_def inv_defs log_defs)
next
  case (waits b)
  then show ?thesis using i by (auto simp: at_head_def inv_defs log_defs)
next
  case (exports b batch rest)
  note t = exports(3)
  have q: "batch @ rest = eb_queue s" using take_batch_append [OF t] by simp
  have f: "eb_inFlight s = []" and a: "bh_accepted h = map fst (bh_resolved h) @ eb_queue s"
    using i by (simp_all add: at_head_def inv_defs)
  then have acc: "\<forall>e\<in>set (eb_queue s). qe_bytes e \<le> bo_maxBatchBytes o'"
    using i by (auto simp: at_head_def buffer_inv_def bounds_inv_def)
  have "batch \<noteq> []"
    using t exports(1) valid_optionsD(2) [OF assms(1)] take_batch_nonempty
    by (cases "eb_queue s") fastforce+
  moreover have "int (length batch) \<le> bo_maxBatchRows o'"
    using take_batch_rows [OF t] valid_optionsD(2) [OF assms(1)] by simp
  moreover have "entries_bytes batch \<le> bo_maxBatchBytes o'"
    using take_batch_bytes [OF t _ _ acc] valid_optionsD(3) [OF assms(1)] by simp
  ultimately show ?thesis
    using i exports(1,2,7) f by (simp add: at_head_def inv_defs log_defs record_defs q [symmetric])
qed

lemma at_head_idle:
  "buffer_inv o' h s \<Longrightarrow> (\<And>b. eb_worker s \<noteq> Exporting b) \<Longrightarrow> at_head o' h s"
  by (cases "eb_worker s") (auto simp: at_head_def buffer_inv_def rows_inv_def bounds_inv_worker pendingRows_def)

text \<open>The invariant but for the worker of queued rows, which \<open>ensureWorker\<close> restores.\<close>

definition unmanned_inv :: "buffer_options \<Rightarrow> buffer_history \<Rightarrow> event_buffer \<Rightarrow> bool" where
  "unmanned_inv o' h s \<longleftrightarrow> buffer_inv o' h (if eb_worker s = No_worker then s\<lparr>eb_worker := Waiting\<rparr> else s)"

lemma ensureWorker_inv:
  assumes o': "valid_options o'" and i: "unmanned_inv o' h s"
  shows "buffer_inv o' (log_export now s (ensureWorker o' now s) h) (ensureWorker o' now s)"
proof (cases "eb_worker s \<noteq> No_worker \<or> eb_queue s = []")
  case True
  then have "buffer_inv o' h s"
    using i by (cases "eb_worker s") (auto simp: unmanned_inv_def buffer_inv_def rows_inv_def bounds_inv_worker pendingRows_def)
  then show ?thesis using True by (simp add: ensureWorker_def log_export_def)
next
  case False
  then have "at_head o' h s" using i by (simp add: unmanned_inv_def at_head_def)
  then show ?thesis using worker_head_inv [OF o', of h s now] False by (simp add: ensureWorker_def)
qed

section \<open>The steps keep the invariant\<close>

lemma notifyEmpty_inv: "buffer_inv o' h s \<Longrightarrow> buffer_inv o' h (notifyEmpty s)"
  by (simp add: notifyEmpty_def buffer_inv_def rows_inv_def bounds_inv_def pendingRows_def pendingBytes_def)

lemma notifyEmpty_simps [simp]:
  "eb_metrics (notifyEmpty s) = eb_metrics s" "eb_inFlight (notifyEmpty s) = eb_inFlight s"
  "eb_worker (notifyEmpty s) = eb_worker s" "eb_queue (notifyEmpty s) = eb_queue s"
  by (simp_all add: notifyEmpty_def)

lemma log_export_notify [simp]:
  "log_export now s (notifyEmpty s') h = log_export now s s' h"
  "log_export now (notifyEmpty s) s' h = log_export now s s' h"
  by (simp_all add: log_export_def)

lemma log_export_same:
  "mt_exportAttempts (eb_metrics s1) = mt_exportAttempts (eb_metrics s) \<Longrightarrow>
   log_export now s1 s' h = log_export now s s' h"
  by (simp add: log_export_def)

lemma log_export_none:
  "mt_exportAttempts (eb_metrics s') = mt_exportAttempts (eb_metrics s) \<Longrightarrow> log_export now s s' h = h"
  by (simp add: log_export_def)

lemma created_inv: "valid_options o' \<Longrightarrow> buffer_inv o' no_history (createEventBuffer now)"
  using valid_optionsD [of o']
  by (simp add: inv_defs no_history_def createEventBuffer_def new_metrics_def)

lemma finished_inv:
  assumes o': "valid_options o'" and i: "buffer_inv o' h s" and w: "eb_worker s = Finishing"
  shows "buffer_inv o' (log_export now s (worker_finished o' now s) h) (worker_finished o' now s)"
proof -
  let ?s = "s\<lparr>eb_worker := No_worker\<rparr>"
  have u: "unmanned_inv o' h ?s"
    using i w by (auto simp: unmanned_inv_def buffer_inv_def rows_inv_def bounds_inv_worker pendingRows_def)
  note e = ensureWorker_inv [OF o' u, of now]
  have "eb_abandonInFlight s \<Longrightarrow> eb_queue s = []" using i by (simp add: buffer_inv_def rows_inv_def)
  then have "worker_finished o' now s = notifyEmpty (ensureWorker o' now ?s)"
    by (auto simp: worker_finished_def Let_def ensureWorker_def)
  moreover have "log_export now s s' h = log_export now ?s s' h" for s'
    by (rule log_export_same [symmetric]) simp
  ultimately show ?thesis using notifyEmpty_inv [OF e] by simp
qed

lemma entries_bytes_nonneg: "\<forall>e\<in>set es. 0 \<le> qe_bytes e \<Longrightarrow> 0 \<le> entries_bytes es"
  by (induction es) auto

lemma inFlight_nonneg: "buffer_inv o' h s \<Longrightarrow> 0 \<le> entries_bytes (eb_inFlight s) \<and> 0 \<le> entries_bytes (eb_queue s)"
  by (auto simp: buffer_inv_def rows_inv_def bounds_inv_def intro!: entries_bytes_nonneg)

lemma handled_at_head:
  assumes i: "buffer_inv o' h s" and w: "eb_worker s = Exporting batch" and a: "\<not> eb_abandonInFlight s"
  shows "at_head o' (log_resolved (export_resolution batch result s) h)
           (notifyEmpty ((handleExportResult o' now batch result s)\<lparr>eb_inFlight := []\<rparr>))"
proof (cases result)
  case (Committed_rows n)
  then show ?thesis using assms inFlight_nonneg [OF i]
    by (auto simp: at_head_def inv_defs log_resolved_def export_resolution_def handleExportResult_def
        notifyEmpty_def meter_def record_defs)
next
  case (Rate_limited r)
  then show ?thesis using assms inFlight_nonneg [OF i]
    by (auto simp: at_head_def inv_defs log_resolved_def export_resolution_def handleExportResult_def
        notifyEmpty_def meter_def record_defs Let_def)
next
  case Failed_export
  then show ?thesis using assms inFlight_nonneg [OF i]
    by (auto simp: at_head_def inv_defs log_resolved_def export_resolution_def handleExportResult_def
        notifyEmpty_def meter_def record_defs)
qed

lemma export_done_inv:
  assumes o': "valid_options o'" and i: "buffer_inv o' h s" and w: "eb_worker s = Exporting batch"
  shows "buffer_inv o' (log_export now s (export_done o' now batch result s)
           (log_resolved (export_resolution batch result s) h)) (export_done o' now batch result s)"
proof (cases "eb_abandonInFlight s")
  case True
  then show ?thesis using i w
    by (auto simp: export_done_def inv_defs log_defs export_resolution_def)
next
  case False
  let ?s = "notifyEmpty ((handleExportResult o' now batch result s)\<lparr>eb_inFlight := []\<rparr>)"
  have "mt_exportAttempts (eb_metrics ?s) = mt_exportAttempts (eb_metrics s)"
    by (auto simp: handleExportResult_def meter_def record_defs Let_def split: export_result.split)
  note e = log_export_same [OF this]
  have "export_done o' now batch result s = worker_head o' now ?s" using False by (simp add: export_done_def)
  then show ?thesis using worker_head_inv [OF o' handled_at_head [OF i w False, of result now], of now] by (simp only: e)
qed

lemma unmanned_appended:
  assumes i: "buffer_inv o' h s" and b: "\<forall>e\<in>set es. 0 \<le> qe_bytes e \<and> qe_bytes e \<le> bo_maxBatchBytes o'"
    and f: "pendingRows s + int (length es) \<le> bo_maxQueueRows o'" "pendingBytes s + entries_bytes es \<le> bo_maxQueueBytes o'"
    and a: "eb_accepting s"
  shows "unmanned_inv o' (log_accepted es h)
           (meter (recordAccepted (length es)) (s\<lparr>eb_queue := eb_queue s @ es, eb_queuedBytes := eb_queuedBytes s + entries_bytes es\<rparr>))"
proof -
  let ?s = "meter (recordAccepted (length es)) (s\<lparr>eb_queue := eb_queue s @ es, eb_queuedBytes := eb_queuedBytes s + entries_bytes es\<rparr>)"
  let ?w = "if eb_worker s = No_worker then Waiting else eb_worker s"
  let ?h = "log_accepted es h"
  have i': "rows_inv h s" "bounds_inv o' h s" "counters_inv h (eb_metrics s)"
    using i by (simp_all add: buffer_inv_def)
  have "rows_inv ?h (?s\<lparr>eb_worker := ?w\<rparr>)"
    using i'(1) a by (cases "eb_worker s") (auto simp: rows_inv_def log_accepted_def meter_def pendingRows_def)
  moreover have "bounds_inv o' ?h ?s"
    using i'(2) b f by (simp add: bounds_inv_def log_accepted_def meter_def pendingRows_def pendingBytes_def ball_Un)
  moreover have "counters_inv ?h (eb_metrics ?s)"
    using i'(3) by (simp add: counters_inv_def log_accepted_def meter_def record_defs)
  moreover have "(if eb_worker ?s = No_worker then ?s\<lparr>eb_worker := Waiting\<rparr> else ?s) = ?s\<lparr>eb_worker := ?w\<rparr>"
    by (simp add: meter_def)
  ultimately show ?thesis by (simp add: unmanned_inv_def buffer_inv_def bounds_inv_worker)
qed

lemma accepted_entries_bytes:
  "e \<in> set (accepted_entries o' now env) \<Longrightarrow> 0 \<le> qe_bytes e \<and> qe_bytes e \<le> bo_maxBatchBytes o'"
  by (auto simp: accepted_entries_def encodedBytes_def)

lemma metered_inv:
  "buffer_inv o' h s \<Longrightarrow> counters_inv h m \<Longrightarrow> buffer_inv o' h (s\<lparr>eb_metrics := m\<rparr>)"
  by (simp add: buffer_inv_def rows_inv_def bounds_inv_def pendingRows_def pendingBytes_def)

text \<open>Attempted and rejected batches are counted beside the rows.\<close>

lemma ingress_counters:
  "counters_inv h (recordIngressAttempt m) = counters_inv h m"
  "counters_inv h (recordRejected r m) = counters_inv h m"
  "counters_inv h (recordIngressRejectedRows n m) = counters_inv h m"
  by (simp_all add: counters_inv_def record_defs)

lemma ingress_attempts:
  "mt_exportAttempts (recordIngressAttempt m) = mt_exportAttempts m"
  "mt_exportAttempts (recordRejected r m) = mt_exportAttempts m"
  "mt_exportAttempts (recordIngressRejectedRows n m) = mt_exportAttempts m"
  "mt_exportAttempts (recordAccepted n m) = mt_exportAttempts m"
  by (simp_all add: record_defs)

text \<open>What an intake does: it refuses, moving only counters of refusals, or it appends and makes sure of a
  worker.\<close>

lemma enqueue_cases:
  assumes "enqueue o' now e s = (r, s')"
  obtains (refused) reason m where "r = Rejected_batch reason" "s' = s\<lparr>eb_metrics := m\<rparr>"
      "mt_exportAttempts m = mt_exportAttempts (eb_metrics s)" "\<And>h. counters_inv h m = counters_inv h (eb_metrics s)"
  | (queued) m es s1 where "es = accepted_entries o' now e" "es \<noteq> []" "validateEnvelope e s = None"
      "pendingRows s + int (length es) \<le> bo_maxQueueRows o'" "pendingBytes s + entries_bytes es \<le> bo_maxQueueBytes o'"
      "s1 = s\<lparr>eb_metrics := m\<rparr>" "mt_exportAttempts m = mt_exportAttempts (eb_metrics s)"
      "\<And>h. counters_inv h m = counters_inv h (eb_metrics s)"
      "s' = ensureWorker o' now (meter (recordAccepted (length es))
              (s1\<lparr>eb_queue := eb_queue s1 @ es, eb_queuedBytes := eb_queuedBytes s1 + entries_bytes es\<rparr>))"
      "r = Queued (length es) (length (be_rows e) - length es) (entries_bytes es) (pendingRows s')"
proof -
  let ?m0 = "recordIngressAttempt (eb_metrics s)" and ?es = "accepted_entries o' now e"
  let ?n = "length (be_rows e) - length ?es"
  let ?m1 = "if 0 < ?n then recordIngressRejectedRows ?n ?m0 else ?m0"
  have v: "validateEnvelope e (meter recordIngressAttempt s) = validateEnvelope e s"
    by (simp add: validateEnvelope_def meter_def)
  have p: "pendingRows (s\<lparr>eb_metrics := m\<rparr>) = pendingRows s" "pendingBytes (s\<lparr>eb_metrics := m\<rparr>) = pendingBytes s" for m
    by (simp_all add: pendingRows_def pendingBytes_def)
  have m1: "mt_exportAttempts ?m1 = mt_exportAttempts (eb_metrics s)" "counters_inv h ?m1 = counters_inv h (eb_metrics s)" for h
    by (simp_all add: ingress_counters ingress_attempts)
  have meter1: "(if 0 < ?n then meter (recordIngressRejectedRows ?n) (meter recordIngressAttempt s)
      else meter recordIngressAttempt s) = s\<lparr>eb_metrics := ?m1\<rparr>"
    by (simp add: meter_def)
  consider (invalid) reason where "validateEnvelope e s = Some reason"
    | (large) "validateEnvelope e s = None" "?es = []"
    | (full) "validateEnvelope e s = None" "?es \<noteq> []"
        "bo_maxQueueRows o' < pendingRows s + int (length ?es) \<or> bo_maxQueueBytes o' < pendingBytes s + entries_bytes ?es"
    | (room) "validateEnvelope e s = None" "?es \<noteq> []"
        "\<not> (bo_maxQueueRows o' < pendingRows s + int (length ?es) \<or> bo_maxQueueBytes o' < pendingBytes s + entries_bytes ?es)"
    by fastforce
  then show thesis
  proof cases
    case invalid
    then show ?thesis using assms v
      by (intro refused [of reason "recordRejected reason ?m0"])
         (auto simp: enqueue_def Let_def reject_def meter_def ingress_counters ingress_attempts)
  next
    case large
    then have "enqueue o' now e s = reject Row_too_large (s\<lparr>eb_metrics := ?m1\<rparr>)"
      using v unfolding meter1 [symmetric] by (simp add: enqueue_def Let_def)
    then have "(r, s') = reject Row_too_large (s\<lparr>eb_metrics := ?m1\<rparr>)" using assms by simp
    then show ?thesis using m1
      by (intro refused [of Row_too_large "recordRejected Row_too_large ?m1"])
         (simp_all add: reject_def meter_def ingress_counters ingress_attempts)
  next
    case full
    then have "enqueue o' now e s = reject Queue_full (s\<lparr>eb_metrics := ?m1\<rparr>)"
      using v unfolding enqueue_def Let_def meter1 by (simp add: p)
    then have "(r, s') = reject Queue_full (s\<lparr>eb_metrics := ?m1\<rparr>)" using assms by simp
    then show ?thesis using m1
      by (intro refused [of Queue_full "recordRejected Queue_full ?m1"])
         (simp_all add: reject_def meter_def ingress_counters ingress_attempts)
  next
    case room
    let ?s1 = "s\<lparr>eb_metrics := ?m1\<rparr>"
    let ?s' = "ensureWorker o' now (meter (recordAccepted (length ?es))
              (?s1\<lparr>eb_queue := eb_queue ?s1 @ ?es, eb_queuedBytes := eb_queuedBytes ?s1 + entries_bytes ?es\<rparr>))"
    have "enqueue o' now e s = (Queued (length ?es) ?n (entries_bytes ?es) (pendingRows ?s'), ?s')"
      using v room unfolding enqueue_def Let_def meter1 by (simp add: p)
    then show ?thesis using assms room m1 by (intro queued [of ?es ?s1 ?m1]) simp_all
  qed
qed

lemma enqueue_inv:
  assumes o': "valid_options o'" and i: "buffer_inv o' h s" and e: "enqueue o' now e s = (r, s')"
  shows "buffer_inv o' (log_export now s s' (log_accepted (receipt_entries o' now e r) h)) s'"
  using e
proof (cases rule: enqueue_cases)
  case (refused reason m)
  have "counters_inv h m" using i refused(4) by (simp add: buffer_inv_def)
  then show ?thesis using refused metered_inv [OF i]
    by (simp add: receipt_entries_def log_defs)
next
  case (queued m es s1)
  let ?s2 = "meter (recordAccepted (length es))
     (s1\<lparr>eb_queue := eb_queue s1 @ es, eb_queuedBytes := eb_queuedBytes s1 + entries_bytes es\<rparr>)"
  have "counters_inv h m" using i queued(8) by (simp add: buffer_inv_def)
  then have i1: "buffer_inv o' h s1" using queued(6) metered_inv [OF i] by simp
  have p: "pendingRows s1 = pendingRows s" "pendingBytes s1 = pendingBytes s" "eb_accepting s1 = eb_accepting s"
    using queued(6) by (simp_all add: pendingRows_def pendingBytes_def)
  have a: "eb_accepting s" using queued(3) by (simp add: validateEnvelope_def split: if_splits)
  have "unmanned_inv o' (log_accepted es h) ?s2"
    by (rule unmanned_appended [OF i1]) (use queued(1,4,5) p a accepted_entries_bytes in auto)
  then have "buffer_inv o' (log_export now ?s2 s' (log_accepted es h)) s'"
    using ensureWorker_inv [OF o', of "log_accepted es h" ?s2 now] queued(9) by simp
  moreover have "log_export now ?s2 s' h' = log_export now s s' h'" for h'
    by (rule log_export_same) (simp add: meter_def ingress_attempts queued(6,7))
  moreover have "receipt_entries o' now e r = es" using queued(1,10) by (simp add: receipt_entries_def)
  ultimately show ?thesis by simp
qed

lemma waiting_inv:
  "buffer_inv o' h s \<Longrightarrow> pendingRows s \<noteq> 0 \<Longrightarrow> buffer_inv o' h (s\<lparr>eb_emptyWaiters := n\<rparr>)"
  by (auto simp: buffer_inv_def rows_inv_def bounds_inv_def pendingRows_def pendingBytes_def)

lemma drain_begin_inv:
  assumes o': "valid_options o'" and i: "buffer_inv o' h s" and d: "drain_begin o' now timeoutMs s = (d, s')"
  shows "buffer_inv o' (log_export now s s' h) s'"
proof (cases "timeoutMs < 0")
  case True
  then show ?thesis using i d by (auto simp: drain_begin_def log_export_def)
next
  case False
  let ?s = "s\<lparr>eb_accepting := False, eb_draining := True\<rparr>"
  let ?e = "ensureWorker o' now ?s"
  have "buffer_inv o' h ?s"
    using i by (simp add: buffer_inv_def rows_inv_def bounds_inv_def pendingRows_def pendingBytes_def)
  then have "unmanned_inv o' h ?s"
    by (auto simp: unmanned_inv_def buffer_inv_def rows_inv_def bounds_inv_worker pendingRows_def)
  note e = ensureWorker_inv [OF o' this, of now]
  have l: "log_export now ?s s1 h = log_export now s s1 h" for s1 by (simp add: log_export_def)
  have "s' = ?e \<or> (pendingRows ?e \<noteq> 0 \<and> s' = ?e\<lparr>eb_emptyWaiters := eb_emptyWaiters ?e + 1\<rparr>)"
    using d False by (auto simp: drain_begin_def Let_def split: if_splits)
  then show ?thesis
  proof
    assume "s' = ?e"
    then show ?thesis using e l by simp
  next
    assume s': "pendingRows ?e \<noteq> 0 \<and> s' = ?e\<lparr>eb_emptyWaiters := eb_emptyWaiters ?e + 1\<rparr>"
    then have "log_export now s s' h = log_export now ?s ?e h" by (simp add: log_export_def)
    then show ?thesis using waiting_inv [OF e] s' by simp
  qed
qed

lemma drain_timeout_inv:
  assumes o': "valid_options o'" and i: "buffer_inv o' h s" and d: "eb_draining s" "drain_timeout s = (d, s')"
  shows "buffer_inv o' (log_resolved (timeout_resolution s) h) s'"
proof -
  have c: "counters_inv h (eb_metrics s)" using i by (simp add: buffer_inv_def)
  have s': "s' = s\<lparr>eb_queue := [], eb_queuedBytes := 0, eb_abandonInFlight := True, eb_inFlight := [], eb_emptyWaiters := 0,
      eb_metrics := recordOutcomeUnknown (length (eb_inFlight s)) (recordDropped Drain_timeout (length (eb_queue s)) (eb_metrics s))\<rparr>"
    using d(2) by (auto simp: drain_timeout_def Let_def notifyEmpty_def pendingRows_def meter_def)
  have "rows_inv (log_resolved (timeout_resolution s) h) s'"
    using i d(1) unfolding s'
    by (cases "eb_worker s") (auto simp: buffer_inv_def rows_inv_def log_resolved_def timeout_resolution_def split: if_splits)
  moreover have "bounds_inv o' (log_resolved (timeout_resolution s) h) s'"
    using i valid_optionsD [OF o'] unfolding s'
    by (simp add: buffer_inv_def bounds_inv_def log_resolved_def pendingRows_def pendingBytes_def)
  moreover have "counters_inv (log_resolved (timeout_resolution s) h) (eb_metrics s')"
    using c unfolding s' by (simp add: counters_inv_def log_resolved_def timeout_resolution_def record_defs)
  ultimately show ?thesis by (simp add: buffer_inv_def)
qed

lemma buffer_run_inv: "buffer_run o' t h s \<Longrightarrow> valid_options o' \<Longrightarrow> buffer_inv o' h s"
proof (induction rule: buffer_run.induct)
  case (run_start now)
  then show ?case by (rule created_inv)
next
  case (run_enqueue t h s now e r s')
  then show ?case using enqueue_inv by blast
next
  case (run_resume t h s now s')
  then show ?case using worker_head_inv at_headI by blast
next
  case (run_export_done t h s now batch s' result)
  then show ?case using export_done_inv by blast
next
  case (run_finished t h s now s')
  then show ?case using finished_inv by blast
next
  case (run_drain t h s now timeoutMs d s')
  then show ?case using drain_begin_inv by blast
next
  case (run_drain_timeout t h s now d s')
  then show ?case using drain_timeout_inv by blast
next
  case (run_wait_idle t h s now)
  then show ?case using waiting_inv [of o' h s] by (simp add: waitUntilIdle_def)
qed

end
