(* ===== verification/Event_Buffer_Properties.thy ===== *)
theory Event_Buffer_Properties
  imports Event_Buffer_Run
begin

text \<open>
  What the event buffer promises in every interleaving: no accepted row is lost, doubled or reordered
  and the counters account for each; exports keep the configured rate; an undisturbed worker exports
  after at most three waits; a drained buffer stays drained.
\<close>

section \<open>The rate of exports\<close>

definition rate_inv :: "rat \<Rightarrow> int \<Rightarrow> (int \<times> queue_entry list) list \<Rightarrow> token_bucket \<Rightarrow> bool" where
  "rate_inv rate t xs b \<longleftrightarrow>
     tb_lastRefillMs b \<le> t \<and> 0 \<le> tb_tokens b \<and> tb_tokens b \<le> 1 \<and>
     (case xs of [] \<Rightarrow> True
      | x # _ \<Rightarrow> tb_tokens b * 1000 \<le> of_int (tb_lastRefillMs b - fst x) * rate) \<and>
     successively (\<lambda>x y. 1000 \<le> of_int (fst x - fst y) * rate) xs"

lemma rate_inv_later: "rate_inv rate t xs b \<Longrightarrow> t \<le> now \<Longrightarrow> rate_inv rate now xs b"
  by (auto simp: rate_inv_def)

lemma refill_tokens:
  assumes "0 < rate" "tb_lastRefillMs b \<le> now" "0 \<le> tb_tokens b" "tb_tokens b * 1000 \<le> of_int (tb_lastRefillMs b - t) * rate"
  shows "tb_tokens (refill rate now b) * 1000 \<le> of_int (now - t) * rate"
proof -
  have "tb_tokens (refill rate now b) \<le> tb_tokens b + of_int (now - tb_lastRefillMs b) / 1000 * rate"
    using assms(2) by (simp add: refill_def)
  then show ?thesis using assms(4) by (simp add: field_simps)
qed

lemma refill_inv:
  assumes "0 < rate" "rate_inv rate t xs b" "t \<le> now"
  shows "rate_inv rate now xs (refill rate now b)"
proof -
  have b: "tb_lastRefillMs b \<le> now" "0 \<le> tb_tokens b" using assms by (auto simp: rate_inv_def)
  have "0 \<le> tb_tokens (refill rate now b)" "tb_tokens (refill rate now b) \<le> 1" "tb_lastRefillMs (refill rate now b) = now"
    using assms(1) b by (simp_all add: refill_def)
  then show ?thesis
    using assms(2) refill_tokens [OF assms(1) b] by (auto simp: rate_inv_def split: list.splits)
qed

lemma refill_again: "refill rate now (refill rate now b) = refill rate now b"
  by (simp add: refill_def)

lemma consume_inv:
  assumes r: "rate_inv rate now xs b" and b: "tb_lastRefillMs b = now" "1 \<le> tb_tokens b"
  shows "rate_inv rate now ((now, batch) # xs) (consume rate now b)"
proof -
  have "refill rate now b = b" using b r by (simp add: refill_def rate_inv_def)
  then have "consume rate now b = b\<lparr>tb_tokens := 0\<rparr>" using b r by (simp add: consume_def rate_inv_def)
  moreover have "1000 \<le> of_int (now - fst (hd xs)) * rate" if "xs \<noteq> []"
    using r b that by (cases xs) (auto simp: rate_inv_def)
  ultimately show ?thesis using r b by (cases xs) (auto simp: rate_inv_def)
qed

abbreviation run_rate :: "buffer_options \<Rightarrow> int \<Rightarrow> buffer_history \<Rightarrow> event_buffer \<Rightarrow> bool" where
  "run_rate o' t h s \<equiv> rate_inv (bo_maxQps o') t (bh_exports h) (eb_bucket s)"

lemma worker_head_rate:
  assumes o': "valid_options o'" and r: "run_rate o' t h s" and t: "t \<le> now"
  shows "run_rate o' now (log_export now s (worker_head o' now s) h) (worker_head o' now s)"
  using valid_optionsD(1,2) [OF o']
proof (cases rule: worker_head_cases [of o' s now])
  case stops
  then show ?thesis using rate_inv_later [OF r t] by (simp add: log_export_def)
next
  case (waits b)
  then show ?thesis
    using rate_inv_later [OF r t] refill_inv [OF valid_optionsD(1) [OF o'] r t] by (auto simp: log_export_def)
next
  case (exports b batch rest)
  have "rate_inv (bo_maxQps o') now (bh_exports h) b" "tb_lastRefillMs b = now"
    using refill_inv [OF valid_optionsD(1) [OF o'] r t] exports(5) by (simp_all add: refill_def)
  from consume_inv [OF this exports(6)] show ?thesis
    using exports(7) by (simp add: log_export_def record_defs)
qed

lemma ensureWorker_rate:
  assumes "valid_options o'" "run_rate o' t h s" "t \<le> now"
  shows "run_rate o' now (log_export now s (ensureWorker o' now s) h) (ensureWorker o' now s)"
  using worker_head_rate [OF assms] rate_inv_later [OF assms(2,3)] by (simp add: ensureWorker_def log_export_def)

lemma notifyEmpty_bucket [simp]: "eb_bucket (notifyEmpty s) = eb_bucket s"
  by (simp add: notifyEmpty_def)

lemma log_keeps_exports [simp]:
  "bh_exports (log_accepted es h) = bh_exports h" "bh_exports (log_resolved rs h) = bh_exports h"
  by (simp_all add: log_accepted_def log_resolved_def)

lemma log_export_exports:
  "bh_exports (log_export now s s' h) =
     (if mt_exportAttempts (eb_metrics s) < mt_exportAttempts (eb_metrics s') then (now, eb_inFlight s') # bh_exports h
      else bh_exports h)"
  by (simp add: log_export_def)

lemma buffer_run_rate: "buffer_run o' t h s \<Longrightarrow> valid_options o' \<Longrightarrow> run_rate o' t h s"
proof (induction rule: buffer_run.induct)
  case (run_start now)
  then show ?case by (simp add: rate_inv_def createEventBuffer_def no_history_def)
next
  case (run_enqueue t h s now e r s')
  then have r: "run_rate o' t h s" by simp
  show ?case using run_enqueue.hyps(3)
  proof (cases rule: enqueue_cases)
    case (refused reason m)
    then show ?thesis using rate_inv_later [OF r run_enqueue.hyps(2)] by (simp add: log_export_def)
  next
    case (queued m es s1)
    let ?s2 = "meter (recordAccepted (length es))
       (s1\<lparr>eb_queue := eb_queue s1 @ es, eb_queuedBytes := eb_queuedBytes s1 + entries_bytes es\<rparr>)"
    have "run_rate o' t (log_accepted es h) ?s2" using r queued(6) by (simp add: meter_def)
    from ensureWorker_rate [OF run_enqueue.prems this run_enqueue.hyps(2)]
    show ?thesis using queued(6,7,9) by (simp add: log_export_exports meter_def ingress_attempts split: if_splits)
  qed
next
  case (run_resume t h s now s')
  then show ?case using worker_head_rate by simp
next
  case (run_export_done t h s now batch s' result)
  let ?s = "notifyEmpty ((handleExportResult o' now batch result s)\<lparr>eb_inFlight := []\<rparr>)"
  have b: "eb_bucket ?s = eb_bucket s" "mt_exportAttempts (eb_metrics ?s) = mt_exportAttempts (eb_metrics s)"
    by (auto simp: handleExportResult_def meter_def record_defs Let_def split: export_result.split)
  then have r: "run_rate o' t h ?s" using run_export_done by simp
  show ?case
    using worker_head_rate [OF run_export_done.prems r run_export_done.hyps(2)] b(2)
      rate_inv_later [OF run_export_done.IH [OF run_export_done.prems] run_export_done.hyps(2)]
    by (auto simp: run_export_done.hyps(4) export_done_def log_export_def)
next
  case (run_finished t h s now s')
  then have "run_rate o' t h (s\<lparr>eb_worker := No_worker\<rparr>)" by simp
  from ensureWorker_rate [OF run_finished.prems this run_finished.hyps(2)] rate_inv_later [OF this run_finished.hyps(2)]
  show ?case by (auto simp: run_finished.hyps(4) worker_finished_def Let_def log_export_def)
next
  case (run_drain t h s now timeoutMs d s')
  let ?s = "s\<lparr>eb_accepting := False, eb_draining := True\<rparr>"
  have r: "run_rate o' t h s" "run_rate o' t h ?s" using run_drain by simp_all
  from ensureWorker_rate [OF run_drain.prems r(2) run_drain.hyps(2)] rate_inv_later [OF r(1) run_drain.hyps(2)]
  show ?case using run_drain.hyps(3)
    by (auto simp: drain_begin_def Let_def log_export_def split: if_splits)
next
  case (run_drain_timeout t h s now d s')
  then show ?case using rate_inv_later [of "bo_maxQps o'" t "bh_exports h" "eb_bucket s" now]
    by (auto simp: drain_timeout_def Let_def meter_def)
next
  case (run_wait_idle t h s now)
  then show ?case using rate_inv_later [of "bo_maxQps o'" t "bh_exports h" "eb_bucket s" now]
    by (simp add: waitUntilIdle_def)
qed

section \<open>Progress of the worker\<close>

text \<open>A worker nothing wakes: it waits as long as it asked, or longer by the given delays of its timers.\<close>

fun undisturbed :: "buffer_options \<Rightarrow> int \<Rightarrow> nat list \<Rightarrow> event_buffer \<Rightarrow> event_buffer" where
  "undisturbed o' now [] s = worker_head o' now s"
| "undisturbed o' now (late # ds) s =
     (let s' = worker_head o' now s
      in if eb_worker s' = Waiting
         then undisturbed o' (now + fst (waitBeforeNextAttemptMs o' now s) + int late) ds s' else s')"

text \<open>How many of the three reasons to wait are gone: back-off, tokens, the age of the oldest row.\<close>

fun reasons_gone :: "nat \<Rightarrow> buffer_options \<Rightarrow> int \<Rightarrow> event_buffer \<Rightarrow> bool" where
  "reasons_gone 0 o' t s \<longleftrightarrow> True"
| "reasons_gone (Suc 0) o' t s \<longleftrightarrow> eb_blockedUntilMs s \<le> t"
| "reasons_gone (Suc (Suc 0)) o' t s \<longleftrightarrow>
     eb_blockedUntilMs s \<le> t \<and> 1 \<le> tb_tokens (refill (bo_maxQps o') t (eb_bucket s))"
| "reasons_gone (Suc (Suc (Suc n))) o' t s \<longleftrightarrow>
     eb_blockedUntilMs s \<le> t \<and> 1 \<le> tb_tokens (refill (bo_maxQps o') t (eb_bucket s)) \<and>
     qe_enqueuedAtMs (hd (eb_queue s)) + bo_maxBatchAgeMs o' \<le> t"

lemma refill_enough:
  assumes "0 < rate" "tb_lastRefillMs b \<le> t" "0 \<le> tb_tokens b" and w: "\<lceil>(1 - tb_tokens b) / rate * 1000\<rceil> \<le> t - tb_lastRefillMs b"
  shows "1 \<le> tb_tokens (refill rate t b)"
proof -
  have "(1 - tb_tokens b) / rate * 1000 \<le> of_int (t - tb_lastRefillMs b)"
    using w ceiling_le_iff by blast
  then have "1 - tb_tokens b \<le> of_int (t - tb_lastRefillMs b) / 1000 * rate"
    using assms(1) by (simp add: field_simps)
  then show ?thesis using assms(2) by (simp add: refill_def)
qed

lemma refill_keeps_enough:
  "0 < rate \<Longrightarrow> 1 \<le> tb_tokens (refill rate t b) \<Longrightarrow> t \<le> t' \<Longrightarrow> 1 \<le> tb_tokens (refill rate t' (refill rate t b))"
  by (simp add: refill_def)

definition sound_bucket :: "int \<Rightarrow> token_bucket \<Rightarrow> bool" where
  "sound_bucket t b \<longleftrightarrow> tb_lastRefillMs b \<le> t \<and> 0 \<le> tb_tokens b"

lemma wait_step:
  assumes o': "valid_options o'" and q: "eb_queue s \<noteq> []" "\<not> eb_abandonInFlight s" and b: "sound_bucket t (eb_bucket s)"
    and g: "reasons_gone k o' t s"
  shows "(\<exists>batch. eb_worker (worker_head o' t s) = Exporting batch) \<or>
    (k < 3 \<and> eb_worker (worker_head o' t s) = Waiting \<and> eb_queue (worker_head o' t s) = eb_queue s \<and>
     \<not> eb_abandonInFlight (worker_head o' t s) \<and>
     (\<forall>t' \<ge> t + fst (waitBeforeNextAttemptMs o' t s).
        sound_bucket t' (eb_bucket (worker_head o' t s)) \<and> reasons_gone (Suc k) o' t' (worker_head o' t s)))"
proof -
  note o = valid_optionsD(1,2) [OF o']
  let ?r = "refill (bo_maxQps o') t (eb_bucket s)"
  have rt: "tb_lastRefillMs ?r = t" "0 \<le> tb_tokens ?r" using b o by (auto simp: sound_bucket_def refill_def)
  have ks: "k = 0 \<or> k = 1 \<or> k = 2 \<or> 3 \<le> k" by arith
  consider (block) "t < eb_blockedUntilMs s"
    | (token) "eb_blockedUntilMs s \<le> t" "\<not> 1 \<le> tb_tokens ?r"
    | (young) "eb_blockedUntilMs s \<le> t" "1 \<le> tb_tokens ?r" "\<not> (eb_draining s \<or> batchThresholdReached o' s)"
        "t < qe_enqueuedAtMs (hd (eb_queue s)) + bo_maxBatchAgeMs o'"
    | (go) "eb_blockedUntilMs s \<le> t" "1 \<le> tb_tokens ?r"
        "eb_draining s \<or> batchThresholdReached o' s \<or> qe_enqueuedAtMs (hd (eb_queue s)) + bo_maxBatchAgeMs o' \<le> t"
    by fastforce
  then show ?thesis
  proof cases
    case block
    then have w: "waitBeforeNextAttemptMs o' t s = (eb_blockedUntilMs s - t, s)" by (simp add: waitBeforeNextAttemptMs_def)
    then have "worker_head o' t s = s\<lparr>eb_worker := Waiting\<rparr>" using q block by (simp add: worker_head_def)
    moreover have "k = 0" using g block ks by (auto simp: numeral_2_eq_2 numeral_3_eq_3 elim: reasons_gone.elims)
    ultimately show ?thesis using w b q block by (auto simp: sound_bucket_def)
  next
    case token
    let ?w = "\<lceil>(1 - tb_tokens ?r) / bo_maxQps o' * 1000\<rceil>"
    have pos: "0 < ?w" using token o by simp
    then have w: "waitBeforeNextAttemptMs o' t s = (?w, s\<lparr>eb_bucket := ?r\<rparr>)"
      using token by (simp add: waitBeforeNextAttemptMs_def waitMs_def Let_def)
    then have h: "worker_head o' t s = s\<lparr>eb_bucket := ?r, eb_worker := Waiting\<rparr>" using q pos by (simp add: worker_head_def)
    have k: "k = 0 \<or> k = 1" using g token ks by (auto simp: numeral_2_eq_2 numeral_3_eq_3 elim: reasons_gone.elims)
    have "sound_bucket t' ?r \<and> eb_blockedUntilMs s \<le> t' \<and> 1 \<le> tb_tokens (refill (bo_maxQps o') t' ?r)"
      if t': "t + ?w \<le> t'" for t'
    proof -
      have "t \<le> t'" using t' pos by linarith
      moreover have "?w \<le> t' - tb_lastRefillMs ?r" using t' rt by linarith
      ultimately show ?thesis
        using refill_enough [OF o(1), of ?r t'] token(1) rt by (simp add: sound_bucket_def)
    qed
    then show ?thesis using k w q unfolding h by (auto simp: numeral_2_eq_2)
  next
    case young
    let ?w = "qe_enqueuedAtMs (hd (eb_queue s)) + bo_maxBatchAgeMs o' - t"
    have w: "waitBeforeNextAttemptMs o' t s = (?w, s\<lparr>eb_bucket := ?r\<rparr>)"
      using young q by (cases "eb_queue s") (auto simp: waitBeforeNextAttemptMs_def waitMs_def Let_def batchThresholdReached_def)
    then have h: "worker_head o' t s = s\<lparr>eb_bucket := ?r, eb_worker := Waiting\<rparr>" using q young by (simp add: worker_head_def)
    have k: "k = 0 \<or> k = 1 \<or> k = 2" using g young ks by (auto simp: numeral_2_eq_2 numeral_3_eq_3 elim: reasons_gone.elims)
    have "sound_bucket t' ?r \<and> reasons_gone 3 o' t' (s\<lparr>eb_bucket := ?r, eb_worker := Waiting\<rparr>)"
      if "t + ?w \<le> t'" for t'
      using that young rt refill_keeps_enough [OF o(1) young(2), of t'] by (simp add: sound_bucket_def numeral_3_eq_3)
    then show ?thesis using k w q unfolding h by (auto simp: numeral_2_eq_2 numeral_3_eq_3)
  next
    case go
    have "fst (waitBeforeNextAttemptMs o' t s) = 0"
      using go q by (cases "eb_queue s") (auto simp: waitBeforeNextAttemptMs_def waitMs_def Let_def batchThresholdReached_def)
    then obtain s1 where w: "waitBeforeNextAttemptMs o' t s = (0, s1)" by (metis prod.collapse)
    then have "\<exists>batch. eb_worker (worker_head o' t s) = Exporting batch"
      using q by (auto simp: worker_head_def Let_def meter_def split: prod.split)
    then show ?thesis ..
  qed
qed

lemma undisturbed_exports:
  assumes "valid_options o'" "eb_queue s \<noteq> []" "\<not> eb_abandonInFlight s" "sound_bucket t (eb_bucket s)"
    "reasons_gone k o' t s" "3 \<le> k + length ds"
  shows "\<exists>batch. eb_worker (undisturbed o' t ds s) = Exporting batch"
  using assms
proof (induction ds arbitrary: k t s)
  case Nil
  then show ?case using wait_step [OF Nil.prems(1-5)] by auto
next
  case (Cons late ds)
  show ?case
  proof (cases "eb_worker (worker_head o' t s) = Waiting")
    case True
    let ?t' = "t + fst (waitBeforeNextAttemptMs o' t s) + int late"
    note w = wait_step [OF Cons.prems(1-5)]
    have w': "k < 3" "eb_queue (worker_head o' t s) = eb_queue s" "\<not> eb_abandonInFlight (worker_head o' t s)"
      using w True by auto
    have "\<forall>t' \<ge> t + fst (waitBeforeNextAttemptMs o' t s).
        sound_bucket t' (eb_bucket (worker_head o' t s)) \<and> reasons_gone (Suc k) o' t' (worker_head o' t s)"
      using w True by auto
    then have g: "sound_bucket ?t' (eb_bucket (worker_head o' t s))" "reasons_gone (Suc k) o' ?t' (worker_head o' t s)"
      by simp_all
    have "eb_queue (worker_head o' t s) \<noteq> []" "3 \<le> Suc k + length ds" using w'(2) Cons.prems(2,6) by simp_all
    from Cons.IH [OF Cons.prems(1) this(1) w'(3) g this(2)] show ?thesis using True by (simp add: Let_def)
  next
    case False
    then show ?thesis using wait_step [OF Cons.prems(1-5)] by (auto simp: Let_def)
  qed
qed

section \<open>The properties\<close>

lemma fates_partition:
  "length rs = fate_count Committed rs + fate_count (Dropped Export_failure) rs + fate_count (Dropped Commit_mismatch) rs +
     fate_count (Dropped Drain_timeout) rs + fate_count Outcome_unknown rs"
proof (induction rs)
  case (Cons x rs)
  then show ?case by (cases "snd x") (auto simp: fate_count_def intro: drop_reason.exhaust)
qed simp

lemma spaced_apart:
  assumes "successively (\<lambda>x y. 1000 \<le> of_int (fst x - fst y) * rate) (xs :: (int \<times> 'a) list)" "i \<le> j" "j < length xs"
  shows "of_nat (j - i) * 1000 \<le> of_int (fst (xs ! i) - fst (xs ! j)) * (rate :: rat)"
  using assms(2,3)
proof (induction j rule: dec_induct)
  case base
  then show ?case by simp
next
  case (step j)
  have "1000 \<le> of_int (fst (xs ! j) - fst (xs ! Suc j)) * rate"
    using assms(1) step.prems by (simp add: successively_conv_nth)
  moreover have "of_nat (j - i) * 1000 \<le> of_int (fst (xs ! i) - fst (xs ! j)) * rate" using step by simp
  moreover have "of_nat (Suc j - i) * 1000 = of_nat (j - i) * 1000 + (1000 :: rat)" using step.hyps by (simp add: Suc_diff_le)
  ultimately show ?case by (simp add: algebra_simps)
qed

text \<open>A concrete buffer of one-row batches at one export a second: two rows are accepted at time 0, the
  first is exported at once and committed at 10, the second is exported at 1000.\<close>

definition example_options :: buffer_options where
  "example_options =
     \<lparr>bo_maxQueueRows = 10, bo_maxQueueBytes = 1000, bo_maxBatchRows = 1, bo_maxBatchBytes = 100, bo_maxBatchAgeMs = 50,
      bo_maxQps = 1, bo_rateLimitBackoffMs = 1000, bo_maxRateLimitBackoffMs = 30000\<rparr>"

definition example_envelope :: buffer_envelope where
  "example_envelope =
     \<lparr>be_table = TRACE_EVENT_ROW_V2_TABLE,
      be_schemaFingerprint = ''sha256:ac8d905d788da3021e79af74d1b46b0373cc79ec876b03f8531ac28c69db5a69'',
      be_rows = [JObj [(''a'', JStr ''b'')], JObj [(''c'', JStr ''d'')]]\<rparr>"

definition example_entry :: "string \<Rightarrow> string \<Rightarrow> queue_entry" where
  "example_entry k v = \<lparr>qe_row = JObj [(k, JStr v)], qe_bytes = 9, qe_enqueuedAtMs = 0\<rparr>"

definition example_queued :: event_buffer where
  "example_queued = snd (enqueue example_options 0 example_envelope (createEventBuffer 0))"

definition example_waiting :: event_buffer where
  "example_waiting = export_done example_options 10 [example_entry ''a'' ''b''] (Committed_rows 1) example_queued"

definition example_second :: event_buffer where
  "example_second = worker_head example_options 1000 example_waiting"

lemma example_entries: "accepted_entries example_options 0 example_envelope = [example_entry ''a'' ''b'', example_entry ''c'' ''d'']"
  by code_simp

lemma example_queued_facts:
  "fst (enqueue example_options 0 example_envelope (createEventBuffer 0)) = Queued 2 0 18 2"
  "eb_worker example_queued = Exporting [example_entry ''a'' ''b'']" "eb_inFlight example_queued = [example_entry ''a'' ''b'']"
  "eb_abandonInFlight example_queued = False" "mt_exportAttempts (eb_metrics example_queued) = 1"
  by code_simp+

lemma example_waiting_facts:
  "eb_worker example_waiting = Waiting" "mt_exportAttempts (eb_metrics example_waiting) = 1"
  "eb_queue example_waiting = [example_entry ''c'' ''d'']" "eb_abandonInFlight example_waiting = False"
  "tb_lastRefillMs (eb_bucket example_waiting) = 10"
  by code_simp+

lemma example_second_facts:
  "eb_inFlight example_second = [example_entry ''c'' ''d'']" "mt_exportAttempts (eb_metrics example_second) = 2"
  by code_simp+

lemma example_valid: "validateOptions example_options = None"
  by code_simp

definition example_history :: "nat \<Rightarrow> buffer_history" where
  "example_history n =
     \<lparr>bh_accepted = [example_entry ''a'' ''b'', example_entry ''c'' ''d''],
      bh_resolved = (if n = 0 then [] else [(example_entry ''a'' ''b'', Committed)]),
      bh_exports = (if n = 2 then [(1000, [example_entry ''c'' ''d''])] else []) @ [(0, [example_entry ''a'' ''b''])]\<rparr>"

lemma example_run_queued: "buffer_run example_options 0 (example_history 0) example_queued"
proof -
  let ?r = "enqueue example_options 0 example_envelope (createEventBuffer 0)"
  have "?r = (fst ?r, example_queued)" by (simp add: example_queued_def)
  from run_enqueue [OF run_start order_refl this] show ?thesis
    using example_queued_facts example_entries
    by (simp add: log_defs no_history_def receipt_entries_def example_history_def createEventBuffer_def new_metrics_def)
qed

lemma example_run_waiting: "buffer_run example_options 10 (example_history 1) example_waiting"
  using run_export_done [OF example_run_queued _ example_queued_facts(2) example_waiting_def]
    example_queued_facts example_waiting_facts
  by (simp add: log_defs example_history_def export_resolution_def with_fate_def)

lemma example_run_second: "buffer_run example_options 1000 (example_history 2) example_second"
  using run_resume [OF example_run_waiting _ example_waiting_facts(1) example_second_def]
    example_second_facts example_waiting_facts
  by (simp add: log_defs example_history_def)


text \<open>C19. In every interleaving of intake, worker, exporter answers, drains and timeouts, the rows ever accepted
  are, in their order of acceptance, the rows with a settled fate, then the batch in flight, then the
  queue: none is lost, doubled or overtaken, also when a rate-limited batch goes back. The counters
  account for all of them: accepted rows are committed, dropped for one of three reasons, of unknown
  outcome, or still pending.\<close>

theorem event_buffer_accounts_for_rows:
  assumes "buffer_run o' t h s" "validateOptions o' = None"
  shows "bh_accepted h = map fst (bh_resolved h) @ eb_inFlight s @ eb_queue s \<and>
    mt_committedRows (eb_metrics s) = fate_count Committed (bh_resolved h) \<and>
    int (mt_ingressAcceptedRows (eb_metrics s)) =
      int (mt_committedRows (eb_metrics s) + mt_droppedRows (eb_metrics s) Export_failure +
        mt_droppedRows (eb_metrics s) Commit_mismatch + mt_droppedRows (eb_metrics s) Drain_timeout +
        mt_outcomeUnknownRows (eb_metrics s)) + pendingRows s"
proof -
  have "buffer_inv o' h s" using buffer_run_inv [OF assms(1)] assms(2) by (simp add: valid_options_def)
  then have a: "bh_accepted h = map fst (bh_resolved h) @ eb_inFlight s @ eb_queue s" and c: "counters_inv h (eb_metrics s)"
    by (simp_all add: buffer_inv_def rows_inv_def)
  have "length (bh_accepted h) = length (bh_resolved h) + length (eb_inFlight s) + length (eb_queue s)"
    by (simp add: a)
  then show ?thesis
    using a c fates_partition [of "bh_resolved h"] by (simp add: counters_inv_def pendingRows_def)
qed

theorem event_buffer_accounts_for_rows_witness:
  "mt_committedRows (eb_metrics example_second) = 1 \<and> bh_accepted (example_history 2) =
     [example_entry ''a'' ''b''] @ eb_inFlight example_second @ eb_queue example_second"
  using event_buffer_accounts_for_rows [OF example_run_second example_valid]
  by (simp add: example_history_def fate_count_def)

text \<open>C38. The buffer keeps the bounds of its options in every interleaving: pending rows and bytes stay within
  the queue limits although a rate-limited batch is put back without a check, and every exported batch
  is non-empty and within the batch limits. Queued rows always have a worker, whoever waits for the
  buffer to empty waits for pending rows, and after a drain timeout nothing is ever pending again.\<close>

theorem event_buffer_keeps_bounds:
  assumes "buffer_run o' t h s" "validateOptions o' = None"
  shows "pendingRows s \<le> bo_maxQueueRows o' \<and> pendingBytes s \<le> bo_maxQueueBytes o' \<and>
    (\<forall>(started_at, batch)\<in>set (bh_exports h). batch \<noteq> [] \<and> int (length batch) \<le> bo_maxBatchRows o' \<and>
       entries_bytes batch \<le> bo_maxBatchBytes o') \<and>
    (eb_queue s \<noteq> [] \<longrightarrow> eb_worker s \<noteq> No_worker) \<and>
    (0 < eb_emptyWaiters s \<longrightarrow> 0 < pendingRows s) \<and>
    (eb_abandonInFlight s \<longrightarrow> pendingRows s = 0 \<and> \<not> eb_accepting s)"
proof -
  have i: "buffer_inv o' h s" using buffer_run_inv [OF assms(1)] assms(2) by (simp add: valid_options_def)
  have idle: "eb_abandonInFlight s \<Longrightarrow> eb_inFlight s = []"
    using i by (cases "eb_worker s") (auto simp: buffer_inv_def rows_inv_def)
  have some_row: "eb_queue s \<noteq> [] \<or> eb_inFlight s \<noteq> [] \<Longrightarrow> 0 < pendingRows s"
    by (cases "eb_queue s"; cases "eb_inFlight s") (auto simp: pendingRows_def)
  have "eb_abandonInFlight s \<Longrightarrow> pendingRows s = 0 \<and> \<not> eb_accepting s"
    using i idle by (simp add: buffer_inv_def rows_inv_def pendingRows_def)
  then show ?thesis using i some_row by (auto simp: buffer_inv_def rows_inv_def bounds_inv_def)
qed

theorem event_buffer_keeps_bounds_witness:
  "pendingRows example_second \<le> 10 \<and> int (length (snd (hd (bh_exports (example_history 2))))) \<le> 1"
  using event_buffer_keeps_bounds [OF example_run_second example_valid]
  by (simp add: example_options_def example_history_def)

text \<open>C20. Exports keep the configured rate whatever wakes the worker: from the start of one export to the start
  of the \<open>n\<close>-th after it at least \<open>n * 1000 / maxQps\<close> milliseconds pass, retries of rate-limited batches
  and the exports of a drain included.\<close>

theorem event_buffer_keeps_rate:
  assumes "buffer_run o' t h s" "validateOptions o' = None" "i \<le> j" "j < length (bh_exports h)"
  shows "of_nat (j - i) * 1000 \<le> of_int (fst (bh_exports h ! i) - fst (bh_exports h ! j)) * bo_maxQps o'"
proof -
  have "run_rate o' t h s" using buffer_run_rate [OF assms(1)] assms(2) by (simp add: valid_options_def)
  then show ?thesis using assms(3,4) by (intro spaced_apart) (simp_all add: rate_inv_def)
qed

theorem event_buffer_keeps_rate_witness:
  "(1000 :: rat) \<le> of_int (fst (bh_exports (example_history 2) ! 0) - fst (bh_exports (example_history 2) ! 1)) * 1"
  using event_buffer_keeps_rate [OF example_run_second example_valid, of 0 1]
  by (simp add: example_history_def example_options_def)

text \<open>C39. A worker with queued rows that nothing wakes exports after at most three waits (back-off, token, age of
  the oldest row), however late its timers fire: no wait is too short to make progress and none repeats.\<close>

theorem event_buffer_exports_after_three_waits:
  assumes "buffer_run o' t h s" "validateOptions o' = None" "eb_queue s \<noteq> []" "t \<le> now"
  shows "\<exists>batch. eb_worker (undisturbed o' now [late1, late2, late3] s) = Exporting batch"
proof -
  have o': "valid_options o'" using assms(2) by (simp add: valid_options_def)
  have "\<not> eb_abandonInFlight s" using buffer_run_inv [OF assms(1) o'] assms(3) by (auto simp: buffer_inv_def rows_inv_def)
  moreover have "sound_bucket now (eb_bucket s)"
    using buffer_run_rate [OF assms(1) o'] assms(4) by (auto simp: rate_inv_def sound_bucket_def)
  ultimately show ?thesis by (intro undisturbed_exports [OF o' assms(3), of now 0]) simp_all
qed

theorem event_buffer_exports_after_three_waits_witness:
  "\<exists>batch. eb_worker (undisturbed example_options 10 [0, 5, 0] example_waiting) = Exporting batch"
  using event_buffer_exports_after_three_waits [OF example_run_waiting example_valid, of 10 0 5 0]
    example_waiting_facts(3) by simp

end
