(* ===== verification/Delivery_Ledger.thy ===== *)
theory Delivery_Ledger
  imports Inbox_Plan Seen_Store
begin

text \<open>
  \<open>packages/daemon/src/agentVisibleDeliveryLedger.ts\<close>: what the model of an agent has seen, per target,
  as a high-water boundary, a set of message ids and a capped set of exact sequence numbers, and the
  matcher that removes consumed messages from the queues of the daemon.

  A message is the JavaScript object, as in \<open>Inbox_Plan\<close>; by its type the name fields are strings or
  absent. A \<open>Set\<close> is a list without duplicates. The schema library checks that an id is a UUID, which
  is the argument \<open>isUuid\<close>. A thrown error is the left value of a sum, next to the state it leaves.
\<close>

section \<open>Targets\<close>

definition getMessageShortId :: "string \<Rightarrow> string" where
  "getMessageShortId s = (if has_prefix ''thread-'' s then drop 7 s else take 8 s)"

definition is_hex :: "char \<Rightarrow> bool" where
  "is_hex ch \<longleftrightarrow> (CHR ''0'' \<le> ch \<and> ch \<le> CHR ''9'') \<or> (CHR ''a'' \<le> ch \<and> ch \<le> CHR ''f'')"

text \<open>Groups of hexadecimal digits of the given lengths, joined by dashes.\<close>

fun hex_groups :: "nat list \<Rightarrow> string \<Rightarrow> bool" where
  "hex_groups [] s = False"
| "hex_groups [n] s = (length s = n \<and> list_all is_hex s)"
| "hex_groups (n # m # ns) s =
     (n < length s \<and> list_all is_hex (take n s) \<and> s ! n = CHR ''-'' \<and> hex_groups (m # ns) (drop (Suc n) s))"

definition eventIdFromTarget :: "string \<Rightarrow> string option" where
  "eventIdFromTarget target =
     (let t = lower target; r = drop (length ''agent-event:'') t
      in if has_prefix ''agent-event:'' t \<and> (hex_groups [8] r \<or> hex_groups [8, 4, 4, 4, 12] r) then Some r else None)"

definition canonicalVisibleTarget :: "string \<Rightarrow> string" where
  "canonicalVisibleTarget target =
     (case eventIdFromTarget target of Some e \<Rightarrow> ''agent-event:'' @ getMessageShortId e | None \<Rightarrow> target)"

text \<open>A field in a template text.\<close>

fun template_text :: "jsval \<Rightarrow> string" where
  "template_text JUndef = ''undefined''"
| "template_text JNull = ''null''"
| "template_text (JBool b) = (if b then ''true'' else ''false'')"
| "template_text (JInt i) = show_int i"
| "template_text (JNonInt s) = s"
| "template_text (JStr s) = s"
| "template_text _ = ''[object Object]''"

definition computeTarget :: "jsval \<Rightarrow> jsval \<Rightarrow> jsval \<Rightarrow> jsval \<Rightarrow> string" where
  "computeTarget channelType channelName parentChannelName parentChannelType =
     (if channelType = JStr ''thread'' \<and> js_truthy parentChannelName then
        let shortId = getMessageShortId (template_text (coalesce channelName (JStr [])))
        in if parentChannelType = JStr ''dm'' then ''dm:@'' @ template_text parentChannelName @ '':'' @ shortId
           else ''#'' @ template_text parentChannelName @ '':'' @ shortId
      else if channelType = JStr ''dm'' then ''dm:@'' @ template_text channelName
      else ''#'' @ template_text channelName)"

text \<open>\<open>String.prototype.toLowerCase\<close> on 8-bit code units\<close>

definition js_lower_char :: "char \<Rightarrow> char" where
  "js_lower_char ch =
     (if (192 :: nat) \<le> of_char ch \<and> of_char ch \<le> (222 :: nat) \<and> of_char ch \<noteq> (215 :: nat)
      then char_of (of_char ch + 32 :: nat) else lower_char ch)"

definition formatProxyVisibleMessageTarget :: "message \<Rightarrow> string" where
  "formatProxyVisibleMessageTarget m =
     (if js_truthy (jget m ''third_party_event'')
      then ''agent-event:'' @ getMessageShortId (map js_lower_char (str_of (jget (jget m ''third_party_event'') ''id'')))
      else computeTarget (jget m ''channel_type'') (jget m ''channel_name'')
             (jget m ''parent_channel_name'') (jget m ''parent_channel_type''))"

definition formatAgentMessageVisibleTarget :: "message \<Rightarrow> string" where
  "formatAgentMessageVisibleTarget m = formatProxyVisibleMessageTarget m"

definition hasTargetMetadata :: "message \<Rightarrow> bool" where
  "hasTargetMetadata m \<longleftrightarrow>
     js_truthy (jget m ''third_party_event'') \<or>
     (if jget m ''channel_type'' = JStr ''thread''
      then js_truthy (jget m ''parent_channel_name'') \<and> js_truthy (jget m ''channel_name'')
      else js_truthy (jget m ''channel_type'') \<and> js_truthy (jget m ''channel_name''))"

definition visibleMessageId :: "message \<Rightarrow> string" where
  "visibleMessageId m =
     (if is_str (jget m ''message_id'') then str_of (jget m ''message_id'')
      else if is_str (jget m ''id'') then str_of (jget m ''id'') else [])"

fun source_text :: "consume_source \<Rightarrow> string" where
  "source_text Server_held_context = ''server_held_context''"
| "source_text Agent_api_events_local = ''agent_api_events_local''"
| "source_text Agent_api_events_server = ''agent_api_events_server''"
| "source_text Agent_api_history = ''agent_api_history''"
| "source_text Agent_api_send_commit = ''agent_api_send_commit''"
| "source_text Side_effect_preflight_context = ''side_effect_preflight_context''"

definition canAdvanceBoundaryForTarget :: "string \<Rightarrow> string \<Rightarrow> bool" where
  "canAdvanceBoundaryForTarget source target \<longleftrightarrow>
     source = ''verified_contiguous_content_consumption'' \<or>
     (source = ''thread_join_context_rendered'' \<and> CHR '':'' \<in> set target)"

section \<open>The ledger\<close>

definition MAX_EXACT_SEEN_SEQS_PER_TARGET :: nat where
  "MAX_EXACT_SEEN_SEQS_PER_TARGET = 2500"

record delivery_ledger =
  dl_boundary :: "string \<rightharpoonup> string \<rightharpoonup> int"
  dl_messageIds :: "string \<rightharpoonup> string \<rightharpoonup> string list"
  dl_exactSeqs :: "string \<rightharpoonup> string \<rightharpoonup> int list"

definition new_ledger :: delivery_ledger where
  "new_ledger = \<lparr>dl_boundary = Map.empty, dl_messageIds = Map.empty, dl_exactSeqs = Map.empty\<rparr>"

text \<open>\<open>set.add(x)\<close>, \<open>for (const x of xs) set.add(x)\<close>\<close>

definition set_add :: "'a \<Rightarrow> 'a list \<Rightarrow> 'a list" where
  "set_add x xs = (if x \<in> set xs then xs else xs @ [x])"

definition set_add_all :: "'a list \<Rightarrow> 'a list \<Rightarrow> 'a list" where
  "set_add_all ys xs = fold set_add ys xs"

text \<open>\<open>outer.get(a)?.get(k)\<close>, and the map of an agent, made when absent\<close>

definition get2 :: "(string \<rightharpoonup> string \<rightharpoonup> 'v) \<Rightarrow> string \<Rightarrow> string \<Rightarrow> 'v option" where
  "get2 m a k = (case m a of None \<Rightarrow> None | Some inner \<Rightarrow> inner k)"

definition set2 :: "string \<Rightarrow> string \<Rightarrow> 'v \<Rightarrow> (string \<rightharpoonup> string \<rightharpoonup> 'v) \<Rightarrow> string \<rightharpoonup> string \<rightharpoonup> 'v" where
  "set2 a k v m = m(a \<mapsto> (case m a of None \<Rightarrow> Map.empty | Some inner \<Rightarrow> inner)(k \<mapsto> v))"

definition clearAgent :: "string \<Rightarrow> delivery_ledger \<Rightarrow> delivery_ledger" where
  "clearAgent a l =
     l\<lparr>dl_boundary := (dl_boundary l)(a := None), dl_messageIds := (dl_messageIds l)(a := None),
       dl_exactSeqs := (dl_exactSeqs l)(a := None)\<rparr>"

definition getExactSeenSeqs :: "string \<Rightarrow> string \<Rightarrow> delivery_ledger \<Rightarrow> int list" where
  "getExactSeenSeqs a target l =
     (case get2 (dl_exactSeqs l) a (canonicalVisibleTarget target) of
        None \<Rightarrow> [] | Some seqs \<Rightarrow> js_sort compare_number seqs)"

definition hasAgentState :: "string \<Rightarrow> delivery_ledger \<Rightarrow> bool" where
  "hasAgentState a l \<longleftrightarrow> dl_boundary l a \<noteq> None \<or> dl_messageIds l a \<noteq> None"

definition getBoundary :: "string \<Rightarrow> string \<Rightarrow> delivery_ledger \<Rightarrow> int option" where
  "getBoundary a target l = get2 (dl_boundary l) a (canonicalVisibleTarget target)"

definition getMessageIdSet :: "string \<Rightarrow> string \<Rightarrow> delivery_ledger \<Rightarrow> string list option" where
  "getMessageIdSet a target l = get2 (dl_messageIds l) a (canonicalVisibleTarget target)"

definition has_seen_id :: "string \<Rightarrow> string list option \<Rightarrow> bool" where
  "has_seen_id x ids \<longleftrightarrow> (case ids of None \<Rightarrow> False | Some s \<Rightarrow> x \<in> set s)"

definition isModelSeen :: "string \<Rightarrow> string \<Rightarrow> message \<Rightarrow> delivery_ledger \<Rightarrow> bool" where
  "isModelSeen a target m l \<longleftrightarrow>
     (0 < messageSeq m \<and> (case getBoundary a target l of None \<Rightarrow> False | Some b \<Rightarrow> messageSeq m \<le> b)) \<or>
     (visibleMessageId m \<noteq> [] \<and> has_seen_id (visibleMessageId m) (getMessageIdSet a target l))"

section \<open>Recording a consumption\<close>

record history_scope =
  hs_agent_id :: string
  hs_channel_id :: string
  hs_channel_type :: string
  hs_target :: string

record consume_input =
  ci_historyScope :: "history_scope option"
  ci_target :: "string option"
  ci_messages :: "message list"
  ci_boundarySeq :: "int option"
  ci_source :: string

record visible_bucket =
  vb_maxSeq :: int
  vb_boundarySeq :: int
  vb_seqs :: "int list"
  vb_ids :: "string list"

type_synonym buckets = "(string, visible_bucket) omap"

definition new_bucket :: visible_bucket where
  "new_bucket = \<lparr>vb_maxSeq = 0, vb_boundarySeq = 0, vb_seqs = [], vb_ids = []\<rparr>"

definition ensureBucket :: "string \<Rightarrow> buckets \<Rightarrow> visible_bucket" where
  "ensureBucket target bs = (case oget bs target of None \<Rightarrow> new_bucket | Some b \<Rightarrow> b)"

text \<open>\<open>input.target\<close> where it is truthy\<close>

definition given_target :: "consume_input \<Rightarrow> string option" where
  "given_target i = (case ci_target i of Some (c # cs) \<Rightarrow> Some (c # cs) | _ \<Rightarrow> None)"

definition parse_scope :: "(string \<Rightarrow> bool) \<Rightarrow> history_scope \<Rightarrow> bool" where
  "parse_scope isUuid h \<longleftrightarrow>
     isUuid (hs_agent_id h) \<and> isUuid (hs_channel_id h) \<and> hs_channel_type h \<in> {''dm'', ''thread''} \<and> hs_target h \<noteq> []"

definition accepted_scope :: "(string \<Rightarrow> bool) \<Rightarrow> string \<Rightarrow> consume_input \<Rightarrow> history_scope option" where
  "accepted_scope isUuid a i =
     (case ci_historyScope i of
        None \<Rightarrow> None
      | Some h \<Rightarrow>
          if ci_source i = ''agent_api_history'' \<and> parse_scope isUuid h \<and> hs_agent_id h = a \<and> ci_target i = Some (hs_target h)
          then Some h else None)"

definition legacy_ids :: "history_scope option \<Rightarrow> message list \<Rightarrow> string list" where
  "legacy_ids scope ms =
     (case scope of
        None \<Rightarrow> []
      | Some h \<Rightarrow>
          set_add_all (map visibleMessageId
            (filter (\<lambda>m. jget m ''channel_id'' = JStr (hs_channel_id h) \<and> visibleMessageId m \<noteq> []) ms)) [])"

definition target_mismatch :: "consume_input \<Rightarrow> message \<Rightarrow> bool" where
  "target_mismatch i m \<longleftrightarrow>
     (case given_target i of
        None \<Rightarrow> False
      | Some t \<Rightarrow>
          hasTargetMetadata m \<and>
          (formatProxyVisibleMessageTarget m \<noteq> canonicalVisibleTarget t \<or>
           (case eventIdFromTarget t of
              None \<Rightarrow> False
            | Some e \<Rightarrow>
                length e = 36 \<and>
                \<not> (js_truthy (jget m ''third_party_event'') \<and>
                   map js_lower_char (str_of (jget (jget m ''third_party_event'') ''id'')) = e))))"

definition mismatch_text :: "consume_input \<Rightarrow> message \<Rightarrow> string" where
  "mismatch_text i m =
     ''AgentVisibleDeliveryLedger target mismatch: explicit target '' @ (case ci_target i of Some t \<Rightarrow> t | None \<Rightarrow> []) @
     '' does not match visible message target '' @ formatProxyVisibleMessageTarget m"

definition bucket_message :: "message \<Rightarrow> visible_bucket \<Rightarrow> visible_bucket" where
  "bucket_message m b =
     (let b = (if 0 < messageSeq m
               then b\<lparr>vb_maxSeq := max (vb_maxSeq b) (messageSeq m), vb_seqs := set_add (messageSeq m) (vb_seqs b)\<rparr> else b)
      in if visibleMessageId m \<noteq> [] then b\<lparr>vb_ids := set_add (visibleMessageId m) (vb_ids b)\<rparr> else b)"

definition message_key :: "consume_input \<Rightarrow> message \<Rightarrow> string" where
  "message_key i m =
     (case given_target i of Some t \<Rightarrow> canonicalVisibleTarget t | None \<Rightarrow> formatProxyVisibleMessageTarget m)"

fun bucket_messages :: "consume_input \<Rightarrow> message list \<Rightarrow> buckets \<Rightarrow> string + buckets" where
  "bucket_messages i [] bs = Inr bs"
| "bucket_messages i (m # ms) bs =
     (if target_mismatch i m then Inl (mismatch_text i m)
      else
        let target = message_key i m
        in if target = [] then bucket_messages i ms bs
           else bucket_messages i ms (oset target (bucket_message m (ensureBucket target bs)) bs))"

definition bucket_boundary :: "consume_input \<Rightarrow> buckets \<Rightarrow> buckets" where
  "bucket_boundary i bs =
     (case (given_target i, ci_boundarySeq i) of
        (Some t, Some q) \<Rightarrow>
          if 0 < q then
            let target = canonicalVisibleTarget t; b = ensureBucket target bs
            in oset target (b\<lparr>vb_boundarySeq := max (vb_boundarySeq b) q\<rparr>) bs
          else bs
      | _ \<Rightarrow> bs)"

definition recordExactSeqs :: "string \<Rightarrow> string \<Rightarrow> int list \<Rightarrow> delivery_ledger \<Rightarrow> delivery_ledger" where
  "recordExactSeqs a target seqs l =
     (let targetSeqs = set_add_all seqs (case get2 (dl_exactSeqs l) a target of None \<Rightarrow> [] | Some s \<Rightarrow> s);
          kept = (if MAX_EXACT_SEEN_SEQS_PER_TARGET < length targetSeqs
                  then (let s = js_sort compare_number targetSeqs in drop (length s - MAX_EXACT_SEEN_SEQS_PER_TARGET) s)
                  else targetSeqs)
      in l\<lparr>dl_exactSeqs := set2 a target kept (dl_exactSeqs l)\<rparr>)"

definition highWaterSeq :: "visible_bucket \<Rightarrow> int" where
  "highWaterSeq b = max (vb_maxSeq b) (vb_boundarySeq b)"

definition commit_bucket :: "string \<Rightarrow> string \<Rightarrow> string \<times> visible_bucket \<Rightarrow> delivery_ledger \<Rightarrow> delivery_ledger" where
  "commit_bucket a source x l =
     (case x of (target, b) \<Rightarrow>
        let previousBoundary = getBoundary a target l;
            l = (if canAdvanceBoundaryForTarget source target
                 then l\<lparr>dl_boundary := set2 a target
                     (max (case previousBoundary of None \<Rightarrow> 0 | Some p \<Rightarrow> p) (highWaterSeq b)) (dl_boundary l)\<rparr>
                 else l);
            l = (if vb_ids b \<noteq> []
                 then l\<lparr>dl_messageIds := set2 a target
                     (set_add_all (vb_ids b) (case get2 (dl_messageIds l) a target of None \<Rightarrow> [] | Some s \<Rightarrow> s))
                     (dl_messageIds l)\<rparr>
                 else l)
        in if vb_seqs b \<noteq> [] then recordExactSeqs a target (vb_seqs b) l else l)"

text \<open>The three assertions after a bucket, with the end of their messages.\<close>

definition assertConsumedInvariants ::
  "string \<Rightarrow> string \<Rightarrow> visible_bucket \<Rightarrow> bool \<Rightarrow> int option \<Rightarrow> delivery_ledger \<Rightarrow> string option" where
  "assertConsumedInvariants a target b advancesBoundary previousBoundary l =
     (let boundary = getBoundary a target l;
          prev = (case previousBoundary of None \<Rightarrow> 0 | Some p \<Rightarrow> p);
          normalized = (case boundary of None \<Rightarrow> 0 | Some p \<Rightarrow> p)
      in if \<not> advancesBoundary \<and> boundary \<noteq> previousBoundary then Some ''set-only source advanced boundary''
         else if advancesBoundary \<and> normalized < prev then Some ''boundary regressed''
         else if advancesBoundary \<and> 0 < highWaterSeq b \<and> normalized < highWaterSeq b
              then Some ''boundary below consumed high-water''
         else if list_ex (\<lambda>x. \<not> has_seen_id x (getMessageIdSet a target l)) (vb_ids b)
              then Some ''missing consumed message id''
         else None)"

fun commit_buckets :: "string \<Rightarrow> string \<Rightarrow> buckets \<Rightarrow> delivery_ledger \<Rightarrow> string option \<times> delivery_ledger" where
  "commit_buckets a source [] l = (None, l)"
| "commit_buckets a source (x # xs) l =
     (let l' = commit_bucket a source x l
      in case assertConsumedInvariants a (fst x) (snd x) (canAdvanceBoundaryForTarget source (fst x))
                (getBoundary a (fst x) l) l' of
           Some e \<Rightarrow> (Some e, l')
         | None \<Rightarrow> commit_buckets a source xs l')"

record visible_consumption =
  vc_byTarget :: buckets
  vc_messagesCount :: nat
  vc_advancing :: "string list"
  vc_historyScope :: "history_scope option"
  vc_legacyDmIds :: "string list"

definition recordConsumed ::
  "(string \<Rightarrow> bool) \<Rightarrow> string \<Rightarrow> consume_input \<Rightarrow> delivery_ledger \<Rightarrow> (string + visible_consumption option) \<times> delivery_ledger" where
  "recordConsumed isUuid a i l =
     (if ci_messages i = [] \<and> (given_target i = None \<or> ci_boundarySeq i = None) then (Inr None, l)
      else
        let scope = accepted_scope isUuid a i
        in case bucket_messages i (ci_messages i) [] of
             Inl e \<Rightarrow> (Inl e, l)
           | Inr bs \<Rightarrow>
               let byTarget = bucket_boundary i bs
               in if byTarget = [] then (Inr None, l)
                  else
                    case commit_buckets a (ci_source i) byTarget l of
                      (Some e, l') \<Rightarrow> (Inl e, l')
                    | (None, l') \<Rightarrow>
                        (Inr (Some
                           \<lparr>vc_byTarget = byTarget, vc_messagesCount = length (ci_messages i),
                            vc_advancing = filter (canAdvanceBoundaryForTarget (ci_source i)) (map fst byTarget),
                            vc_historyScope = scope, vc_legacyDmIds = legacy_ids scope (ci_messages i)\<rparr>), l'))"

definition shouldSuppress :: "visible_consumption \<Rightarrow> message \<Rightarrow> bool" where
  "shouldSuppress c m =
     (case vc_historyScope c of
        Some h \<Rightarrow>
          \<not> js_truthy (jget m ''third_party_event'') \<and> jget m ''channel_id'' = JStr (hs_channel_id h) \<and>
          jget m ''channel_type'' = JStr (hs_channel_type h) \<and>
          (jget m ''channel_type'' = JStr ''dm'' \<or> jget m ''parent_channel_type'' = JStr ''dm'') \<and>
          visibleMessageId m \<in> set (vc_legacyDmIds c)
      | None \<Rightarrow>
          let target = formatAgentMessageVisibleTarget m; seq = messageSeq m
          in case oget (vc_byTarget c) target of
               None \<Rightarrow> False
             | Some b \<Rightarrow>
                 (target \<in> set (vc_advancing c) \<and> 0 < seq \<and> 0 < vb_boundarySeq b \<and> seq \<le> vb_boundarySeq b) \<or>
                 (0 < seq \<and> seq \<in> set (vb_seqs b)) \<or>
                 (visibleMessageId m \<noteq> [] \<and> visibleMessageId m \<in> set (vb_ids b)))"

end
