(* ===== verification/Start_Pending.thy ===== *)
theory Start_Pending
  imports Raft_Prelude "HOL-Library.Multiset" "HOL-Library.Sublist"
begin

text \<open>
  \<open>packages/daemon/src/agentStartPendingDeliveryBuffer.ts\<close>: messages accepted while an agent is between
  its wake-up and the moment its runtime takes input. The private map is an insertion-ordered map from
  agents to message lists. The assertions the class runs after every transition are part of the
  operations; a violated one is the left value of a sum. The lemmas show that none is ever violated and
  that the buffer delivers or discards each message exactly once.
\<close>

section \<open>Operations\<close>

type_synonym 'm pending_map = "(string, 'm list) omap"

definition pending_count :: "string \<Rightarrow> 'm pending_map \<Rightarrow> nat" where
  "pending_count a p = (case oget p a of None \<Rightarrow> 0 | Some ms \<Rightarrow> length ms)"

definition has_pending :: "string \<Rightarrow> 'm pending_map \<Rightarrow> bool" where
  "has_pending a p \<longleftrightarrow> oget p a \<noteq> None"

definition agentIds :: "'m pending_map \<Rightarrow> string list" where
  "agentIds p = map fst p"

definition pending_values :: "string \<Rightarrow> 'm pending_map \<Rightarrow> 'm list" where
  "pending_values a p = (case oget p a of None \<Rightarrow> [] | Some ms \<Rightarrow> ms)"

definition violation_text :: "string \<Rightarrow> string \<Rightarrow> string" where
  "violation_text ctx what = ''Agent start pending delivery invariant violation after '' @ ctx @ '': '' @ what"

fun assertInternalInvariants :: "string \<Rightarrow> 'm pending_map \<Rightarrow> string option" where
  "assertInternalInvariants ctx [] = None"
| "assertInternalInvariants ctx ((a, ms) # p) =
     (if a = [] then Some (violation_text ctx ''empty agent id'')
      else if ms = [] then Some (violation_text ctx (''empty pending buffer for '' @ a))
      else assertInternalInvariants ctx p)"

definition checked :: "string \<Rightarrow> 'r \<Rightarrow> 'm pending_map \<Rightarrow> (string + 'r) \<times> 'm pending_map" where
  "checked ctx r p = (case assertInternalInvariants ctx p of None \<Rightarrow> (Inr r, p) | Some e \<Rightarrow> (Inl e, p))"

definition append_pending :: "string \<Rightarrow> string \<Rightarrow> 'm list \<Rightarrow> 'm pending_map \<Rightarrow> (string + nat) \<times> 'm pending_map" where
  "append_pending ctx a ms p =
     (if ms = [] then (Inr (pending_count a p), p)
      else
        let p = oset a (case oget p a of Some existing \<Rightarrow> existing @ ms | None \<Rightarrow> ms) p
        in checked ctx (pending_count a p) p)"

definition bufferDuringStart :: "string \<Rightarrow> 'm \<Rightarrow> 'm pending_map \<Rightarrow> (string + nat) \<times> 'm pending_map" where
  "bufferDuringStart a m p = append_pending ''bufferDuringStart'' a [m] p"

definition bufferMessagesDuringStart :: "string \<Rightarrow> 'm list \<Rightarrow> 'm pending_map \<Rightarrow> (string + nat) \<times> 'm pending_map" where
  "bufferMessagesDuringStart a ms p = append_pending ''bufferMessagesDuringStart'' a ms p"

definition rebindWake ::
  "string \<Rightarrow> 'm option \<Rightarrow> 'm option \<Rightarrow> ('m \<Rightarrow> 'm \<Rightarrow> bool) \<Rightarrow> 'm pending_map \<Rightarrow> (string + nat) \<times> 'm pending_map" where
  "rebindWake a previous nextWake same p =
     (case (previous, nextWake) of
        (Some pm, Some nm) \<Rightarrow>
          if same pm nm then (Inr (pending_count a p), p) else append_pending ''rebindWake'' a [pm] p
      | _ \<Rightarrow> (Inr (pending_count a p), p))"

definition drainOnSpawn :: "string \<Rightarrow> 'm pending_map \<Rightarrow> (string + 'm list) \<times> 'm pending_map" where
  "drainOnSpawn a p = checked ''drainOnSpawn'' (pending_values a p) (odel a p)"

definition cancelStart :: "string \<Rightarrow> 'm pending_map \<Rightarrow> (string + unit) \<times> 'm pending_map" where
  "cancelStart a p = checked ''cancelStart'' () (odel a p)"

definition cancelAllStarts :: "'m pending_map \<Rightarrow> (string + unit) \<times> 'm pending_map" where
  "cancelAllStarts p = checked ''cancelAllStarts'' () []"

definition suppressConsumed :: "string \<Rightarrow> ('m \<Rightarrow> bool) \<Rightarrow> 'm pending_map \<Rightarrow> (string + nat) \<times> 'm pending_map" where
  "suppressConsumed a P p =
     (if pending_values a p = [] then (Inr 0, p)
      else
        let ms = pending_values a p; retained = filter (\<lambda>m. \<not> P m) ms
        in checked ''suppressConsumed'' (length (filter P ms))
             (if retained = [] then odel a p else oset a retained p))"

definition purge_pending :: "string \<Rightarrow> ('m \<Rightarrow> bool) \<Rightarrow> 'm pending_map \<Rightarrow> (string + nat) \<times> 'm pending_map" where
  "purge_pending a P p = suppressConsumed a P p"

record start_snapshot =
  ss_queued :: "string list"
  ss_starting :: "string list"
  ss_terminalRecovery :: "string list"
  ss_cooldown :: "string list"

definition assertInvariants :: "string \<Rightarrow> start_snapshot \<Rightarrow> 'm pending_map \<Rightarrow> string option" where
  "assertInvariants ctx snap p =
     (case assertInternalInvariants ctx p of
        Some e \<Rightarrow> Some e
      | None \<Rightarrow>
          let allowed = ss_queued snap @ ss_starting snap @ ss_terminalRecovery snap @ ss_cooldown snap
          in case find (\<lambda>a. a \<notin> set allowed) (map fst p) of
               None \<Rightarrow> None
             | Some a \<Rightarrow> Some (violation_text ctx (''pending messages for non-starting agent '' @ a)))"

section \<open>No assertion fails\<close>

definition pending_inv :: "'m pending_map \<Rightarrow> bool" where
  "pending_inv p \<longleftrightarrow> odistinct p \<and> (\<forall>a ms. (a, ms) \<in> set p \<longrightarrow> a \<noteq> [] \<and> ms \<noteq> [])"

lemma assertInternal_ok [simp]: "pending_inv p \<Longrightarrow> assertInternalInvariants ctx p = None"
  by (induction ctx p rule: assertInternalInvariants.induct) (auto simp: pending_inv_def)

lemma checked_ok: "pending_inv p \<Longrightarrow> checked ctx r p = (Inr r, p)"
  by (simp add: checked_def)

lemma pending_inv_empty [simp]: "pending_inv []"
  by (simp add: pending_inv_def)

lemma pending_inv_oset: "pending_inv p \<Longrightarrow> a \<noteq> [] \<Longrightarrow> ms \<noteq> [] \<Longrightarrow> pending_inv (oset a ms p)"
  unfolding pending_inv_def by (auto simp: om.entries_put om.invar_put split: if_splits)

lemma pending_inv_odel: "pending_inv p \<Longrightarrow> pending_inv (odel a p)"
  by (auto simp: pending_inv_def om.entries_remove om.invar_remove)

lemma append_pending_ok:
  assumes "pending_inv p" "a \<noteq> []"
  shows "\<exists>n. fst (append_pending ctx a ms p) = Inr n" "pending_inv (snd (append_pending ctx a ms p))"
    "pending_values a' (snd (append_pending ctx a ms p)) = (if a' = a then pending_values a p @ ms else pending_values a' p)"
proof -
  let ?new = "case oget p a of Some existing \<Rightarrow> existing @ ms | None \<Rightarrow> ms"
  have i: "ms \<noteq> [] \<Longrightarrow> pending_inv (oset a ?new p)"
    using assms by (intro pending_inv_oset) (auto split: option.splits)
  show "\<exists>n. fst (append_pending ctx a ms p) = Inr n" "pending_inv (snd (append_pending ctx a ms p))"
    using i assms(1) by (auto simp: append_pending_def Let_def checked_ok)
  show "pending_values a' (snd (append_pending ctx a ms p)) = (if a' = a then pending_values a p @ ms else pending_values a' p)"
    using i by (auto simp: append_pending_def Let_def checked_ok pending_values_def map_specs split: option.splits)
qed

lemma drainOnSpawn_ok:
  assumes "pending_inv p"
  shows "fst (drainOnSpawn a p) = Inr (pending_values a p)" "pending_inv (snd (drainOnSpawn a p))"
    "pending_values a' (snd (drainOnSpawn a p)) = (if a' = a then [] else pending_values a' p)"
  using pending_inv_odel [OF assms, of a] by (simp_all add: drainOnSpawn_def checked_ok pending_values_def map_specs)

lemma suppressConsumed_ok:
  assumes "pending_inv p"
  shows "fst (suppressConsumed a P p) = Inr (length (filter P (pending_values a p)))"
    "pending_inv (snd (suppressConsumed a P p))"
    "pending_values a' (snd (suppressConsumed a P p)) =
       (if a' = a then filter (\<lambda>m. \<not> P m) (pending_values a p) else pending_values a' p)"
proof -
  let ?r = "filter (\<lambda>m. \<not> P m) (pending_values a p)"
  have "a \<noteq> []" if "pending_values a p \<noteq> []"
    using that assms by (auto simp: pending_inv_def pending_values_def dest: map_of_SomeD split: option.splits)
  then have i: "pending_values a p \<noteq> [] \<Longrightarrow> pending_inv (if ?r = [] then odel a p else oset a ?r p)"
    using pending_inv_odel [OF assms] pending_inv_oset [OF assms] by auto
  show "fst (suppressConsumed a P p) = Inr (length (filter P (pending_values a p)))"
    "pending_inv (snd (suppressConsumed a P p))"
    using i assms by (auto simp: suppressConsumed_def Let_def checked_ok)
  show "pending_values a' (snd (suppressConsumed a P p)) =
       (if a' = a then filter (\<lambda>m. \<not> P m) (pending_values a p) else pending_values a' p)"
  proof (cases "pending_values a p = []")
    case True
    then show ?thesis by (simp add: suppressConsumed_def)
  next
    case False
    have "pending_values a' (if ?r = [] then odel a p else oset a ?r p) = (if a' = a then ?r else pending_values a' p)"
      by (auto simp: pending_values_def [of a'] map_specs)
    moreover have "snd (suppressConsumed a P p) = (if ?r = [] then odel a p else oset a ?r p)"
      using False i by (auto simp: suppressConsumed_def Let_def checked_ok)
    ultimately show ?thesis by simp
  qed
qed

section \<open>Each message once\<close>

text \<open>A history of the buffer for one agent: what was buffered, what a spawn delivered, what was discarded by a
  cancelled start or as already visible. Transitions of other agents are steps too; \<open>none\<close> of them
  throws by the lemmas above, so a step is the new state.\<close>

definition rebound :: "'m option \<Rightarrow> 'm option \<Rightarrow> ('m \<Rightarrow> 'm \<Rightarrow> bool) \<Rightarrow> 'm list" where
  "rebound previous nextWake same =
     (case (previous, nextWake) of (Some pm, Some nm) \<Rightarrow> if same pm nm then [] else [pm] | _ \<Rightarrow> [])"

lemma rebindWake_append:
  "snd (rebindWake a previous nextWake same p) = snd (append_pending ''rebindWake'' a (rebound previous nextWake same) p)"
  by (auto simp: rebindWake_def rebound_def append_pending_def split: option.splits)

inductive pending_run :: "string \<Rightarrow> 'm list \<Rightarrow> 'm list \<Rightarrow> 'm list \<Rightarrow> 'm pending_map \<Rightarrow> bool" for a where
  run_empty: "pending_run a [] [] [] []"
| run_buffer:
    "pending_run a ins outs lost p \<Longrightarrow> b \<noteq> [] \<Longrightarrow> append_pending ctx b ms p = (r, p') \<Longrightarrow>
     pending_run a (if b = a then ins @ ms else ins) outs lost p'"
| run_rebind:
    "pending_run a ins outs lost p \<Longrightarrow> b \<noteq> [] \<Longrightarrow> rebindWake b previous nextWake same p = (r, p') \<Longrightarrow>
     pending_run a (if b = a then ins @ rebound previous nextWake same else ins) outs lost p'"
| run_drain:
    "pending_run a ins outs lost p \<Longrightarrow> drainOnSpawn b p = (Inr ms, p') \<Longrightarrow>
     pending_run a ins (if b = a then outs @ ms else outs) lost p'"
| run_cancel:
    "pending_run a ins outs lost p \<Longrightarrow> cancelStart b p = (r, p') \<Longrightarrow>
     pending_run a ins outs (if b = a then lost @ pending_values a p else lost) p'"
| run_cancel_all:
    "pending_run a ins outs lost p \<Longrightarrow> cancelAllStarts p = (r, p') \<Longrightarrow>
     pending_run a ins outs (lost @ pending_values a p) p'"
| run_suppress:
    "pending_run a ins outs lost p \<Longrightarrow> suppressConsumed b P p = (r, p') \<Longrightarrow>
     pending_run a ins outs (if b = a then lost @ filter P (pending_values a p) else lost) p'"

lemma cancel_ok:
  "pending_inv p \<Longrightarrow> cancelStart a p = (Inr (), odel a p)" "cancelAllStarts p = (Inr (), [])"
  using pending_inv_odel [of p a] by (simp_all add: cancelStart_def cancelAllStarts_def checked_ok)

lemma subseq_tail:
  assumes "subseq (outs @ vals) ins" "subseq vals' vals"
  shows "subseq (outs @ vals') ins"
proof -
  have "subseq (outs @ vals') (outs @ vals)" using assms(2) by (simp add: subseq_append')
  from subseq_order.order_trans [OF this assms(1)] show ?thesis .
qed

lemma subseq_more: "subseq (outs @ vals) ins \<Longrightarrow> subseq (outs @ vals @ ms) (ins @ ms)"
  using list_emb_append_mono [of "(=)" "outs @ vals" ins ms ms] by simp

lemma subseq_head: "subseq (outs @ vals) ins \<Longrightarrow> subseq outs ins"
  using subseq_tail [of outs vals ins "[]"] by simp

lemma pending_run_accounts:
  "pending_run a ins outs lost p \<Longrightarrow>
   pending_inv p \<and> mset ins = mset outs + mset lost + mset (pending_values a p) \<and> subseq (outs @ pending_values a p) ins"
proof (induction rule: pending_run.induct)
  case run_empty
  then show ?case by (simp add: pending_values_def)
next
  case (run_buffer ins outs lost p b ctx ms r p')
  then show ?case
    using append_pending_ok(2) [of p b ctx ms] append_pending_ok(3) [of p b a ctx ms] subseq_more [of outs "pending_values a p" ins ms]
    by auto
next
  case (run_rebind ins outs lost p b previous nextWake same r p')
  let ?ms = "rebound previous nextWake same"
  have "p' = snd (append_pending ''rebindWake'' b ?ms p)"
    using run_rebind.hyps(3) rebindWake_append [of b previous nextWake same p] by simp
  then show ?case
    using run_rebind append_pending_ok(2) [of p b "''rebindWake''" ?ms] append_pending_ok(3) [of p b a "''rebindWake''" ?ms]
      subseq_more [of outs "pending_values a p" ins ?ms] by auto
next
  case (run_drain ins outs lost p b ms p')
  then show ?case using drainOnSpawn_ok(1,2) [of p b] drainOnSpawn_ok(3) [of p a b] by auto
next
  case (run_cancel ins outs lost p b r p')
  then show ?case using cancel_ok(1) [of p b] pending_inv_odel [of p b] subseq_head [of outs "pending_values a p" ins]
    by (auto simp: pending_values_def map_specs)
next
  case (run_cancel_all ins outs lost p r p')
  then show ?case using cancel_ok(2) [of p] subseq_head [of outs "pending_values a p" ins] by (auto simp: pending_values_def)
next
  case (run_suppress ins outs lost p b P r p')
  have "mset (pending_values a p) = mset (filter P (pending_values a p)) + mset (filter (\<lambda>m. \<not> P m) (pending_values a p))"
    by (simp add: mset_filter)
  then show ?case
    using run_suppress suppressConsumed_ok(2) [of p b P] suppressConsumed_ok(3) [of p a b P]
      subseq_tail [of outs "pending_values a p" ins "filter (\<lambda>m. \<not> P m) (pending_values a p)"] by auto
qed


section \<open>The contract\<close>

text \<open>C11. The start buffer loses, repeats and reorders nothing. After any transitions of any agents, what was
  buffered for an agent is, counting repetitions, what spawns delivered to it, what was discarded and
  what still waits; the delivered and the waiting messages stand in the order of arrival; and the
  assertions the class makes after every transition hold.\<close>

theorem start_pending_exactly_once:
  assumes "pending_run a ins outs lost p"
  shows "mset ins = mset outs + mset lost + mset (pending_values a p) \<and>
    subseq (outs @ pending_values a p) ins \<and> assertInternalInvariants ctx p = None"
  using pending_run_accounts [OF assms] by simp

definition sample_buffered :: "nat pending_map" where
  "sample_buffered = snd (bufferMessagesDuringStart ''a'' [1, 2, 3] [])"

lemma sample_pending_run: "pending_run ''a'' [1, 2, 3] [1, 3] [2] (snd (drainOnSpawn ''a'' (snd (suppressConsumed ''a'' even sample_buffered))))"
proof -
  have "pending_run ''a'' (if ''a'' = ''a'' then [] @ [1, 2, 3] else []) [] [] sample_buffered"
    by (rule run_buffer [OF run_empty]) (simp_all add: sample_buffered_def bufferMessagesDuringStart_def prod_eq_iff)
  then have b: "pending_run ''a'' [1, 2, 3 :: nat] [] [] sample_buffered" by simp
  obtain r q where s: "suppressConsumed ''a'' even sample_buffered = (r, q)" by fastforce
  have "pending_values ''a'' sample_buffered = [1, 2, 3]" by code_simp
  with run_suppress [OF b s] have q: "pending_run ''a'' [1, 2, 3] [] [2] q" by simp
  have "drainOnSpawn ''a'' (snd (suppressConsumed ''a'' even sample_buffered)) = (Inr [1, 3], [])" by code_simp
  with run_drain [OF q, of "''a''"] s show ?thesis by simp
qed

theorem start_pending_exactly_once_witness:
  "mset [1, 2, 3 :: nat] = mset [1, 3] + mset [2] +
     mset (pending_values ''a'' (snd (drainOnSpawn ''a'' (snd (suppressConsumed ''a'' even sample_buffered)))))"
  using start_pending_exactly_once [OF sample_pending_run] by (rule conjunct1)

end
