(* ===== verification/Inbox_Gate.thy ===== *)
theory Inbox_Gate
  imports Delivery_Ledger Start_Pending
begin

text \<open>
  The gate in front of an agent's side effects, as the daemon composes it: the queues of
  \<open>agentProcessManager.ts\<close> (active inbox and start-pending buffer), the delivery ledger, the planner, and
  \<open>prepareAgentApiSideEffectForward\<close> of \<open>agentCredentialProxy.ts\<close>, which asks the planner and applies
  its effects. \<open>queueAgentInboxMessage\<close> is from \<open>agentInboxDeliveryDebt.ts\<close>.

  The gate reads the queues, may await the recent history of the target, and then plans on what it
  read with the ledger of that later moment: \<open>gate_begin\<close> and \<open>gate_finish\<close> are the two segments, and
  \<open>prepareAgentApiSideEffectForward\<close> runs them without interruption. The history request is an
  argument. Request bodies are the parsed JSON; their sequence numbers are integers. Trace events and
  the notification counters of a process are left out, and so is the check of the residency of all
  agents that the manager runs after a consumption or a purge (it may drop an orphaned start buffer,
  which is a step \<open>gate_other\<close> of \<open>Gate_Run\<close>, or throw).
\<close>

section \<open>Queues\<close>

definition RUNTIME_PROFILE_MIGRATION_MESSAGE_PREFIX :: string where
  "RUNTIME_PROFILE_MIGRATION_MESSAGE_PREFIX = ''runtime-profile-migration-''"

definition RUNTIME_PROFILE_DAEMON_NOTICE_MESSAGE_PREFIX :: string where
  "RUNTIME_PROFILE_DAEMON_NOTICE_MESSAGE_PREFIX = ''runtime-profile-daemon-release-''"

text \<open>The result is not null.\<close>

definition runtimeProfileNotificationFromMessage :: "message \<Rightarrow> bool" where
  "runtimeProfileNotificationFromMessage m \<longleftrightarrow>
     is_str (jget m ''message_id'') \<and>
     (has_prefix RUNTIME_PROFILE_MIGRATION_MESSAGE_PREFIX (str_of (jget m ''message_id'')) \<or>
      has_prefix RUNTIME_PROFILE_DAEMON_NOTICE_MESSAGE_PREFIX (str_of (jget m ''message_id'')))"

definition isThirdPartyAgentEvent :: "message \<Rightarrow> bool" where
  "isThirdPartyAgentEvent m \<longleftrightarrow> nonempty_str (jget (jget m ''third_party_event'') ''id'')"

definition hasStableLocalMessageId :: "message \<Rightarrow> bool" where
  "hasStableLocalMessageId m \<longleftrightarrow>
     nonempty_str (coalesce (jget m ''message_id'') (jget m ''id'')) \<or> isThirdPartyAgentEvent m"

record gate_state =
  gs_ledger :: delivery_ledger
  gs_inbox :: "message list option"
  gs_starting :: "message pending_map"

definition collect_visible :: "message list \<Rightarrow> message list" where
  "collect_visible ms = filter (\<lambda>m. \<not> runtimeProfileNotificationFromMessage m \<and> hasStableLocalMessageId m) ms"

definition allPendingVisibleMessages :: "string \<Rightarrow> gate_state \<Rightarrow> message list" where
  "allPendingVisibleMessages a s =
     collect_visible (case gs_inbox s of None \<Rightarrow> [] | Some ms \<Rightarrow> ms) @ collect_visible (pending_values a (gs_starting s))"

definition pendingVisibleMessages :: "string \<Rightarrow> string \<Rightarrow> gate_state \<Rightarrow> message list" where
  "pendingVisibleMessages a target s =
     filter (\<lambda>m. formatAgentMessageVisibleTarget m = target) (allPendingVisibleMessages a s)"

definition samePendingDelivery :: "message \<Rightarrow> message \<Rightarrow> bool" where
  "samePendingDelivery left right \<longleftrightarrow>
     (if js_truthy (jget left ''message_id'') \<and> js_truthy (jget right ''message_id'')
      then jget left ''message_id'' = jget right ''message_id''
      else 0 < messageSeq left \<and> 0 < messageSeq right \<and> messageSeq left = messageSeq right)"

record queue_receipt =
  qr_duplicate :: bool
  qr_inboxCount :: nat

definition queueAgentInboxMessage :: "message \<Rightarrow> message list \<Rightarrow> queue_receipt \<times> message list" where
  "queueAgentInboxMessage m inbox =
     (if list_ex (\<lambda>p. samePendingDelivery p m) inbox
      then (\<lparr>qr_duplicate = True, qr_inboxCount = length inbox\<rparr>, inbox)
      else (\<lparr>qr_duplicate = False, qr_inboxCount = length (inbox @ [m])\<rparr>, inbox @ [m]))"

text \<open>The removed messages are counted.\<close>

definition consumeVisibleMessages ::
  "(string \<Rightarrow> bool) \<Rightarrow> string \<Rightarrow> consume_input \<Rightarrow> gate_state \<Rightarrow> (string + nat) \<times> gate_state" where
  "consumeVisibleMessages isUuid a i s =
     (case recordConsumed isUuid a i (gs_ledger s) of
        (Inl e, l) \<Rightarrow> (Inl e, s\<lparr>gs_ledger := l\<rparr>)
      | (Inr None, l) \<Rightarrow> (Inr 0, s\<lparr>gs_ledger := l\<rparr>)
      | (Inr (Some c), l) \<Rightarrow>
          let active = (case gs_inbox s of None \<Rightarrow> [] | Some ms \<Rightarrow> ms);
              s = s\<lparr>gs_ledger := l, gs_inbox := map_option (filter (\<lambda>m. \<not> shouldSuppress c m)) (gs_inbox s)\<rparr>
          in case suppressConsumed a (shouldSuppress c) (gs_starting s) of
               (Inl e, p) \<Rightarrow> (Inl e, s\<lparr>gs_starting := p\<rparr>)
             | (Inr n, p) \<Rightarrow> (Inr (length (filter (shouldSuppress c) active) + n), s\<lparr>gs_starting := p\<rparr>))"

definition purgeInboxMessagesForChannels :: "string \<Rightarrow> string list \<Rightarrow> gate_state \<Rightarrow> (string + nat) \<times> gate_state" where
  "purgeInboxMessagesForChannels a channelIds s =
     (let ids = filter (\<lambda>c. c \<noteq> []) channelIds;
          gone = (\<lambda>m. case jget m ''channel_id'' of JStr c \<Rightarrow> c \<in> set ids | _ \<Rightarrow> False)
      in if ids = [] then (Inr 0, s)
         else
           let active = (case gs_inbox s of None \<Rightarrow> [] | Some ms \<Rightarrow> ms);
               s = s\<lparr>gs_inbox := map_option (filter (\<lambda>m. \<not> gone m)) (gs_inbox s)\<rparr>
           in case purge_pending a gone (gs_starting s) of
                (Inl e, p) \<Rightarrow> (Inl e, s\<lparr>gs_starting := p\<rparr>)
              | (Inr n, p) \<Rightarrow> (Inr (length (filter gone active) + n), s\<lparr>gs_starting := p\<rparr>))"

section \<open>The gate\<close>

definition LOCAL_HELD_CONTEXT_LIMIT :: int where
  "LOCAL_HELD_CONTEXT_LIMIT = 3"

definition MAX_FORWARDED_EXACT_SEEN_SEQS :: nat where
  "MAX_FORWARDED_EXACT_SEEN_SEQS = 2500"

definition sideEffectTarget :: "side_action \<Rightarrow> jsval \<Rightarrow> string option" where
  "sideEffectTarget action body =
     (let field = (if action = Send then jget body ''target'' else jget body ''channel'')
      in if nonempty_str field then Some (str_of field) else None)"

definition mergeDaemonExactSeenSeqs :: "int list \<Rightarrow> jsval \<Rightarrow> jsval" where
  "mergeDaemonExactSeenSeqs daemonSeqs body =
     (let boundary = (case jget body ''seenUpToSeq'' of JInt i \<Rightarrow> i | _ \<Rightarrow> 0);
          above = filter (\<lambda>q. boundary < q) daemonSeqs
      in if above = [] then body
         else
           let existing = (case jget body ''seenExactSeqs'' of JArr vs \<Rightarrow> positive_ints vs | _ \<Rightarrow> []);
               merged = js_sort compare_number (js_dedupe (existing @ above))
           in jset body ''seenExactSeqs''
                (JArr (map JInt (drop (length merged - MAX_FORWARDED_EXACT_SEEN_SEQS) merged))))"

text \<open>The answer of the gate: the body to forward (\<open>None\<close>: the raw text that is not JSON) and a local response.\<close>

record gate_result =
  gr_body :: "jsval option"
  gr_target :: "string option"
  gr_mode :: "context_mode option"
  gr_localResponse :: "message envelope_body option"

record gate_read =
  gd_action :: side_action
  gd_body :: jsval
  gd_target :: string
  gd_mode :: context_mode
  gd_pending :: "message list"
  gd_existing :: "int option"
  gd_continueAnyway :: bool
  gd_loadRecent :: bool

datatype gate_start = Gate_throws string | Gate_passes gate_result | Gate_plans gate_read

text \<open>What a gate request with a target reads.\<close>

definition gate_reads :: "string \<Rightarrow> side_action \<Rightarrow> jsval \<Rightarrow> string \<Rightarrow> gate_state \<Rightarrow> gate_read" where
  "gate_reads a action body target s =
     (let mode = (if jget body ''freshnessContextMode'' = JStr ''withheld'' then Withheld else Inline);
          pending = pendingVisibleMessages a target s;
          existing = (case jget body ''seenUpToSeq'' of JInt i \<Rightarrow> Some (max 0 i) | _ \<Rightarrow> None);
          continueAnyway = (action = Send \<and> jget body ''continueAnyway'' = JBool True)
      in \<lparr>gd_action = action, gd_body = body, gd_target = target, gd_mode = mode, gd_pending = pending,
          gd_existing = existing, gd_continueAnyway = continueAnyway,
          gd_loadRecent = (mode \<noteq> Withheld \<and> pending = [] \<and> \<not> continueAnyway \<and>
             max (case existing of None \<Rightarrow> 0 | Some b \<Rightarrow> b)
                 (case getBoundary a target (gs_ledger s) of None \<Rightarrow> 0 | Some b \<Rightarrow> b) \<le> 0)\<rparr>)"

text \<open>\<open>parsed\<close> is the parsed body, \<open>None\<close> when it is not JSON; an empty request body is the empty object.
  Reading a property of a null body throws.\<close>

definition gate_begin :: "string \<Rightarrow> side_action \<Rightarrow> jsval option \<Rightarrow> gate_state \<Rightarrow> gate_start" where
  "gate_begin a action parsed s =
     (case parsed of
        None \<Rightarrow> Gate_passes \<lparr>gr_body = None, gr_target = None, gr_mode = None, gr_localResponse = None\<rparr>
      | Some body \<Rightarrow>
          if body = JNull then Gate_throws ''TypeError''
          else case sideEffectTarget action body of
                 None \<Rightarrow>
                   Gate_passes \<lparr>gr_body = Some body, gr_target = None,
                     gr_mode = Some (if jget body ''freshnessContextMode'' = JStr ''withheld'' then Withheld else Inline),
                     gr_localResponse = None\<rparr>
               | Some target \<Rightarrow> Gate_plans (gate_reads a action body target s))"

text \<open>The answer of the history request: the messages of the response, or none when it failed.\<close>

definition recent_messages :: "message list option \<Rightarrow> string \<Rightarrow> message list" where
  "recent_messages answer target =
     (case answer of None \<Rightarrow> [] | Some ms \<Rightarrow> normalizeInboxVisibleMessages ms (Some target))"

definition gate_input :: "string \<Rightarrow> gate_read \<Rightarrow> message list \<Rightarrow> delivery_ledger \<Rightarrow> plan_input" where
  "gate_input a r recent l =
     \<lparr>in_agentId = a, in_action = gd_action r, in_target = gd_target r, in_continueAnyway = gd_continueAnyway r,
      in_freshnessContextMode = Some (gd_mode r), in_existingSeenUpToSeq = gd_existing r,
      in_modelSeenSeq = getBoundary a (gd_target r) l, in_pendingMessages = gd_pending r, in_recentMessages = recent,
      in_isMessageModelSeen = Some (\<lambda>t m. isModelSeen a t m l), in_heldContextLimit = Some LOCAL_HELD_CONTEXT_LIMIT\<rparr>"

fun apply_effects :: "(string \<Rightarrow> bool) \<Rightarrow> string \<Rightarrow> inbox_effect list \<Rightarrow> gate_state \<Rightarrow> (string + unit) \<times> gate_state" where
  "apply_effects isUuid a [] s = (Inr (), s)"
| "apply_effects isUuid a (Record_freshness_decision d # es) s = apply_effects isUuid a es s"
| "apply_effects isUuid a (Consume_visible_messages target ms boundary source # es) s =
     (case consumeVisibleMessages isUuid a
             \<lparr>ci_historyScope = None, ci_target = target, ci_messages = ms, ci_boundarySeq = boundary,
              ci_source = source_text source\<rparr> s of
        (Inl e, s') \<Rightarrow> (Inl e, s')
      | (Inr _, s') \<Rightarrow> apply_effects isUuid a es s')"

definition gate_finish ::
  "(string \<Rightarrow> bool) \<Rightarrow> string \<Rightarrow> bool \<Rightarrow> gate_read \<Rightarrow> message list \<Rightarrow> gate_state \<Rightarrow> (string + gate_result) \<times> gate_state" where
  "gate_finish isUuid a localHold r recent s =
     (let plan = planAgentInboxSideEffect (gate_input a r recent (gs_ledger s));
          answer = (\<lambda>body response.
            \<lparr>gr_body = Some body, gr_target = Some (gd_target r), gr_mode = Some (gd_mode r), gr_localResponse = response\<rparr>);
          merge = (\<lambda>s body.
            if gd_action r = Send then mergeDaemonExactSeenSeqs (getExactSeenSeqs a (gd_target r) (gs_ledger s)) body else body)
      in if \<not> localHold \<and> sp_localResponse plan \<noteq> None then (Inr (answer (merge s (gd_body r)) None), s)
         else
           case apply_effects isUuid a (sp_effects plan) s of
             (Inl e, s') \<Rightarrow> (Inl e, s')
           | (Inr _, s') \<Rightarrow>
               let body = (case sp_forwardSeenUpToSeq plan of
                     Some q \<Rightarrow> if gd_action r = Send then jset (gd_body r) ''seenUpToSeq'' (JInt q) else gd_body r
                   | None \<Rightarrow> gd_body r);
                   body = (if sp_localResponse plan = None then merge s' body else body)
               in (Inr (answer body (sp_localResponse plan)), s'))"

definition prepareAgentApiSideEffectForward ::
  "(string \<Rightarrow> bool) \<Rightarrow> string \<Rightarrow> side_action \<Rightarrow> bool \<Rightarrow> jsval option \<Rightarrow> (string \<Rightarrow> message list option) \<Rightarrow> gate_state \<Rightarrow>
   (string + gate_result) \<times> gate_state" where
  "prepareAgentApiSideEffectForward isUuid a action localHold parsed history s =
     (case gate_begin a action parsed s of
        Gate_throws e \<Rightarrow> (Inl e, s)
      | Gate_passes r \<Rightarrow> (Inr r, s)
      | Gate_plans r \<Rightarrow>
          gate_finish isUuid a localHold r
            (if gd_loadRecent r then recent_messages (history (gd_target r)) (gd_target r) else []) s)"

end
