(* ===== verification/Delivery_Contract.thy ===== *)
theory Delivery_Contract
  imports Delivery_Ledger
begin

text \<open>
  The contract the comment of the delivery ledger states as I1 to I3: only verified sources advance a
  boundary, a write touches only the targets of its messages, the assertions after a write never fail,
  and what a consumption suppresses is what it recorded.
\<close>

section \<open>Nested maps and sets\<close>

lemma get2_set2 [simp]: "get2 (set2 a k v m) a' k' = (if a = a' \<and> k = k' then Some v else get2 m a' k')"
  by (auto simp: get2_def set2_def split: option.splits)

lemma set_set_add [simp]: "set (set_add x xs) = insert x (set xs)"
  by (auto simp: set_add_def)

lemma set_set_add_all [simp]: "set (set_add_all ys xs) = set ys \<union> set xs"
  unfolding set_add_all_def by (induction ys arbitrary: xs) auto

lemma distinct_set_add [simp]: "distinct xs \<Longrightarrow> distinct (set_add x xs)"
  by (simp add: set_add_def)

lemma distinct_set_add_all [simp]: "distinct xs \<Longrightarrow> distinct (set_add_all ys xs)"
  unfolding set_add_all_def by (induction ys arbitrary: xs) simp_all

section \<open>Buckets\<close>

definition seq_set :: "message list \<Rightarrow> int set" where
  "seq_set ms = {q. 0 < q \<and> q \<in> messageSeq ` set ms}"

definition id_set :: "message list \<Rightarrow> string set" where
  "id_set ms = {x. x \<noteq> [] \<and> x \<in> visibleMessageId ` set ms}"

lemma seq_set_simps [simp]:
  "seq_set [] = {}" "seq_set (m # ms) = (if 0 < messageSeq m then insert (messageSeq m) (seq_set ms) else seq_set ms)"
  by (auto simp: seq_set_def)

lemma id_set_simps [simp]:
  "id_set [] = {}" "id_set (m # ms) = (if visibleMessageId m \<noteq> [] then insert (visibleMessageId m) (id_set ms) else id_set ms)"
  by (auto simp: id_set_def)

lemma bucket_message_fields:
  "set (vb_seqs (bucket_message m b)) = (if 0 < messageSeq m then {messageSeq m} else {}) \<union> set (vb_seqs b)"
  "set (vb_ids (bucket_message m b)) = (if visibleMessageId m \<noteq> [] then {visibleMessageId m} else {}) \<union> set (vb_ids b)"
  "vb_boundarySeq (bucket_message m b) = vb_boundarySeq b"
  by (auto simp: bucket_message_def Let_def)

text \<open>The highest number of a bucket is one of its numbers.\<close>

definition max_is_member :: "visible_bucket \<Rightarrow> bool" where
  "max_is_member b \<longleftrightarrow> vb_maxSeq b = 0 \<or> vb_maxSeq b \<in> set (vb_seqs b)"

lemma max_is_member_simps [simp]:
  "max_is_member new_bucket" "max_is_member (b\<lparr>vb_boundarySeq := q\<rparr>) = max_is_member b"
  "max_is_member b \<Longrightarrow> max_is_member (bucket_message m b)"
  by (auto simp: max_is_member_def new_bucket_def bucket_message_def Let_def max_def)

lemma new_bucket_fields [simp]:
  "vb_seqs new_bucket = []" "vb_ids new_bucket = []" "vb_boundarySeq new_bucket = 0" "vb_maxSeq new_bucket = 0"
  by (simp_all add: new_bucket_def)

lemma ensureBucket_oset [simp]: "ensureBucket k (oset k' b bs) = (if k = k' then b else ensureBucket k bs)"
  by (simp add: ensureBucket_def map_specs)

text \<open>The messages that go to one target.\<close>

definition keyed :: "consume_input \<Rightarrow> string \<Rightarrow> message list \<Rightarrow> message list" where
  "keyed i k ms = filter (\<lambda>m. message_key i m = k) ms"

lemma keyed_simps [simp]:
  "keyed i k [] = []" "keyed i k (m # ms) = (if message_key i m = k then m # keyed i k ms else keyed i k ms)"
  by (simp_all add: keyed_def)

lemma bucket_messages_error:
  "bucket_messages i ms bs = Inl e \<Longrightarrow> \<exists>m\<in>set ms. target_mismatch i m \<and> e = mismatch_text i m"
  by (induction i ms bs rule: bucket_messages.induct) (auto simp: Let_def split: if_splits)

lemma bucket_messages_no_error:
  "\<forall>m\<in>set ms. \<not> target_mismatch i m \<Longrightarrow> \<exists>bs'. bucket_messages i ms bs = Inr bs'"
  by (induction i ms bs rule: bucket_messages.induct) (auto simp: Let_def)

lemma bucket_messages_spec:
  assumes "bucket_messages i ms bs = Inr bs'" "k \<noteq> []"
  shows "(oget bs' k \<noteq> None \<longleftrightarrow> oget bs k \<noteq> None \<or> keyed i k ms \<noteq> []) \<and>
    set (vb_seqs (ensureBucket k bs')) = seq_set (keyed i k ms) \<union> set (vb_seqs (ensureBucket k bs)) \<and>
    set (vb_ids (ensureBucket k bs')) = id_set (keyed i k ms) \<union> set (vb_ids (ensureBucket k bs)) \<and>
    vb_boundarySeq (ensureBucket k bs') = vb_boundarySeq (ensureBucket k bs) \<and>
    (max_is_member (ensureBucket k bs) \<longrightarrow> max_is_member (ensureBucket k bs'))"
  using assms
proof (induction i ms bs rule: bucket_messages.induct)
  case (1 i bs)
  then show ?case by simp
next
  case (2 i m ms bs)
  have nm: "\<not> target_mismatch i m" using 2(3) by (auto split: if_splits)
  show ?case
  proof (cases "message_key i m = []")
    case True
    then show ?thesis using 2(1) [OF nm refl True] 2(3,4) nm by (auto simp: Let_def)
  next
    case False
    then show ?thesis using 2(2) [OF nm refl False] 2(3,4) nm
      by (auto simp: Let_def map_specs bucket_message_fields)
  qed
qed

lemma bucket_messages_keys:
  assumes "bucket_messages i ms bs = Inr bs'" "odistinct bs"
  shows "odistinct bs' \<and> set (map fst bs') \<subseteq> set (map fst bs) \<union> message_key i ` set ms"
  using assms
proof (induction i ms bs rule: bucket_messages.induct)
  case (2 i m ms bs)
  have nm: "\<not> target_mismatch i m" using 2(3) by (auto split: if_splits)
  let ?bs = "oset (message_key i m) (bucket_message m (ensureBucket (message_key i m) bs)) bs"
  have d: "odistinct ?bs" by (rule om.invar_put [OF 2(4)])
  have k: "set (map fst ?bs) = insert (message_key i m) (set (map fst bs))" by (simp add: dom_update)
  show ?case
  proof (cases "message_key i m = []")
    case True
    then show ?thesis using 2(1) [OF nm refl True] 2(3,4) nm by (auto simp: Let_def)
  next
    case False
    have "bucket_messages i ms ?bs = Inr bs'" using 2(3) nm False by (simp add: Let_def)
    from 2(2) [OF nm refl False this d] show ?thesis using k by auto
  qed
qed simp

text \<open>The buckets of a consumption.\<close>

definition consumed_buckets :: "consume_input \<Rightarrow> buckets \<Rightarrow> bool" where
  "consumed_buckets i bs \<longleftrightarrow>
     odistinct bs \<and>
     (\<forall>k b. oget bs k = Some b \<longrightarrow> max_is_member b \<and>
        set (vb_seqs b) = seq_set (keyed i k (ci_messages i)) \<and> set (vb_ids b) = id_set (keyed i k (ci_messages i)) \<and>
        vb_boundarySeq b =
          (if map_option canonicalVisibleTarget (given_target i) = Some k
           then (case ci_boundarySeq i of None \<Rightarrow> 0 | Some q \<Rightarrow> max 0 q) else 0)) \<and>
     (\<forall>m\<in>set (ci_messages i). message_key i m \<noteq> [] \<longrightarrow> oget bs (message_key i m) \<noteq> None) \<and>
     (\<forall>k. oget bs k \<noteq> None \<longrightarrow>
        (\<exists>m\<in>set (ci_messages i). k = message_key i m) \<or> map_option canonicalVisibleTarget (given_target i) = Some k)"

lemma given_target_nonempty: "given_target i = Some t \<Longrightarrow> t \<noteq> []"
  by (auto simp: given_target_def split: option.splits list.splits)

lemma canonical_nonempty: "t \<noteq> [] \<Longrightarrow> canonicalVisibleTarget t \<noteq> []"
  by (simp add: canonicalVisibleTarget_def split: option.splits)

lemma key_mem: "oget bs k \<noteq> None \<longleftrightarrow> k \<in> set (map fst bs)"
  by (simp add: map_of_eq_None_iff)

lemma consumed_bucketsI:
  assumes b: "bucket_messages i (ci_messages i) [] = Inr bs"
  shows "consumed_buckets i (bucket_boundary i bs)"
proof -
  have d: "odistinct bs" and keys: "set (map fst bs) \<subseteq> message_key i ` set (ci_messages i)"
    using bucket_messages_keys [OF b] by simp_all
  have ne: "k \<noteq> []" if "oget bs k \<noteq> None" for k
  proof -
    have "[] \<notin> set (map fst bs')" if "bucket_messages i ms bs0 = Inr bs'" "[] \<notin> set (map fst bs0)" for ms bs0 bs'
      using that by (induction i ms bs0 rule: bucket_messages.induct) (auto simp: Let_def dom_update split: if_splits)
    from this [OF b] have "[] \<notin> set (map fst bs)" by simp
    then show ?thesis using that by (metis key_mem)
  qed
  note spec = bucket_messages_spec [OF b]
  have m: "oget bs (message_key i m) \<noteq> None" if "m \<in> set (ci_messages i)" "message_key i m \<noteq> []" for m
    using spec [OF that(2)] that(1) by (auto simp: keyed_def filter_empty_conv)
  have field: "set (vb_seqs (ensureBucket k bs)) = seq_set (keyed i k (ci_messages i))"
    "set (vb_ids (ensureBucket k bs)) = id_set (keyed i k (ci_messages i))" "vb_boundarySeq (ensureBucket k bs) = 0"
    "max_is_member (ensureBucket k bs)"
    if "k \<noteq> []" for k
    using spec [OF that] by (simp_all add: ensureBucket_def)
  have origin: "\<exists>m\<in>set (ci_messages i). k = message_key i m" if "oget bs k \<noteq> None" for k
  proof -
    have "k \<in> message_key i ` set (ci_messages i)" using keys that key_mem [of bs k] by blast
    then show ?thesis by blast
  qed
  show ?thesis
  proof (cases "\<exists>t q. given_target i = Some t \<and> ci_boundarySeq i = Some q \<and> 0 < q")
    case False
    then have same: "bucket_boundary i bs = bs" by (auto simp: bucket_boundary_def split: option.splits)
    have b0: "(case ci_boundarySeq i of None \<Rightarrow> 0 | Some q \<Rightarrow> max 0 q) = 0" if "given_target i \<noteq> None"
      using False that by (auto split: option.splits)
    show ?thesis unfolding same consumed_buckets_def
    proof (intro conjI allI impI ballI)
      fix k bk assume k: "oget bs k = Some bk"
      then have n: "k \<noteq> []" and e: "ensureBucket k bs = bk" using ne by (auto simp: ensureBucket_def)
      show "max_is_member bk" using field [OF n] e by auto
      show "set (vb_seqs bk) = seq_set (keyed i k (ci_messages i))" "set (vb_ids bk) = id_set (keyed i k (ci_messages i))"
        "vb_boundarySeq bk = (if map_option canonicalVisibleTarget (given_target i) = Some k
           then (case ci_boundarySeq i of None \<Rightarrow> 0 | Some q \<Rightarrow> max 0 q) else 0)"
        using field [OF n] e b0 by auto
    qed (use d m origin in blast)+
  next
    case True
    then obtain t q where t: "given_target i = Some t" "ci_boundarySeq i = Some q" "0 < q" by blast
    let ?k = "canonicalVisibleTarget t" and ?e = "ensureBucket (canonicalVisibleTarget t) bs"
    have kn: "?k \<noteq> []" using canonical_nonempty [OF given_target_nonempty [OF t(1)]] .
    have bb: "bucket_boundary i bs = oset ?k (?e\<lparr>vb_boundarySeq := max (vb_boundarySeq ?e) q\<rparr>) bs"
      using t by (simp add: bucket_boundary_def Let_def)
    show ?thesis unfolding bb consumed_buckets_def
    proof (intro conjI allI impI ballI)
      fix k bk assume k: "oget (oset ?k (?e\<lparr>vb_boundarySeq := max (vb_boundarySeq ?e) q\<rparr>) bs) k = Some bk"
      have n: "k \<noteq> []" using k kn ne by (auto simp: map_specs split: if_splits)
      have e: "bk = (if k = ?k then ?e\<lparr>vb_boundarySeq := max (vb_boundarySeq ?e) q\<rparr> else ensureBucket k bs)"
        using k by (auto simp: map_specs ensureBucket_def split: if_splits)
      show "max_is_member bk" using field [OF n] e by auto
      show "set (vb_seqs bk) = seq_set (keyed i k (ci_messages i))" "set (vb_ids bk) = id_set (keyed i k (ci_messages i))"
        "vb_boundarySeq bk = (if map_option canonicalVisibleTarget (given_target i) = Some k
           then (case ci_boundarySeq i of None \<Rightarrow> 0 | Some q \<Rightarrow> max 0 q) else 0)"
        using field [OF n] e t by auto
    next
      fix k assume "oget (oset ?k (?e\<lparr>vb_boundarySeq := max (vb_boundarySeq ?e) q\<rparr>) bs) k \<noteq> None"
      then show "(\<exists>m\<in>set (ci_messages i). k = message_key i m) \<or> map_option canonicalVisibleTarget (given_target i) = Some k"
        using origin [of k] t(1) by (auto simp: map_specs split: if_splits)
    qed (use d m in \<open>auto simp: map_specs om.invar_put\<close>)
  qed
qed

section \<open>Writes\<close>

text \<open>Under a key that is its own canonical form, reads and writes meet.\<close>

definition canonical_key :: "string \<Rightarrow> bool" where
  "canonical_key k \<longleftrightarrow> canonicalVisibleTarget k = k"

definition seen_ids :: "delivery_ledger \<Rightarrow> string \<Rightarrow> string \<Rightarrow> string set" where
  "seen_ids l a k = (case get2 (dl_messageIds l) a k of None \<Rightarrow> {} | Some s \<Rightarrow> set s)"

lemma has_seen_id_iff: "has_seen_id x (get2 (dl_messageIds l) a k) \<longleftrightarrow> x \<in> seen_ids l a k"
  by (simp add: has_seen_id_def seen_ids_def split: option.splits)

definition boundary_after :: "string \<Rightarrow> int option \<Rightarrow> string \<Rightarrow> visible_bucket option \<Rightarrow> int option" where
  "boundary_after source previous k bucket =
     (case bucket of
        Some b \<Rightarrow>
          if canAdvanceBoundaryForTarget source k
          then Some (max (case previous of None \<Rightarrow> 0 | Some p \<Rightarrow> p) (highWaterSeq b)) else previous
      | None \<Rightarrow> previous)"

lemma recordExactSeqs_keeps [simp]:
  "dl_boundary (recordExactSeqs a k qs l) = dl_boundary l" "dl_messageIds (recordExactSeqs a k qs l) = dl_messageIds l"
  by (simp_all add: recordExactSeqs_def Let_def)

lemma commit_bucket_spec:
  assumes "canonical_key k"
  shows "get2 (dl_boundary (commit_bucket a source (k, b) l)) a' k' =
      (if a' = a \<and> k' = k then boundary_after source (get2 (dl_boundary l) a k) k (Some b) else get2 (dl_boundary l) a' k')"
    "seen_ids (commit_bucket a source (k, b) l) a' k' =
      (if a' = a \<and> k' = k then seen_ids l a k \<union> set (vb_ids b) else seen_ids l a' k')"
  using assms
  by (auto simp: commit_bucket_def Let_def canonical_key_def getBoundary_def boundary_after_def seen_ids_def
      split: option.splits)

lemma assert_holds:
  assumes "canonical_key k"
  shows "assertConsumedInvariants a k b (canAdvanceBoundaryForTarget source k) (getBoundary a k l)
           (commit_bucket a source (k, b) l) = None"
  using assms commit_bucket_spec [OF assms, of a source b l a k]
  by (auto simp: assertConsumedInvariants_def Let_def getBoundary_def getMessageIdSet_def canonical_key_def
      boundary_after_def has_seen_id_iff list_ex_iff split: option.splits if_splits)

lemma commit_buckets_spec:
  assumes "odistinct bs" "\<forall>k\<in>set (map fst bs). canonical_key k"
  shows "fst (commit_buckets a source bs l) = None \<and>
    (\<forall>a' k. get2 (dl_boundary (snd (commit_buckets a source bs l))) a' k =
       (if a' = a then boundary_after source (get2 (dl_boundary l) a k) k (oget bs k) else get2 (dl_boundary l) a' k)) \<and>
    (\<forall>a' k. seen_ids (snd (commit_buckets a source bs l)) a' k =
       (if a' = a then seen_ids l a k \<union> (case oget bs k of None \<Rightarrow> {} | Some b \<Rightarrow> set (vb_ids b)) else seen_ids l a' k))"
  using assms
proof (induction bs arbitrary: l)
  case Nil
  then show ?case by (simp add: boundary_after_def)
next
  case (Cons x bs)
  obtain k b where x: "x = (k, b)" by fastforce
  have c: "canonical_key k" using Cons.prems x by simp
  have nk: "oget bs k = None" using Cons.prems x by (simp add: map_of_eq_None_iff)
  have "commit_buckets a source (x # bs) l = commit_buckets a source bs (commit_bucket a source (k, b) l)"
    using assert_holds [OF c] by (simp add: x Let_def)
  then show ?case
    using Cons.IH [of "commit_bucket a source (k, b) l"] Cons.prems commit_bucket_spec [OF c] nk
    by (auto simp: x boundary_after_def [of _ _ _ None])
qed

section \<open>Canonical keys\<close>

lemma hex_no_thread: "list_all is_hex s \<Longrightarrow> \<not> has_prefix ''thread-'' s"
  by (cases s) (auto simp: has_prefix_def is_hex_def)

lemma lower_hex: "list_all is_hex s \<Longrightarrow> lower s = s"
  by (induction s) (auto simp: lower_def lower_char_def is_hex_def less_eq_char_def)

lemma hex_groups_take: "hex_groups (n # ns) s \<Longrightarrow> list_all is_hex (take n s) \<and> n \<le> length s"
  by (cases ns) auto

lemma canonical_of_short: "length x = 8 \<Longrightarrow> list_all is_hex x \<Longrightarrow> canonical_key (''agent-event:'' @ x)"
proof -
  assume x: "length x = 8" "list_all is_hex x"
  have "lower (''agent-event:'' @ x) = ''agent-event:'' @ x"
    using lower_hex [OF x(2)] by (simp add: lower_def lower_char_def less_eq_char_def)
  then have "eventIdFromTarget (''agent-event:'' @ x) = Some x"
    using x by (simp add: eventIdFromTarget_def has_prefix_def Let_def)
  then show ?thesis
    using x hex_no_thread [OF x(2)] by (simp add: canonical_key_def canonicalVisibleTarget_def getMessageShortId_def)
qed

lemma canonical_key_canonical: "canonical_key (canonicalVisibleTarget t)"
proof (cases "eventIdFromTarget t")
  case None
  then show ?thesis by (simp add: canonicalVisibleTarget_def canonical_key_def)
next
  case (Some e)
  then have "hex_groups [8] e \<or> hex_groups [8, 4, 4, 4, 12] e"
    unfolding eventIdFromTarget_def Let_def by (simp only: option.inject option.distinct split: if_split_asm)
  then have e: "list_all is_hex (take 8 e)" "8 \<le> length e" using hex_groups_take by blast+
  have "\<not> has_prefix ''thread-'' (take 8 e)" by (rule hex_no_thread [OF e(1)])
  then have "\<not> has_prefix ''thread-'' e" using e(2) by (simp add: has_prefix_def)
  then have "canonicalVisibleTarget t = ''agent-event:'' @ take 8 e"
    using Some by (simp add: canonicalVisibleTarget_def getMessageShortId_def)
  then show ?thesis using canonical_of_short e by simp
qed

section \<open>What a consumption does\<close>

definition canonical_input :: "consume_input \<Rightarrow> bool" where
  "canonical_input i \<longleftrightarrow> (\<forall>m\<in>set (ci_messages i). canonical_key (message_key i m))"

lemma given_canonical_input: "given_target i \<noteq> None \<Longrightarrow> canonical_input i"
  by (auto simp: canonical_input_def message_key_def canonical_key_canonical)

lemma consumed_buckets_key:
  assumes "consumed_buckets i bs" "oget bs k \<noteq> None"
  shows "(\<exists>m\<in>set (ci_messages i). k = message_key i m) \<or> (\<exists>t. given_target i = Some t \<and> k = canonicalVisibleTarget t)"
proof -
  have "\<forall>k. oget bs k \<noteq> None \<longrightarrow> (\<exists>m\<in>set (ci_messages i). k = message_key i m) \<or>
      map_option canonicalVisibleTarget (given_target i) = Some k"
    using assms(1) unfolding consumed_buckets_def by (elim conjE)
  from this [rule_format, OF assms(2)] show ?thesis by (cases "given_target i") auto
qed

lemma consumed_bucket_fields:
  assumes "consumed_buckets i bs" "oget bs k = Some b"
  shows "max_is_member b" "set (vb_seqs b) = seq_set (keyed i k (ci_messages i))"
    "set (vb_ids b) = id_set (keyed i k (ci_messages i))"
    "vb_boundarySeq b = (if map_option canonicalVisibleTarget (given_target i) = Some k
       then (case ci_boundarySeq i of None \<Rightarrow> 0 | Some q \<Rightarrow> max 0 q) else 0)"
proof -
  have "\<forall>k b. oget bs k = Some b \<longrightarrow> max_is_member b \<and>
      set (vb_seqs b) = seq_set (keyed i k (ci_messages i)) \<and> set (vb_ids b) = id_set (keyed i k (ci_messages i)) \<and>
      vb_boundarySeq b = (if map_option canonicalVisibleTarget (given_target i) = Some k
         then (case ci_boundarySeq i of None \<Rightarrow> 0 | Some q \<Rightarrow> max 0 q) else 0)"
    using assms(1) unfolding consumed_buckets_def by (elim conjE)
  from this [rule_format, OF assms(2)]
  show "max_is_member b" "set (vb_seqs b) = seq_set (keyed i k (ci_messages i))"
    "set (vb_ids b) = id_set (keyed i k (ci_messages i))"
    "vb_boundarySeq b = (if map_option canonicalVisibleTarget (given_target i) = Some k
       then (case ci_boundarySeq i of None \<Rightarrow> 0 | Some q \<Rightarrow> max 0 q) else 0)"
    by blast+
qed

text \<open>The ledger after the buckets of an input were written.\<close>

definition written :: "string \<Rightarrow> consume_input \<Rightarrow> buckets \<Rightarrow> delivery_ledger \<Rightarrow> delivery_ledger \<Rightarrow> bool" where
  "written a i bs l l' \<longleftrightarrow>
     (\<forall>a' k. get2 (dl_boundary l') a' k =
        (if a' = a then boundary_after (ci_source i) (get2 (dl_boundary l) a k) k (oget bs k) else get2 (dl_boundary l) a' k)) \<and>
     (\<forall>a' k. seen_ids l' a' k =
        (if a' = a then seen_ids l a k \<union> (case oget bs k of None \<Rightarrow> {} | Some b \<Rightarrow> set (vb_ids b)) else seen_ids l a' k))"

lemma recordConsumed_cases:
  assumes r: "recordConsumed isUuid a i l = (r, l')" and ci: "canonical_input i"
  obtains (nothing) "r = Inr None" "l' = l" "\<And>m. m \<in> set (ci_messages i) \<Longrightarrow> message_key i m = []"
  | (mismatch) m where "r = Inl (mismatch_text i m)" "l' = l" "m \<in> set (ci_messages i)" "target_mismatch i m"
  | (recorded) bs where "r = Inr (Some \<lparr>vc_byTarget = bs, vc_messagesCount = length (ci_messages i),
        vc_advancing = filter (canAdvanceBoundaryForTarget (ci_source i)) (map fst bs),
        vc_historyScope = accepted_scope isUuid a i,
        vc_legacyDmIds = legacy_ids (accepted_scope isUuid a i) (ci_messages i)\<rparr>)"
      "consumed_buckets i bs" "written a i bs l l'" "\<And>m. m \<in> set (ci_messages i) \<Longrightarrow> \<not> target_mismatch i m"
proof (cases "ci_messages i = [] \<and> (given_target i = None \<or> ci_boundarySeq i = None)")
  case True
  then have "r = Inr None" "l' = l" using r by (auto simp: recordConsumed_def)
  then show thesis by (rule nothing) (use True in simp)
next
  case nonempty: False
  show thesis
  proof (cases "bucket_messages i (ci_messages i) []")
    case (Inl e)
    then obtain m where "m \<in> set (ci_messages i)" "target_mismatch i m" "e = mismatch_text i m"
      using bucket_messages_error by blast
    then show thesis using r nonempty Inl mismatch by (auto simp: recordConsumed_def)
  next
    case (Inr bs0)
    let ?bs = "bucket_boundary i bs0"
    have b: "consumed_buckets i ?bs" by (rule consumed_bucketsI [OF Inr])
    have nm: "\<not> target_mismatch i m" if "m \<in> set (ci_messages i)" for m
    proof -
      have "m \<in> set ms \<Longrightarrow> bucket_messages i ms bs = Inr bs' \<Longrightarrow> \<not> target_mismatch i m" for ms bs bs'
        by (induction i ms bs rule: bucket_messages.induct) (auto simp: Let_def split: if_splits)
      then show ?thesis using that Inr by blast
    qed
    show thesis
    proof (cases "?bs = []")
      case True
      have key: "message_key i m = []" if "m \<in> set (ci_messages i)" for m
        using b that True by (auto simp: consumed_buckets_def)
      have "r = Inr None" "l' = l" using r nonempty Inr True by (auto simp: recordConsumed_def Let_def)
      then show thesis by (rule nothing) (rule key)
    next
      case False
      have "canonical_key k" if "k \<in> set (map fst ?bs)" for k
      proof -
        have "oget ?bs k \<noteq> None" using that by (simp only: key_mem)
        from consumed_buckets_key [OF b this] show ?thesis
          using ci by (auto simp: canonical_input_def canonical_key_canonical)
      qed
      then have c: "fst (commit_buckets a (ci_source i) ?bs l) = None" "written a i ?bs l (snd (commit_buckets a (ci_source i) ?bs l))"
        using commit_buckets_spec [of ?bs a "ci_source i" l] b by (auto simp: consumed_buckets_def written_def)
      obtain l1 where l1: "commit_buckets a (ci_source i) ?bs l = (None, l1)" using c(1) by (metis prod.collapse)
      then have "r = Inr (Some \<lparr>vc_byTarget = ?bs, vc_messagesCount = length (ci_messages i),
          vc_advancing = filter (canAdvanceBoundaryForTarget (ci_source i)) (map fst ?bs),
          vc_historyScope = accepted_scope isUuid a i,
          vc_legacyDmIds = legacy_ids (accepted_scope isUuid a i) (ci_messages i)\<rparr>)" "l' = l1"
        using r nonempty Inr False by (auto simp: recordConsumed_def Let_def)
      then show thesis using c(2) l1 by (intro recorded [OF _ b _ nm]) simp_all
    qed
  qed
qed


section \<open>The contract\<close>

text \<open>Only an event id that is not the hexadecimal id the service gives out can make a key that is not canonical.\<close>

lemma conversation_target_canonical:
  "\<not> js_truthy (jget m ''third_party_event'') \<Longrightarrow> canonical_key (formatProxyVisibleMessageTarget m)"
  by (auto simp: formatProxyVisibleMessageTarget_def computeTarget_def Let_def canonical_key_def canonicalVisibleTarget_def
      eventIdFromTarget_def lower_def lower_char_def has_prefix_def)

lemma js_lower_hex: "list_all is_hex s \<Longrightarrow> map js_lower_char s = s"
  by (induction s) (auto simp: js_lower_char_def lower_char_def is_hex_def less_eq_char_def)

lemma event_target_canonical:
  assumes "js_truthy (jget m ''third_party_event'')"
    and "list_all is_hex (take 8 (map js_lower_char (str_of (jget (jget m ''third_party_event'') ''id''))))"
    and "8 \<le> length (str_of (jget (jget m ''third_party_event'') ''id''))"
  shows "canonical_key (formatProxyVisibleMessageTarget m)"
proof -
  let ?e = "map js_lower_char (str_of (jget (jget m ''third_party_event'') ''id''))"
  have "\<not> has_prefix ''thread-'' (take 8 ?e)" by (rule hex_no_thread [OF assms(2)])
  then have "\<not> has_prefix ''thread-'' ?e" using assms(3) by (simp add: has_prefix_def)
  then have "formatProxyVisibleMessageTarget m = ''agent-event:'' @ take 8 ?e"
    using assms(1) by (simp add: formatProxyVisibleMessageTarget_def getMessageShortId_def)
  then show ?thesis using canonical_of_short [of "take 8 ?e"] assms(2,3) by simp
qed

lemma boundary_after_mono: "get2 (dl_boundary l) a k = Some b \<Longrightarrow>
   \<exists>b'. boundary_after source (get2 (dl_boundary l) a k) k bucket = Some b' \<and> b \<le> b'"
  by (auto simp: boundary_after_def max_def split: option.splits)

lemma written_keeps_seen:
  assumes "written a i bs l l'" "isModelSeen a' t m l"
  shows "isModelSeen a' t m l'"
proof -
  let ?k = "canonicalVisibleTarget t"
  have ids: "seen_ids l a' ?k \<subseteq> seen_ids l' a' ?k" using assms(1) by (auto simp: written_def)
  have bd: "\<exists>b'. get2 (dl_boundary l') a' ?k = Some b' \<and> b \<le> b'" if "get2 (dl_boundary l) a' ?k = Some b" for b
    using assms(1) that boundary_after_mono [of l a ?k b] by (auto simp: written_def)
  show ?thesis
    using assms(2) ids bd unfolding isModelSeen_def getBoundary_def getMessageIdSet_def has_seen_id_iff
    by (fastforce split: option.splits)
qed

text \<open>C10. The ledger keeps the contract its comment states. Recording a consumption throws only when a
  message contradicts the explicit target, and then nothing is written: none of the assertions the code
  runs after each write can fail. Only a verified contiguous source, or a rendered join on a thread
  target, moves a boundary, and only of the agent that consumed; whatever the model has seen, of any
  agent and target, stays seen; and every consumed message with an id is seen under its target.\<close>

theorem delivery_ledger_contract:
  assumes "recordConsumed isUuid a i l = (r, l')" "canonical_input i"
  shows "(isl r \<longrightarrow> l' = l \<and> (\<exists>m\<in>set (ci_messages i). target_mismatch i m \<and> r = Inl (mismatch_text i m))) \<and>
    (getBoundary a' t l' \<noteq> getBoundary a' t l \<longrightarrow>
       a' = a \<and> canAdvanceBoundaryForTarget (ci_source i) (canonicalVisibleTarget t)) \<and>
    (isModelSeen a' t m l \<longrightarrow> isModelSeen a' t m l') \<and>
    (\<not> isl r \<and> m \<in> set (ci_messages i) \<and> visibleMessageId m \<noteq> [] \<and> message_key i m \<noteq> [] \<longrightarrow>
       isModelSeen a (message_key i m) m l')"
  using assms
proof (cases rule: recordConsumed_cases)
  case nothing
  then show ?thesis by auto
next
  case (mismatch m')
  then show ?thesis by auto
next
  case (recorded bs)
  have bd: "a' = a \<and> canAdvanceBoundaryForTarget (ci_source i) (canonicalVisibleTarget t)"
    if "getBoundary a' t l' \<noteq> getBoundary a' t l"
    using that recorded(3) by (auto simp: written_def getBoundary_def boundary_after_def split: option.splits if_splits)
  have seen: "isModelSeen a (message_key i m) m l'"
    if m: "m \<in> set (ci_messages i)" "visibleMessageId m \<noteq> []" "message_key i m \<noteq> []"
  proof -
    let ?k = "message_key i m"
    have c: "canonicalVisibleTarget ?k = ?k" using assms(2) m(1) by (simp add: canonical_input_def canonical_key_def)
    have "\<forall>m\<in>set (ci_messages i). message_key i m \<noteq> [] \<longrightarrow> oget bs (message_key i m) \<noteq> None"
      using recorded(2) unfolding consumed_buckets_def by (elim conjE)
    then obtain b where b: "oget bs ?k = Some b" using m(1,3) by blast
    have "visibleMessageId m \<in> set (vb_ids b)"
      using m(1,2) consumed_bucket_fields(3) [OF recorded(2) b] by (simp add: id_set_def keyed_def)
    then have "visibleMessageId m \<in> seen_ids l' a ?k" using recorded(3) b by (simp add: written_def)
    then show ?thesis using m(2) c by (simp add: isModelSeen_def getMessageIdSet_def has_seen_id_iff)
  qed
  show ?thesis using recorded(1) bd written_keeps_seen [OF recorded(3), of a' t m] seen by auto
qed

definition sample_delivery :: "int \<Rightarrow> string \<Rightarrow> message" where
  "sample_delivery n x = JObj [(''seq'', JInt n), (''message_id'', JStr x), (''channel_type'', JStr ''channel''), (''channel_name'', JStr ''ops'')]"

definition sample_consumption :: consume_input where
  "sample_consumption =
     \<lparr>ci_historyScope = None, ci_target = Some ''#ops'', ci_messages = [sample_delivery 5 ''m5''], ci_boundarySeq = None,
      ci_source = ''agent_api_history''\<rparr>"

theorem delivery_ledger_contract_witness:
  "isModelSeen ''a1'' ''#ops'' (sample_delivery 5 ''m5'') (snd (recordConsumed (\<lambda>x. False) ''a1'' sample_consumption new_ledger)) \<and>
   getBoundary ''a1'' ''#ops'' (snd (recordConsumed (\<lambda>x. False) ''a1'' sample_consumption new_ledger)) = None"
proof -
  let ?m = "sample_delivery 5 ''m5''" and ?p = "recordConsumed (\<lambda>x. False) ''a1'' sample_consumption new_ledger"
  have ci: "canonical_input sample_consumption"
    by (rule given_canonical_input) (simp add: sample_consumption_def given_target_def)
  have f: "\<not> isl (fst ?p)" "visibleMessageId ?m = ''m5''" "message_key sample_consumption ?m = ''#ops''"
    "\<not> canAdvanceBoundaryForTarget (ci_source sample_consumption) (canonicalVisibleTarget ''#ops'')"
    "getBoundary ''a1'' ''#ops'' new_ledger = None"
    by code_simp+
  have m: "?m \<in> set (ci_messages sample_consumption)" by (simp add: sample_consumption_def)
  from delivery_ledger_contract [of "\<lambda>x. False" "''a1''" sample_consumption new_ledger "fst ?p" "snd ?p" "''a1''" "''#ops''" ?m]
  show ?thesis using ci f m by simp
qed

end
