(* ===== verification/Gate_Run.thy ===== *)
theory Gate_Run
  imports Inbox_Gate Delivery_Contract
begin

text \<open>
  The gate among everything else that touches the queues and the ledger of an agent: messages arrive,
  visible messages are consumed from any source, channels are purged, the rest of the manager moves or
  drops messages, and gate requests read the queues and later finish, in any interleaving. A history
  keeps what arrived, what was dropped and every consumption; the invariant says that a message that
  left the queues, or that the ledger calls seen, is explained by the history.
\<close>

section \<open>What a consumption explains\<close>

definition exact_id :: "consume_input \<Rightarrow> string \<Rightarrow> string \<Rightarrow> bool" where
  "exact_id i k x \<longleftrightarrow> x \<in> id_set (keyed i k (ci_messages i))"

definition exact_seq :: "consume_input \<Rightarrow> string \<Rightarrow> int \<Rightarrow> bool" where
  "exact_seq i k q \<longleftrightarrow> q \<in> seq_set (keyed i k (ci_messages i))"

definition contiguous_to :: "consume_input \<Rightarrow> string \<Rightarrow> int \<Rightarrow> bool" where
  "contiguous_to i k q \<longleftrightarrow>
     canAdvanceBoundaryForTarget (ci_source i) k \<and>
     ((\<exists>q'\<in>seq_set (keyed i k (ci_messages i)). q \<le> q') \<or>
      (map_option canonicalVisibleTarget (given_target i) = Some k \<and> (\<exists>b. ci_boundarySeq i = Some b \<and> q \<le> b)))"

text \<open>The history of a direct message of a legacy queue is matched by id alone.\<close>

definition legacy_id :: "consume_input \<Rightarrow> string \<Rightarrow> bool" where
  "legacy_id i x \<longleftrightarrow> ci_historyScope i \<noteq> None \<and> x \<in> id_set (ci_messages i)"

definition explains :: "consume_input \<Rightarrow> message \<Rightarrow> bool" where
  "explains i m \<longleftrightarrow>
     (let k = formatAgentMessageVisibleTarget m
      in exact_id i k (visibleMessageId m) \<or> exact_seq i k (messageSeq m) \<or>
         (0 < messageSeq m \<and> contiguous_to i k (messageSeq m)) \<or> legacy_id i (visibleMessageId m))"

definition justified :: "string \<Rightarrow> consume_input list \<Rightarrow> delivery_ledger \<Rightarrow> bool" where
  "justified a log l \<longleftrightarrow>
     (\<forall>k b q. get2 (dl_boundary l) a k = Some b \<longrightarrow> 0 < q \<longrightarrow> q \<le> b \<longrightarrow> (\<exists>i\<in>set log. contiguous_to i k q)) \<and>
     (\<forall>k x. x \<in> seen_ids l a k \<longrightarrow> (\<exists>i\<in>set log. exact_id i k x))"

text \<open>A number below the high-water mark of a bucket whose source advances is explained.\<close>

lemma high_water_contiguous:
  assumes "consumed_buckets i bs" "oget bs k = Some b" "canAdvanceBoundaryForTarget (ci_source i) k" "0 < q" "q \<le> highWaterSeq b"
  shows "contiguous_to i k q"
  using assms(3-5) consumed_bucket_fields [OF assms(1,2)]
  by (auto simp: contiguous_to_def highWaterSeq_def max_is_member_def max_def split: if_splits option.splits)

lemma justified_mono: "justified a log l \<Longrightarrow> justified a (log @ [i]) l"
  unfolding justified_def by (simp; blast)

lemma written_justified:
  assumes w: "written a i bs l l'" and b: "consumed_buckets i bs" and j: "justified a log l"
  shows "justified a (log @ [i]) l'"
  unfolding justified_def
proof (intro conjI allI impI)
  fix k bd q assume bd: "get2 (dl_boundary l') a k = Some bd" "0 < q" "q \<le> bd"
  have "get2 (dl_boundary l') a k = boundary_after (ci_source i) (get2 (dl_boundary l) a k) k (oget bs k)"
    using w by (simp add: written_def)
  then consider (old) b0 where "get2 (dl_boundary l) a k = Some b0" "q \<le> b0"
    | (new) bk where "oget bs k = Some bk" "canAdvanceBoundaryForTarget (ci_source i) k" "q \<le> highWaterSeq bk"
    using bd by (cases "get2 (dl_boundary l) a k"; cases "oget bs k")
      (auto simp: boundary_after_def max_def split: if_splits)
  then show "\<exists>i'\<in>set (log @ [i]). contiguous_to i' k q"
  proof cases
    case old
    then show ?thesis using j bd(2) unfolding justified_def by auto
  next
    case new
    then show ?thesis using high_water_contiguous [OF b new(1,2) bd(2) new(3)] by simp
  qed
next
  fix k x assume "x \<in> seen_ids l' a k"
  then have "x \<in> seen_ids l a k \<or> (\<exists>bk. oget bs k = Some bk \<and> x \<in> set (vb_ids bk))"
    using w by (auto simp: written_def split: option.splits)
  then show "\<exists>i'\<in>set (log @ [i]). exact_id i' k x"
  proof
    assume "x \<in> seen_ids l a k"
    then show ?thesis using j unfolding justified_def by auto
  next
    assume "\<exists>bk. oget bs k = Some bk \<and> x \<in> set (vb_ids bk)"
    then show ?thesis using consumed_bucket_fields(3) [OF b] by (auto simp: exact_id_def)
  qed
qed

text \<open>What the ledger calls seen is explained, under a canonical target.\<close>

lemma model_seen_explained:
  assumes "justified a log l" "canonical_key (formatAgentMessageVisibleTarget m)"
    "isModelSeen a (formatAgentMessageVisibleTarget m) m l"
  shows "\<exists>i\<in>set log. explains i m"
proof -
  let ?k = "formatAgentMessageVisibleTarget m"
  have c: "canonicalVisibleTarget ?k = ?k" using assms(2) by (simp add: canonical_key_def)
  have "(0 < messageSeq m \<and> (\<exists>b. get2 (dl_boundary l) a ?k = Some b \<and> messageSeq m \<le> b)) \<or> visibleMessageId m \<in> seen_ids l a ?k"
    using assms(3) by (auto simp: isModelSeen_def getBoundary_def getMessageIdSet_def c has_seen_id_iff split: option.splits)
  then show ?thesis
    using assms(1) unfolding justified_def explains_def Let_def by blast
qed

text \<open>What a consumption suppresses, it explains.\<close>

lemma suppressed_explained:
  assumes b: "consumed_buckets i bs"
    and s: "shouldSuppress \<lparr>vc_byTarget = bs, vc_messagesCount = n,
        vc_advancing = filter (canAdvanceBoundaryForTarget (ci_source i)) (map fst bs),
        vc_historyScope = accepted_scope isUuid a i,
        vc_legacyDmIds = legacy_ids (accepted_scope isUuid a i) (ci_messages i)\<rparr> m"
  shows "explains i m"
proof (cases "accepted_scope isUuid a i")
  case None
  let ?k = "formatAgentMessageVisibleTarget m"
  obtain bk where bk: "oget bs ?k = Some bk"
    using s None by (auto simp: shouldSuppress_def Let_def split: option.splits)
  note f = consumed_bucket_fields [OF b bk]
  have "(canAdvanceBoundaryForTarget (ci_source i) ?k \<and> 0 < messageSeq m \<and> 0 < vb_boundarySeq bk \<and> messageSeq m \<le> vb_boundarySeq bk) \<or>
      (0 < messageSeq m \<and> messageSeq m \<in> set (vb_seqs bk)) \<or>
      (visibleMessageId m \<noteq> [] \<and> visibleMessageId m \<in> set (vb_ids bk))"
    using s None bk by (auto simp: shouldSuppress_def Let_def)
  moreover have "messageSeq m \<le> vb_boundarySeq bk \<Longrightarrow> messageSeq m \<le> highWaterSeq bk" by (simp add: highWaterSeq_def)
  ultimately show ?thesis
    using high_water_contiguous [OF b bk] f(2,3) by (auto simp: explains_def Let_def exact_id_def exact_seq_def)
next
  case (Some h)
  then have "ci_historyScope i \<noteq> None" by (auto simp: accepted_scope_def split: option.splits)
  moreover have "visibleMessageId m \<in> id_set (ci_messages i)"
    using s Some by (auto simp: shouldSuppress_def legacy_ids_def id_set_def)
  ultimately show ?thesis by (simp add: explains_def legacy_id_def Let_def)
qed

section \<open>Interleavings\<close>

text \<open>The messages in the queues of the agent.\<close>

definition queued_messages :: "string \<Rightarrow> gate_state \<Rightarrow> message set" where
  "queued_messages a s = set (case gs_inbox s of None \<Rightarrow> [] | Some ms \<Rightarrow> ms) \<union> set (pending_values a (gs_starting s))"

text \<open>The consumptions of the effects of a plan.\<close>

fun effect_inputs :: "inbox_effect list \<Rightarrow> consume_input list" where
  "effect_inputs [] = []"
| "effect_inputs (Record_freshness_decision d # es) = effect_inputs es"
| "effect_inputs (Consume_visible_messages target ms boundary source # es) =
     \<lparr>ci_historyScope = None, ci_target = target, ci_messages = ms, ci_boundarySeq = boundary, ci_source = source_text source\<rparr>
     # effect_inputs es"

text \<open>They are applied unless the caller asked not to hold and the plan holds.\<close>

definition applied_inputs :: "bool \<Rightarrow> side_effect_plan \<Rightarrow> consume_input list" where
  "applied_inputs localHold plan =
     (if \<not> localHold \<and> sp_localResponse plan \<noteq> None then [] else effect_inputs (sp_effects plan))"

record gate_history =
  gh_arrived :: "message set"
  gh_dropped :: "message set"
  gh_log :: "consume_input list"
  gh_reads :: "(gate_read \<times> message set) list"

definition no_gate_history :: gate_history where
  "no_gate_history = \<lparr>gh_arrived = {}, gh_dropped = {}, gh_log = [], gh_reads = []\<rparr>"

text \<open>
  The steps. \<open>gate_other\<close> is any other handling of the queues by the manager (a spawn that drains the
  start buffer into the inbox, a restart, a purge): it may move messages, and what it loses is noted.
  A gate request that has read the queues finishes later, with any answer of the history request.
\<close>

inductive gate_run :: "(string \<Rightarrow> bool) \<Rightarrow> string \<Rightarrow> gate_history \<Rightarrow> gate_state \<Rightarrow> bool" for isUuid a where
  gate_start:
    "gate_run isUuid a no_gate_history \<lparr>gs_ledger = new_ledger, gs_inbox = None, gs_starting = []\<rparr>"
| gate_arrive:
    "gate_run isUuid a h s \<Longrightarrow> gs_inbox s = Some inbox \<Longrightarrow> queueAgentInboxMessage m inbox = (receipt, inbox') \<Longrightarrow>
     gate_run isUuid a (h\<lparr>gh_arrived := (if qr_duplicate receipt then gh_arrived h else insert m (gh_arrived h))\<rparr>)
       (s\<lparr>gs_inbox := Some inbox'\<rparr>)"
| gate_arrive_starting:
    "gate_run isUuid a h s \<Longrightarrow> a \<noteq> [] \<Longrightarrow> bufferMessagesDuringStart a ms (gs_starting s) = (r, p) \<Longrightarrow>
     gate_run isUuid a (h\<lparr>gh_arrived := gh_arrived h \<union> set ms\<rparr>) (s\<lparr>gs_starting := p\<rparr>)"
| gate_consume:
    "gate_run isUuid a h s \<Longrightarrow> canonical_input i \<Longrightarrow> consumeVisibleMessages isUuid a i s = (r, s') \<Longrightarrow>
     gate_run isUuid a (h\<lparr>gh_log := gh_log h @ (if isl r then [] else [i])\<rparr>) s'"
| gate_clear:
    "gate_run isUuid a h s \<Longrightarrow> gate_run isUuid a h (s\<lparr>gs_ledger := clearAgent a (gs_ledger s)\<rparr>)"
| gate_other:
    "gate_run isUuid a h s \<Longrightarrow> gs_ledger s' = gs_ledger s \<Longrightarrow> pending_inv (gs_starting s') \<Longrightarrow>
     gate_run isUuid a (h\<lparr>gh_dropped := gh_dropped h \<union> (queued_messages a s - queued_messages a s')\<rparr>) s'"
| gate_read:
    "gate_run isUuid a h s \<Longrightarrow> gate_begin a action parsed s = Gate_plans r \<Longrightarrow>
     gate_run isUuid a (h\<lparr>gh_reads := (r, gh_arrived h) # gh_reads h\<rparr>) s"
| gate_done:
    "gate_run isUuid a h s \<Longrightarrow> (r, known) \<in> set (gh_reads h) \<Longrightarrow> gate_finish isUuid a localHold r recent s = (res, s') \<Longrightarrow>
     gate_run isUuid a
       (h\<lparr>gh_log := gh_log h @
          (if isl res then [] else applied_inputs localHold (planAgentInboxSideEffect (gate_input a r recent (gs_ledger s))))\<rparr>) s'"

text \<open>A message is accounted for: still in the given place, dropped, or explained.\<close>

definition accounted :: "gate_history \<Rightarrow> message set \<Rightarrow> message \<Rightarrow> bool" where
  "accounted h here m \<longleftrightarrow> m \<in> here \<or> m \<in> gh_dropped h \<or> (\<exists>i\<in>set (gh_log h). explains i m)"

definition visible_for :: "string \<Rightarrow> message \<Rightarrow> bool" where
  "visible_for target m \<longleftrightarrow>
     formatAgentMessageVisibleTarget m = target \<and> hasStableLocalMessageId m \<and> \<not> runtimeProfileNotificationFromMessage m"

definition gate_inv :: "string \<Rightarrow> gate_history \<Rightarrow> gate_state \<Rightarrow> bool" where
  "gate_inv a h s \<longleftrightarrow>
     pending_inv (gs_starting s) \<and> justified a (gh_log h) (gs_ledger s) \<and>
     (\<forall>m\<in>gh_arrived h. accounted h (queued_messages a s) m) \<and>
     (\<forall>r known. (r, known) \<in> set (gh_reads h) \<longrightarrow>
        gd_target r \<noteq> [] \<and> (\<forall>m\<in>known. visible_for (gd_target r) m \<longrightarrow> accounted h (set (gd_pending r)) m))"

section \<open>The steps keep the invariant\<close>

lemma justified_more: "justified a log l \<Longrightarrow> justified a (log @ log') l"
  by (induction log' arbitrary: log) (simp, metis append_Cons append_Nil append_assoc justified_mono)

text \<open>A consumption that throws leaves everything as it was; otherwise what leaves the queues is explained.\<close>

lemma consume_step:
  assumes c: "consumeVisibleMessages isUuid a i s = (r, s')" and ci: "canonical_input i"
    and p: "pending_inv (gs_starting s)" and j: "justified a log (gs_ledger s)"
  shows "(isl r \<longrightarrow> s' = s) \<and> (\<not> isl r \<longrightarrow>
    pending_inv (gs_starting s') \<and> justified a (log @ [i]) (gs_ledger s') \<and>
    (\<forall>m\<in>queued_messages a s. m \<in> queued_messages a s' \<or> explains i m))"
proof -
  obtain rr l' where rc: "recordConsumed isUuid a i (gs_ledger s) = (rr, l')" by fastforce
  show ?thesis
    using rc ci
  proof (cases rule: recordConsumed_cases)
    case nothing
    then have "r = Inr 0" "s' = s" using c rc by (auto simp: consumeVisibleMessages_def)
    then show ?thesis using p j justified_mono by auto
  next
    case (mismatch m)
    then show ?thesis using c rc by (auto simp: consumeVisibleMessages_def)
  next
    case (recorded bs)
    let ?c = "\<lparr>vc_byTarget = bs, vc_messagesCount = length (ci_messages i),
        vc_advancing = filter (canAdvanceBoundaryForTarget (ci_source i)) (map fst bs),
        vc_historyScope = accepted_scope isUuid a i, vc_legacyDmIds = legacy_ids (accepted_scope isUuid a i) (ci_messages i)\<rparr>"
    note sup = suppressConsumed_ok [OF p]
    obtain p' where p': "suppressConsumed a (shouldSuppress ?c) (gs_starting s) =
        (Inr (length (filter (shouldSuppress ?c) (pending_values a (gs_starting s)))), p')"
      using sup(1) by (metis prod.collapse)
    then have s': "s' = s\<lparr>gs_ledger := l', gs_inbox := map_option (filter (\<lambda>m. \<not> shouldSuppress ?c m)) (gs_inbox s), gs_starting := p'\<rparr>"
      and r: "\<not> isl r" using c rc recorded(1) by (auto simp: consumeVisibleMessages_def Let_def)
    have "pending_inv p'" "pending_values a p' = filter (\<lambda>m. \<not> shouldSuppress ?c m) (pending_values a (gs_starting s))"
      using sup(2) [of a "shouldSuppress ?c"] sup(3) [of a a "shouldSuppress ?c"] p' by simp_all
    moreover have "m \<in> queued_messages a s' \<or> explains i m" if "m \<in> queued_messages a s" for m
      using that calculation(2) suppressed_explained [OF recorded(2)]
      by (auto simp: s' queued_messages_def split: option.splits)
    ultimately show ?thesis
      using r written_justified [OF recorded(3,2) j] by (simp add: s')
  qed
qed

lemma effect_inputs_at_most_one: "length (effect_inputs (sp_effects (planAgentInboxSideEffect i))) \<le> 1"
  by (simp add: planAgentInboxSideEffect_def planPendingContext_def planFirstTouchRecentContext_def forwardPlan_def
      forwardWithoutDecision_def heldPlan_def Let_def split: option.splits)

lemma effect_inputs_targeted:
  "i' \<in> set (effect_inputs (sp_effects (planAgentInboxSideEffect i))) \<Longrightarrow> ci_target i' = Some (in_target i)"
  by (auto simp: planAgentInboxSideEffect_def planPendingContext_def planFirstTouchRecentContext_def forwardPlan_def
      forwardWithoutDecision_def heldPlan_def Let_def split: option.splits if_splits)

lemma apply_effects_none: "effect_inputs es = [] \<Longrightarrow> apply_effects isUuid a es s = (Inr (), s)"
  by (induction isUuid a es s rule: apply_effects.induct) auto

lemma apply_effects_step:
  assumes "apply_effects isUuid a es s = (r, s')" "length (effect_inputs es) \<le> 1" "\<forall>i\<in>set (effect_inputs es). canonical_input i"
    "pending_inv (gs_starting s)" "justified a log (gs_ledger s)"
  shows "(isl r \<longrightarrow> s' = s) \<and> (\<not> isl r \<longrightarrow>
    pending_inv (gs_starting s') \<and> justified a (log @ effect_inputs es) (gs_ledger s') \<and>
    (\<forall>m\<in>queued_messages a s. m \<in> queued_messages a s' \<or> (\<exists>i\<in>set (effect_inputs es). explains i m)))"
  using assms
proof (induction es arbitrary: s)
  case Nil
  then show ?case by auto
next
  case (Cons e es)
  show ?case
  proof (cases e)
    case (Record_freshness_decision d)
    then show ?thesis using Cons by simp
  next
    case (Consume_visible_messages target ms boundary source)
    let ?i = "\<lparr>ci_historyScope = None, ci_target = target, ci_messages = ms, ci_boundarySeq = boundary, ci_source = source_text source\<rparr>"
    have e: "effect_inputs (e # es) = [?i]" "effect_inputs es = []" using Cons.prems(2) Consume_visible_messages by auto
    obtain r1 s1 where c: "consumeVisibleMessages isUuid a ?i s = (r1, s1)" by fastforce
    have ci: "canonical_input ?i" using Cons.prems(3) e(1) by simp
    have "(isl r1 \<and> isl r \<and> s' = s1) \<or> (\<not> isl r1 \<and> \<not> isl r \<and> s' = s1)"
      using Cons.prems(1) Consume_visible_messages c apply_effects_none [OF e(2)] by (auto split: sum.splits)
    then show ?thesis using consume_step [OF c ci Cons.prems(4,5)] e(1) by auto
  qed
qed

lemma gate_finish_step:
  assumes g: "gate_finish isUuid a localHold r recent s = (res, s')" and t: "gd_target r \<noteq> []"
    and p: "pending_inv (gs_starting s)" and j: "justified a log (gs_ledger s)"
  defines "applied \<equiv> (if isl res then [] else applied_inputs localHold (planAgentInboxSideEffect (gate_input a r recent (gs_ledger s))))"
  shows "pending_inv (gs_starting s') \<and> justified a (log @ applied) (gs_ledger s') \<and>
    (\<forall>m\<in>queued_messages a s. m \<in> queued_messages a s' \<or> (\<exists>i\<in>set applied. explains i m))"
proof -
  let ?plan = "planAgentInboxSideEffect (gate_input a r recent (gs_ledger s))"
  obtain r1 s1 where e: "apply_effects isUuid a (sp_effects ?plan) s = (r1, s1)" by fastforce
  have "canonical_input i" if "i \<in> set (effect_inputs (sp_effects ?plan))" for i
    using effect_inputs_targeted [OF that] t
    by (intro given_canonical_input) (auto simp: given_target_def gate_input_def split: list.splits)
  then have st: "(isl r1 \<longrightarrow> s1 = s) \<and> (\<not> isl r1 \<longrightarrow>
    pending_inv (gs_starting s1) \<and> justified a (log @ effect_inputs (sp_effects ?plan)) (gs_ledger s1) \<and>
    (\<forall>m\<in>queued_messages a s. m \<in> queued_messages a s1 \<or> (\<exists>i\<in>set (effect_inputs (sp_effects ?plan)). explains i m)))"
    by (intro apply_effects_step [OF e effect_inputs_at_most_one _ p j]) blast
  show ?thesis
  proof (cases "\<not> localHold \<and> sp_localResponse ?plan \<noteq> None")
    case True
    then show ?thesis using g p j by (auto simp: gate_finish_def Let_def applied_def applied_inputs_def)
  next
    case False
    then have "s' = s1 \<and> isl res = isl r1"
      using g e by (auto simp: gate_finish_def Let_def split: sum.splits)
    then show ?thesis using st p j False by (auto simp: applied_def applied_inputs_def)
  qed
qed

lemma queue_arrives:
  "queueAgentInboxMessage m inbox = (receipt, inbox') \<Longrightarrow>
   set inbox' = (if qr_duplicate receipt then set inbox else insert m (set inbox))"
  by (auto simp: queueAgentInboxMessage_def split: if_splits)

lemma gate_begin_eq:
  "body \<noteq> JNull \<Longrightarrow> gate_begin a action (Some body) s =
     (case sideEffectTarget action body of
        None \<Rightarrow> Gate_passes \<lparr>gr_body = Some body, gr_target = None,
          gr_mode = Some (if jget body ''freshnessContextMode'' = JStr ''withheld'' then Withheld else Inline), gr_localResponse = None\<rparr>
      | Some target \<Rightarrow> Gate_plans (gate_reads a action body target s))"
  by (simp add: gate_begin_def Let_def)

lemma gate_begin_plans:
  assumes "gate_begin a action parsed s = Gate_plans r"
  obtains body target where "parsed = Some body" "body \<noteq> JNull" "sideEffectTarget action body = Some target" "target \<noteq> []"
    "r = gate_reads a action body target s"
proof -
  obtain body where b: "parsed = Some body" "body \<noteq> JNull"
    using assms by (cases parsed) (auto simp: gate_begin_def split: if_splits)
  then obtain target where t: "sideEffectTarget action body = Some target" "r = gate_reads a action body target s"
    using assms by (auto simp: gate_begin_eq split: option.splits)
  then have "target \<noteq> []" by (auto simp: sideEffectTarget_def Let_def split: if_splits elim!: nonempty_str.elims)
  then show thesis using that b t by blast
qed

lemma gate_begin_read:
  assumes "gate_begin a action parsed s = Gate_plans r"
  shows "gd_target r \<noteq> []" "gd_pending r = pendingVisibleMessages a (gd_target r) s"
  by (rule gate_begin_plans [OF assms], simp add: gate_reads_def Let_def)+

lemma accounted_mono:
  "accounted h here m \<Longrightarrow> here \<subseteq> here' \<union> gh_dropped h' \<union> {m. \<exists>i\<in>set (gh_log h'). explains i m} \<Longrightarrow>
   gh_dropped h \<subseteq> gh_dropped h' \<Longrightarrow> set (gh_log h) \<subseteq> set (gh_log h') \<Longrightarrow> accounted h' here' m"
  unfolding accounted_def by blast

lemma accounted_later:
  "accounted h here m \<Longrightarrow> gh_dropped h \<subseteq> gh_dropped h' \<Longrightarrow> set (gh_log h) \<subseteq> set (gh_log h') \<Longrightarrow> accounted h' here m"
  unfolding accounted_def by blast

text \<open>A step that only adds to the history, keeps the buffer, justifies the ledger and loses no queued message
  unexplained.\<close>

lemma gate_inv_step:
  assumes i: "gate_inv a h s" and p: "pending_inv (gs_starting s')" and j: "justified a (gh_log h') (gs_ledger s')"
    and new: "\<And>m. m \<in> gh_arrived h' \<Longrightarrow> m \<in> gh_arrived h \<or> m \<in> queued_messages a s'"
    and sub: "gh_dropped h \<subseteq> gh_dropped h'" "set (gh_log h) \<subseteq> set (gh_log h')" "gh_reads h' = gh_reads h"
    and q: "\<And>m. m \<in> queued_messages a s \<Longrightarrow> accounted h' (queued_messages a s') m"
  shows "gate_inv a h' s'"
proof -
  have "accounted h' (queued_messages a s') m" if "m \<in> gh_arrived h'" for m
  proof -
    from new [OF that] show ?thesis
    proof
      assume "m \<in> gh_arrived h"
      then have "accounted h (queued_messages a s) m" using i by (simp add: gate_inv_def)
      then show ?thesis using q [of m] sub(1,2) unfolding accounted_def by blast
    next
      assume "m \<in> queued_messages a s'"
      then show ?thesis by (simp add: accounted_def)
    qed
  qed
  moreover have "gd_target r \<noteq> [] \<and> (\<forall>m\<in>known. visible_for (gd_target r) m \<longrightarrow> accounted h' (set (gd_pending r)) m)"
    if "(r, known) \<in> set (gh_reads h')" for r known
  proof -
    have "gd_target r \<noteq> [] \<and> (\<forall>m\<in>known. visible_for (gd_target r) m \<longrightarrow> accounted h (set (gd_pending r)) m)"
      using i that sub(3) by (simp add: gate_inv_def)
    then show ?thesis using accounted_later [OF _ sub(1,2)] by blast
  qed
  ultimately show ?thesis using p j by (simp add: gate_inv_def)
qed

lemma queued_pending_visible:
  "m \<in> queued_messages a s \<Longrightarrow> visible_for target m \<Longrightarrow> m \<in> set (pendingVisibleMessages a target s)"
  by (auto simp: queued_messages_def visible_for_def pendingVisibleMessages_def allPendingVisibleMessages_def collect_visible_def)

lemma clear_justified: "justified a log l \<Longrightarrow> justified a log (clearAgent a' l)"
  unfolding justified_def by (auto simp: clearAgent_def get2_def seen_ids_def split: if_splits option.splits)

lemma gate_run_inv: "gate_run isUuid a h s \<Longrightarrow> gate_inv a h s"
proof (induction rule: gate_run.induct)
  case gate_start
  then show ?case
    by (simp add: gate_inv_def no_gate_history_def justified_def new_ledger_def get2_def seen_ids_def)
next
  case (gate_arrive h s inbox m receipt inbox')
  show ?case
    by (rule gate_inv_step [OF gate_arrive.IH])
       (use gate_arrive queue_arrives [OF gate_arrive.hyps(3)] in
         \<open>auto simp: gate_inv_def queued_messages_def accounted_def split: if_splits\<close>)
next
  case (gate_arrive_starting h s ms r p)
  have i: "pending_inv (gs_starting s)" using gate_arrive_starting.IH by (simp add: gate_inv_def)
  have "p = snd (append_pending ''bufferMessagesDuringStart'' a ms (gs_starting s))"
    using gate_arrive_starting.hyps(3) by (simp add: bufferMessagesDuringStart_def)
  then have p: "pending_inv p" "pending_values a p = pending_values a (gs_starting s) @ ms"
    using append_pending_ok(2) [OF i gate_arrive_starting.hyps(2)] append_pending_ok(3) [OF i gate_arrive_starting.hyps(2)]
    by simp_all
  show ?case
    by (rule gate_inv_step [OF gate_arrive_starting.IH])
       (use p gate_arrive_starting.IH in \<open>auto simp: gate_inv_def queued_messages_def accounted_def\<close>)
next
  case (gate_consume h s i r s')
  have "pending_inv (gs_starting s)" "justified a (gh_log h) (gs_ledger s)"
    using gate_consume.IH by (simp_all add: gate_inv_def)
  note st = consume_step [OF gate_consume.hyps(3,2) this]
  show ?case
  proof (cases "isl r")
    case True
    then show ?thesis using st gate_consume.IH by simp
  next
    case False
    show ?thesis by (rule gate_inv_step [OF gate_consume.IH]) (use st False in \<open>auto simp: accounted_def\<close>)
  qed
next
  case (gate_clear h s)
  show ?case
    by (rule gate_inv_step [OF gate_clear.IH])
       (use gate_clear.IH in \<open>auto simp: gate_inv_def clear_justified queued_messages_def accounted_def\<close>)
next
  case (gate_other h s s')
  show ?case
    by (rule gate_inv_step [OF gate_other.IH])
       (use gate_other in \<open>auto simp: gate_inv_def accounted_def\<close>)
next
  case (gate_read h s action parsed r)
  note r = gate_begin_read [OF gate_read.hyps(2)]
  have "accounted h (set (gd_pending r)) m" if "m \<in> gh_arrived h" "visible_for (gd_target r) m" for m
  proof -
    have "accounted h (queued_messages a s) m" using gate_read.IH that(1) by (simp add: gate_inv_def)
    then show ?thesis using queued_pending_visible [OF _ that(2)] r(2) unfolding accounted_def by auto
  qed
  then show ?case using gate_read.IH r(1) by (auto simp: gate_inv_def accounted_def)
next
  case (gate_done h s r known localHold recent res s')
  have i: "pending_inv (gs_starting s)" "justified a (gh_log h) (gs_ledger s)" "gd_target r \<noteq> []"
    using gate_done.IH gate_done.hyps(2) by (auto simp: gate_inv_def)
  note st = gate_finish_step [OF gate_done.hyps(3) i(3,1,2)]
  show ?case
    by (rule gate_inv_step [OF gate_done.IH]) (use st in \<open>auto simp: accounted_def\<close>)
qed

end
