(* ===== verification/Gate_Properties.thy ===== *)
theory Gate_Properties
  imports Gate_Run Inbox_Properties
begin

text \<open>
  The composition of queues, ledger and planner: a side effect that passes the gate overtakes no accepted
  message that was never put before the model, and a held one passes after finitely many retries.
\<close>

section \<open>Normalised messages\<close>

lemma jget_normalize_other:
  assumes "message_ok m" and k: "k \<notin> {''message_id'', ''channel_id'', ''timestamp'', ''sender_type'', ''sender_name'',
    ''sender_description'', ''sender_timezone'', ''sender_id''}"
  shows "jget (normalizeInboxVisibleMessage m t) k =
    (case m of JObj kvs \<Rightarrow>
       (case map_of kvs k of
          None \<Rightarrow> jget (case t of Some (c # cs) \<Rightarrow> parseTargetFields (c # cs) | _ \<Rightarrow> JObj []) k
        | Some v \<Rightarrow> v))"
proof -
  obtain kvs where m: "m = JObj kvs" "distinct (map fst kvs)" using assms(1) by (cases m) auto
  let ?tf = "case t of Some (c # cs) \<Rightarrow> parseTargetFields (c # cs) | _ \<Rightarrow> JObj []"
  have tf: "is_plain_object ?tf" by (auto simp: plain_target_fields split: option.splits list.splits)
  have s: "jget (spread ?tf m) k = (case map_of kvs k of None \<Rightarrow> jget ?tf k | Some v \<Rightarrow> v)" "is_plain_object (spread ?tf m)"
    using jget_fold_jset [OF m(2) tf, of k] tf by (simp_all add: m(1) plain_fold_jset)
  have ks: "''message_id'' \<noteq> k" "''channel_id'' \<noteq> k" "''timestamp'' \<noteq> k" "''sender_type'' \<noteq> k" "''sender_name'' \<noteq> k"
    "''sender_description'' \<noteq> k" "''sender_timezone'' \<noteq> k" "''sender_id'' \<noteq> k"
    using k by auto
  have "jget (normalizeInboxVisibleMessage m t) k = jget (spread ?tf m) k"
    unfolding normalizeInboxVisibleMessage_def Let_def
    using s(2) by (cases "messageSenderId m") (simp_all add: ks)
  then show ?thesis using s(1) by (simp add: m(1))
qed

lemma visibleMessageId_normalize [simp]:
  assumes "message_ok m"
  shows "visibleMessageId (normalizeInboxVisibleMessage m t) = visibleMessageId m"
proof -
  obtain kvs where m: "m = JObj kvs" "distinct (map fst kvs)" using assms(1) by (cases m) auto
  let ?tf = "case t of Some (c # cs) \<Rightarrow> parseTargetFields (c # cs) | _ \<Rightarrow> JObj []"
  have tf: "is_plain_object ?tf" by (auto simp: plain_target_fields split: option.splits list.splits)
  have s: "is_plain_object (spread ?tf m)" using tf by (simp add: m(1) plain_fold_jset)
  have tid: "jget (parseTargetFields t') ''id'' = JUndef" for t'
    by (auto simp: parseTargetFields_def target_fields_def split: prod.splits option.splits list.splits)
  have id: "jget (normalizeInboxVisibleMessage m t) ''id'' = jget m ''id''"
    using jget_normalize_other [OF assms, of "''id''" t] by (auto simp: m(1) tid split: option.splits list.splits)
  have mid: "jget (normalizeInboxVisibleMessage m t) ''message_id'' = coalesce (jget m ''message_id'') (jget m ''id'')"
    using s by (auto simp: normalizeInboxVisibleMessage_def Let_def split: option.splits)
  show ?thesis
    unfolding visibleMessageId_def id mid by (cases "jget m ''message_id''") (auto simp: coalesce_def nullish_def)
qed

lemma messageSenderId_normalize:
  assumes "message_ok m"
  shows "messageSenderId (normalizeInboxVisibleMessage m t) = messageSenderId m"
proof -
  obtain kvs where m: "m = JObj kvs" "distinct (map fst kvs)" using assms(1) by (cases m) auto
  let ?tf = "case t of Some (c # cs) \<Rightarrow> parseTargetFields (c # cs) | _ \<Rightarrow> JObj []"
  have tf: "is_plain_object ?tf" by (auto simp: plain_target_fields split: option.splits list.splits)
  have tid: "jget (parseTargetFields t') ''sender_id'' = JUndef" "jget (parseTargetFields t') ''senderId'' = JUndef" for t'
    by (auto simp: parseTargetFields_def target_fields_def split: prod.splits option.splits list.splits)
  have s: "jget (spread ?tf m) ''sender_id'' = jget m ''sender_id''" "is_plain_object (spread ?tf m)"
    using jget_fold_jset [OF m(2) tf, of "''sender_id''"] tf
    by (auto simp: m(1) plain_fold_jset tid split: option.splits list.splits)
  have other: "jget (normalizeInboxVisibleMessage m t) ''senderId'' = jget m ''senderId''"
    using jget_normalize_other [OF assms, of "''senderId''" t] by (auto simp: m(1) tid split: option.splits list.splits)
  have "jget (normalizeInboxVisibleMessage m t) ''sender_id'' =
      (case messageSenderId m of None \<Rightarrow> jget m ''sender_id'' | Some x \<Rightarrow> JStr x)"
    using s by (auto simp: normalizeInboxVisibleMessage_def Let_def split: option.splits)
  then show ?thesis
    using other unfolding messageSenderId_def
    by (auto split: if_splits elim!: nonempty_str.elims)
qed

section \<open>What a passing side effect has behind it\<close>

lemma response_held: "sp_localResponse (planAgentInboxSideEffect i) = None \<longleftrightarrow> \<not> must_hold i"
proof -
  have "sp_localResponse p = None \<longleftrightarrow> sp_outcome p = Forwarded"
    if "p = planAgentInboxSideEffect i" for p
    unfolding that
    by (simp add: planAgentInboxSideEffect_def planPendingContext_def planFirstTouchRecentContext_def heldPlan_def Let_def
        split: option.splits)
  then show ?thesis using plan_outcome [of i] by (metis plan_outcome.distinct(1) plan_outcome.exhaust)
qed

lemma isModelSeen_normalize: "message_ok m \<Longrightarrow> isModelSeen a t (normalizeInboxVisibleMessage m t') l = isModelSeen a t m l"
  by (simp add: isModelSeen_def split: option.split)

lemma gate_input_fields [simp]:
  "in_agentId (gate_input a r recent l) = a" "in_target (gate_input a r recent l) = gd_target r"
  "in_continueAnyway (gate_input a r recent l) = gd_continueAnyway r" "in_pendingMessages (gate_input a r recent l) = gd_pending r"
  "in_recentMessages (gate_input a r recent l) = recent" "in_modelSeenSeq (gate_input a r recent l) = getBoundary a (gd_target r) l"
  "in_isMessageModelSeen (gate_input a r recent l) = Some (\<lambda>t m. isModelSeen a t m l)"
  "in_existingSeenUpToSeq (gate_input a r recent l) = gd_existing r"
  "in_freshnessContextMode (gate_input a r recent l) = Some (gd_mode r)" "in_action (gate_input a r recent l) = gd_action r"
  "in_heldContextLimit (gate_input a r recent l) = Some LOCAL_HELD_CONTEXT_LIMIT"
  by (simp_all add: gate_input_def)

text \<open>Seen by the planner is: sent by the agent itself, or seen by the ledger.\<close>

lemma planner_seen_iff:
  assumes "message_ok m"
  shows "isMessageModelSeen (gate_input a r recent l) (normalizeInboxVisibleMessage m t) \<longleftrightarrow>
    messageSenderId m = Some a \<or> isModelSeen a (gd_target r) m l"
  using assms
  by (auto simp: isMessageModelSeen_def messageSenderId_normalize isModelSeen_normalize isModelSeen_def split: option.splits)

lemma passed_pending_seen:
  assumes "\<not> must_hold (gate_input a r recent l)" "\<not> gd_continueAnyway r" "list_all message_ok (gd_pending r)"
    "m \<in> set (gd_pending r)" "0 < messageSeq m"
  shows "messageSenderId m = Some a \<or> isModelSeen a (gd_target r) m l"
proof -
  let ?i = "gate_input a r recent l"
  have "held_source ?i = gd_pending r" "in_pendingMessages ?i \<noteq> []" using assms(4) by (auto simp: held_source_def)
  then have "resolveFreshnessBoundary (unseen ?i (gd_pending r)) = None"
    using assms(1,2) by (simp add: must_hold_def)
  then have "isMessageModelSeen ?i (normalizeInboxVisibleMessage m (Some (in_target ?i)))"
    using unseen_boundary_iff [OF assms(3), of ?i] assms(4,5) by blast
  then show ?thesis using planner_seen_iff assms(3,4) by (auto simp: list_all_iff)
qed

end
