(* ===== verification/Gate_Retry.thy ===== *)
theory Gate_Retry
  imports Gate_Properties
begin

text \<open>
  A held side effect is retried by the agent with the same request. Each hold puts the newest unseen
  messages before the model and removes them from the queues, so finitely many retries pass the gate.
\<close>

section \<open>A consumption that succeeds\<close>

lemma target_mismatch_seq:
  "is_plain_object m \<Longrightarrow> target_mismatch i (jset m ''seq'' v) = target_mismatch i m"
  by (simp add: target_mismatch_def hasTargetMetadata_def formatProxyVisibleMessageTarget_def split: option.split)

lemma visibleMessageId_seq: "is_plain_object m \<Longrightarrow> visibleMessageId (jset m ''seq'' v) = visibleMessageId m"
  by (simp add: visibleMessageId_def)

text \<open>With a given target every message of the input goes under its canonical form.\<close>

lemma keyed_given: "given_target i = Some t \<Longrightarrow> keyed i (canonicalVisibleTarget t) ms = ms"
  by (simp add: keyed_def message_key_def)

lemma consume_succeeds:
  assumes g: "given_target i = Some t" and ne: "ci_messages i \<noteq> []" and scope: "ci_historyScope i = None"
    and nm: "\<And>m. m \<in> set (ci_messages i) \<Longrightarrow> \<not> target_mismatch i m"
    and p: "pending_inv (gs_starting s)" and adv: "\<And>k. \<not> canAdvanceBoundaryForTarget (ci_source i) k"
  obtains n s' P where "consumeVisibleMessages isUuid a i s = (Inr n, s')" "pending_inv (gs_starting s')"
    "\<And>target. pendingVisibleMessages a target s' = filter (\<lambda>m. \<not> P m) (pendingVisibleMessages a target s)"
    "\<And>m. formatAgentMessageVisibleTarget m = canonicalVisibleTarget t \<Longrightarrow>
       messageSeq m \<in> seq_set (ci_messages i) \<or> visibleMessageId m \<in> id_set (ci_messages i) \<Longrightarrow> P m"
    "\<And>target. getBoundary a target (gs_ledger s') = getBoundary a target (gs_ledger s)"
    "seen_ids (gs_ledger s') a (canonicalVisibleTarget t) = seen_ids (gs_ledger s) a (canonicalVisibleTarget t) \<union> id_set (ci_messages i)"
proof -
  obtain rr l' where rc: "recordConsumed isUuid a i (gs_ledger s) = (rr, l')" by fastforce
  have ci: "canonical_input i" using g by (intro given_canonical_input) simp
  have kn: "message_key i m \<noteq> []" for m
    using canonical_nonempty [OF given_target_nonempty [OF g]] by (simp add: message_key_def g)
  show thesis
    using rc ci
  proof (cases rule: recordConsumed_cases)
    case nothing
    then show ?thesis using ne kn by (cases "ci_messages i") auto
  next
    case (mismatch m)
    then show ?thesis using nm by blast
  next
    case (recorded bs)
    let ?c = "\<lparr>vc_byTarget = bs, vc_messagesCount = length (ci_messages i),
        vc_advancing = filter (canAdvanceBoundaryForTarget (ci_source i)) (map fst bs),
        vc_historyScope = accepted_scope isUuid a i, vc_legacyDmIds = legacy_ids (accepted_scope isUuid a i) (ci_messages i)\<rparr>"
    let ?k = "canonicalVisibleTarget t"
    note sup = suppressConsumed_ok [OF p, where P = "shouldSuppress ?c" and a = a]
    obtain p' where p': "suppressConsumed a (shouldSuppress ?c) (gs_starting s) =
        (Inr (length (filter (shouldSuppress ?c) (pending_values a (gs_starting s)))), p')"
      using sup(1) by (metis prod.collapse)
    let ?s' = "s\<lparr>gs_ledger := l', gs_inbox := map_option (filter (\<lambda>m. \<not> shouldSuppress ?c m)) (gs_inbox s), gs_starting := p'\<rparr>"
    have c: "\<exists>n. consumeVisibleMessages isUuid a i s = (Inr n, ?s')"
      using rc recorded(1) p' by (simp add: consumeVisibleMessages_def Let_def)
    have v: "pending_values a p' = filter (\<lambda>m. \<not> shouldSuppress ?c m) (pending_values a (gs_starting s))" "pending_inv p'"
      using suppressConsumed_ok(2,3) [OF p, where P = "shouldSuppress ?c" and a = a] p' by simp_all
    have vis: "pendingVisibleMessages a target ?s' = filter (\<lambda>m. \<not> shouldSuppress ?c m) (pendingVisibleMessages a target s)" for target
      by (auto simp: pendingVisibleMessages_def allPendingVisibleMessages_def collect_visible_def v(1) conj_commute conj_left_commute
          split: option.split)
    obtain m0 where m0: "m0 \<in> set (ci_messages i)" using ne by (cases "ci_messages i") auto
    have "\<forall>m\<in>set (ci_messages i). message_key i m \<noteq> [] \<longrightarrow> oget bs (message_key i m) \<noteq> None"
      using recorded(2) unfolding consumed_buckets_def by (elim conjE)
    then obtain b where b: "oget bs ?k = Some b" using m0 kn [of m0] by (auto simp: message_key_def g)
    note f = consumed_bucket_fields [OF recorded(2) b, unfolded keyed_given [OF g]]
    have "accepted_scope isUuid a i = None" by (simp add: accepted_scope_def scope)
    then have hit: "shouldSuppress ?c m"
      if "formatAgentMessageVisibleTarget m = ?k" "messageSeq m \<in> seq_set (ci_messages i) \<or> visibleMessageId m \<in> id_set (ci_messages i)" for m
      using that b f(2,3) by (auto simp: shouldSuppress_def Let_def seq_set_def id_set_def)
    have bd: "getBoundary a target l' = getBoundary a target (gs_ledger s)" for target
      using recorded(3) adv by (auto simp: written_def getBoundary_def boundary_after_def split: option.splits)
    have ids: "seen_ids l' a ?k = seen_ids (gs_ledger s) a ?k \<union> id_set (ci_messages i)"
      using recorded(3) b f(3) by (simp add: written_def)
    from c obtain n where "consumeVisibleMessages isUuid a i s = (Inr n, ?s')" by blast
    then show thesis using that [OF _ _ vis hit] v(2) bd ids by simp
  qed
qed

section \<open>What a plan consumes\<close>

definition planned :: "plan_input \<Rightarrow> message list \<Rightarrow> message list" where
  "planned i ms = sortInboxMessagesBySeq (normalizeInboxVisibleMessages ms (Some (in_target i)))"

definition preflight_input :: "plan_input \<Rightarrow> message list \<Rightarrow> int option \<Rightarrow> consume_input" where
  "preflight_input i ms b =
     \<lparr>ci_historyScope = None, ci_target = Some (in_target i), ci_messages = ms, ci_boundarySeq = b,
      ci_source = source_text Side_effect_preflight_context\<rparr>"

lemma heldPlan_inputs:
  "in_freshnessContextMode i \<noteq> Some Withheld \<Longrightarrow>
   effect_inputs (sp_effects (heldPlan i d c ms b tr)) = [preflight_input i ms (Some b)]"
  by (simp add: heldPlan_def Let_def preflight_input_def)

lemma held_pending_inputs:
  assumes "must_hold i" "in_pendingMessages i \<noteq> []" "in_freshnessContextMode i \<noteq> Some Withheld"
  shows "\<exists>b. effect_inputs (sp_effects (planAgentInboxSideEffect i)) =
    [preflight_input i
      (sortInboxMessagesBySeq (exactSeenConsumeMessages i (filter (isMessageModelSeen i) (planned i (in_pendingMessages i))) @
         latestVisibleMessages (unseen i (in_pendingMessages i)) (hold_limit i))) (Some b)]"
proof -
  obtain b where b: "resolveFreshnessBoundary (unseen i (in_pendingMessages i)) = Some b"
    using assms(1,2) by (auto simp: must_hold_def held_source_def)
  obtain c where c: "resolveFreshnessBoundary (planned i (in_pendingMessages i)) = Some c"
    using unseen_boundary(2) [OF b] by (auto simp: planned_def)
  have "planAgentInboxSideEffect i = planPendingContext i (hold_limit i) (input_trace i)"
    using assms(1,2) by (simp add: planAgentInboxSideEffect_def must_hold_def hold_limit_def Let_def)
  then show ?thesis
    using b c unseen_boundary(1) [OF b]
    by (simp add: planPendingContext_def Let_def planned_def [symmetric] unseen_def heldPlan_inputs [OF assms(3)]) blast
qed

lemma held_recent_inputs:
  assumes "must_hold i" "in_pendingMessages i = []" "in_freshnessContextMode i \<noteq> Some Withheld"
  shows "\<exists>b. effect_inputs (sp_effects (planAgentInboxSideEffect i)) = [preflight_input i (planned i (in_recentMessages i)) (Some b)]"
proof -
  obtain b where b: "resolveFreshnessBoundary (unseen i (in_recentMessages i)) = Some b"
    using assms(1,2) by (auto simp: must_hold_def held_source_def)
  obtain c where c: "resolveFreshnessBoundary (planned i (in_recentMessages i)) = Some c"
    using unseen_boundary(2) [OF b] by (auto simp: planned_def)
  have "in_recentMessages i \<noteq> []" using b unseen_empty [of i] by auto
  then have "planAgentInboxSideEffect i = planFirstTouchRecentContext i (hold_limit i)
      (appendTrace (input_trace i) ''model_boundary_checked'' [(''boundary'', JInt (known_boundary i))])"
    using assms(1,2) by (simp add: planAgentInboxSideEffect_def must_hold_def hold_limit_def Let_def)
  then show ?thesis
    using b c unseen_boundary(1) [OF b]
    by (simp add: planFirstTouchRecentContext_def Let_def planned_def [symmetric] unseen_def heldPlan_inputs [OF assms(3)]) blast
qed

lemma forward_inputs [simp]:
  "effect_inputs (sp_effects (forwardPlan i d tr q e)) = (case e of None \<Rightarrow> [] | Some x \<Rightarrow> effect_inputs [x])"
  "effect_inputs (sp_effects (forwardWithoutDecision i tr)) = []"
  by (auto simp: forwardPlan_def forwardWithoutDecision_def split: option.split inbox_effect.split)
     (metis effect_inputs.simps inbox_effect.exhaust)

lemma pending_passed:
  assumes "resolveFreshnessBoundary (unseen i (in_pendingMessages i)) = None"
  shows "effect_inputs (sp_effects (planPendingContext i l tr)) = [] \<or>
    (\<exists>b. effect_inputs (sp_effects (planPendingContext i l tr)) =
       [preflight_input i (exactSeenConsumeMessages i (planned i (in_pendingMessages i))) b])"
  using assms
  by (cases "resolveFreshnessBoundary (planned i (in_pendingMessages i))"; cases "unseen i (in_pendingMessages i) = []")
     (simp_all add: planPendingContext_def Let_def unseen_def planned_def [symmetric] preflight_input_def)

lemma recent_passed:
  assumes "resolveFreshnessBoundary (unseen i (in_recentMessages i)) = None"
  shows "effect_inputs (sp_effects (planFirstTouchRecentContext i l tr)) = [] \<or>
    (\<exists>b. effect_inputs (sp_effects (planFirstTouchRecentContext i l tr)) = [preflight_input i (planned i (in_recentMessages i)) b])"
  using assms
  by (cases "resolveFreshnessBoundary (planned i (in_recentMessages i))"; cases "unseen i (in_recentMessages i) = []")
     (simp_all add: planFirstTouchRecentContext_def Let_def unseen_def planned_def [symmetric] preflight_input_def)

lemma passed_inputs:
  assumes "\<not> must_hold i"
  shows "effect_inputs (sp_effects (planAgentInboxSideEffect i)) = [] \<or>
    (in_pendingMessages i \<noteq> [] \<and> (\<exists>b. effect_inputs (sp_effects (planAgentInboxSideEffect i)) =
       [preflight_input i (exactSeenConsumeMessages i (planned i (in_pendingMessages i))) b])) \<or>
    (in_recentMessages i \<noteq> [] \<and> (\<exists>b. effect_inputs (sp_effects (planAgentInboxSideEffect i)) =
       [preflight_input i (planned i (in_recentMessages i)) b]))"
proof -
  consider (bypass) "in_continueAnyway i" | (pending) "\<not> in_continueAnyway i" "in_pendingMessages i \<noteq> []"
    | (known) "\<not> in_continueAnyway i" "in_pendingMessages i = []" "0 < known_boundary i"
    | (recent) "\<not> in_continueAnyway i" "in_pendingMessages i = []" "\<not> 0 < known_boundary i" "in_recentMessages i \<noteq> []"
    | (none) "\<not> in_continueAnyway i" "in_pendingMessages i = []" "\<not> 0 < known_boundary i" "in_recentMessages i = []" by blast
  then show ?thesis
  proof cases
    case pending
    then have "resolveFreshnessBoundary (unseen i (in_pendingMessages i)) = None"
      using assms by (simp add: must_hold_def held_source_def)
    from pending_passed [OF this, of "hold_limit i" "input_trace i"] pending show ?thesis
      by (auto simp: planAgentInboxSideEffect_def Let_def hold_limit_def)
  next
    case recent
    then have "resolveFreshnessBoundary (unseen i (in_recentMessages i)) = None"
      using assms by (simp add: must_hold_def held_source_def)
    from recent_passed [OF this, of "hold_limit i"
      "appendTrace (input_trace i) ''model_boundary_checked'' [(''boundary'', JInt (known_boundary i))]"] recent
    show ?thesis by (auto simp: planAgentInboxSideEffect_def Let_def hold_limit_def)
  qed (simp_all add: planAgentInboxSideEffect_def Let_def)
qed

lemma exactSeen_members:
  "x \<in> set (exactSeenConsumeMessages i ms) \<Longrightarrow> \<exists>m\<in>set ms. x = m \<or> x = jset m ''seq'' JUndef"
  by (auto simp: exactSeenConsumeMessages_def split: if_splits)

lemma latest_subset: "set (latestVisibleMessages ms l) \<subseteq> set ms"
  by (auto simp: latestVisibleMessages_def sortInboxMessagesBySeq_def Let_def dest: in_set_dropD)

lemma planned_members: "set (planned i ms) = (\<lambda>m. normalizeInboxVisibleMessage m (Some (in_target i))) ` set ms"
  by (simp add: planned_def normalized_members)

text \<open>Everything a plan consumes is a normalised message of its input, perhaps without its number.\<close>

definition consumes_from :: "plan_input \<Rightarrow> message list \<Rightarrow> consume_input \<Rightarrow> bool" where
  "consumes_from i ms i' \<longleftrightarrow>
     (\<exists>b xs. i' = preflight_input i xs b \<and> xs \<noteq> [] \<and>
       (\<forall>x\<in>set xs. \<exists>m\<in>set ms. x = normalizeInboxVisibleMessage m (Some (in_target i)) \<or>
          x = jset (normalizeInboxVisibleMessage m (Some (in_target i))) ''seq'' JUndef))"

lemma planned_nonempty: "ms \<noteq> [] \<Longrightarrow> planned i ms \<noteq> []"
  using planned_members [of i ms] by auto

lemma consumes_fromI:
  assumes "i' = preflight_input i xs b" "xs \<noteq> []" "set ms \<subseteq> set ms'"
    "\<And>x. x \<in> set xs \<Longrightarrow> \<exists>y\<in>set (planned i ms). x = y \<or> x = jset y ''seq'' JUndef"
  shows "consumes_from i ms' i'"
  using assms unfolding consumes_from_def planned_members by blast

lemma plan_consumes:
  assumes "in_freshnessContextMode i \<noteq> Some Withheld" "0 < hold_limit i"
    "i' \<in> set (effect_inputs (sp_effects (planAgentInboxSideEffect i)))"
  shows "consumes_from i (in_pendingMessages i @ in_recentMessages i) i'"
proof -
  have ex: "exactSeenConsumeMessages i ms = [] \<longleftrightarrow> ms = []" for ms by (simp add: exactSeenConsumeMessages_def)
  consider (hold_pending) "must_hold i" "in_pendingMessages i \<noteq> []" | (hold_recent) "must_hold i" "in_pendingMessages i = []"
    | (pass) "\<not> must_hold i" by blast
  then show ?thesis
  proof cases
    case hold_pending
    let ?seen = "filter (isMessageModelSeen i) (planned i (in_pendingMessages i))"
    let ?held = "latestVisibleMessages (unseen i (in_pendingMessages i)) (hold_limit i)"
    have "unseen i (in_pendingMessages i) \<noteq> []"
      using hold_pending unseen_boundary(1) [of i "in_pendingMessages i"] by (auto simp: must_hold_def held_source_def)
    then have ne: "?held \<noteq> []"
      using latest_length [of "unseen i (in_pendingMessages i)" "hold_limit i"] assms(2) by (auto simp: min_def split: if_splits)
    have "set (unseen i (in_pendingMessages i)) \<subseteq> set (planned i (in_pendingMessages i))"
      by (auto simp: unseen_def planned_def)
    then have held: "set ?held \<subseteq> set (planned i (in_pendingMessages i))" using latest_subset by blast
    obtain b where i': "i' = preflight_input i (sortInboxMessagesBySeq (exactSeenConsumeMessages i ?seen @ ?held)) (Some b)"
      using held_pending_inputs [OF hold_pending assms(1)] assms(3) by auto
    show ?thesis
    proof (rule consumes_fromI [OF i'])
      have "set (sortInboxMessagesBySeq (exactSeenConsumeMessages i ?seen @ ?held)) \<noteq> {}"
        using ne by (simp add: sortInboxMessagesBySeq_def)
      then show "sortInboxMessagesBySeq (exactSeenConsumeMessages i ?seen @ ?held) \<noteq> []" by auto
    next
      fix x assume "x \<in> set (sortInboxMessagesBySeq (exactSeenConsumeMessages i ?seen @ ?held))"
      then have "x \<in> set (exactSeenConsumeMessages i ?seen) \<or> x \<in> set ?held" by (simp add: sortInboxMessagesBySeq_def)
      then show "\<exists>y\<in>set (planned i (in_pendingMessages i)). x = y \<or> x = jset y ''seq'' JUndef"
        using held exactSeen_members [of x i ?seen] by auto
    qed simp
  next
    case hold_recent
    have ne: "in_recentMessages i \<noteq> []"
      using hold_recent unseen_empty [of i] by (auto simp: must_hold_def held_source_def)
    obtain b where "i' = preflight_input i (planned i (in_recentMessages i)) (Some b)"
      using held_recent_inputs [OF hold_recent assms(1)] assms(3) by auto
    then show ?thesis by (rule consumes_fromI [where ms = "in_recentMessages i"]) (use planned_nonempty [OF ne] in auto)
  next
    case pass
    from passed_inputs [OF pass] assms(3) consider
        (p) b where "i' = preflight_input i (exactSeenConsumeMessages i (planned i (in_pendingMessages i))) b" "in_pendingMessages i \<noteq> []"
      | (r) b where "i' = preflight_input i (planned i (in_recentMessages i)) b" "in_recentMessages i \<noteq> []"
      by auto
    then show ?thesis
    proof cases
      case p
      show ?thesis
        by (rule consumes_fromI [OF p(1), where ms = "in_pendingMessages i"])
           (use planned_nonempty [OF p(2)] exactSeen_members [of _ i "planned i (in_pendingMessages i)"] in \<open>auto simp: ex\<close>)
    next
      case r
      show ?thesis
        by (rule consumes_fromI [OF r(1), where ms = "in_recentMessages i"]) (use planned_nonempty [OF r(2)] in auto)
    qed
  qed
qed

section \<open>One attempt\<close>

text \<open>A message that does not contradict the target it is filed under.\<close>

definition addressed :: "string \<Rightarrow> message \<Rightarrow> bool" where
  "addressed t m \<longleftrightarrow> message_ok m \<and>
     \<not> target_mismatch \<lparr>ci_historyScope = None, ci_target = Some t, ci_messages = [], ci_boundarySeq = None, ci_source = []\<rparr>
         (normalizeInboxVisibleMessage m (Some t))"

lemma target_mismatch_cong: "given_target i = given_target i' \<Longrightarrow> target_mismatch i m = target_mismatch i' m"
  by (simp add: target_mismatch_def)

lemma plain_normalize: "message_ok m \<Longrightarrow> is_plain_object (normalizeInboxVisibleMessage m t)"
  by (cases m) (auto simp: normalizeInboxVisibleMessage_def Let_def plain_fold_jset plain_target_fields split: option.splits list.splits)

lemma preflight_fields [simp]:
  "ci_messages (preflight_input i ms b) = ms" "ci_target (preflight_input i ms b) = Some (in_target i)"
  "ci_historyScope (preflight_input i ms b) = None" "\<not> canAdvanceBoundaryForTarget (ci_source (preflight_input i ms b)) k"
  by (simp_all add: preflight_input_def canAdvanceBoundaryForTarget_def)

lemma given_target_preflight: "in_target i \<noteq> [] \<Longrightarrow> given_target (preflight_input i ms b) = Some (in_target i)"
  by (simp add: given_target_def split: list.split)

lemma consumes_no_mismatch:
  assumes "consumes_from i ms i'" "in_target i \<noteq> []" "\<forall>m\<in>set ms. addressed (in_target i) m" "x \<in> set (ci_messages i')"
  shows "\<not> target_mismatch i' x"
proof -
  obtain b xs where i': "i' = preflight_input i xs b" using assms(1) by (auto simp: consumes_from_def)
  obtain m where m: "m \<in> set ms" "x = normalizeInboxVisibleMessage m (Some (in_target i)) \<or>
      x = jset (normalizeInboxVisibleMessage m (Some (in_target i))) ''seq'' JUndef"
  proof -
    have "\<exists>m\<in>set ms. x = normalizeInboxVisibleMessage m (Some (in_target i)) \<or>
        x = jset (normalizeInboxVisibleMessage m (Some (in_target i))) ''seq'' JUndef"
      using assms(1,4) by (auto simp: consumes_from_def)
    then show thesis using that by blast
  qed
  have "addressed (in_target i) m" using assms(3) m(1) by blast
  moreover have "given_target i' = given_target \<lparr>ci_historyScope = None, ci_target = Some (in_target i), ci_messages = [],
      ci_boundarySeq = None, ci_source = []\<rparr>"
    by (simp add: i' given_target_def)
  ultimately show ?thesis
    using m(2) target_mismatch_cong target_mismatch_seq [OF plain_normalize] unfolding addressed_def by metis
qed

text \<open>The highest unseen number is among the messages a hold shows.\<close>

lemma latest_has_highest:
  assumes "resolveFreshnessBoundary (unseen i ms) = Some b" "0 < l"
  shows "\<exists>x\<in>set (latestVisibleMessages (unseen i ms) l). messageSeq x = b \<and> 0 < b"
proof -
  let ?u = "unseen i ms"
  note b = maxInboxMessageSeq_Some [OF assms(1) [unfolded resolveFreshnessBoundary_def]]
  obtain x where x: "x \<in> set ?u" "messageSeq x = b" using b(2) by blast
  then have ne: "?u \<noteq> []" by auto
  have "length (latestVisibleMessages ?u l) \<noteq> 0"
    using latest_length [of ?u l] assms(2) ne by (auto simp: min_def split: if_splits)
  then have last: "last ?u \<in> set (latestVisibleMessages ?u l)"
    using latest_suffix [of ?u l] unseen_sorted [of i ms] ne
    by (metis drop_eq_Nil2 last_drop last_in_set length_0_conv not_less)
  have "sorted_wrt (\<lambda>p q. compare_message_seq p q \<le> 0) ?u"
    using by_seq.js_sort_sorted [of ?u] unseen_sorted [of i ms] by (simp add: sortInboxMessagesBySeq_def)
  moreover obtain j where j: "j < length ?u" "?u ! j = x" using x(1) by (auto simp: in_set_conv_nth)
  ultimately have "messageSeq x \<le> messageSeq (last ?u)"
    using ne by (cases "j = length ?u - 1") (auto simp: last_conv_nth compare_message_seq_def sorted_wrt_iff_nth_less)
  moreover have "messageSeq (last ?u) \<le> b" using b(3) ne by simp
  ultimately show ?thesis using last x(2) b(1) by (intro bexI [of _ "last ?u"]) auto
qed

definition gate_ok :: "string \<Rightarrow> string \<Rightarrow> gate_state \<Rightarrow> bool" where
  "gate_ok a t s \<longleftrightarrow> pending_inv (gs_starting s) \<and> (\<forall>m\<in>set (pendingVisibleMessages a t s). addressed t m)"

lemma pending_format: "m \<in> set (pendingVisibleMessages a t s) \<Longrightarrow> formatAgentMessageVisibleTarget m = t"
  by (simp add: pendingVisibleMessages_def)

lemma filter_shorter: "m \<in> set xs \<Longrightarrow> P m \<Longrightarrow> length (filter (\<lambda>m. \<not> P m) xs) < length xs"
  by (metis (no_types, lifting) length_filter_less)

lemma attempt_step:
  assumes ok: "gate_ok a t s" and t: "t \<noteq> []" "canonicalVisibleTarget t = t"
    and r: "gd_target r = t" "gd_pending r = pendingVisibleMessages a t s" "gd_mode r = Inline"
    and recent: "\<forall>m\<in>set recent. addressed t m"
  defines "i \<equiv> gate_input a r recent (gs_ledger s)"
  obtains res s' where "gate_finish isUuid a True r recent s = (Inr res, s')" "gate_ok a t s'"
    "gr_localResponse res = None \<longleftrightarrow> \<not> must_hold i" "getBoundary a t (gs_ledger s') = getBoundary a t (gs_ledger s)"
    "set (pendingVisibleMessages a t s') \<subseteq> set (pendingVisibleMessages a t s)"
    "must_hold i \<Longrightarrow> gd_pending r \<noteq> [] \<Longrightarrow>
       length (pendingVisibleMessages a t s') < length (pendingVisibleMessages a t s)"
    "must_hold i \<Longrightarrow> gd_pending r = [] \<Longrightarrow> id_set recent \<subseteq> seen_ids (gs_ledger s') a t"
proof -
  let ?es = "sp_effects (planAgentInboxSideEffect i)"
  have i: "in_target i = t" "in_freshnessContextMode i \<noteq> Some Withheld" "0 < hold_limit i"
    using r by (simp_all add: i_def hold_limit_def LOCAL_HELD_CONTEXT_LIMIT_def)
  have adr: "\<forall>m\<in>set (in_pendingMessages i @ in_recentMessages i). addressed (in_target i) m"
    using ok recent r by (auto simp: i_def gate_ok_def)
  have fin: "gate_finish isUuid a True r recent s =
      (case apply_effects isUuid a ?es s of (Inl e, s') \<Rightarrow> (Inl e, s')
       | (Inr _, s') \<Rightarrow> (Inr (the_result s'), s'))"
    if "the_result = (\<lambda>s'. projr (fst (gate_finish isUuid a True r recent s)))" for the_result
    unfolding that by (auto simp: gate_finish_def Let_def i_def split: sum.split prod.split)
  have resp: "gr_localResponse res = None \<longleftrightarrow> \<not> must_hold i" if "gate_finish isUuid a True r recent s = (Inr res, s')" for res s'
  proof -
    have "gr_localResponse res = sp_localResponse (planAgentInboxSideEffect i)"
      using that by (auto simp: gate_finish_def Let_def i_def split: sum.splits prod.splits)
    then show ?thesis using response_held [of i] by (simp add: i_def)
  qed
  show thesis
  proof (cases "effect_inputs ?es")
    case Nil
    then have "apply_effects isUuid a ?es s = (Inr (), s)" by (rule apply_effects_none)
    then have f: "gate_finish isUuid a True r recent s = (Inr (projr (fst (gate_finish isUuid a True r recent s))), s)"
      using fin [OF refl] by simp
    have "\<not> must_hold i"
      using Nil held_pending_inputs [of i] held_recent_inputs [of i] i(2) by fastforce
    then show thesis using that [OF f ok resp [OF f] refl subset_refl] by blast
  next
    case (Cons i' rest)
    then have rest: "rest = []" using effect_inputs_at_most_one [of i] by simp
    have cf: "consumes_from i (in_pendingMessages i @ in_recentMessages i) i'"
      by (rule plan_consumes [OF i(2,3)]) (simp add: Cons)
    then obtain b xs where i': "i' = preflight_input i xs b" "xs \<noteq> []" by (auto simp: consumes_from_def)
    have g: "given_target i' = Some t" using given_target_preflight [of i xs b] t i i' by simp
    obtain n s' P where c: "consumeVisibleMessages isUuid a i' s = (Inr n, s')" "pending_inv (gs_starting s')"
      "\<And>target. pendingVisibleMessages a target s' = filter (\<lambda>m. \<not> P m) (pendingVisibleMessages a target s)"
      "\<And>m. formatAgentMessageVisibleTarget m = canonicalVisibleTarget t \<Longrightarrow>
         messageSeq m \<in> seq_set (ci_messages i') \<or> visibleMessageId m \<in> id_set (ci_messages i') \<Longrightarrow> P m"
      "\<And>target. getBoundary a target (gs_ledger s') = getBoundary a target (gs_ledger s)"
      "seen_ids (gs_ledger s') a (canonicalVisibleTarget t) = seen_ids (gs_ledger s) a (canonicalVisibleTarget t) \<union> id_set (ci_messages i')"
      by (rule consume_succeeds [OF g, of s isUuid a])
         (use i' consumes_no_mismatch [OF cf] adr i(1) t(1) ok in \<open>auto simp: gate_ok_def\<close>)
    have ap: "apply_effects isUuid a ?es s = (Inr (), s')"
    proof -
      have "apply_effects isUuid a es s = (Inr (), s')" if "effect_inputs es = [i']" for es
        using that
      proof (induction es)
        case (Cons e es)
        show ?case
        proof (cases e)
          case (Record_freshness_decision d)
          then show ?thesis using Cons by simp
        next
          case (Consume_visible_messages tg ms bd src)
          then show ?thesis using Cons.prems c(1) apply_effects_none [of es] by auto
        qed
      qed simp
      then show ?thesis using Cons rest by simp
    qed
    then have f: "gate_finish isUuid a True r recent s = (Inr (projr (fst (gate_finish isUuid a True r recent s))), s')"
      using fin [OF refl] by simp
    have sub: "set (pendingVisibleMessages a t s') \<subseteq> set (pendingVisibleMessages a t s)" by (auto simp: c(3))
    then have ok': "gate_ok a t s'" using ok c(2) by (auto simp: gate_ok_def)
    have less: "length (pendingVisibleMessages a t s') < length (pendingVisibleMessages a t s)"
      if h: "must_hold i" "gd_pending r \<noteq> []"
    proof -
      have p: "in_pendingMessages i = pendingVisibleMessages a t s" using r by (simp add: i_def)
      obtain b0 where b0: "resolveFreshnessBoundary (unseen i (in_pendingMessages i)) = Some b0"
        using h by (auto simp: must_hold_def held_source_def i_def)
      obtain x where x: "x \<in> set (latestVisibleMessages (unseen i (in_pendingMessages i)) (hold_limit i))" "messageSeq x = b0" "0 < b0"
        using latest_has_highest [OF b0 i(3)] by blast
      have xi: "x \<in> set (ci_messages i')"
        using held_pending_inputs [OF h(1) _ i(2)] h(2) Cons rest x(1) by (auto simp: i_def sortInboxMessagesBySeq_def)
      have "x \<in> set (planned i (in_pendingMessages i))"
        using x(1) latest_subset by (fastforce simp: unseen_def planned_def)
      then obtain m where m: "m \<in> set (pendingVisibleMessages a t s)" "x = normalizeInboxVisibleMessage m (Some t)"
        using i(1) p by (auto simp: planned_members)
      have "message_ok m" using ok m(1) by (auto simp: gate_ok_def addressed_def)
      then have "messageSeq m = messageSeq x" using m(2) by simp
      then have "messageSeq m \<in> messageSeq ` set (ci_messages i')" "0 < messageSeq m" using x(2,3) imageI [OF xi, of messageSeq] by simp_all
      then have "messageSeq m \<in> seq_set (ci_messages i')" by (simp add: seq_set_def)
      then have "P m" using c(4) [of m] pending_format [OF m(1)] t(2) by simp
      then show ?thesis using filter_shorter [of m _ P, OF m(1)] by (simp add: c(3))
    qed
    have ids: "id_set recent \<subseteq> seen_ids (gs_ledger s') a t" if h: "must_hold i" "gd_pending r = []"
    proof -
      have "ci_messages i' = planned i recent"
        using held_recent_inputs [OF h(1) _ i(2)] h(2) Cons rest by (auto simp: i_def)
      moreover have "message_ok m" if "m \<in> set recent" for m using recent that by (auto simp: addressed_def)
      ultimately have "id_set (ci_messages i') = id_set recent"
        by (simp add: id_set_def planned_members image_image cong: image_cong)
      then show ?thesis using c(6) t(2) by simp
    qed
    show thesis using that [OF f ok' resp [OF f] c(5) sub less ids] by blast
  qed
qed

section \<open>Retrying\<close>

text \<open>The agent sends the same request again as long as it is held; \<open>None\<close> when it is still held or an attempt
  throws.\<close>

fun retry_request ::
  "nat \<Rightarrow> (string \<Rightarrow> bool) \<Rightarrow> string \<Rightarrow> side_action \<Rightarrow> jsval \<Rightarrow> (string \<Rightarrow> message list option) \<Rightarrow> gate_state \<Rightarrow>
   (gate_result \<times> gate_state) option" where
  "retry_request 0 isUuid a action body history s = None"
| "retry_request (Suc n) isUuid a action body history s =
     (case prepareAgentApiSideEffectForward isUuid a action True (Some body) history s of
        (Inl e, s') \<Rightarrow> None
      | (Inr res, s') \<Rightarrow>
          if gr_localResponse res = None then Some (res, s') else retry_request n isUuid a action body history s')"

text \<open>An inline request that respects holds.\<close>

definition inline_request :: "side_action \<Rightarrow> jsval \<Rightarrow> string \<Rightarrow> bool" where
  "inline_request action body t \<longleftrightarrow>
     body \<noteq> JNull \<and> sideEffectTarget action body = Some t \<and> jget body ''freshnessContextMode'' \<noteq> JStr ''withheld'' \<and>
     \<not> (action = Send \<and> jget body ''continueAnyway'' = JBool True)"

lemma sideEffectTarget_nonempty: "sideEffectTarget action body = Some t \<Longrightarrow> t \<noteq> []"
  by (auto simp: sideEffectTarget_def Let_def split: if_splits elim!: nonempty_str.elims)

text \<open>The messages an attempt loads when nothing is pending.\<close>

abbreviation loaded :: "(string \<Rightarrow> message list option) \<Rightarrow> string \<Rightarrow> message list" where
  "loaded history t \<equiv> recent_messages (history t) t"

lemma inline_attempt:
  assumes b: "inline_request action body t" and c: "canonicalVisibleTarget t = t" and ok: "gate_ok a t s"
    and recent: "\<forall>m\<in>set (loaded history t). addressed t m"
  defines "r \<equiv> gate_reads a action body t s"
  defines "i \<equiv> gate_input a r (if gd_loadRecent r then loaded history t else []) (gs_ledger s)"
  obtains res s' where
    "prepareAgentApiSideEffectForward isUuid a action True (Some body) history s = (Inr res, s')" "gate_ok a t s'"
    "gr_localResponse res = None \<longleftrightarrow> \<not> must_hold i" "getBoundary a t (gs_ledger s') = getBoundary a t (gs_ledger s)"
    "set (pendingVisibleMessages a t s') \<subseteq> set (pendingVisibleMessages a t s)"
    "must_hold i \<and> pendingVisibleMessages a t s \<noteq> [] \<longrightarrow>
       length (pendingVisibleMessages a t s') < length (pendingVisibleMessages a t s)"
    "must_hold i \<and> pendingVisibleMessages a t s = [] \<longrightarrow> gd_loadRecent r \<and> id_set (loaded history t) \<subseteq> seen_ids (gs_ledger s') a t"
proof -
  let ?recent = "if gd_loadRecent r then loaded history t else []"
  have t: "t \<noteq> []" using b sideEffectTarget_nonempty by (auto simp: inline_request_def)
  have fields: "gd_target r = t" "gd_pending r = pendingVisibleMessages a t s" "gd_mode r = Inline"
    using b by (simp_all add: r_def gate_reads_def inline_request_def Let_def)
  have p: "prepareAgentApiSideEffectForward isUuid a action True (Some body) history s = gate_finish isUuid a True r ?recent s"
    using b fields(1) by (simp add: prepareAgentApiSideEffectForward_def gate_begin_eq inline_request_def r_def)
  have rec: "\<forall>m\<in>set ?recent. addressed t m" using recent by simp
  have load: "gd_loadRecent r" if "must_hold i" "pendingVisibleMessages a t s = []"
  proof (rule ccontr)
    assume "\<not> gd_loadRecent r"
    then have "held_source i = []" using that(2) fields(2) by (simp add: i_def held_source_def)
    then show False using that(1) unseen_empty [of i] by (simp add: must_hold_def)
  qed
  show thesis
    by (rule attempt_step [OF ok t c fields rec, of isUuid, folded i_def])
       (use that p fields(2) load in auto)
qed

text \<open>Once the loaded history is seen, the next attempt with nothing pending passes.\<close>

lemma seen_history_passes:
  assumes "inline_request action body t" "canonicalVisibleTarget t = t" "pendingVisibleMessages a t s = []"
    "\<forall>m\<in>set (loaded history t). message_ok m \<and> visibleMessageId m \<noteq> []"
    "id_set (loaded history t) \<subseteq> seen_ids (gs_ledger s) a t"
  defines "r \<equiv> gate_reads a action body t s"
  shows "\<not> must_hold (gate_input a r (if gd_loadRecent r then loaded history t else []) (gs_ledger s))"
proof
  let ?recent = "if gd_loadRecent r then loaded history t else []"
  let ?i = "gate_input a r ?recent (gs_ledger s)"
  assume h: "must_hold ?i"
  have f: "gd_target r = t" "gd_pending r = []" using assms(3) by (simp_all add: r_def gate_reads_def Let_def)
  have "list_all message_ok ?recent" using assms(4) by (simp add: list_all_iff)
  moreover have "resolveFreshnessBoundary (unseen ?i ?recent) \<noteq> None"
    using h f(2) by (simp add: must_hold_def held_source_def)
  ultimately obtain m where m: "m \<in> set ?recent" "\<not> isMessageModelSeen ?i (normalizeInboxVisibleMessage m (Some (in_target ?i)))"
    using unseen_boundary_iff [of ?recent ?i] by blast
  then have ml: "m \<in> set (loaded history t)" by (simp split: if_splits)
  then have "visibleMessageId m \<in> seen_ids (gs_ledger s) a t" using assms(4,5) by (auto simp: id_set_def)
  then have "isModelSeen a t m (gs_ledger s)"
    using assms(2,4) ml by (simp add: isModelSeen_def getMessageIdSet_def has_seen_id_iff)
  then show False using m(2) planner_seen_iff [of m a r ?recent "gs_ledger s" "Some (in_target ?i)"] assms(4) ml f(1) by simp
qed

lemma retry_mono:
  "retry_request n isUuid a action body history s = Some x \<Longrightarrow> n \<le> n' \<Longrightarrow>
   retry_request n' isUuid a action body history s = Some x"
proof (induction n arbitrary: n' s)
  case (Suc n)
  then obtain k where "n' = Suc k" "n \<le> k" by (cases n') auto
  then show ?case using Suc by (auto split: prod.splits sum.splits if_splits)
qed simp

text \<open>With nothing pending two attempts are enough: the history is shown at most once.\<close>

lemma retry_without_pending:
  assumes b: "inline_request action body t" and c: "canonicalVisibleTarget t = t" and ok: "gate_ok a t s"
    and recent: "\<forall>m\<in>set (loaded history t). addressed t m \<and> visibleMessageId m \<noteq> []"
    and p: "pendingVisibleMessages a t s = []"
  shows "retry_request 2 isUuid a action body history s \<noteq> None"
proof -
  have rec: "\<forall>m\<in>set (loaded history t). addressed t m" "\<forall>m\<in>set (loaded history t). message_ok m \<and> visibleMessageId m \<noteq> []"
    using recent by (auto simp: addressed_def)
  let ?in = "\<lambda>s. gate_input a (gate_reads a action body t s)
    (if gd_loadRecent (gate_reads a action body t s) then loaded history t else []) (gs_ledger s)"
  obtain res s' where 1: "prepareAgentApiSideEffectForward isUuid a action True (Some body) history s = (Inr res, s')" "gate_ok a t s'"
    "gr_localResponse res = None \<longleftrightarrow> \<not> must_hold (?in s)" "getBoundary a t (gs_ledger s') = getBoundary a t (gs_ledger s)"
    "set (pendingVisibleMessages a t s') \<subseteq> set (pendingVisibleMessages a t s)"
    "must_hold (?in s) \<and> pendingVisibleMessages a t s \<noteq> [] \<longrightarrow>
       length (pendingVisibleMessages a t s') < length (pendingVisibleMessages a t s)"
    "must_hold (?in s) \<and> pendingVisibleMessages a t s = [] \<longrightarrow>
       gd_loadRecent (gate_reads a action body t s) \<and> id_set (loaded history t) \<subseteq> seen_ids (gs_ledger s') a t"
    by (rule inline_attempt [where history = history and isUuid = isUuid, OF b c ok rec(1)]) (rule that)
  show ?thesis
  proof (cases "must_hold (?in s)")
    case False
    then show ?thesis using 1(1,3) by (simp add: numeral_2_eq_2)
  next
    case True
    have p': "pendingVisibleMessages a t s' = []" using 1(5) p by simp
    have ids: "id_set (loaded history t) \<subseteq> seen_ids (gs_ledger s') a t" using 1(7) True p by simp
    have "\<not> must_hold (?in s')" by (rule seen_history_passes [where history = history, OF b c p' rec(2) ids])
    moreover obtain res' s'' where
      "prepareAgentApiSideEffectForward isUuid a action True (Some body) history s' = (Inr res', s'')"
      "gr_localResponse res' = None \<longleftrightarrow> \<not> must_hold (?in s')"
      by (rule inline_attempt [where history = history and isUuid = isUuid, OF b c 1(2) rec(1)]) (rule that)
    ultimately show ?thesis using 1(1) by (simp add: numeral_2_eq_2)
  qed
qed

lemma retry_passes:
  assumes b: "inline_request action body t" and c: "canonicalVisibleTarget t = t" and ok: "gate_ok a t s"
    and recent: "\<forall>m\<in>set (loaded history t). addressed t m \<and> visibleMessageId m \<noteq> []"
  shows "retry_request (length (pendingVisibleMessages a t s) + 2) isUuid a action body history s \<noteq> None"
  using ok
proof (induction "length (pendingVisibleMessages a t s)" arbitrary: s rule: less_induct)
  case less
  have rec: "\<forall>m\<in>set (loaded history t). addressed t m" using recent by blast
  let ?in = "gate_input a (gate_reads a action body t s)
    (if gd_loadRecent (gate_reads a action body t s) then loaded history t else []) (gs_ledger s)"
  show ?case
  proof (cases "pendingVisibleMessages a t s = []")
    case True
    then have "length (pendingVisibleMessages a t s) + 2 = 2" by simp
    then show ?thesis
      using retry_without_pending [where history = history and isUuid = isUuid, OF b c less.prems recent True] by metis
  next
    case False
    obtain res s' where 1: "prepareAgentApiSideEffectForward isUuid a action True (Some body) history s = (Inr res, s')" "gate_ok a t s'"
      "gr_localResponse res = None \<longleftrightarrow> \<not> must_hold ?in"
      "getBoundary a t (gs_ledger s') = getBoundary a t (gs_ledger s)"
      "set (pendingVisibleMessages a t s') \<subseteq> set (pendingVisibleMessages a t s)"
      "must_hold ?in \<and> pendingVisibleMessages a t s \<noteq> [] \<longrightarrow>
         length (pendingVisibleMessages a t s') < length (pendingVisibleMessages a t s)"
      by (rule inline_attempt [where history = history and isUuid = isUuid, OF b c less.prems rec]) (rule that)
    show ?thesis
    proof (cases "must_hold ?in")
      case False
      then show ?thesis using 1(1,3) by simp
    next
      case True
      have shorter: "length (pendingVisibleMessages a t s') < length (pendingVisibleMessages a t s)"
        using 1(6) True False by simp
      obtain x where "retry_request (length (pendingVisibleMessages a t s') + 2) isUuid a action body history s' = Some x"
        using less.hyps [OF shorter 1(2)] by blast
      then have "retry_request (Suc (length (pendingVisibleMessages a t s))) isUuid a action body history s' = Some x"
        by (rule retry_mono) (use shorter in simp)
      then show ?thesis using 1(1,3) True by simp
    qed
  qed
qed

end
