(* ===== verification/Gate_Theorems.thy ===== *)
theory Gate_Theorems
  imports Gate_Retry
begin

text \<open>
  What the gate, the queues, the delivery ledger and the planner give together, stated over the model's
  own definitions: nothing is overtaken, and nobody is held for ever.
\<close>

section \<open>Nothing is overtaken\<close>

text \<open>
  The gate reads the queues and then awaits the history before it plans. A message that reaches the daemon in between is
  in neither list: here the queue is empty when the request reads it, message 5 arrives, and the request passes.
\<close>

lemma await_arrival_overtaken:
  "\<exists>r res s'. gate_begin ''a1'' Send (Some (JObj [(''target'', JStr ''#ops'')]))
       \<lparr>gs_ledger = new_ledger, gs_inbox = Some [], gs_starting = []\<rparr> = Gate_plans r \<and>
     gate_finish (\<lambda>x. False) ''a1'' True r []
       \<lparr>gs_ledger = new_ledger, gs_inbox = Some [sample_delivery 5 ''m5''], gs_starting = []\<rparr> = (Inr res, s') \<and>
     gr_localResponse res = None \<and> gs_inbox s' = Some [sample_delivery 5 ''m5'']"
proof -
  define r where "r = gate_reads ''a1'' Send (JObj [(''target'', JStr ''#ops'')]) ''#ops''
    \<lparr>gs_ledger = new_ledger, gs_inbox = Some [], gs_starting = []\<rparr>"
  define f where "f = gate_finish (\<lambda>x. False) ''a1'' True r []
    \<lparr>gs_ledger = new_ledger, gs_inbox = Some [sample_delivery 5 ''m5''], gs_starting = []\<rparr>"
  have "gate_begin ''a1'' Send (Some (JObj [(''target'', JStr ''#ops'')]))
      \<lparr>gs_ledger = new_ledger, gs_inbox = Some [], gs_starting = []\<rparr> = Gate_plans r"
    by (simp add: gate_begin_def sideEffectTarget_def r_def)
  moreover have "\<not> isl (fst f)" "gr_localResponse (projr (fst f)) = None" "gs_inbox (snd f) = Some [sample_delivery 5 ''m5'']"
    unfolding f_def r_def by code_simp+
  moreover from this(1) have "f = (Inr (projr (fst f)), snd f)" by (simp add: prod_eq_iff)
  ultimately show ?thesis unfolding f_def by metis
qed



definition sample_body :: jsval where
  "sample_body = JObj [(''target'', JStr ''#ops'')]"








section \<open>Nobody is held for ever\<close>

text \<open>A message of a channel is addressed to that channel.\<close>

lemma channel_message_addressed:
  assumes "message_ok m" "jget m ''channel_type'' = JStr ''channel''" "jget m ''channel_name'' = JStr (c # cs)"
    "jget m ''third_party_event'' = JUndef"
  shows "addressed (''#'' @ c # cs) m"
proof -
  let ?t = "''#'' @ c # cs"
  let ?n = "normalizeInboxVisibleMessage m (Some ?t)"
  obtain kvs where m: "m = JObj kvs" using assms(1) by (cases m) auto
  have event: "jget (parseTargetFields t') ''third_party_event'' = JUndef" for t'
    by (auto simp: parseTargetFields_def target_fields_def split: prod.splits option.splits list.splits)
  have "jget ?n ''channel_type'' = JStr ''channel''" "jget ?n ''channel_name'' = JStr (c # cs)"
    "jget ?n ''third_party_event'' = JUndef"
    using jget_normalize_other [OF assms(1), of "''channel_type''" "Some ?t"] jget_normalize_other [OF assms(1), of "''channel_name''" "Some ?t"]
      jget_normalize_other [OF assms(1), of "''third_party_event''" "Some ?t"] assms(2-4)
    by (auto simp: m event split: option.splits)
  moreover have "canonicalVisibleTarget ?t = ?t" "eventIdFromTarget ?t = None"
    by (simp_all add: canonicalVisibleTarget_def eventIdFromTarget_def lower_def lower_char_def has_prefix_def)
  ultimately show ?thesis
    using assms(1) by (simp add: addressed_def target_mismatch_def given_target_def formatProxyVisibleMessageTarget_def computeTarget_def)
qed

lemma retry_answer: "retry_request n isUuid a action body history s = Some (res, s') \<Longrightarrow> gr_localResponse res = None"
  by (induction n arbitrary: s) (auto split: prod.splits sum.splits if_splits)

text \<open>In withheld mode a hold shows nothing and consumes nothing, so the same request is held again every time; there
  the agent has to read the messages by other means first.\<close>

lemma withheld_hold_repeats:
  assumes b: "body \<noteq> JNull" "sideEffectTarget action body = Some t" "jget body ''freshnessContextMode'' = JStr ''withheld''"
    and held: "prepareAgentApiSideEffectForward isUuid a action True (Some body) history s = (Inr res, s')"
      "gr_localResponse res \<noteq> None"
  shows "s' = s \<and> retry_request n isUuid a action body history s = None"
proof -
  define r where "r = gate_reads a action body t s"
  define recent where "recent = (if gd_loadRecent r then recent_messages (history (gd_target r)) (gd_target r) else [])"
  define i where "i = gate_input a r recent (gs_ledger s)"
  have mode: "in_freshnessContextMode i = Some Withheld"
    using b(3) by (simp add: i_def gate_input_def r_def gate_reads_def Let_def)
  have begins: "gate_begin a action (Some body) s = Gate_plans r"
    using b by (simp add: gate_begin_def r_def)
  have fin: "gate_finish isUuid a True r recent s = (Inr res, s')"
    using held(1) by (simp only: prepareAgentApiSideEffectForward_def begins gate_start.case recent_def)
  have "gr_localResponse res = sp_localResponse (planAgentInboxSideEffect i)"
    using fin by (auto simp: gate_finish_def Let_def i_def split: sum.splits prod.splits)
  then have "must_hold i" using held(2) response_held by simp
  then have "sp_outcome (planAgentInboxSideEffect i) = Held" using plan_outcome [of i] by simp
  from plan_held_shape [OF this] obtain d c ms bd tr where p: "planAgentInboxSideEffect i = heldPlan i d c ms bd tr"
    unfolding held_shape_def by blast
  obtain d' where "sp_effects (planAgentInboxSideEffect i) = [Record_freshness_decision d']"
    using heldPlan_effects [of i d c ms bd tr] mode unfolding p by auto
  then have s: "s' = s" using fin by (simp add: gate_finish_def Let_def i_def [symmetric])
  have "retry_request n isUuid a action body history s = None"
    using held unfolding s by (induction n) simp_all
  then show ?thesis using s by simp
qed

text \<open>C9. An agent that repeats a held request whose context is shown inline gets through. The attempts run one after the
  other and no message arrives meanwhile; when the messages of the target name it consistently and those the history
  answers carry ids, the request passes the gate after at most one attempt per pending message and two more, without
  asking to continue anyway and without any attempt failing. In withheld mode this is false
  (\<open>withheld_hold_repeats\<close>).\<close>

theorem gate_retry_passes:
  assumes "inline_request action body t" "canonicalVisibleTarget t = t" "gate_ok a t s"
    and "\<forall>m\<in>set (recent_messages (history t) t). addressed t m \<and> visibleMessageId m \<noteq> []"
  shows "\<exists>res s'. retry_request (length (pendingVisibleMessages a t s) + 2) isUuid a action body history s = Some (res, s') \<and>
    gr_localResponse res = None"
proof -
  from retry_passes [where history = history and isUuid = isUuid, OF assms] obtain res s' where
    "retry_request (length (pendingVisibleMessages a t s) + 2) isUuid a action body history s = Some (res, s')" by auto
  then show ?thesis using retry_answer by blast
qed

definition sample_waiting :: gate_state where
  "sample_waiting =
     \<lparr>gs_ledger = new_ledger, gs_inbox = Some [sample_delivery 5 ''m5'', sample_delivery 6 ''m6''], gs_starting = []\<rparr>"

theorem gate_retry_passes_witness:
  "\<exists>res s'. retry_request 4 (\<lambda>x. False) ''a1'' Send sample_body (\<lambda>t. Some [sample_delivery 5 ''m5'']) sample_waiting = Some (res, s') \<and>
     gr_localResponse res = None"
proof -
  have b: "inline_request Send sample_body ''#ops''"
    by (simp add: inline_request_def sample_body_def sideEffectTarget_def)
  have c: "canonicalVisibleTarget ''#ops'' = ''#ops''" by code_simp
  have p: "pendingVisibleMessages ''a1'' ''#ops'' sample_waiting = [sample_delivery 5 ''m5'', sample_delivery 6 ''m6'']" by code_simp
  have ad: "addressed ''#ops'' (sample_delivery 5 ''m5'')" "addressed ''#ops'' (sample_delivery 6 ''m6'')" by code_simp+
  have ok: "gate_ok ''a1'' ''#ops'' sample_waiting" using ad p by (simp add: gate_ok_def) (simp add: sample_waiting_def)
  have "list_all (\<lambda>m. addressed ''#ops'' m \<and> visibleMessageId m \<noteq> [])
      (recent_messages (Some [sample_delivery 5 ''m5'']) ''#ops'')" by code_simp
  then have h: "\<forall>m\<in>set (recent_messages ((\<lambda>t. Some [sample_delivery 5 ''m5'']) ''#ops'') ''#ops'').
      addressed ''#ops'' m \<and> visibleMessageId m \<noteq> []"
    by (simp add: list_all_iff)
  have "length (pendingVisibleMessages ''a1'' ''#ops'' sample_waiting) + 2 = 4" by (simp add: p)
  with gate_retry_passes [OF b c ok h] show ?thesis by (simp only:)
qed

end
