(* ===== verification/Start_Coordinator.thy ===== *)
theory Start_Coordinator
  imports Start_Pending
begin

text \<open>
  \<open>packages/daemon/src/agentStartCoordinator.ts\<close>: the queue of agent starts with its concurrency limit,
  its rate limit and its timer. Queue items are objects that are compared by reference and changed in
  place, so a state has a heap of items and the queue and the map hold references into it; the promise
  functions of an item are what the manager does when it settles the reference. The assertions the
  class runs after every transition are part of the operations; a violated one is the left value of a
  sum. The two setters for tests are left out.
\<close>

section \<open>Items\<close>

record recovery_grant =
  rg_grantId :: string
  rg_agentId :: string
  rg_launchId :: string
  rg_resolvedMarkerId :: "string option"
  rg_takeoverEpoch :: "int option"
  rg_knownMarkers :: "string list"

text \<open>What a start asks for; the configuration and the messages are opaque here.\<close>

record ('c, 'm) pending_start =
  ps_startDispatchId :: "string option"
  ps_config :: 'c
  ps_wakeMessage :: "'m option"
  ps_wakeMessageTransient :: "bool option"
  ps_resumeMessages :: "'m list option"
  ps_unreadSummary :: "(string, int) omap option"
  ps_resumePrompt :: "string option"
  ps_launchId :: "string option"
  ps_recoveryGrant :: "recovery_grant option"
  ps_claimedConnectionEpochId :: "string option"

record ('c, 'm) start_item =
  si_agentId :: string
  si_enqueuedAtMs :: int
  si_start :: "('c, 'm) pending_start"

section \<open>State\<close>

record ('c, 'm) coordinator =
  sc_heap :: "('c, 'm) start_item list"
  sc_starting :: "string list"
  sc_queuedByAgent :: "(string, nat) omap"
  sc_queue :: "nat list"
  sc_activeStarts :: int
  sc_pumpTimer :: bool
  sc_lastStartAt :: int
  sc_lastStartAgentId :: "string option"
  sc_maxConcurrentStarts :: int
  sc_minStartIntervalMs :: int

abbreviation item_of :: "('c, 'm) coordinator \<Rightarrow> nat \<Rightarrow> ('c, 'm) start_item" where
  "item_of c r \<equiv> sc_heap c ! r"

abbreviation agent_of :: "('c, 'm) coordinator \<Rightarrow> nat \<Rightarrow> string" where
  "agent_of c r \<equiv> si_agentId (sc_heap c ! r)"

definition new_coordinator :: "int \<Rightarrow> int \<Rightarrow> ('c, 'm) coordinator" where
  "new_coordinator maxConcurrent minInterval =
     \<lparr>sc_heap = [], sc_starting = [], sc_queuedByAgent = [], sc_queue = [], sc_activeStarts = 0, sc_pumpTimer = False,
      sc_lastStartAt = 0, sc_lastStartAgentId = None, sc_maxConcurrentStarts = max 1 maxConcurrent,
      sc_minStartIntervalMs = max 0 minInterval\<rparr>"

section \<open>The assertions\<close>

text \<open>The ends of the messages of the assertions.\<close>

fun check_queue :: "('c, 'm) coordinator \<Rightarrow> string list \<Rightarrow> nat list \<Rightarrow> string + string list" where
  "check_queue c seen [] = Inr seen"
| "check_queue c seen (r # rs) =
     (let a = agent_of c r
      in if a \<in> set seen then Inl (''duplicate queued agent '' @ a)
         else if oget (sc_queuedByAgent c) a \<noteq> Some r then Inl (''queue/map mismatch for '' @ a)
         else if a \<in> set (sc_starting c) then Inl (a @ '' is queued and starting'')
         else check_queue c (seen @ [a]) rs)"

fun check_map :: "('c, 'm) coordinator \<Rightarrow> string list \<Rightarrow> (string, nat) omap \<Rightarrow> string option" where
  "check_map c seen [] = None"
| "check_map c seen ((a, r) # m) =
     (if a \<notin> set seen then Some (''map-only queued agent '' @ a)
      else if agent_of c r \<noteq> a then Some (''map key/item agent mismatch for '' @ a)
      else check_map c seen m)"

definition assertStartInvariants :: "('c, 'm) coordinator \<Rightarrow> string option" where
  "assertStartInvariants c =
     (if sc_activeStarts c < 0 then Some ''activeStarts is negative''
      else if sc_maxConcurrentStarts c < sc_activeStarts c then Some ''activeStarts exceeds maxConcurrentStarts''
      else case check_queue c [] (sc_queue c) of
             Inl e \<Rightarrow> Some e
           | Inr seen \<Rightarrow>
               if length seen \<noteq> length (sc_queuedByAgent c) then Some ''queue/map size mismatch''
               else check_map c seen (sc_queuedByAgent c))"

definition after :: "string \<Rightarrow> 'r \<Rightarrow> ('c, 'm) coordinator \<Rightarrow> (string + 'r) \<times> ('c, 'm) coordinator" where
  "after ctx r c =
     (case assertStartInvariants c of
        None \<Rightarrow> (Inr r, c)
      | Some e \<Rightarrow> (Inl (''Agent start invariant violation after '' @ ctx @ '': '' @ e), c))"

section \<open>Operations\<close>

definition hasStarting :: "string \<Rightarrow> ('c, 'm) coordinator \<Rightarrow> bool" where
  "hasStarting a c \<longleftrightarrow> a \<in> set (sc_starting c)"

definition hasQueued :: "string \<Rightarrow> ('c, 'm) coordinator \<Rightarrow> bool" where
  "hasQueued a c \<longleftrightarrow> oget (sc_queuedByAgent c) a \<noteq> None"

definition getQueued :: "string \<Rightarrow> ('c, 'm) coordinator \<Rightarrow> nat option" where
  "getQueued a c = oget (sc_queuedByAgent c) a"

definition queueAgeMs :: "string \<Rightarrow> int \<Rightarrow> ('c, 'm) coordinator \<Rightarrow> int" where
  "queueAgeMs a now c =
     (case oget (sc_queuedByAgent c) a of None \<Rightarrow> 0 | Some r \<Rightarrow> max 0 (now - si_enqueuedAtMs (item_of c r)))"

text \<open>The object literal of the caller is allocated here.\<close>

definition enqueue_start :: "('c, 'm) start_item \<Rightarrow> ('c, 'm) coordinator \<Rightarrow> (string + unit) \<times> ('c, 'm) coordinator" where
  "enqueue_start item c =
     (let a = si_agentId item; r = length (sc_heap c); c = c\<lparr>sc_heap := sc_heap c @ [item]\<rparr>
      in if a \<in> set (sc_starting c)
         then (Inl (''Agent start invariant violation after enqueue: '' @ a @ '' is already starting''), c)
         else if oget (sc_queuedByAgent c) a \<noteq> None
         then (Inl (''Agent start invariant violation after enqueue: '' @ a @ '' is already queued''), c)
         else after ''enqueue'' () (c\<lparr>sc_queue := sc_queue c @ [r], sc_queuedByAgent := oset a r (sc_queuedByAgent c)\<rparr>))"

definition markStarting :: "string \<Rightarrow> ('c, 'm) coordinator \<Rightarrow> (string + unit) \<times> ('c, 'm) coordinator" where
  "markStarting a c =
     (if oget (sc_queuedByAgent c) a \<noteq> None
      then (Inl (''Agent start invariant violation after markStarting: '' @ a @ '' is still queued''), c)
      else after ''markStarting'' ()
             (c\<lparr>sc_starting := (if a \<in> set (sc_starting c) then sc_starting c else sc_starting c @ [a])\<rparr>))"

definition clearStarting :: "string \<Rightarrow> ('c, 'm) coordinator \<Rightarrow> (string + unit) \<times> ('c, 'm) coordinator" where
  "clearStarting a c = after ''clearStarting'' () (c\<lparr>sc_starting := removeAll a (sc_starting c)\<rparr>)"

datatype blocked_reason = Timer_active | Queue_empty | Capacity_full

datatype pump_state = Pump_blocked blocked_reason | Pump_rate_limited nat int | Pump_ready nat

definition getPumpState :: "int \<Rightarrow> ('c, 'm) coordinator \<Rightarrow> pump_state" where
  "getPumpState now c =
     (if sc_pumpTimer c then Pump_blocked Timer_active
      else case sc_queue c of
             [] \<Rightarrow> Pump_blocked Queue_empty
           | r # rs \<Rightarrow>
               if sc_maxConcurrentStarts c \<le> sc_activeStarts c then Pump_blocked Capacity_full
               else
                 let waitMs = (if Some (agent_of c r) \<noteq> sc_lastStartAgentId c
                               then max 0 (sc_minStartIntervalMs c - (now - sc_lastStartAt c)) else 0)
                 in if 0 < waitMs then Pump_rate_limited r waitMs else Pump_ready r)"

definition schedulePump :: "('c, 'm) coordinator \<Rightarrow> (string + unit) \<times> ('c, 'm) coordinator" where
  "schedulePump c = (if sc_pumpTimer c then (Inr (), c) else after ''schedulePump'' () (c\<lparr>sc_pumpTimer := True\<rparr>))"

datatype dequeue_result = Dequeue_empty | Dequeue_stale nat | Dequeue_item nat

definition dequeue_start :: "('c, 'm) coordinator \<Rightarrow> (string + dequeue_result) \<times> ('c, 'm) coordinator" where
  "dequeue_start c =
     (case sc_queue c of
        [] \<Rightarrow> after ''dequeue empty'' Dequeue_empty c
      | r # rs \<Rightarrow>
          let c = c\<lparr>sc_queue := rs\<rparr>
          in if oget (sc_queuedByAgent c) (agent_of c r) \<noteq> Some r then after ''dequeue stale'' (Dequeue_stale r) c
             else after ''dequeue'' (Dequeue_item r) (c\<lparr>sc_queuedByAgent := odel (agent_of c r) (sc_queuedByAgent c)\<rparr>))"

definition claimStartSlot :: "string \<Rightarrow> int \<Rightarrow> ('c, 'm) coordinator \<Rightarrow> (string + unit) \<times> ('c, 'm) coordinator" where
  "claimStartSlot a now c =
     after ''claimStartSlot'' ()
       (c\<lparr>sc_activeStarts := sc_activeStarts c + 1, sc_lastStartAt := now, sc_lastStartAgentId := Some a\<rparr>)"

definition releaseStartSlot :: "('c, 'm) coordinator \<Rightarrow> (string + bool) \<times> ('c, 'm) coordinator" where
  "releaseStartSlot c =
     (if sc_activeStarts c \<le> 0 then (Inr False, c)
      else after ''releaseStartSlot'' True (c\<lparr>sc_activeStarts := max 0 (sc_activeStarts c - 1)\<rparr>))"

definition clearPumpTimerIfIdle :: "('c, 'm) coordinator \<Rightarrow> ('c, 'm) coordinator" where
  "clearPumpTimerIfIdle c = (if sc_queue c = [] then c\<lparr>sc_pumpTimer := False\<rparr> else c)"

definition cancelQueued :: "string \<Rightarrow> ('c, 'm) coordinator \<Rightarrow> (string + nat option) \<times> ('c, 'm) coordinator" where
  "cancelQueued a c =
     (case oget (sc_queuedByAgent c) a of
        None \<Rightarrow> (Inr None, c)
      | Some r \<Rightarrow>
          after ''cancelQueued'' (Some r)
            (clearPumpTimerIfIdle
              (c\<lparr>sc_queuedByAgent := odel a (sc_queuedByAgent c), sc_queue := filter (\<lambda>r'. r' \<noteq> r) (sc_queue c)\<rparr>)))"

definition cancelAllQueued :: "('c, 'm) coordinator \<Rightarrow> (string + nat list) \<times> ('c, 'm) coordinator" where
  "cancelAllQueued c =
     (let items = filter (\<lambda>r. oget (sc_queuedByAgent c) (agent_of c r) = Some r) (sc_queue c)
      in after ''cancelAllQueued'' items (c\<lparr>sc_queue := [], sc_queuedByAgent := [], sc_pumpTimer := False\<rparr>))"

record coordinator_snapshot =
  cs_activeStarts :: int
  cs_queueDepth :: nat
  cs_maxConcurrentStarts :: int
  cs_minStartIntervalMs :: int
  cs_startingAgentIds :: "string list"
  cs_queuedAgentIds :: "string list"
  cs_pumpTimerActive :: bool

definition start_snapshot_of :: "('c, 'm) coordinator \<Rightarrow> coordinator_snapshot" where
  "start_snapshot_of c =
     \<lparr>cs_activeStarts = sc_activeStarts c, cs_queueDepth = length (sc_queue c), cs_maxConcurrentStarts = sc_maxConcurrentStarts c,
      cs_minStartIntervalMs = sc_minStartIntervalMs c, cs_startingAgentIds = sc_starting c,
      cs_queuedAgentIds = map fst (sc_queuedByAgent c), cs_pumpTimerActive = sc_pumpTimer c\<rparr>"


section \<open>No assertion fails\<close>

declare map_of_eq_Some_iff [simp del] Some_eq_map_of_iff [simp del]

text \<open>The map is the queue, keyed by the agents of its items.\<close>

definition queue_map :: "('c, 'm) coordinator \<Rightarrow> nat list \<Rightarrow> (string, nat) omap" where
  "queue_map c q = map (\<lambda>r. (agent_of c r, r)) q"

definition coordinator_inv :: "('c, 'm) coordinator \<Rightarrow> bool" where
  "coordinator_inv c \<longleftrightarrow>
     sc_queuedByAgent c = queue_map c (sc_queue c) \<and> distinct (map (agent_of c) (sc_queue c)) \<and>
     (\<forall>r\<in>set (sc_queue c). r < length (sc_heap c) \<and> agent_of c r \<notin> set (sc_starting c)) \<and>
     0 \<le> sc_activeStarts c \<and> sc_activeStarts c \<le> sc_maxConcurrentStarts c \<and> 1 \<le> sc_maxConcurrentStarts c"

lemma coordinator_invD:
  assumes "coordinator_inv c"
  shows "sc_queuedByAgent c = queue_map c (sc_queue c)" "distinct (map (agent_of c) (sc_queue c))"
    "r \<in> set (sc_queue c) \<Longrightarrow> r < length (sc_heap c)" "r \<in> set (sc_queue c) \<Longrightarrow> agent_of c r \<notin> set (sc_starting c)"
    "0 \<le> sc_activeStarts c" "sc_activeStarts c \<le> sc_maxConcurrentStarts c" "1 \<le> sc_maxConcurrentStarts c"
  using assms by (simp_all add: coordinator_inv_def)

lemma queue_map_get:
  "distinct (map (agent_of c) q) \<Longrightarrow> oget (queue_map c q) a = Some r \<longleftrightarrow> r \<in> set q \<and> agent_of c r = a"
proof (induction q)
  case (Cons r' q)
  have "agent_of c x \<noteq> agent_of c r'" if "x \<in> set q" for x
    using that Cons.prems by (auto simp: image_iff)
  then show ?case using Cons.IH Cons.prems by (cases "agent_of c r' = a") (auto simp: queue_map_def)
qed (simp add: queue_map_def)

lemma queue_map_none: "oget (queue_map c q) a = None \<longleftrightarrow> a \<notin> agent_of c ` set q"
  by (induction q) (auto simp: queue_map_def)

lemma queue_map_delete: "odel a (queue_map c q) = queue_map c (filter (\<lambda>r. agent_of c r \<noteq> a) q)"
  by (induction q) (auto simp: queue_map_def)

lemma update_new: "k \<notin> fst ` set m \<Longrightarrow> oset k v m = m @ [(k, v)]"
  by (induction m) auto

lemma queue_map_simps [simp]:
  "queue_map c [] = []" "queue_map c (q @ q') = queue_map c q @ queue_map c q'" "length (queue_map c q) = length q"
  "map fst (queue_map c q) = map (agent_of c) q"
  by (simp_all add: queue_map_def)

lemma check_queue_ok:
  assumes "distinct (seen @ map (agent_of c) q)"
    and "\<forall>r\<in>set q. oget (sc_queuedByAgent c) (agent_of c r) = Some r \<and> agent_of c r \<notin> set (sc_starting c)"
  shows "check_queue c seen q = Inr (seen @ map (agent_of c) q)"
  using assms by (induction c seen q rule: check_queue.induct) (auto simp: Let_def)

lemma check_map_ok: "\<forall>r\<in>set q. agent_of c r \<in> set seen \<Longrightarrow> check_map c seen (queue_map c q) = None"
  by (induction q) (auto simp: queue_map_def)

lemma assert_ok: "coordinator_inv c \<Longrightarrow> assertStartInvariants c = None"
proof -
  assume i: "coordinator_inv c"
  note d = coordinator_invD [OF i]
  have "check_queue c [] (sc_queue c) = Inr ([] @ map (agent_of c) (sc_queue c))"
    by (rule check_queue_ok) (use d in \<open>auto simp: queue_map_get\<close>)
  then show ?thesis
    using d(5,6) check_map_ok [of "sc_queue c" c "map (agent_of c) (sc_queue c)"]
    by (simp add: assertStartInvariants_def d(1))
qed

lemma after_ok [simp]: "coordinator_inv c \<Longrightarrow> after ctx r c = (Inr r, c)"
  by (simp add: after_def assert_ok)

lemma new_coordinator_inv: "coordinator_inv (new_coordinator m i)"
  by (simp add: coordinator_inv_def new_coordinator_def)

section \<open>What the operations do\<close>

lemma hasQueued_iff: "coordinator_inv c \<Longrightarrow> hasQueued a c \<longleftrightarrow> a \<in> agent_of c ` set (sc_queue c)"
  by (simp add: hasQueued_def coordinator_invD(1) queue_map_none)

text \<open>The heap only grows, so references keep their agents.\<close>

lemma queue_map_append_heap:
  "\<forall>r\<in>set q. r < length (sc_heap c) \<Longrightarrow> queue_map (c\<lparr>sc_heap := sc_heap c @ h\<rparr>) q = queue_map c q"
  by (simp add: queue_map_def nth_append)

lemma enqueue_start_ok:
  assumes i: "coordinator_inv c" and a: "\<not> hasStarting (si_agentId item) c" "\<not> hasQueued (si_agentId item) c"
  defines "c' \<equiv> c\<lparr>sc_heap := sc_heap c @ [item], sc_queue := sc_queue c @ [length (sc_heap c)],
    sc_queuedByAgent := sc_queuedByAgent c @ [(si_agentId item, length (sc_heap c))]\<rparr>"
  shows "enqueue_start item c = (Inr (), c')" "coordinator_inv c'"
proof -
  note d = coordinator_invD [OF i]
  have n: "si_agentId item \<notin> agent_of c ` set (sc_queue c)" using a(2) by (simp add: hasQueued_iff [OF i])
  have agents: "map (agent_of c') (sc_queue c) = map (agent_of c) (sc_queue c)"
    using d(3) by (simp add: c'_def nth_append)
  have qm: "queue_map c' (sc_queue c) = queue_map c (sc_queue c)"
    using d(3) by (simp add: c'_def queue_map_def nth_append)
  have new: "agent_of c' (length (sc_heap c)) = si_agentId item" by (simp add: c'_def)
  show inv: "coordinator_inv c'"
    unfolding coordinator_inv_def
  proof (intro conjI ballI)
    show "sc_queuedByAgent c' = queue_map c' (sc_queue c')"
      using qm new d(1) by (simp add: c'_def queue_map_def)
    have "map (agent_of c') (sc_queue c') = map (agent_of c) (sc_queue c) @ [si_agentId item]"
      using agents new by (simp add: c'_def)
    then show "distinct (map (agent_of c') (sc_queue c'))"
      by (simp only:) (use n d(2) in simp)
    fix r assume "r \<in> set (sc_queue c')"
    then have "r \<in> set (sc_queue c) \<or> r = length (sc_heap c)" by (auto simp: c'_def)
    then show "r < length (sc_heap c')" "agent_of c' r \<notin> set (sc_starting c')"
      using d(3,4) [of r] a(1) by (auto simp: c'_def nth_append hasStarting_def)
  qed (use d(5-7) in \<open>simp_all add: c'_def\<close>)
  have fst_new: "si_agentId item \<notin> fst ` set (sc_queuedByAgent c)"
    using n d(1) by (auto simp: queue_map_def)
  have "oget (sc_queuedByAgent c) (si_agentId item) = None" using n d(1) by (simp add: queue_map_none)
  then show "enqueue_start item c = (Inr (), c')"
    using inv a(1) update_new [OF fst_new] by (simp add: enqueue_start_def Let_def hasStarting_def c'_def)
qed

lemma markStarting_ok:
  assumes "coordinator_inv c" "\<not> hasQueued a c"
  defines "c' \<equiv> c\<lparr>sc_starting := (if a \<in> set (sc_starting c) then sc_starting c else sc_starting c @ [a])\<rparr>"
  shows "markStarting a c = (Inr (), c')" "coordinator_inv c'"
proof -
  show i: "coordinator_inv c'"
    using assms(1,2) by (auto simp: coordinator_inv_def c'_def queue_map_def hasQueued_iff)
  show "markStarting a c = (Inr (), c')"
    using i assms(2) by (simp add: markStarting_def hasQueued_def c'_def)
qed

lemma clearStarting_ok:
  assumes "coordinator_inv c"
  shows "clearStarting a c = (Inr (), c\<lparr>sc_starting := removeAll a (sc_starting c)\<rparr>)"
    "coordinator_inv (c\<lparr>sc_starting := removeAll a (sc_starting c)\<rparr>)"
proof -
  show i: "coordinator_inv (c\<lparr>sc_starting := removeAll a (sc_starting c)\<rparr>)"
    using assms by (auto simp: coordinator_inv_def queue_map_def)
  show "clearStarting a c = (Inr (), c\<lparr>sc_starting := removeAll a (sc_starting c)\<rparr>)"
    using i by (simp add: clearStarting_def)
qed


lemma schedulePump_ok:
  "coordinator_inv c \<Longrightarrow> schedulePump c = (Inr (), c\<lparr>sc_pumpTimer := True\<rparr>) \<and> coordinator_inv (c\<lparr>sc_pumpTimer := True\<rparr>)"
proof -
  assume i: "coordinator_inv c"
  then have j: "coordinator_inv (c\<lparr>sc_pumpTimer := True\<rparr>)" by (simp add: coordinator_inv_def queue_map_def)
  then show ?thesis by (cases "sc_pumpTimer c") (simp_all add: schedulePump_def)
qed

text \<open>A reference at the head is never stale.\<close>

lemma dequeue_start_ok:
  assumes i: "coordinator_inv c" and q: "sc_queue c = r # rs"
  defines "c' \<equiv> c\<lparr>sc_queue := rs, sc_queuedByAgent := queue_map c rs\<rparr>"
  shows "dequeue_start c = (Inr (Dequeue_item r), c')" "coordinator_inv c'"
proof -
  note d = coordinator_invD [OF i]
  have fresh: "agent_of c x \<noteq> agent_of c r" if "x \<in> set rs" for x
    using that d(2) by (auto simp: q image_iff)
  have qm: "queue_map c' rs = queue_map c rs" by (simp add: c'_def queue_map_def)
  show j: "coordinator_inv c'"
    using d(2-7) qm by (simp add: coordinator_inv_def c'_def q)
  have "odel (agent_of c r) (queue_map c (r # rs)) = queue_map c (filter (\<lambda>x. agent_of c x \<noteq> agent_of c r) (r # rs))"
    by (rule queue_map_delete)
  also have "filter (\<lambda>x. agent_of c x \<noteq> agent_of c r) (r # rs) = rs" using fresh by (simp add: filter_id_conv)
  finally have del: "odel (agent_of c r) (sc_queuedByAgent c) = queue_map c rs" by (simp add: d(1) q)
  have "oget (sc_queuedByAgent c) (agent_of c r) = Some r" by (simp add: d(1) q queue_map_def)
  then show "dequeue_start c = (Inr (Dequeue_item r), c')"
    using j del by (simp add: dequeue_start_def q Let_def c'_def)
qed

lemma claimStartSlot_ok:
  fixes a :: string and now :: int
  assumes "coordinator_inv c" "sc_activeStarts c < sc_maxConcurrentStarts c"
  defines "c' \<equiv> c\<lparr>sc_activeStarts := sc_activeStarts c + 1, sc_lastStartAt := now, sc_lastStartAgentId := Some a\<rparr>"
  shows "claimStartSlot a now c = (Inr (), c')" "coordinator_inv c'"
proof -
  show j: "coordinator_inv c'" using assms(1,2) by (simp add: coordinator_inv_def c'_def queue_map_def)
  show "claimStartSlot a now c = (Inr (), c')" using j by (simp add: claimStartSlot_def c'_def)
qed

lemma releaseStartSlot_ok:
  assumes "coordinator_inv c" "0 < sc_activeStarts c"
  defines "c' \<equiv> c\<lparr>sc_activeStarts := sc_activeStarts c - 1\<rparr>"
  shows "releaseStartSlot c = (Inr True, c')" "coordinator_inv c'"
proof -
  show j: "coordinator_inv c'" using assms(1,2) by (simp add: coordinator_inv_def c'_def queue_map_def)
  show "releaseStartSlot c = (Inr True, c')" using j assms(2) by (simp add: releaseStartSlot_def c'_def)
qed

lemma queue_map_remove:
  assumes "distinct (map (agent_of c) q)" "r \<in> set q"
  shows "odel (agent_of c r) (queue_map c q) = queue_map c (filter (\<lambda>r'. r' \<noteq> r) q)"
proof -
  have "filter (\<lambda>x. agent_of c x \<noteq> agent_of c r) q = filter (\<lambda>r'. r' \<noteq> r) q"
    using assms by (intro filter_cong) (auto simp: distinct_map inj_on_def)
  then show ?thesis by (simp add: queue_map_delete)
qed

lemma cancelQueued_ok:
  assumes i: "coordinator_inv c" and q: "getQueued a c = Some r"
  defines "c' \<equiv> clearPumpTimerIfIdle
    (c\<lparr>sc_queuedByAgent := queue_map c (filter (\<lambda>r'. r' \<noteq> r) (sc_queue c)), sc_queue := filter (\<lambda>r'. r' \<noteq> r) (sc_queue c)\<rparr>)"
  shows "cancelQueued a c = (Inr (Some r), c')" "coordinator_inv c'" "r \<in> set (sc_queue c)" "agent_of c r = a"
proof -
  note d = coordinator_invD [OF i]
  show r: "r \<in> set (sc_queue c)" "agent_of c r = a"
    using q by (simp_all add: getQueued_def d(1) queue_map_get [OF d(2)])
  have del: "odel a (sc_queuedByAgent c) = queue_map c (filter (\<lambda>r'. r' \<noteq> r) (sc_queue c))"
    using queue_map_remove [OF d(2) r(1)] r(2) d(1) by simp
  have "distinct (map (agent_of c) (filter (\<lambda>r'. r' \<noteq> r) (sc_queue c)))"
    using d(2) by (simp add: distinct_map inj_on_def)
  then show j: "coordinator_inv c'"
    using d(3-7) by (simp add: coordinator_inv_def c'_def clearPumpTimerIfIdle_def queue_map_def)
  show "cancelQueued a c = (Inr (Some r), c')"
    using q del j by (simp add: cancelQueued_def getQueued_def c'_def)
qed

lemma cancelAllQueued_ok:
  assumes i: "coordinator_inv c"
  defines "c' \<equiv> c\<lparr>sc_queue := [], sc_queuedByAgent := [], sc_pumpTimer := False\<rparr>"
  shows "cancelAllQueued c = (Inr (sc_queue c), c')" "coordinator_inv c'"
proof -
  note d = coordinator_invD [OF i]
  show j: "coordinator_inv c'" using d(5-7) by (simp add: coordinator_inv_def c'_def)
  have "filter (\<lambda>r. oget (sc_queuedByAgent c) (agent_of c r) = Some r) (sc_queue c) = sc_queue c"
    using d(1) queue_map_get [OF d(2)] by (simp add: filter_id_conv)
  then show "cancelAllQueued c = (Inr (sc_queue c), c')" using j by (simp add: cancelAllQueued_def Let_def c'_def)
qed

text \<open>When the pump may start the head of the queue, there is room for it and the interval has passed.\<close>

lemma getPumpState_ready:
  "getPumpState now c = Pump_ready r \<Longrightarrow>
   \<not> sc_pumpTimer c \<and> (\<exists>rs. sc_queue c = r # rs) \<and> sc_activeStarts c < sc_maxConcurrentStarts c \<and>
   (sc_lastStartAgentId c = Some (agent_of c r) \<or> sc_lastStartAt c + sc_minStartIntervalMs c \<le> now)"
  by (auto simp: getPumpState_def Let_def split: list.splits if_splits)

lemma getPumpState_rate_limited: "getPumpState now c = Pump_rate_limited r w \<Longrightarrow> (\<exists>rs. sc_queue c = r # rs) \<and> \<not> sc_pumpTimer c"
  by (auto simp: getPumpState_def Let_def split: list.splits if_splits)

lemma getPumpState_blocked:
  "getPumpState now c = Pump_blocked b \<Longrightarrow> sc_pumpTimer c \<or> sc_queue c = [] \<or> sc_maxConcurrentStarts c \<le> sc_activeStarts c"
  by (auto simp: getPumpState_def Let_def split: list.splits if_splits)

end
