(* ===== verification/Start_Queue.thy ===== *)
theory Start_Queue
  imports Start_Coordinator
begin

text \<open>
  How \<open>agentProcessManager.ts\<close> uses the start coordinator: \<open>startAgent\<close> from the point where it looks at
  the process, the starting and the queued state, \<open>pumpAgentStartQueue\<close>, \<open>releaseAgentStartSlot\<close>, the two
  cancellations and \<open>rebindQueuedStart\<close>. \<open>startAgentNow\<close> is asynchronous: the pump runs it up to its first
  await, which marks the agent as starting, and its reference stays in flight until its promise settles.

  A start of a running agent is handed to the process, which is outside; the model notes it. Traces,
  residency rows, the residency check and the settlement of launches are left out. \<open>Date.now()\<close> is a sequence of clock
  readings and an index; a fresh reading is taken wherever the code takes one. Agent ids are not empty.
\<close>

section \<open>State\<close>

record ('c, 'm) start_manager =
  sm_starts :: "('c, 'm) coordinator"
  sm_running :: "string list"
  sm_buffer :: "'m pending_map"
  sm_rebinds :: "(string, ('c, 'm) pending_start \<times> nat) omap"
  sm_stopEpoch :: "string \<Rightarrow> nat"
  sm_handed :: "(string \<times> ('c, 'm) pending_start) list"
  sm_inflight :: "nat list"
  sm_settled :: "nat list"
  sm_started :: "(nat \<times> string \<times> int) list"

text \<open>\<open>item.resolve()\<close> or \<open>item.reject(err)\<close>\<close>

definition settle :: "nat \<Rightarrow> ('c, 'm) start_manager \<Rightarrow> ('c, 'm) start_manager" where
  "settle r s = s\<lparr>sm_settled := sm_settled s @ [r]\<rparr>"

section \<open>Rebinding\<close>

text \<open>\<open>s || null\<close>\<close>

definition launch_or_null :: "string option \<Rightarrow> string option" where
  "launch_or_null s = (case s of Some (ch # cs) \<Rightarrow> Some (ch # cs) | _ \<Rightarrow> None)"

text \<open>\<open>a ?? b\<close>\<close>

definition or_else :: "'a option \<Rightarrow> 'a option \<Rightarrow> 'a option" where
  "or_else a b = (case a of None \<Rightarrow> b | Some x \<Rightarrow> Some x)"

definition rebind_start :: "('c, 'm) pending_start \<Rightarrow> ('c, 'm) pending_start \<Rightarrow> ('c, 'm) pending_start" where
  "rebind_start start item =
     (let previousLaunchId = launch_or_null (ps_launchId item);
          nextLaunchId = or_else (launch_or_null (ps_launchId start)) previousLaunchId;
          recoveryGrant = or_else (ps_recoveryGrant start) (ps_recoveryGrant item);
          item = item\<lparr>ps_config := ps_config start, ps_unreadSummary := ps_unreadSummary start,
            ps_resumePrompt := ps_resumePrompt start, ps_launchId := nextLaunchId,
            ps_recoveryGrant := (case recoveryGrant of
                None \<Rightarrow> None | Some g \<Rightarrow> if Some (rg_launchId g) = nextLaunchId then Some g else None),
            ps_claimedConnectionEpochId :=
              (if launch_or_null (ps_launchId start) \<noteq> None \<and> ps_launchId start = nextLaunchId
               then ps_claimedConnectionEpochId start else ps_claimedConnectionEpochId item),
            ps_startDispatchId := or_else (ps_startDispatchId start) (ps_startDispatchId item)\<rparr>
      in case ps_wakeMessage start of
           None \<Rightarrow> item
         | Some m \<Rightarrow> item\<lparr>ps_wakeMessage := Some m, ps_wakeMessageTransient := ps_wakeMessageTransient start\<rparr>)"

definition rebindQueuedStart ::
  "('m \<Rightarrow> 'm \<Rightarrow> bool) \<Rightarrow> string \<Rightarrow> ('c, 'm) pending_start \<Rightarrow> ('c, 'm) start_manager \<Rightarrow>
   (string + bool) \<times> ('c, 'm) start_manager" where
  "rebindQueuedStart sameWake a start s =
     (case getQueued a (sm_starts s) of
        None \<Rightarrow> (Inr False, s)
      | Some r \<Rightarrow>
          let item = item_of (sm_starts s) r
          in case rebindWake a (ps_wakeMessage (si_start item)) (ps_wakeMessage start) sameWake (sm_buffer s) of
               (Inl e, p) \<Rightarrow> (Inl e, s\<lparr>sm_buffer := p\<rparr>)
             | (Inr _, p) \<Rightarrow>
                 (Inr True, s\<lparr>sm_buffer := p,
                    sm_starts := (sm_starts s)
                      \<lparr>sc_heap := (sc_heap (sm_starts s))[r := item\<lparr>si_start := rebind_start start (si_start item)\<rparr>]\<rparr>\<rparr>))"

definition setPendingStartRebind :: "string \<Rightarrow> ('c, 'm) pending_start \<Rightarrow> ('c, 'm) start_manager \<Rightarrow> ('c, 'm) start_manager" where
  "setPendingStartRebind a start s = s\<lparr>sm_rebinds := oset a (start, sm_stopEpoch s a) (sm_rebinds s)\<rparr>"

definition rebindRunningStart :: "string \<Rightarrow> ('c, 'm) pending_start \<Rightarrow> ('c, 'm) start_manager \<Rightarrow> ('c, 'm) start_manager" where
  "rebindRunningStart a start s = s\<lparr>sm_handed := sm_handed s @ [(a, start)]\<rparr>"

section \<open>The pump\<close>

lemma dequeue_shorter:
  "sc_queue c \<noteq> [] \<Longrightarrow> length (sc_queue (snd (dequeue_start c))) < length (sc_queue c)"
  by (auto simp: dequeue_start_def after_def Let_def split: list.splits option.splits)

lemma ready_nonempty: "getPumpState now c = Pump_ready r \<Longrightarrow> sc_queue c \<noteq> []"
  using getPumpState_ready by fastforce

lemma dequeue_pair:
  "(res, c) = dequeue_start d \<Longrightarrow> sc_queue d \<noteq> [] \<Longrightarrow> length (sc_queue c) < length (sc_queue d)"
  using dequeue_shorter [of d] by (metis snd_conv)

text \<open>A skipped item: its agent is running or starting already.\<close>

definition skip_item :: "nat \<Rightarrow> ('c, 'm) start_manager \<Rightarrow> ('c, 'm) start_manager" where
  "skip_item r s =
     (let item = item_of (sm_starts s) r; a = si_agentId item
      in settle r
           (if a \<in> set (sm_running s) then rebindRunningStart a (si_start item) s
            else setPendingStartRebind a (si_start item) s))"

text \<open>\<open>startAgentNow\<close> up to its first await\<close>

definition start_now :: "nat \<Rightarrow> int \<Rightarrow> ('c, 'm) start_manager \<Rightarrow> ('c, 'm) start_manager" where
  "start_now r now s =
     (let a = agent_of (sm_starts s) r
      in s\<lparr>sm_starts := snd (markStarting a (sm_starts s)), sm_inflight := sm_inflight s @ [r],
           sm_started := sm_started s @ [(r, a, now)]\<rparr>)"

function pumpAgentStartQueue ::
  "(nat \<Rightarrow> int) \<Rightarrow> nat \<Rightarrow> ('c, 'm) start_manager \<Rightarrow> (string + unit) \<times> ('c, 'm) start_manager" where
  "pumpAgentStartQueue clock i s =
     (case getPumpState (clock i) (sm_starts s) of
        Pump_blocked b \<Rightarrow> (Inr (), s)
      | Pump_rate_limited r waitMs \<Rightarrow>
          (case schedulePump (sm_starts s) of (res, c) \<Rightarrow> (res, s\<lparr>sm_starts := c\<rparr>))
      | Pump_ready r0 \<Rightarrow>
          (case dequeue_start (sm_starts s) of
             (Inl e, c) \<Rightarrow> (Inl e, s\<lparr>sm_starts := c\<rparr>)
           | (Inr Dequeue_empty, c) \<Rightarrow> (Inr (), s\<lparr>sm_starts := c\<rparr>)
           | (Inr (Dequeue_stale r), c) \<Rightarrow> pumpAgentStartQueue clock (Suc i) (s\<lparr>sm_starts := c\<rparr>)
           | (Inr (Dequeue_item r), c) \<Rightarrow>
               if agent_of c r \<in> set (sm_running s) \<or> hasStarting (agent_of c r) c
               then pumpAgentStartQueue clock (Suc i) (skip_item r (s\<lparr>sm_starts := c\<rparr>))
               else
                 (case claimStartSlot (agent_of c r) (clock (Suc i)) c of
                    (Inl e, c') \<Rightarrow> (Inl e, s\<lparr>sm_starts := c'\<rparr>)
                  | (Inr _, c') \<Rightarrow> (Inr (), start_now r (clock (Suc i)) (s\<lparr>sm_starts := c'\<rparr>)))))"
  by pat_completeness auto
termination
proof (relation "measure (\<lambda>(clock, i, s). length (sc_queue (sm_starts s)))", goal_cases)
  case 1
  show ?case by simp
next
  case prems: 2
  show ?case
    using prems by (auto dest!: dequeue_pair dest: ready_nonempty)
next
  case prems: 3
  show ?case
    using prems
    by (auto dest!: dequeue_pair dest: ready_nonempty simp: skip_item_def Let_def settle_def rebindRunningStart_def setPendingStartRebind_def)
qed

declare pumpAgentStartQueue.simps [simp del]

section \<open>Requests, completions and cancellations\<close>

definition startAgent ::
  "('m \<Rightarrow> 'm \<Rightarrow> bool) \<Rightarrow> (nat \<Rightarrow> int) \<Rightarrow> nat \<Rightarrow> string \<Rightarrow> ('c, 'm) pending_start \<Rightarrow> ('c, 'm) start_manager \<Rightarrow>
   (string + unit) \<times> ('c, 'm) start_manager" where
  "startAgent sameWake clock i a start s =
     (if a \<in> set (sm_running s) then (Inr (), rebindRunningStart a start s)
      else if hasStarting a (sm_starts s) then (Inr (), setPendingStartRebind a start s)
      else if hasQueued a (sm_starts s) then
        (case rebindQueuedStart sameWake a start s of (Inl e, s') \<Rightarrow> (Inl e, s') | (Inr _, s') \<Rightarrow> (Inr (), s'))
      else
        (case enqueue_start \<lparr>si_agentId = a, si_enqueuedAtMs = clock i, si_start = start\<rparr> (sm_starts s) of
           (Inl e, c) \<Rightarrow> (Inl e, s\<lparr>sm_starts := c\<rparr>)
         | (Inr _, c) \<Rightarrow> pumpAgentStartQueue clock (Suc i) (s\<lparr>sm_starts := c\<rparr>)))"

text \<open>The promise of a start in flight settles.\<close>

definition releaseAgentStartSlot ::
  "(nat \<Rightarrow> int) \<Rightarrow> nat \<Rightarrow> ('c, 'm) start_manager \<Rightarrow> (string + unit) \<times> ('c, 'm) start_manager" where
  "releaseAgentStartSlot clock i s =
     (case releaseStartSlot (sm_starts s) of
        (Inl e, c) \<Rightarrow> (Inl e, s\<lparr>sm_starts := c\<rparr>)
      | (Inr False, c) \<Rightarrow> (Inr (), s\<lparr>sm_starts := c\<rparr>)
      | (Inr True, c) \<Rightarrow> pumpAgentStartQueue clock i (s\<lparr>sm_starts := c\<rparr>))"

definition start_settles ::
  "(nat \<Rightarrow> int) \<Rightarrow> nat \<Rightarrow> nat \<Rightarrow> ('c, 'm) start_manager \<Rightarrow> (string + unit) \<times> ('c, 'm) start_manager" where
  "start_settles clock i r s =
     (case releaseAgentStartSlot clock i (s\<lparr>sm_inflight := remove1 r (sm_inflight s)\<rparr>) of
        (Inl e, s') \<Rightarrow> (Inl e, s')
      | (Inr _, s') \<Rightarrow> (Inr (), settle r s'))"

definition pump_timer_fires :: "(nat \<Rightarrow> int) \<Rightarrow> nat \<Rightarrow> ('c, 'm) start_manager \<Rightarrow> (string + unit) \<times> ('c, 'm) start_manager" where
  "pump_timer_fires clock i s = pumpAgentStartQueue clock i (s\<lparr>sm_starts := (sm_starts s)\<lparr>sc_pumpTimer := False\<rparr>\<rparr>)"

definition cancelQueuedAgentStart :: "string \<Rightarrow> ('c, 'm) start_manager \<Rightarrow> (string + bool) \<times> ('c, 'm) start_manager" where
  "cancelQueuedAgentStart a s =
     (case cancelQueued a (sm_starts s) of
        (Inl e, c) \<Rightarrow> (Inl e, s\<lparr>sm_starts := c\<rparr>)
      | (Inr None, c) \<Rightarrow> (Inr False, s\<lparr>sm_starts := c\<rparr>)
      | (Inr (Some r), c) \<Rightarrow>
          (case cancelStart a (sm_buffer s) of
             (Inl e, p) \<Rightarrow> (Inl e, s\<lparr>sm_starts := c, sm_buffer := p\<rparr>)
           | (Inr _, p) \<Rightarrow> (Inr True, settle r (s\<lparr>sm_starts := c, sm_buffer := p\<rparr>))))"

definition cancelAllQueuedAgentStarts :: "('c, 'm) start_manager \<Rightarrow> (string + unit) \<times> ('c, 'm) start_manager" where
  "cancelAllQueuedAgentStarts s =
     (case cancelAllQueued (sm_starts s) of
        (Inl e, c) \<Rightarrow> (Inl e, s\<lparr>sm_starts := c\<rparr>)
      | (Inr items, c) \<Rightarrow>
          let s = fold settle items (s\<lparr>sm_starts := c\<rparr>)
          in case cancelAllStarts (sm_buffer s) of (res, p) \<Rightarrow> (res, s\<lparr>sm_buffer := p\<rparr>))"

end
