(* ===== verification/Start_Run.thy ===== *)
theory Start_Run
  imports Start_Queue
begin

text \<open>
  The start queue in every interleaving of requests, timer callbacks, starts that settle, cancellations and
  whatever else changes the processes of the agents. The invariant counts every item once, keeps the
  order, the limits and the spacing of the starts, and says that a waiting item always has something
  that will run the pump again.
\<close>

section \<open>The invariant\<close>

text \<open>Starts one after the other: of the same agent, or at least an interval apart.\<close>

fun spaced :: "int \<Rightarrow> (string \<times> int) list \<Rightarrow> bool" where
  "spaced d (x # y # xs) = ((fst x = fst y \<or> snd x + d \<le> snd y) \<and> spaced d (y # xs))"
| "spaced d xs = True"

lemma spaced_snoc:
  "spaced d (xs @ [y]) \<longleftrightarrow> spaced d xs \<and> (xs \<noteq> [] \<longrightarrow> fst (last xs) = fst y \<or> snd (last xs) + d \<le> snd y)"
  by (induction d xs rule: spaced.induct) auto

definition refs_of :: "('c, 'm) start_manager \<Rightarrow> nat multiset" where
  "refs_of s = mset (sc_queue (sm_starts s)) + mset (sm_inflight s) + mset (sm_settled s)"

definition log_ok :: "('c, 'm) start_manager \<Rightarrow> bool" where
  "log_ok s \<longleftrightarrow>
     spaced (sc_minStartIntervalMs (sm_starts s)) (map snd (sm_started s)) \<and>
     (sm_started s \<noteq> [] \<longrightarrow>
        sc_lastStartAgentId (sm_starts s) = Some (fst (snd (last (sm_started s)))) \<and>
        sc_lastStartAt (sm_starts s) = snd (snd (last (sm_started s)))) \<and>
     sorted_wrt (<) (map fst (sm_started s) @ sc_queue (sm_starts s)) \<and>
     (\<forall>r\<in>set (map fst (sm_started s)). r < length (sc_heap (sm_starts s)))"

definition base_inv :: "('c, 'm) start_manager \<Rightarrow> bool" where
  "base_inv s \<longleftrightarrow>
     coordinator_inv (sm_starts s) \<and> sc_activeStarts (sm_starts s) = int (length (sm_inflight s)) \<and> log_ok s"

text \<open>No wake-up is lost.\<close>

definition wakes :: "('c, 'm) start_manager \<Rightarrow> bool" where
  "wakes s \<longleftrightarrow> (sc_queue (sm_starts s) \<noteq> [] \<longrightarrow> sc_pumpTimer (sm_starts s) \<or> sm_inflight s \<noteq> [])"

definition same_setting :: "('c, 'm) start_manager \<Rightarrow> ('c, 'm) start_manager \<Rightarrow> bool" where
  "same_setting s s' \<longleftrightarrow>
     sc_heap (sm_starts s') = sc_heap (sm_starts s) \<and> sm_running s' = sm_running s \<and> sm_buffer s' = sm_buffer s \<and>
     sc_maxConcurrentStarts (sm_starts s') = sc_maxConcurrentStarts (sm_starts s) \<and>
     sc_minStartIntervalMs (sm_starts s') = sc_minStartIntervalMs (sm_starts s)"

lemma same_setting_refl [simp]: "same_setting s s"
  by (simp add: same_setting_def)

lemma same_setting_trans: "same_setting s s' \<Longrightarrow> same_setting s' s'' \<Longrightarrow> same_setting s s''"
  by (simp add: same_setting_def)

lemma base_invD:
  assumes "base_inv s"
  shows "coordinator_inv (sm_starts s)" "sc_activeStarts (sm_starts s) = int (length (sm_inflight s))" "log_ok s"
  using assms by (simp_all add: base_inv_def)

section \<open>The pump\<close>

text \<open>Taking the head out of the queue.\<close>

lemma dequeued_head:
  assumes b: "base_inv s" and q: "sc_queue (sm_starts s) = r # rs"
  defines "c \<equiv> (sm_starts s)\<lparr>sc_queue := rs, sc_queuedByAgent := queue_map (sm_starts s) rs\<rparr>"
  shows "dequeue_start (sm_starts s) = (Inr (Dequeue_item r), c)" "coordinator_inv c" "\<not> hasQueued (agent_of c r) c"
    "agent_of c r = agent_of (sm_starts s) r"
proof -
  show d: "dequeue_start (sm_starts s) = (Inr (Dequeue_item r), c)" "coordinator_inv c"
    using dequeue_start_ok [OF base_invD(1) [OF b] q] by (simp_all add: c_def)
  have "agent_of (sm_starts s) r \<notin> agent_of (sm_starts s) ` set rs"
    using coordinator_invD(2) [OF base_invD(1) [OF b]] by (simp add: q)
  then show "\<not> hasQueued (agent_of c r) c" using hasQueued_iff [OF d(2)] by (simp add: c_def)
qed (simp add: c_def)

lemma skipped_item:
  assumes b: "base_inv s" and q: "sc_queue (sm_starts s) = r # rs"
  defines "c \<equiv> (sm_starts s)\<lparr>sc_queue := rs, sc_queuedByAgent := queue_map (sm_starts s) rs\<rparr>"
  defines "s' \<equiv> skip_item r (s\<lparr>sm_starts := c\<rparr>)"
  shows "base_inv s'" "refs_of s' = refs_of s" "same_setting s s'"
proof -
  have f: "sm_starts s' = c" "sm_inflight s' = sm_inflight s" "sm_settled s' = sm_settled s @ [r]" "sm_started s' = sm_started s"
    "sm_running s' = sm_running s" "sm_buffer s' = sm_buffer s"
    by (simp_all add: s'_def skip_item_def Let_def settle_def rebindRunningStart_def setPendingStartRebind_def)
  have l: "log_ok s" using b by (rule base_invD)
  have "log_ok s'" using l by (auto simp: log_ok_def f c_def q sorted_wrt_append)
  then show "base_inv s'"
    using b dequeued_head(2) [OF b q] by (simp add: base_inv_def f) (simp add: c_def)
  show "refs_of s' = refs_of s" by (simp add: refs_of_def f c_def q)
  show "same_setting s s'" by (simp add: same_setting_def f) (simp add: c_def)
qed

lemma started_item:
  assumes b: "base_inv s" and q: "sc_queue (sm_starts s) = r # rs"
    and room: "sc_activeStarts (sm_starts s) < sc_maxConcurrentStarts (sm_starts s)"
    and interval: "sc_lastStartAgentId (sm_starts s) = Some (agent_of (sm_starts s) r) \<or>
      sc_lastStartAt (sm_starts s) + sc_minStartIntervalMs (sm_starts s) \<le> now"
  defines "c \<equiv> (sm_starts s)\<lparr>sc_queue := rs, sc_queuedByAgent := queue_map (sm_starts s) rs\<rparr>"
  defines "a \<equiv> agent_of c r"
  defines "c' \<equiv> c\<lparr>sc_activeStarts := sc_activeStarts c + 1, sc_lastStartAt := now, sc_lastStartAgentId := Some a\<rparr>"
  defines "s' \<equiv> start_now r now (s\<lparr>sm_starts := c'\<rparr>)"
  shows "claimStartSlot a now c = (Inr (), c')" "base_inv s'" "wakes s'" "refs_of s' = refs_of s" "same_setting s s'"
proof -
  note h = dequeued_head [OF b q, folded c_def]
  have room': "sc_activeStarts c < sc_maxConcurrentStarts c" using room by (simp add: c_def)
  show "claimStartSlot a now c = (Inr (), c')"
    unfolding c'_def by (rule claimStartSlot_ok(1) [OF h(2) room'])
  have ci: "coordinator_inv c'" unfolding c'_def by (rule claimStartSlot_ok(2) [OF h(2) room'])
  have nq: "\<not> hasQueued a c'" using h(3) by (simp add: hasQueued_def c'_def a_def)
  let ?c = "c'\<lparr>sc_starting := (if a \<in> set (sc_starting c') then sc_starting c' else sc_starting c' @ [a])\<rparr>"
  note m = markStarting_ok [OF ci nq]
  have a: "agent_of c' r = a" by (simp add: a_def c'_def)
  have f: "sm_starts s' = ?c" "sm_inflight s' = sm_inflight s @ [r]" "sm_settled s' = sm_settled s"
    "sm_started s' = sm_started s @ [(r, a, now)]" "sm_running s' = sm_running s" "sm_buffer s' = sm_buffer s"
    using m(1) a by (simp_all add: s'_def start_now_def Let_def)
  have l: "log_ok s" using b by (rule base_invD)
  have rl: "r < length (sc_heap (sm_starts s))" using coordinator_invD(3) [OF base_invD(1) [OF b], of r] q by simp
  have ag: "a = agent_of (sm_starts s) r" by (simp add: a_def c_def)
  have "log_ok s'"
    using l interval rl
    by (auto simp: log_ok_def f c'_def c_def q ag spaced_snoc sorted_wrt_append last_map)
  then show "base_inv s'"
    using m(2) base_invD(2) [OF b] by (simp add: base_inv_def f) (simp add: c'_def c_def)
  show "wakes s'" by (simp add: wakes_def f)
  show "refs_of s' = refs_of s" by (simp add: refs_of_def f) (simp add: c'_def c_def q)
  show "same_setting s s'" by (simp add: same_setting_def f) (simp add: c'_def c_def)
qed

lemma pump_spec:
  assumes "base_inv s" "mono clock"
  shows "\<exists>s'. pumpAgentStartQueue clock i s = (Inr (), s') \<and> base_inv s' \<and> wakes s' \<and> refs_of s' = refs_of s \<and> same_setting s s'"
  using assms
proof (induction "length (sc_queue (sm_starts s))" arbitrary: i s rule: less_induct)
  case less
  let ?c = "sm_starts s"
  note b = less.prems(1) and ci = base_invD(1) [OF less.prems(1)]
  show ?case
  proof (cases "getPumpState (clock i) ?c")
    case (Pump_blocked reason)
    have "wakes s"
      using getPumpState_blocked [OF Pump_blocked] coordinator_invD(7) [OF ci] base_invD(2) [OF b]
      by (auto simp: wakes_def)
    then show ?thesis using Pump_blocked b by (simp add: pumpAgentStartQueue.simps)
  next
    case (Pump_rate_limited r w)
    let ?s = "s\<lparr>sm_starts := ?c\<lparr>sc_pumpTimer := True\<rparr>\<rparr>"
    have "base_inv ?s" "wakes ?s" "refs_of ?s = refs_of s" "same_setting s ?s"
      using b schedulePump_ok [OF ci] by (simp_all add: base_inv_def log_ok_def wakes_def refs_of_def same_setting_def)
    then show ?thesis using Pump_rate_limited schedulePump_ok [OF ci] by (simp add: pumpAgentStartQueue.simps [of clock i s])
  next
    case (Pump_ready r0)
    note ready = getPumpState_ready [OF Pump_ready]
    then obtain rs where q: "sc_queue ?c = r0 # rs" by blast
    note h = dequeued_head [OF b q]
    let ?d = "?c\<lparr>sc_queue := rs, sc_queuedByAgent := queue_map ?c rs\<rparr>"
    show ?thesis
    proof (cases "agent_of ?d r0 \<in> set (sm_running s) \<or> hasStarting (agent_of ?d r0) ?d")
      case True
      let ?s = "skip_item r0 (s\<lparr>sm_starts := ?d\<rparr>)"
      note k = skipped_item [OF b q]
      have p: "pumpAgentStartQueue clock i s = pumpAgentStartQueue clock (Suc i) ?s"
        using Pump_ready h(1) True by (simp add: pumpAgentStartQueue.simps [of clock i s])
      have "sm_starts ?s = ?d"
        by (simp add: skip_item_def Let_def settle_def rebindRunningStart_def setPendingStartRebind_def)
      then have "length (sc_queue (sm_starts ?s)) < length (sc_queue ?c)" by (simp add: q)
      from less.hyps [OF this k(1) less.prems(2), of "Suc i"] show ?thesis
        using p k(2,3) same_setting_trans by metis
    next
      case False
      let ?now = "clock (Suc i)"
      have "clock i \<le> ?now" using less.prems(2) by (simp add: mono_def)
      then have iv: "sc_lastStartAgentId ?c = Some (agent_of ?c r0) \<or> sc_lastStartAt ?c + sc_minStartIntervalMs ?c \<le> ?now"
        using ready by auto
      have room: "sc_activeStarts ?c < sc_maxConcurrentStarts ?c" using ready by blast
      note st = started_item [OF b q room iv]
      show ?thesis
        using Pump_ready h(1) False st by (simp add: pumpAgentStartQueue.simps [of clock i s])
    qed
  qed
qed


section \<open>Interleavings\<close>

lemma rebindWake_ok:
  assumes "pending_inv p" "a \<noteq> []"
  shows "\<exists>n p'. rebindWake a previous nextWake same p = (Inr n, p') \<and> pending_inv p'"
proof -
  have "\<exists>n p'. append_pending ''rebindWake'' a ms p = (Inr n, p') \<and> pending_inv p'" for ms
    using append_pending_ok(1,2) [OF assms, of "''rebindWake''" ms] by (cases "append_pending ''rebindWake'' a ms p") auto
  then show ?thesis using assms(1) by (auto simp: rebindWake_def split: option.split)
qed

text \<open>
  A run of the manager: the state and the number of clock readings taken. \<open>run_other\<close> is everything else:
  processes appear and go, starting marks are cleared, buffers drained, rebinds taken over, stops
  recorded. A step that throws would not be a step; the theorems show that none does.
\<close>

inductive start_run ::
  "('m \<Rightarrow> 'm \<Rightarrow> bool) \<Rightarrow> (nat \<Rightarrow> int) \<Rightarrow> int \<Rightarrow> int \<Rightarrow> nat \<Rightarrow> ('c, 'm) start_manager \<Rightarrow> bool" for sameWake clock limit interval where
  run_start:
    "start_run sameWake clock limit interval 0
       \<lparr>sm_starts = new_coordinator limit interval, sm_running = [], sm_buffer = [], sm_rebinds = [], sm_stopEpoch = (\<lambda>a. 0),
        sm_handed = [], sm_inflight = [], sm_settled = [], sm_started = []\<rparr>"
| run_request:
    "start_run sameWake clock limit interval i s \<Longrightarrow> a \<noteq> [] \<Longrightarrow> startAgent sameWake clock i a start s = (r, s') \<Longrightarrow> i \<le> j \<Longrightarrow>
     start_run sameWake clock limit interval j s'"
| run_timer:
    "start_run sameWake clock limit interval i s \<Longrightarrow> sc_pumpTimer (sm_starts s) \<Longrightarrow> pump_timer_fires clock i s = (r, s') \<Longrightarrow> i \<le> j \<Longrightarrow>
     start_run sameWake clock limit interval j s'"
| run_settles:
    "start_run sameWake clock limit interval i s \<Longrightarrow> x \<in> set (sm_inflight s) \<Longrightarrow> start_settles clock i x s = (r, s') \<Longrightarrow> i \<le> j \<Longrightarrow>
     start_run sameWake clock limit interval j s'"
| run_cancel:
    "start_run sameWake clock limit interval i s \<Longrightarrow> cancelQueuedAgentStart a s = (r, s') \<Longrightarrow>
     start_run sameWake clock limit interval i s'"
| run_cancel_all:
    "start_run sameWake clock limit interval i s \<Longrightarrow> cancelAllQueuedAgentStarts s = (r, s') \<Longrightarrow>
     start_run sameWake clock limit interval i s'"
| run_other:
    "start_run sameWake clock limit interval i s \<Longrightarrow> clearStarting a (sm_starts s) = (r, c) \<Longrightarrow> pending_inv buffer \<Longrightarrow>
     start_run sameWake clock limit interval i
       (s\<lparr>sm_starts := c, sm_running := running, sm_buffer := buffer, sm_rebinds := rebinds, sm_stopEpoch := epoch\<rparr>)"

definition manager_inv :: "int \<Rightarrow> int \<Rightarrow> ('c, 'm) start_manager \<Rightarrow> bool" where
  "manager_inv limit interval s \<longleftrightarrow>
     base_inv s \<and> wakes s \<and> pending_inv (sm_buffer s) \<and> refs_of s = mset [0..<length (sc_heap (sm_starts s))] \<and>
     sc_maxConcurrentStarts (sm_starts s) = max 1 limit \<and> sc_minStartIntervalMs (sm_starts s) = max 0 interval"

lemma manager_invI:
  assumes "base_inv s'" "wakes s'" "refs_of s' = mset [0..<length (sc_heap (sm_starts s'))]" "same_setting s s'"
    "manager_inv limit interval s"
  shows "manager_inv limit interval s'"
  using assms by (simp add: manager_inv_def same_setting_def)

lemma manager_inv_frame:
  assumes "manager_inv limit interval s" "pending_inv (sm_buffer s')"
    and ci: "coordinator_inv (sm_starts s) \<Longrightarrow> coordinator_inv (sm_starts s')"
    and f: "sm_inflight s' = sm_inflight s" "sm_settled s' = sm_settled s" "sm_started s' = sm_started s"
      "sc_queue (sm_starts s') = sc_queue (sm_starts s)" "sc_activeStarts (sm_starts s') = sc_activeStarts (sm_starts s)"
      "sc_pumpTimer (sm_starts s') = sc_pumpTimer (sm_starts s)" "sc_lastStartAt (sm_starts s') = sc_lastStartAt (sm_starts s)"
      "sc_lastStartAgentId (sm_starts s') = sc_lastStartAgentId (sm_starts s)"
      "sc_maxConcurrentStarts (sm_starts s') = sc_maxConcurrentStarts (sm_starts s)"
      "sc_minStartIntervalMs (sm_starts s') = sc_minStartIntervalMs (sm_starts s)"
      "length (sc_heap (sm_starts s')) = length (sc_heap (sm_starts s))"
  shows "manager_inv limit interval s'"
proof -
  have "coordinator_inv (sm_starts s)" using assms(1) by (simp add: manager_inv_def base_inv_def)
  then have "coordinator_inv (sm_starts s')" by (rule ci)
  then show ?thesis
    using assms(1,2) unfolding manager_inv_def base_inv_def log_ok_def wakes_def refs_of_def f by blast
qed

lemma request_step:
  assumes m: "manager_inv limit interval s" and a: "a \<noteq> []" and clock: "mono clock"
  shows "\<exists>s'. startAgent sameWake clock i a start s = (Inr (), s') \<and> manager_inv limit interval s'"
proof -
  let ?c = "sm_starts s"
  have b: "base_inv s" and w: "wakes s" and p: "pending_inv (sm_buffer s)"
    and refs: "refs_of s = mset [0..<length (sc_heap ?c)]" using m by (simp_all add: manager_inv_def)
  note ci = base_invD(1) [OF b]
  consider (running) "a \<in> set (sm_running s)" | (starting) "a \<notin> set (sm_running s)" "hasStarting a ?c"
    | (queued) "a \<notin> set (sm_running s)" "\<not> hasStarting a ?c" "hasQueued a ?c"
    | (fresh) "a \<notin> set (sm_running s)" "\<not> hasStarting a ?c" "\<not> hasQueued a ?c" by blast
  then show ?thesis
  proof cases
    case running
    then have "startAgent sameWake clock i a start s = (Inr (), rebindRunningStart a start s)" by (simp add: startAgent_def)
    moreover have "manager_inv limit interval (rebindRunningStart a start s)"
      by (rule manager_inv_frame [OF m]) (simp_all add: rebindRunningStart_def p)
    ultimately show ?thesis by blast
  next
    case starting
    then have "startAgent sameWake clock i a start s = (Inr (), setPendingStartRebind a start s)" by (simp add: startAgent_def)
    moreover have "manager_inv limit interval (setPendingStartRebind a start s)"
      by (rule manager_inv_frame [OF m]) (simp_all add: setPendingStartRebind_def p)
    ultimately show ?thesis by blast
  next
    case queued
    then obtain r where r: "getQueued a ?c = Some r" by (auto simp: hasQueued_def getQueued_def)
    let ?item = "item_of ?c r"
    let ?c' = "?c\<lparr>sc_heap := (sc_heap ?c)[r := ?item\<lparr>si_start := rebind_start start (si_start ?item)\<rparr>]\<rparr>"
    have agents: "agent_of ?c' x = agent_of ?c x" for x
      by (cases "r < length (sc_heap ?c)") (simp_all add: nth_list_update list_update_beyond not_less)
    have "coordinator_inv ?c'" using ci agents by (simp add: coordinator_inv_def queue_map_def)
    moreover obtain n p' where bw: "rebindWake a (ps_wakeMessage (si_start ?item)) (ps_wakeMessage start) sameWake (sm_buffer s) = (Inr n, p')"
      "pending_inv p'"
      using rebindWake_ok [OF p a] by blast
    moreover have "manager_inv limit interval (s\<lparr>sm_buffer := p', sm_starts := ?c'\<rparr>)"
      if "coordinator_inv ?c'" "pending_inv p'"
      by (rule manager_inv_frame [OF m]) (use that in simp_all)
    ultimately show ?thesis
      using queued r by (simp add: startAgent_def rebindQueuedStart_def Let_def)
  next
    case fresh
    let ?item = "\<lparr>si_agentId = a, si_enqueuedAtMs = clock i, si_start = start\<rparr>"
    let ?n = "length (sc_heap ?c)"
    let ?c' = "?c\<lparr>sc_heap := sc_heap ?c @ [?item], sc_queue := sc_queue ?c @ [?n], sc_queuedByAgent := sc_queuedByAgent ?c @ [(a, ?n)]\<rparr>"
    let ?s = "s\<lparr>sm_starts := ?c'\<rparr>"
    note e = enqueue_start_ok [OF ci, of ?item, simplified, OF fresh(2,3)]
    have l: "log_ok s" using b by (rule base_invD)
    have "\<forall>r\<in>set (sc_queue ?c). r < ?n" using coordinator_invD(3) [OF ci] by blast
    then have "log_ok ?s" using l by (auto simp: log_ok_def sorted_wrt_append)
    then have "base_inv ?s" using b e(2) by (simp add: base_inv_def)
    from pump_spec [OF this clock, of "Suc i"] obtain s' where
      s': "pumpAgentStartQueue clock (Suc i) ?s = (Inr (), s')" "base_inv s'" "wakes s'" "refs_of s' = refs_of ?s" "same_setting ?s s'"
      by blast
    have "refs_of ?s = mset [0..<Suc ?n]" using refs by (simp add: refs_of_def)
    then have "manager_inv limit interval s'"
      using s'(2-5) m by (simp add: manager_inv_def same_setting_def)
    then show ?thesis using fresh e(1) s'(1) by (simp add: startAgent_def)
  qed
qed


lemma pump_step:
  assumes "base_inv s" "pending_inv (sm_buffer s)" "mono clock"
    "sc_maxConcurrentStarts (sm_starts s) = max 1 limit" "sc_minStartIntervalMs (sm_starts s) = max 0 interval"
  shows "\<exists>s'. pumpAgentStartQueue clock i s = (Inr (), s') \<and> base_inv s' \<and> wakes s' \<and> pending_inv (sm_buffer s') \<and>
    refs_of s' = refs_of s \<and> sc_heap (sm_starts s') = sc_heap (sm_starts s) \<and>
    sc_maxConcurrentStarts (sm_starts s') = max 1 limit \<and> sc_minStartIntervalMs (sm_starts s') = max 0 interval"
  using pump_spec [OF assms(1,3), of i] assms(2,4,5) by (auto simp: same_setting_def)

lemma timer_step:
  assumes m: "manager_inv limit interval s" and clock: "mono clock"
  shows "\<exists>s'. pump_timer_fires clock i s = (Inr (), s') \<and> manager_inv limit interval s'"
proof -
  let ?s = "s\<lparr>sm_starts := (sm_starts s)\<lparr>sc_pumpTimer := False\<rparr>\<rparr>"
  have "base_inv s" using m by (simp add: manager_inv_def)
  then have b: "base_inv ?s" by (simp add: base_inv_def log_ok_def coordinator_inv_def queue_map_def)
  have "refs_of ?s = mset [0..<length (sc_heap (sm_starts ?s))]" using m by (simp add: manager_inv_def refs_of_def)
  then show ?thesis
    using pump_step [OF b _ clock, of limit interval i] m by (auto simp: pump_timer_fires_def manager_inv_def)
qed

lemma settles_step:
  assumes m: "manager_inv limit interval s" and clock: "mono clock" and x: "x \<in> set (sm_inflight s)"
  shows "\<exists>s'. start_settles clock i x s = (Inr (), s') \<and> manager_inv limit interval s'"
proof -
  let ?c = "sm_starts s"
  have b: "base_inv s" using m by (simp add: manager_inv_def)
  note d = base_invD [OF b]
  have len: "0 < length (sm_inflight s)" "int (length (remove1 x (sm_inflight s))) = int (length (sm_inflight s)) - 1"
    using x by (auto simp: length_remove1 length_pos_if_in_set int_ops)
  have pos: "0 < sc_activeStarts ?c" using d(2) len(1) by simp
  note rel = releaseStartSlot_ok [OF d(1) pos]
  let ?s = "s\<lparr>sm_inflight := remove1 x (sm_inflight s), sm_starts := ?c\<lparr>sc_activeStarts := sc_activeStarts ?c - 1\<rparr>\<rparr>"
  have b': "base_inv ?s" using rel(2) d(2,3) len(2) by (simp add: base_inv_def log_ok_def)
  obtain s' where s': "pumpAgentStartQueue clock i ?s = (Inr (), s')" "base_inv s'" "wakes s'" "pending_inv (sm_buffer s')"
    "refs_of s' = refs_of ?s" "sc_heap (sm_starts s') = sc_heap (sm_starts ?s)"
    "sc_maxConcurrentStarts (sm_starts s') = max 1 limit" "sc_minStartIntervalMs (sm_starts s') = max 0 interval"
    using pump_step [OF b' _ clock, of limit interval i] m by (auto simp: manager_inv_def)
  have "refs_of (settle x s') = refs_of s' + {#x#}" by (simp add: refs_of_def settle_def)
  also have "\<dots> = refs_of s" using x s'(5) by (simp add: refs_of_def)
  finally have refs: "refs_of (settle x s') = mset [0..<length (sc_heap (sm_starts (settle x s')))]"
    using m s'(6) by (simp add: manager_inv_def settle_def)
  have "base_inv (settle x s')" "wakes (settle x s')"
    using s'(2,3) by (simp_all add: base_inv_def log_ok_def wakes_def settle_def)
  then have "manager_inv limit interval (settle x s')"
    using refs s'(4,7,8) by (simp add: manager_inv_def settle_def)
  then show ?thesis using rel(1) s'(1) by (simp add: start_settles_def releaseAgentStartSlot_def)
qed

lemma log_ok_distinct: "log_ok s \<Longrightarrow> distinct (sc_queue (sm_starts s))"
  by (simp add: log_ok_def sorted_wrt_append strict_sorted_iff)

lemma mset_without: "distinct xs \<Longrightarrow> x \<in> set xs \<Longrightarrow> mset xs = add_mset x (mset (filter (\<lambda>y. y \<noteq> x) xs))"
proof (induction xs)
  case (Cons y ys)
  show ?case
  proof (cases "y = x")
    case True
    then have "filter (\<lambda>z. z \<noteq> x) (y # ys) = ys" using Cons.prems by (auto simp: filter_id_conv)
    then show ?thesis using True by (simp only: mset.simps)
  next
    case False
    then show ?thesis using Cons by auto
  qed
qed simp

lemma cancel_step:
  assumes m: "manager_inv limit interval s"
  shows "\<exists>res s'. cancelQueuedAgentStart a s = (Inr res, s') \<and> manager_inv limit interval s'"
proof (cases "getQueued a (sm_starts s)")
  case None
  then have "cancelQueuedAgentStart a s = (Inr False, s)"
    by (simp add: cancelQueuedAgentStart_def cancelQueued_def getQueued_def)
  then show ?thesis using m by blast
next
  case (Some r)
  let ?c = "sm_starts s"
  have b: "base_inv s" using m by (simp add: manager_inv_def)
  note d = base_invD [OF b]
  note k = cancelQueued_ok [OF d(1) Some]
  let ?q = "filter (\<lambda>r'. r' \<noteq> r) (sc_queue ?c)"
  let ?c' = "clearPumpTimerIfIdle (?c\<lparr>sc_queuedByAgent := queue_map ?c ?q, sc_queue := ?q\<rparr>)"
  let ?s = "settle r (s\<lparr>sm_starts := ?c', sm_buffer := odel a (sm_buffer s)\<rparr>)"
  have f: "sc_queue ?c' = ?q" "sc_activeStarts ?c' = sc_activeStarts ?c" "sc_heap ?c' = sc_heap ?c"
    "sc_lastStartAt ?c' = sc_lastStartAt ?c" "sc_lastStartAgentId ?c' = sc_lastStartAgentId ?c"
    "sc_maxConcurrentStarts ?c' = sc_maxConcurrentStarts ?c" "sc_minStartIntervalMs ?c' = sc_minStartIntervalMs ?c"
    "?q \<noteq> [] \<Longrightarrow> sc_pumpTimer ?c' = sc_pumpTimer ?c"
    by (simp_all add: clearPumpTimerIfIdle_def)
  have l: "log_ok ?s" using d(3) f by (auto simp: log_ok_def settle_def sorted_wrt_append sorted_wrt_filter)
  have "base_inv ?s" using k(2) d(2) l f by (simp add: base_inv_def settle_def)
  moreover have "wakes ?s" using m f(1,8) by (auto simp: manager_inv_def wakes_def settle_def)
  moreover have "refs_of ?s = refs_of s"
  proof -
    have "mset (sc_queue ?c) = add_mset r (mset ?q)"
      by (rule mset_without [OF log_ok_distinct [OF d(3)] k(3)])
    then show ?thesis using f(1) by (simp add: refs_of_def settle_def)
  qed
  ultimately have "manager_inv limit interval ?s"
    using m f pending_inv_odel [of "sm_buffer s" a] by (simp add: manager_inv_def settle_def)
  moreover have "pending_inv (sm_buffer s)" using m by (simp add: manager_inv_def)
  then have "cancelQueuedAgentStart a s = (Inr True, ?s)"
    using k(1) cancel_ok(1) [of "sm_buffer s" a] by (simp add: cancelQueuedAgentStart_def)
  ultimately show ?thesis by blast
qed

lemma fold_settle: "fold settle xs s = s\<lparr>sm_settled := sm_settled s @ xs\<rparr>"
  by (induction xs arbitrary: s) (simp_all add: settle_def)

lemma cancel_all_step:
  assumes m: "manager_inv limit interval s"
  shows "\<exists>s'. cancelAllQueuedAgentStarts s = (Inr (), s') \<and> manager_inv limit interval s'"
proof -
  let ?c = "sm_starts s"
  have b: "base_inv s" using m by (simp add: manager_inv_def)
  note d = base_invD [OF b]
  note k = cancelAllQueued_ok [OF d(1)]
  let ?s = "s\<lparr>sm_starts := ?c\<lparr>sc_queue := [], sc_queuedByAgent := [], sc_pumpTimer := False\<rparr>,
    sm_settled := sm_settled s @ sc_queue ?c, sm_buffer := []\<rparr>"
  have "log_ok ?s" using d(3) by (auto simp: log_ok_def sorted_wrt_append)
  then have "base_inv ?s" using k(2) d(2) by (simp add: base_inv_def)
  moreover have "refs_of ?s = refs_of s" by (simp add: refs_of_def)
  ultimately have "manager_inv limit interval ?s"
    using m by (simp add: manager_inv_def wakes_def)
  then show ?thesis using k(1) by (simp add: cancelAllQueuedAgentStarts_def fold_settle Let_def cancel_ok(2))
qed

lemma other_step:
  assumes m: "manager_inv limit interval s" and c: "clearStarting a (sm_starts s) = (r, c)" and p: "pending_inv buffer"
  shows "manager_inv limit interval
    (s\<lparr>sm_starts := c, sm_running := running, sm_buffer := buffer, sm_rebinds := rebinds, sm_stopEpoch := epoch\<rparr>)"
proof -
  have ci: "coordinator_inv (sm_starts s)" using m by (simp add: manager_inv_def base_inv_def)
  have c': "c = (sm_starts s)\<lparr>sc_starting := removeAll a (sc_starting (sm_starts s))\<rparr>" "coordinator_inv c"
    using clearStarting_ok [OF ci, of a] c by simp_all
  show ?thesis by (rule manager_inv_frame [OF m]) (use c' p in simp_all)
qed

lemma start_run_inv: "start_run sameWake clock limit interval i s \<Longrightarrow> mono clock \<Longrightarrow> manager_inv limit interval s"
proof (induction rule: start_run.induct)
  case run_start
  show ?case
    using new_coordinator_inv [of limit interval]
    by (simp add: manager_inv_def base_inv_def log_ok_def wakes_def refs_of_def) (simp add: new_coordinator_def)
next
  case (run_request i s a start r s' j)
  then show ?case using request_step [of limit interval s a clock sameWake i start] by auto
next
  case (run_timer i s r s' j)
  then show ?case using timer_step [of limit interval s clock i] by auto
next
  case (run_settles i s x r s' j)
  then show ?case using settles_step [of limit interval s clock x i] by auto
next
  case (run_cancel i s a r s')
  then show ?case using cancel_step [of limit interval s a] by auto
next
  case (run_cancel_all i s r s')
  then show ?case using cancel_all_step [of limit interval s] by auto
next
  case (run_other i s a r c buffer running rebinds epoch)
  then show ?case using other_step by blast
qed

end
