(* ===== verification/Start_Properties.thy ===== *)
theory Start_Properties
  imports Start_Run
begin

text \<open>
  What the start queue promises: every start that was accepted is settled once and in order, the limits on
  concurrency and rate hold, and a queue whose starts settle and whose timer fires runs empty.
\<close>

section \<open>Safety\<close>

text \<open>C12. Every accepted start is settled once and the queue is first in, first out. In every interleaving of
  requests, timer callbacks, settling starts, cancellations and other changes, each item that was ever
  queued is in exactly one place: waiting, in flight or settled; starts happen in the order of the
  requests; the assertions of the coordinator hold; and no request, callback, settling start or
  cancellation throws.\<close>

theorem start_queue_exactly_once:
  assumes "start_run sameWake clock limit interval i s" "mono clock"
  shows "mset (sc_queue (sm_starts s)) + mset (sm_inflight s) + mset (sm_settled s) = mset [0..<length (sc_heap (sm_starts s))] \<and>
    sorted_wrt (<) (map fst (sm_started s) @ sc_queue (sm_starts s)) \<and>
    assertStartInvariants (sm_starts s) = None \<and>
    (a \<noteq> [] \<longrightarrow> \<not> isl (fst (startAgent sameWake clock j a start s))) \<and> \<not> isl (fst (pump_timer_fires clock j s)) \<and>
    (x \<in> set (sm_inflight s) \<longrightarrow> \<not> isl (fst (start_settles clock j x s))) \<and>
    \<not> isl (fst (cancelQueuedAgentStart a' s)) \<and> \<not> isl (fst (cancelAllQueuedAgentStarts s))"
proof -
  have m: "manager_inv limit interval s" by (rule start_run_inv [OF assms(1,2)])
  then have b: "base_inv s" by (simp add: manager_inv_def)
  have steps: "a \<noteq> [] \<longrightarrow> \<not> isl (fst (startAgent sameWake clock j a start s))" "\<not> isl (fst (pump_timer_fires clock j s))"
    "x \<in> set (sm_inflight s) \<longrightarrow> \<not> isl (fst (start_settles clock j x s))" "\<not> isl (fst (cancelQueuedAgentStart a' s))"
    "\<not> isl (fst (cancelAllQueuedAgentStarts s))"
    using request_step [OF m _ assms(2), of a sameWake j start] timer_step [OF m assms(2), of j]
      settles_step [OF m assms(2), of x j] cancel_step [OF m, of a'] cancel_all_step [OF m] by auto
  have "refs_of s = mset [0..<length (sc_heap (sm_starts s))]" using m by (simp add: manager_inv_def)
  then show ?thesis
    using steps base_invD(3) [OF b] assert_ok [OF base_invD(1) [OF b]] by (simp add: refs_of_def log_ok_def)
qed

text \<open>C13. The limits of the start scheduler hold in every interleaving: at most the configured number of starts
  are in flight, and two starts that follow each other are of the same agent or at least the configured
  interval apart.\<close>

theorem start_queue_limits:
  assumes "start_run sameWake clock limit interval i s" "mono clock"
  shows "int (length (sm_inflight s)) \<le> max 1 limit \<and> spaced (max 0 interval) (map snd (sm_started s))"
proof -
  have m: "manager_inv limit interval s" by (rule start_run_inv [OF assms])
  then have b: "base_inv s" and f: "sc_maxConcurrentStarts (sm_starts s) = max 1 limit"
    "sc_minStartIntervalMs (sm_starts s) = max 0 interval" by (simp_all add: manager_inv_def)
  have "spaced (sc_minStartIntervalMs (sm_starts s)) (map snd (sm_started s))" using base_invD(3) [OF b] by (simp add: log_ok_def)
  then show ?thesis using base_invD(2) [OF b] coordinator_invD(6) [OF base_invD(1) [OF b]] f by simp
qed

section \<open>Progress\<close>

text \<open>With the clock at one instant the pump, when it may start anything, takes items out of the queue.\<close>

lemma pump_at:
  assumes "base_inv s"
  shows "\<exists>s'. pumpAgentStartQueue (\<lambda>_. t) i s = (Inr (), s') \<and>
    length (sc_queue (sm_starts s')) \<le> length (sc_queue (sm_starts s)) \<and>
    sc_lastStartAt (sm_starts s') \<in> {sc_lastStartAt (sm_starts s), t} \<and>
    (\<not> sc_pumpTimer (sm_starts s) \<longrightarrow> sc_queue (sm_starts s) \<noteq> [] \<longrightarrow>
      sc_activeStarts (sm_starts s) < sc_maxConcurrentStarts (sm_starts s) \<longrightarrow>
      sc_lastStartAt (sm_starts s) + sc_minStartIntervalMs (sm_starts s) \<le> t \<longrightarrow>
      length (sc_queue (sm_starts s')) < length (sc_queue (sm_starts s)))"
  using assms
proof (induction "length (sc_queue (sm_starts s))" arbitrary: i s rule: less_induct)
  case less
  let ?c = "sm_starts s"
  note b = less.prems and ci = base_invD(1) [OF less.prems]
  show ?case
  proof (cases "getPumpState t ?c")
    case (Pump_blocked reason)
    then show ?thesis using getPumpState_blocked [OF Pump_blocked] by (auto simp: pumpAgentStartQueue.simps)
  next
    case (Pump_rate_limited r w)
    then have "\<not> sc_lastStartAt ?c + sc_minStartIntervalMs ?c \<le> t"
      by (auto simp: getPumpState_def Let_def split: list.splits if_splits)
    then show ?thesis using Pump_rate_limited schedulePump_ok [OF ci] by (simp add: pumpAgentStartQueue.simps [of _ i s])
  next
    case (Pump_ready r0)
    note ready = getPumpState_ready [OF Pump_ready]
    then obtain rs where q: "sc_queue ?c = r0 # rs" by blast
    note h = dequeued_head [OF b q]
    let ?d = "?c\<lparr>sc_queue := rs, sc_queuedByAgent := queue_map ?c rs\<rparr>"
    show ?thesis
    proof (cases "agent_of ?d r0 \<in> set (sm_running s) \<or> hasStarting (agent_of ?d r0) ?d")
      case True
      let ?s = "skip_item r0 (s\<lparr>sm_starts := ?d\<rparr>)"
      have p: "pumpAgentStartQueue (\<lambda>_. t) i s = pumpAgentStartQueue (\<lambda>_. t) (Suc i) ?s"
        using Pump_ready h(1) True by (simp add: pumpAgentStartQueue.simps [of _ i s])
      have st: "sm_starts ?s = ?d"
        by (simp add: skip_item_def Let_def settle_def rebindRunningStart_def setPendingStartRebind_def)
      then have "length (sc_queue (sm_starts ?s)) < length (sc_queue ?c)" by (simp add: q)
      from less.hyps [OF this skipped_item(1) [OF b q], of "Suc i"] show ?thesis
        unfolding p st by (auto simp: q)
    next
      case False
      have iv: "sc_lastStartAgentId ?c = Some (agent_of ?c r0) \<or> sc_lastStartAt ?c + sc_minStartIntervalMs ?c \<le> t"
        using ready by auto
      have room: "sc_activeStarts ?c < sc_maxConcurrentStarts ?c" using ready by blast
      note st = started_item(1) [OF b q room iv]
      have "sc_queue (snd (markStarting a c)) = sc_queue c" "sc_lastStartAt (snd (markStarting a c)) = sc_lastStartAt c" for a and c :: "('a, 'b) coordinator"
        by (auto simp: markStarting_def after_def split: option.split)
      then show ?thesis
        using Pump_ready h(1) False st by (simp add: pumpAgentStartQueue.simps [of _ i s] start_now_def Let_def q)
    qed
  qed
qed

text \<open>What happens next when nothing new arrives: the timer fires, or else the oldest start in flight settles.\<close>

definition next_event :: "int \<Rightarrow> ('c, 'm) start_manager \<Rightarrow> ('c, 'm) start_manager" where
  "next_event t s =
     (if sc_pumpTimer (sm_starts s) then snd (pump_timer_fires (\<lambda>_. t) 0 s)
      else case sm_inflight s of [] \<Rightarrow> s | x # xs \<Rightarrow> snd (start_settles (\<lambda>_. t) 0 x s))"

text \<open>The given number of such events, an interval apart.\<close>

fun quiet_events :: "nat \<Rightarrow> int \<Rightarrow> int \<Rightarrow> ('c, 'm) start_manager \<Rightarrow> ('c, 'm) start_manager" where
  "quiet_events 0 step t s = s"
| "quiet_events (Suc n) step t s = quiet_events n step (t + step) (next_event t s)"

lemma next_event_inv: "manager_inv limit interval s \<Longrightarrow> manager_inv limit interval (next_event t s)"
proof -
  assume m: "manager_inv limit interval s"
  have clock: "mono (\<lambda>_ :: nat. t)" by (simp add: mono_def)
  show ?thesis
  proof (cases "sm_inflight s")
    case Nil
    then show ?thesis using m timer_step [OF m clock, of 0] by (auto simp: next_event_def)
  next
    case (Cons x xs)
    then have "x \<in> set (sm_inflight s)" by simp
    then show ?thesis using Cons timer_step [OF m clock, of 0] settles_step [OF m clock, of x 0] by (auto simp: next_event_def)
  qed
qed

lemma next_event_shrinks:
  assumes m: "manager_inv limit interval s" and t: "sc_lastStartAt (sm_starts s) + max 0 interval \<le> t"
  defines "s' \<equiv> next_event t s"
  shows "length (sc_queue (sm_starts s')) \<le> length (sc_queue (sm_starts s))"
    "sc_lastStartAt (sm_starts s') + max 0 interval \<le> t + max 0 interval"
    "sc_queue (sm_starts s) \<noteq> [] \<Longrightarrow> \<not> sc_pumpTimer (sm_starts s) \<Longrightarrow>
       length (sc_queue (sm_starts s')) < length (sc_queue (sm_starts s))"
    "sc_queue (sm_starts s) \<noteq> [] \<Longrightarrow> sc_pumpTimer (sm_starts s) \<Longrightarrow>
       length (sc_queue (sm_starts s')) < length (sc_queue (sm_starts s)) \<or> \<not> sc_pumpTimer (sm_starts s')"
proof -
  let ?c = "sm_starts s"
  have b: "base_inv s" and w: "wakes s" and iv: "sc_minStartIntervalMs ?c = max 0 interval"
    using m by (simp_all add: manager_inv_def)
  note d = base_invD [OF b]
  let ?T = "s\<lparr>sm_starts := ?c\<lparr>sc_pumpTimer := False\<rparr>\<rparr>"
  have bT: "base_inv ?T" using b by (simp add: base_inv_def log_ok_def coordinator_inv_def queue_map_def)
  obtain u where u: "pumpAgentStartQueue (\<lambda>_. t) 0 ?T = (Inr (), u)" "length (sc_queue (sm_starts u)) \<le> length (sc_queue ?c)"
    "sc_lastStartAt (sm_starts u) \<in> {sc_lastStartAt ?c, t}"
    "sc_queue ?c \<noteq> [] \<longrightarrow> sc_activeStarts ?c < sc_maxConcurrentStarts ?c \<longrightarrow> length (sc_queue (sm_starts u)) < length (sc_queue ?c)"
    using pump_at [OF bT, of t 0] t iv by auto
  have full: "pumpAgentStartQueue (\<lambda>_. t) 0 ?T = (Inr (), ?T)" if "\<not> sc_activeStarts ?c < sc_maxConcurrentStarts ?c"
    using that by (cases "sc_queue ?c") (simp_all add: pumpAgentStartQueue.simps getPumpState_def)
  have timer: "sc_pumpTimer ?c \<Longrightarrow> s' = u" using u(1) by (simp add: s'_def next_event_def pump_timer_fires_def)
  have settled: "\<exists>v. s' = settle x v \<and> length (sc_queue (sm_starts v)) \<le> length (sc_queue ?c) \<and>
      sc_lastStartAt (sm_starts v) \<in> {sc_lastStartAt ?c, t} \<and>
      (sc_queue ?c \<noteq> [] \<longrightarrow> length (sc_queue (sm_starts v)) < length (sc_queue ?c))"
    if nt: "\<not> sc_pumpTimer ?c" and x: "sm_inflight s = x # xs" for x xs
  proof -
    have pos: "0 < sc_activeStarts ?c" using d(2) x by simp
    note rel = releaseStartSlot_ok [OF d(1) pos]
    let ?s = "s\<lparr>sm_inflight := xs, sm_starts := ?c\<lparr>sc_activeStarts := sc_activeStarts ?c - 1\<rparr>\<rparr>"
    have "base_inv ?s" using rel(2) d(2,3) x by (simp add: base_inv_def log_ok_def)
    from pump_at [OF this, of t 0] obtain v where v: "pumpAgentStartQueue (\<lambda>_. t) 0 ?s = (Inr (), v)"
      "length (sc_queue (sm_starts v)) \<le> length (sc_queue ?c)" "sc_lastStartAt (sm_starts v) \<in> {sc_lastStartAt ?c, t}"
      "sc_queue ?c \<noteq> [] \<longrightarrow> length (sc_queue (sm_starts v)) < length (sc_queue ?c)"
      using nt t iv coordinator_invD(6) [OF d(1)] by auto
    have "s' = settle x v"
      using nt x rel(1) v(1) by (simp add: s'_def next_event_def start_settles_def releaseAgentStartSlot_def)
    then show ?thesis using v by blast
  qed
  have idle: "s' = s" if "\<not> sc_pumpTimer ?c" "sm_inflight s = []" using that by (simp add: s'_def next_event_def)
  have cases: "(sc_pumpTimer ?c \<and> s' = u) \<or> (\<not> sc_pumpTimer ?c \<and> sm_inflight s = [] \<and> s' = s) \<or>
      (\<exists>x v. \<not> sc_pumpTimer ?c \<and> s' = settle x v \<and> length (sc_queue (sm_starts v)) \<le> length (sc_queue ?c) \<and>
        sc_lastStartAt (sm_starts v) \<in> {sc_lastStartAt ?c, t} \<and>
        (sc_queue ?c \<noteq> [] \<longrightarrow> length (sc_queue (sm_starts v)) < length (sc_queue ?c)))"
    using timer idle settled by (cases "sc_pumpTimer ?c"; cases "sm_inflight s") blast+
  then show "length (sc_queue (sm_starts s')) \<le> length (sc_queue (sm_starts s))"
    "sc_lastStartAt (sm_starts s') + max 0 interval \<le> t + max 0 interval"
    using u(2,3) t by (auto simp: settle_def)
  show "length (sc_queue (sm_starts s')) < length (sc_queue (sm_starts s))"
    if "sc_queue (sm_starts s) \<noteq> []" "\<not> sc_pumpTimer (sm_starts s)"
    using cases that w by (auto simp: settle_def wakes_def)
  show "length (sc_queue (sm_starts s')) < length (sc_queue (sm_starts s)) \<or> \<not> sc_pumpTimer (sm_starts s')"
    if "sc_queue (sm_starts s) \<noteq> []" "sc_pumpTimer (sm_starts s)"
    using that timer u(1,4) full by (cases "sc_activeStarts ?c < sc_maxConcurrentStarts ?c") auto
qed


definition waiting_work :: "('c, 'm) start_manager \<Rightarrow> nat" where
  "waiting_work s =
     (if sc_queue (sm_starts s) = [] then 0 else 2 * length (sc_queue (sm_starts s)) + (if sc_pumpTimer (sm_starts s) then 1 else 0))"

lemma next_event_work:
  assumes "manager_inv limit interval s" "sc_lastStartAt (sm_starts s) + max 0 interval \<le> t"
  shows "waiting_work (next_event t s) = 0 \<or> waiting_work (next_event t s) < waiting_work s"
  using next_event_shrinks [OF assms]
  by (cases "sc_queue (sm_starts s) = []"; cases "sc_pumpTimer (sm_starts s)") (auto simp: waiting_work_def)

lemma quiet_events_drain:
  "manager_inv limit interval s \<Longrightarrow> sc_lastStartAt (sm_starts s) + max 0 interval \<le> t \<Longrightarrow> waiting_work s \<le> n \<Longrightarrow>
   waiting_work (quiet_events n (max 0 interval) t s) = 0 \<and> manager_inv limit interval (quiet_events n (max 0 interval) t s)"
proof (induction n arbitrary: s t)
  case (Suc n)
  have "waiting_work (next_event t s) \<le> n" using next_event_work [OF Suc.prems(1,2)] Suc.prems(3) by linarith
  with Suc.IH [OF next_event_inv [OF Suc.prems(1)] next_event_shrinks(2) [OF Suc.prems(1,2)]] show ?case by simp
qed simp

text \<open>C14. A waiting start is never forgotten. From every reachable state, if nothing new arrives and each time
  the pump timer fires or, when none is set, the oldest start in flight settles, an interval apart, then
  after at most two such events per waiting start and one more the queue is empty, and every start that
  was ever accepted has been settled or is in flight.\<close>

theorem start_queue_drains:
  assumes "start_run sameWake clock limit interval i s" "mono clock"
    "sc_lastStartAt (sm_starts s) + max 0 interval \<le> t"
  defines "s' \<equiv> quiet_events (2 * length (sc_queue (sm_starts s)) + 1) (max 0 interval) t s"
  shows "sc_queue (sm_starts s') = [] \<and> mset (sm_inflight s') + mset (sm_settled s') = mset [0..<length (sc_heap (sm_starts s'))]"
proof -
  have m: "manager_inv limit interval s" by (rule start_run_inv [OF assms(1,2)])
  have "waiting_work s \<le> 2 * length (sc_queue (sm_starts s)) + 1" by (simp add: waiting_work_def)
  from quiet_events_drain [OF m assms(3) this] have d: "waiting_work s' = 0" "manager_inv limit interval s'"
    by (simp_all only: s'_def)
  have "sc_queue (sm_starts s') = []" using d(1) by (auto simp: waiting_work_def split: if_splits)
  then show ?thesis using d(2) by (simp add: manager_inv_def refs_of_def)
qed

section \<open>A recovery grant stays with its launch\<close>

text \<open>Rebinding a queued start keeps a recovery grant only together with the launch it is bound to.\<close>

lemma rebind_start_grant:
  "ps_recoveryGrant (rebind_start start item) = Some g \<Longrightarrow> ps_launchId (rebind_start start item) = Some (rg_launchId g)"
  by (auto simp: rebind_start_def Let_def split: option.splits if_splits)

section \<open>A run\<close>

definition sample_start :: "(nat, nat) pending_start" where
  "sample_start =
     \<lparr>ps_startDispatchId = None, ps_config = 0, ps_wakeMessage = None, ps_wakeMessageTransient = None, ps_resumeMessages = None,
      ps_unreadSummary = None, ps_resumePrompt = None, ps_launchId = None, ps_recoveryGrant = None, ps_claimedConnectionEpochId = None\<rparr>"

definition idle_manager :: "int \<Rightarrow> int \<Rightarrow> (nat, nat) start_manager" where
  "idle_manager limit interval =
     \<lparr>sm_starts = new_coordinator limit interval, sm_running = [], sm_buffer = [], sm_rebinds = [], sm_stopEpoch = (\<lambda>a. 0),
      sm_handed = [], sm_inflight = [], sm_settled = [], sm_started = []\<rparr>"

text \<open>Three requests in a burst; the clock stands at 1000.\<close>

fun sample_requests :: "string list \<Rightarrow> (nat, nat) start_manager \<Rightarrow> (nat, nat) start_manager" where
  "sample_requests [] s = s"
| "sample_requests (a # as) s = sample_requests as (snd (startAgent (=) (\<lambda>_. 1000) 0 a sample_start s))"

definition sample_burst :: "(nat, nat) start_manager" where
  "sample_burst = sample_requests [''a'', ''b'', ''c''] (idle_manager 3 500)"

lemma sample_requests_run:
  "start_run (=) (\<lambda>_. 1000) 3 500 0 s \<Longrightarrow> list_all (\<lambda>a. a \<noteq> []) as \<Longrightarrow> start_run (=) (\<lambda>_. 1000) 3 500 0 (sample_requests as s)"
proof (induction as arbitrary: s)
  case (Cons a as)
  have "start_run (=) (\<lambda>_. 1000) 3 500 0 (snd (startAgent (=) (\<lambda>_. 1000) 0 a sample_start s))"
    by (rule run_request [OF Cons.prems(1), of a _ "fst (startAgent (=) (\<lambda>_. 1000) 0 a sample_start s)"]) (use Cons.prems(2) in simp_all)
  then show ?case using Cons by simp
qed simp

lemma sample_burst_run: "start_run (=) (\<lambda>_. 1000) 3 500 0 sample_burst"
  unfolding sample_burst_def
  by (rule sample_requests_run) (simp_all add: idle_manager_def run_start)

lemma sample_clock: "mono (\<lambda>_ :: nat. 1000 :: int)"
  by (simp add: mono_def)

theorem start_queue_exactly_once_witness:
  "mset (sc_queue (sm_starts sample_burst)) + mset (sm_inflight sample_burst) + mset (sm_settled sample_burst) = mset [0, 1, 2] \<and>
   \<not> isl (fst (start_settles (\<lambda>_. 1000) 0 0 sample_burst))"
proof -
  have x: "0 \<in> set (sm_inflight sample_burst)" "length (sc_heap (sm_starts sample_burst)) = 3" by code_simp+
  have "[0..<3] = [0, 1, 2 :: nat]" by code_simp
  with start_queue_exactly_once [OF sample_burst_run sample_clock, where x = 0 and j = 0] x show ?thesis by simp
qed

theorem start_queue_limits_witness:
  "int (length (sm_inflight sample_burst)) \<le> 3 \<and> spaced 500 (map snd (sm_started sample_burst))"
  using start_queue_limits [OF sample_burst_run sample_clock] by simp

theorem start_queue_drains_witness:
  "sc_queue (sm_starts (quiet_events (2 * length (sc_queue (sm_starts sample_burst)) + 1) 500 1500 sample_burst)) = []"
proof -
  have "sc_lastStartAt (sm_starts sample_burst) + max 0 500 \<le> 1500" by code_simp
  from start_queue_drains [OF sample_burst_run sample_clock this] show ?thesis by simp
qed

text \<open>After a burst one firing of the timer starts one waiting item and sets no new timer: the third start waits for
  another to settle although a slot is free and the interval would soon have passed.\<close>

lemma start_queue_leaves_capacity:
  "let s = snd (pump_timer_fires (\<lambda>_. 1500) 0 sample_burst)
   in sc_queue (sm_starts s) = [2] \<and> \<not> sc_pumpTimer (sm_starts s) \<and>
      sc_activeStarts (sm_starts s) < sc_maxConcurrentStarts (sm_starts s)"
  by code_simp

end
