(* ===== verification/Lifecycle_Record.thy ===== *)
theory Lifecycle_Record
  imports Start_Coordinator
begin

text \<open>
  \<open>packages/daemon/src/agentLifecycleRecord.ts\<close> and \<open>agentStatusTransitionTrace.ts\<close>: the facts the daemon
  keeps about agents and the one lifecycle record they add up to. The maps of the class are
  insertion-ordered maps; the records of a snapshot are built by a loop over the agents in the order in
  which their facts were first mentioned. A thrown error is the left value of a sum. The types of the
  configuration, the messages, the backoff and the fence are parameters, as in the class.
\<close>

section \<open>Facts\<close>

record 'c restart_snapshot =
  rs_config :: 'c
  rs_sessionId :: "string option"
  rs_launchId :: "string option"
  rs_processInstanceId :: "string option"

record terminal_failure =
  tf_detail :: string
  tf_launchId :: "string option"

type_synonym ('c, 'm) start_rebind = "('c, 'm) pending_start \<times> nat option"

record agent_status_snapshot =
  as_status :: string
  as_launchId :: "string option"
  as_processInstanceId :: "string option"
  as_runtime :: "string option"
  as_sessionIdPresent :: bool

record ('b, 'f, 'c, 'm) lifecycle_records =
  lr_idleRestartSnapshots :: "(string, 'c restart_snapshot) omap"
  lr_terminalFailures :: "(string, terminal_failure) omap"
  lr_activeSpawnFailBackoffs :: "(string, 'b) omap"
  lr_pendingStartRebinds :: "(string, ('c, 'm) start_rebind) omap"
  lr_pendingSpawnCauses :: "(string, string) omap"
  lr_runtimeErrorFingerprintFences :: "(string, 'f) omap"
  lr_activityClientSeqs :: "(string, int) omap"
  lr_stopEpochs :: "(string, int) omap"
  lr_startEpochs :: "(string, int) omap"
  lr_statusSeq :: int
  lr_statusSnapshots :: "(string, agent_status_snapshot) omap"

definition new_records :: "('b, 'f, 'c, 'm) lifecycle_records" where
  "new_records =
     \<lparr>lr_idleRestartSnapshots = [], lr_terminalFailures = [], lr_activeSpawnFailBackoffs = [], lr_pendingStartRebinds = [],
      lr_pendingSpawnCauses = [], lr_runtimeErrorFingerprintFences = [], lr_activityClientSeqs = [], lr_stopEpochs = [],
      lr_startEpochs = [], lr_statusSeq = 0, lr_statusSnapshots = []\<rparr>"

section \<open>Epochs and sequence numbers\<close>

definition counter_of :: "(string, int) omap \<Rightarrow> string \<Rightarrow> int" where
  "counter_of m a = (case oget m a of None \<Rightarrow> 0 | Some n \<Rightarrow> n)"

definition recordStop :: "string \<Rightarrow> ('b, 'f, 'c, 'm) lifecycle_records \<Rightarrow> int \<times> ('b, 'f, 'c, 'm) lifecycle_records" where
  "recordStop a l =
     (let n = counter_of (lr_stopEpochs l) a + 1 in (n, l\<lparr>lr_stopEpochs := oset a n (lr_stopEpochs l)\<rparr>))"

definition stopEpoch :: "string \<Rightarrow> ('b, 'f, 'c, 'm) lifecycle_records \<Rightarrow> int" where
  "stopEpoch a l = counter_of (lr_stopEpochs l) a"

definition stopEpochChanged :: "string \<Rightarrow> int \<Rightarrow> ('b, 'f, 'c, 'm) lifecycle_records \<Rightarrow> bool" where
  "stopEpochChanged a epoch l \<longleftrightarrow> stopEpoch a l \<noteq> epoch"

definition recordStart :: "string \<Rightarrow> ('b, 'f, 'c, 'm) lifecycle_records \<Rightarrow> int \<times> ('b, 'f, 'c, 'm) lifecycle_records" where
  "recordStart a l =
     (let n = counter_of (lr_startEpochs l) a + 1 in (n, l\<lparr>lr_startEpochs := oset a n (lr_startEpochs l)\<rparr>))"

definition startEpoch :: "string \<Rightarrow> ('b, 'f, 'c, 'm) lifecycle_records \<Rightarrow> int" where
  "startEpoch a l = counter_of (lr_startEpochs l) a"

definition startEpochChanged :: "string \<Rightarrow> int \<Rightarrow> ('b, 'f, 'c, 'm) lifecycle_records \<Rightarrow> bool" where
  "startEpochChanged a epoch l \<longleftrightarrow> startEpoch a l \<noteq> epoch"

definition nextActivityClientSeq :: "string \<Rightarrow> ('b, 'f, 'c, 'm) lifecycle_records \<Rightarrow> int \<times> ('b, 'f, 'c, 'm) lifecycle_records" where
  "nextActivityClientSeq a l =
     (let n = counter_of (lr_activityClientSeqs l) a + 1
      in (n, l\<lparr>lr_activityClientSeqs := oset a n (lr_activityClientSeqs l)\<rparr>))"

definition deleteActivityClientSeq :: "string \<Rightarrow> ('b, 'f, 'c, 'm) lifecycle_records \<Rightarrow> bool \<times> ('b, 'f, 'c, 'm) lifecycle_records" where
  "deleteActivityClientSeq a l =
     (oget (lr_activityClientSeqs l) a \<noteq> None, l\<lparr>lr_activityClientSeqs := odel a (lr_activityClientSeqs l)\<rparr>)"

section \<open>Restart configurations and terminal failures\<close>

text \<open>Each retires the other: the answer says whether there was something to retire.\<close>

definition setRestartSnapshot ::
  "string \<Rightarrow> 'c restart_snapshot \<Rightarrow> ('b, 'f, 'c, 'm) lifecycle_records \<Rightarrow> bool \<times> ('b, 'f, 'c, 'm) lifecycle_records" where
  "setRestartSnapshot a snap l =
     (oget (lr_terminalFailures l) a \<noteq> None,
      l\<lparr>lr_idleRestartSnapshots := oset a snap (lr_idleRestartSnapshots l),
        lr_terminalFailures := odel a (lr_terminalFailures l)\<rparr>)"

definition deleteRestartSnapshot :: "string \<Rightarrow> ('b, 'f, 'c, 'm) lifecycle_records \<Rightarrow> bool \<times> ('b, 'f, 'c, 'm) lifecycle_records" where
  "deleteRestartSnapshot a l =
     (oget (lr_idleRestartSnapshots l) a \<noteq> None, l\<lparr>lr_idleRestartSnapshots := odel a (lr_idleRestartSnapshots l)\<rparr>)"

definition clearRestartSnapshots :: "('b, 'f, 'c, 'm) lifecycle_records \<Rightarrow> ('b, 'f, 'c, 'm) lifecycle_records" where
  "clearRestartSnapshots l = l\<lparr>lr_idleRestartSnapshots := []\<rparr>"

definition setTerminalFailure ::
  "string \<Rightarrow> terminal_failure \<Rightarrow> ('b, 'f, 'c, 'm) lifecycle_records \<Rightarrow> bool \<times> ('b, 'f, 'c, 'm) lifecycle_records" where
  "setTerminalFailure a failure l =
     (oget (lr_idleRestartSnapshots l) a \<noteq> None,
      l\<lparr>lr_terminalFailures := oset a failure (lr_terminalFailures l),
        lr_idleRestartSnapshots := odel a (lr_idleRestartSnapshots l)\<rparr>)"

definition deleteTerminalFailure :: "string \<Rightarrow> ('b, 'f, 'c, 'm) lifecycle_records \<Rightarrow> bool \<times> ('b, 'f, 'c, 'm) lifecycle_records" where
  "deleteTerminalFailure a l =
     (oget (lr_terminalFailures l) a \<noteq> None, l\<lparr>lr_terminalFailures := odel a (lr_terminalFailures l)\<rparr>)"

section \<open>Backoffs, rebinds, causes and fences\<close>

definition getOrCreateSpawnFailBackoff ::
  "string \<Rightarrow> 'b \<Rightarrow> ('b, 'f, 'c, 'm) lifecycle_records \<Rightarrow> 'b \<times> ('b, 'f, 'c, 'm) lifecycle_records" where
  "getOrCreateSpawnFailBackoff a fresh l =
     (case oget (lr_activeSpawnFailBackoffs l) a of
        Some b \<Rightarrow> (b, l)
      | None \<Rightarrow> (fresh, l\<lparr>lr_activeSpawnFailBackoffs := oset a fresh (lr_activeSpawnFailBackoffs l)\<rparr>))"

definition deleteSpawnFailBackoff :: "string \<Rightarrow> ('b, 'f, 'c, 'm) lifecycle_records \<Rightarrow> bool \<times> ('b, 'f, 'c, 'm) lifecycle_records" where
  "deleteSpawnFailBackoff a l =
     (oget (lr_activeSpawnFailBackoffs l) a \<noteq> None, l\<lparr>lr_activeSpawnFailBackoffs := odel a (lr_activeSpawnFailBackoffs l)\<rparr>)"

definition activeSpawnFailBackoffAgentIds :: "int \<Rightarrow> ('b \<Rightarrow> int \<Rightarrow> bool) \<Rightarrow> ('b, 'f, 'c, 'm) lifecycle_records \<Rightarrow> string list" where
  "activeSpawnFailBackoffAgentIds now isActive l =
     map fst (filter (\<lambda>x. isActive (snd x) now) (lr_activeSpawnFailBackoffs l))"

definition set_pending_start_rebind ::
  "string \<Rightarrow> ('c, 'm) start_rebind \<Rightarrow> ('b, 'f, 'c, 'm) lifecycle_records \<Rightarrow> ('b, 'f, 'c, 'm) lifecycle_records" where
  "set_pending_start_rebind a start l = l\<lparr>lr_pendingStartRebinds := oset a start (lr_pendingStartRebinds l)\<rparr>"

definition deletePendingStartRebind :: "string \<Rightarrow> ('b, 'f, 'c, 'm) lifecycle_records \<Rightarrow> bool \<times> ('b, 'f, 'c, 'm) lifecycle_records" where
  "deletePendingStartRebind a l =
     (oget (lr_pendingStartRebinds l) a \<noteq> None, l\<lparr>lr_pendingStartRebinds := odel a (lr_pendingStartRebinds l)\<rparr>)"

definition setPendingSpawnCause :: "string \<Rightarrow> string \<Rightarrow> ('b, 'f, 'c, 'm) lifecycle_records \<Rightarrow> ('b, 'f, 'c, 'm) lifecycle_records" where
  "setPendingSpawnCause a cause l = l\<lparr>lr_pendingSpawnCauses := oset a cause (lr_pendingSpawnCauses l)\<rparr>"

definition deletePendingSpawnCause :: "string \<Rightarrow> ('b, 'f, 'c, 'm) lifecycle_records \<Rightarrow> bool \<times> ('b, 'f, 'c, 'm) lifecycle_records" where
  "deletePendingSpawnCause a l =
     (oget (lr_pendingSpawnCauses l) a \<noteq> None, l\<lparr>lr_pendingSpawnCauses := odel a (lr_pendingSpawnCauses l)\<rparr>)"

definition setRuntimeErrorFingerprintFence ::
  "string \<Rightarrow> 'f \<Rightarrow> ('b, 'f, 'c, 'm) lifecycle_records \<Rightarrow> ('b, 'f, 'c, 'm) lifecycle_records" where
  "setRuntimeErrorFingerprintFence a fence l =
     l\<lparr>lr_runtimeErrorFingerprintFences := oset a fence (lr_runtimeErrorFingerprintFences l)\<rparr>"

definition deleteRuntimeErrorFingerprintFence ::
  "string \<Rightarrow> ('b, 'f, 'c, 'm) lifecycle_records \<Rightarrow> bool \<times> ('b, 'f, 'c, 'm) lifecycle_records" where
  "deleteRuntimeErrorFingerprintFence a l =
     (oget (lr_runtimeErrorFingerprintFences l) a \<noteq> None,
      l\<lparr>lr_runtimeErrorFingerprintFences := odel a (lr_runtimeErrorFingerprintFences l)\<rparr>)"

section \<open>Status transitions\<close>

record agent_status_input =
  ai_agentId :: string
  ai_status :: string
  ai_launchId :: "string option"
  ai_observedAtMs :: int
  ai_processInstanceId :: "string option"
  ai_runtime :: "string option"
  ai_sessionIdPresent :: "bool option"

record agent_status_attrs =
  at_agentId :: string
  at_status :: string
  at_previousStatus :: string
  at_previousStatusPresent :: bool
  at_statusChanged :: bool
  at_launchId :: "string option"
  at_launchIdPresent :: bool
  at_previousLaunchIdPresent :: bool
  at_launchIdChanged :: bool
  at_seq :: int
  at_observedAtMs :: int
  at_processInstanceId :: "string option"
  at_runtime :: "string option"
  at_sessionIdPresent :: bool

definition truthy_text :: "string option \<Rightarrow> bool" where
  "truthy_text s \<longleftrightarrow> s \<noteq> None \<and> s \<noteq> Some []"

definition agentStatusTransitionAttrs ::
  "agent_status_input \<Rightarrow> ('b, 'f, 'c, 'm) lifecycle_records \<Rightarrow> agent_status_attrs \<times> ('b, 'f, 'c, 'm) lifecycle_records" where
  "agentStatusTransitionAttrs i l =
     (let previous = oget (lr_statusSnapshots l) (ai_agentId i);
          seq = lr_statusSeq l + 1;
          present = (case ai_sessionIdPresent i of Some b \<Rightarrow> b
            | None \<Rightarrow> (case previous of Some p \<Rightarrow> as_sessionIdPresent p | None \<Rightarrow> False));
          processInstanceId = (case ai_processInstanceId i of Some x \<Rightarrow> Some x
            | None \<Rightarrow> Option.bind previous as_processInstanceId);
          runtime = (case ai_runtime i of Some x \<Rightarrow> Some x | None \<Rightarrow> Option.bind previous as_runtime)
      in (\<lparr>at_agentId = ai_agentId i, at_status = ai_status i,
            at_previousStatus = (case previous of None \<Rightarrow> ''unknown'' | Some p \<Rightarrow> as_status p),
            at_previousStatusPresent = (previous \<noteq> None),
            at_statusChanged = (case previous of None \<Rightarrow> True | Some p \<Rightarrow> as_status p \<noteq> ai_status i),
            at_launchId = ai_launchId i, at_launchIdPresent = truthy_text (ai_launchId i),
            at_previousLaunchIdPresent = truthy_text (Option.bind previous as_launchId),
            at_launchIdChanged = (case previous of None \<Rightarrow> truthy_text (ai_launchId i) | Some p \<Rightarrow> as_launchId p \<noteq> ai_launchId i),
            at_seq = seq, at_observedAtMs = ai_observedAtMs i, at_processInstanceId = processInstanceId, at_runtime = runtime,
            at_sessionIdPresent = present\<rparr>,
          l\<lparr>lr_statusSeq := seq,
            lr_statusSnapshots := oset (ai_agentId i)
              \<lparr>as_status = ai_status i, as_launchId = ai_launchId i, as_processInstanceId = processInstanceId, as_runtime = runtime,
               as_sessionIdPresent = present\<rparr> (lr_statusSnapshots l)\<rparr>))"

section \<open>Records\<close>

datatype ('b, 'f, 'c, 'm) lifecycle_record =
    Record_queued string "'c restart_snapshot option" "('c, 'm) start_rebind option" "int option"
  | Record_starting string "'c restart_snapshot option" "('c, 'm) start_rebind option" "int option"
  | Record_running string "'c restart_snapshot option" "('c, 'm) start_rebind option" "string option" "'f option" "int option"
  | Record_idle string "'c restart_snapshot" "'f option" "int option"
  | Record_cooldown string "'c restart_snapshot" 'b "'f option" "int option"
  | Record_terminal string terminal_failure "'f option" "int option"

record ('b, 'f, 'c, 'm) lifecycle_snapshot =
  ls_runningAgentIds :: "string list"
  ls_queuedAgentIds :: "string list"
  ls_startingAgentIds :: "string list"
  ls_idleRestartSnapshots :: "(string, 'c restart_snapshot) omap"
  ls_terminalFailures :: "(string, terminal_failure) omap"
  ls_activeSpawnFailBackoffs :: "(string, 'b) omap"
  ls_pendingStartRebinds :: "(string, ('c, 'm) start_rebind) omap"
  ls_pendingSpawnCauses :: "(string, string) omap"
  ls_runtimeErrorFingerprintFences :: "(string, 'f) omap"
  ls_activityClientSeqs :: "(string, int) omap"

definition lifecycle_snapshot_of ::
  "string list \<Rightarrow> string list \<Rightarrow> string list \<Rightarrow> int \<Rightarrow> ('b \<Rightarrow> int \<Rightarrow> bool) \<Rightarrow> ('b, 'f, 'c, 'm) lifecycle_records \<Rightarrow>
   ('b, 'f, 'c, 'm) lifecycle_snapshot" where
  "lifecycle_snapshot_of running queued starting now isActive l =
     \<lparr>ls_runningAgentIds = running, ls_queuedAgentIds = queued, ls_startingAgentIds = starting,
      ls_idleRestartSnapshots = lr_idleRestartSnapshots l, ls_terminalFailures = lr_terminalFailures l,
      ls_activeSpawnFailBackoffs = filter (\<lambda>x. isActive (snd x) now) (lr_activeSpawnFailBackoffs l),
      ls_pendingStartRebinds = lr_pendingStartRebinds l, ls_pendingSpawnCauses = lr_pendingSpawnCauses l,
      ls_runtimeErrorFingerprintFences = lr_runtimeErrorFingerprintFences l, ls_activityClientSeqs = lr_activityClientSeqs l\<rparr>"

record ('b, 'f, 'c, 'm) lifecycle_facts =
  lf_restartSnapshot :: "'c restart_snapshot option"
  lf_terminalFailure :: "terminal_failure option"
  lf_activeSpawnFailBackoff :: "'b option"
  lf_pendingStartRebind :: "('c, 'm) start_rebind option"
  lf_pendingSpawnCause :: "string option"
  lf_runtimeErrorFingerprintFence :: "'f option"
  lf_activityClientSeq :: "int option"

definition no_facts :: "('b, 'f, 'c, 'm) lifecycle_facts" where
  "no_facts =
     \<lparr>lf_restartSnapshot = None, lf_terminalFailure = None, lf_activeSpawnFailBackoff = None, lf_pendingStartRebind = None,
      lf_pendingSpawnCause = None, lf_runtimeErrorFingerprintFence = None, lf_activityClientSeq = None\<rparr>"

definition factsFor :: "string \<Rightarrow> (string, ('b, 'f, 'c, 'm) lifecycle_facts) omap \<Rightarrow> ('b, 'f, 'c, 'm) lifecycle_facts" where
  "factsFor a facts = (case oget facts a of None \<Rightarrow> no_facts | Some f \<Rightarrow> f)"

definition mention ::
  "string list \<Rightarrow> (string, ('b, 'f, 'c, 'm) lifecycle_facts) omap \<Rightarrow> (string, ('b, 'f, 'c, 'm) lifecycle_facts) omap" where
  "mention as facts = fold (\<lambda>a facts. oset a (factsFor a facts) facts) as facts"

definition add_facts ::
  "('v \<Rightarrow> ('b, 'f, 'c, 'm) lifecycle_facts \<Rightarrow> ('b, 'f, 'c, 'm) lifecycle_facts) \<Rightarrow> (string, 'v) omap \<Rightarrow>
   (string, ('b, 'f, 'c, 'm) lifecycle_facts) omap \<Rightarrow> (string, ('b, 'f, 'c, 'm) lifecycle_facts) omap" where
  "add_facts upd m facts = fold (\<lambda>x facts. oset (fst x) (upd (snd x) (factsFor (fst x) facts)) facts) m facts"

definition collect_facts :: "('b, 'f, 'c, 'm) lifecycle_snapshot \<Rightarrow> (string, ('b, 'f, 'c, 'm) lifecycle_facts) omap" where
  "collect_facts s =
     add_facts (\<lambda>v. lf_activityClientSeq_update (\<lambda>_. Some v)) (ls_activityClientSeqs s)
      (add_facts (\<lambda>v. lf_runtimeErrorFingerprintFence_update (\<lambda>_. Some v)) (ls_runtimeErrorFingerprintFences s)
        (add_facts (\<lambda>v. lf_pendingSpawnCause_update (\<lambda>_. Some v)) (ls_pendingSpawnCauses s)
          (add_facts (\<lambda>v. lf_pendingStartRebind_update (\<lambda>_. Some v)) (ls_pendingStartRebinds s)
            (add_facts (\<lambda>v. lf_activeSpawnFailBackoff_update (\<lambda>_. Some v)) (ls_activeSpawnFailBackoffs s)
              (add_facts (\<lambda>v. lf_terminalFailure_update (\<lambda>_. Some v)) (ls_terminalFailures s)
                (add_facts (\<lambda>v. lf_restartSnapshot_update (\<lambda>_. Some v)) (ls_idleRestartSnapshots s)
                  (mention (ls_startingAgentIds s) (mention (ls_queuedAgentIds s) (mention (ls_runningAgentIds s) [])))))))))"

definition assertTerminalRecordFacts :: "string \<Rightarrow> ('b, 'f, 'c, 'm) lifecycle_facts \<Rightarrow> bool \<Rightarrow> string option" where
  "assertTerminalRecordFacts a f isRunning =
     (if isRunning then Some (''terminal failure while process is still registered for '' @ a)
      else if lf_restartSnapshot f \<noteq> None then Some (''terminal failure and idle restart config both present for '' @ a)
      else if lf_pendingStartRebind f \<noteq> None then Some (''terminal failure and pending start rebind both present for '' @ a)
      else None)"

text \<open>The body of the loop: an error, no record, or the record of the agent.\<close>

definition classify_agent ::
  "('b, 'f, 'c, 'm) lifecycle_snapshot \<Rightarrow> string \<Rightarrow> ('b, 'f, 'c, 'm) lifecycle_facts \<Rightarrow>
   string + ('b, 'f, 'c, 'm) lifecycle_record option" where
  "classify_agent s a f =
     (let running = a \<in> set (ls_runningAgentIds s); queued = a \<in> set (ls_queuedAgentIds s); starting = a \<in> set (ls_startingAgentIds s);
          fence = lf_runtimeErrorFingerprintFence f; seq = lf_activityClientSeq f
      in if queued \<and> starting then Inl (''queued and starting facts overlap for '' @ a)
         else case lf_terminalFailure f of
           Some failure \<Rightarrow>
             (case assertTerminalRecordFacts a f running of
                Some e \<Rightarrow> Inl e | None \<Rightarrow> Inr (Some (Record_terminal a failure fence seq)))
         | None \<Rightarrow>
             (case lf_activeSpawnFailBackoff f of
                Some b \<Rightarrow>
                  if running then Inl (''running process and active cooldown both present for '' @ a)
                  else (case lf_restartSnapshot f of
                          None \<Rightarrow> Inl (''active cooldown without restart config for '' @ a)
                        | Some snap \<Rightarrow> Inr (Some (Record_cooldown a snap b fence seq)))
              | None \<Rightarrow>
                  if running
                  then Inr (Some (Record_running a (lf_restartSnapshot f) (lf_pendingStartRebind f) (lf_pendingSpawnCause f) fence seq))
                  else if starting then Inr (Some (Record_starting a (lf_restartSnapshot f) (lf_pendingStartRebind f) seq))
                  else if queued then Inr (Some (Record_queued a (lf_restartSnapshot f) (lf_pendingStartRebind f) seq))
                  else Inr (map_option (\<lambda>snap. Record_idle a snap fence seq) (lf_restartSnapshot f))))"

fun build_records ::
  "('b, 'f, 'c, 'm) lifecycle_snapshot \<Rightarrow> (string, ('b, 'f, 'c, 'm) lifecycle_facts) omap \<Rightarrow>
   (string, ('b, 'f, 'c, 'm) lifecycle_record) omap \<Rightarrow> string + (string, ('b, 'f, 'c, 'm) lifecycle_record) omap" where
  "build_records s [] records = Inr records"
| "build_records s ((a, f) # facts) records =
     (case classify_agent s a f of
        Inl e \<Rightarrow> Inl e
      | Inr None \<Rightarrow> build_records s facts records
      | Inr (Some r) \<Rightarrow> build_records s facts (oset a r records))"

definition buildAgentLifecycleRecords ::
  "('b, 'f, 'c, 'm) lifecycle_snapshot \<Rightarrow> string + (string, ('b, 'f, 'c, 'm) lifecycle_record) omap" where
  "buildAgentLifecycleRecords s = build_records s (collect_facts s) []"

definition assertAgentLifecycleRecordInvariants :: "string \<Rightarrow> ('b, 'f, 'c, 'm) lifecycle_snapshot \<Rightarrow> string option" where
  "assertAgentLifecycleRecordInvariants ctx s =
     (case buildAgentLifecycleRecords s of
        Inl e \<Rightarrow> Some (''Agent lifecycle record invariant violation after '' @ ctx @ '': '' @ e)
      | Inr _ \<Rightarrow> None)"

end
