(* ===== verification/Lifecycle_Contract.thy ===== *)
theory Lifecycle_Contract
  imports Lifecycle_Record
begin

text \<open>
  The loops of \<open>agentLifecycleRecord.ts\<close> against a pointwise reference: the record of an agent is
  determined by what each map says about it, and the builder throws exactly when some agent's facts
  contradict each other.
\<close>

declare map_of_eq_Some_iff [simp del] Some_eq_map_of_iff [simp del]

section \<open>Facts\<close>

lemma odistinct_tail: "odistinct ((k, v) # m) \<Longrightarrow> oget m k = None"
  by (simp add: map_of_eq_None_iff)

lemma add_facts_get:
  "odistinct m \<Longrightarrow>
   oget (add_facts upd m facts) a = (case oget m a of None \<Rightarrow> oget facts a | Some v \<Rightarrow> Some (upd v (factsFor a facts)))"
proof (induction m arbitrary: facts)
  case (Cons x m)
  obtain k v where x: "x = (k, v)" by fastforce
  have n: "oget m k = None" using Cons.prems odistinct_tail [of k v m] by (simp add: x)
  have "add_facts upd (x # m) facts = add_facts upd m (oset k (upd v (factsFor k facts)) facts)" by (simp add: add_facts_def x)
  then show ?case
    using Cons.IH [of "oset k (upd v (factsFor k facts)) facts"] Cons.prems n
    by (auto simp: x map_specs factsFor_def split: option.splits)
qed (simp add: add_facts_def)

lemma mention_get: "oget (mention as facts) a = (if a \<in> set as then Some (factsFor a facts) else oget facts a)"
proof (induction as arbitrary: facts)
  case (Cons b as)
  have "mention (b # as) facts = mention as (oset b (factsFor b facts) facts)" by (simp add: mention_def)
  then show ?case using Cons.IH [of "oset b (factsFor b facts) facts"] by (auto simp: map_specs factsFor_def)
qed (simp add: mention_def)

lemma factsFor_simps:
  "odistinct m \<Longrightarrow> factsFor a (add_facts upd m facts) = (case oget m a of None \<Rightarrow> factsFor a facts | Some v \<Rightarrow> upd v (factsFor a facts))"
  "factsFor a (mention as facts) = factsFor a facts" "factsFor a [] = no_facts"
  by (auto simp: factsFor_def add_facts_get mention_get split: option.splits)

definition well_formed :: "('b, 'f, 'c, 'm) lifecycle_snapshot \<Rightarrow> bool" where
  "well_formed s \<longleftrightarrow>
     odistinct (ls_idleRestartSnapshots s) \<and> odistinct (ls_terminalFailures s) \<and> odistinct (ls_activeSpawnFailBackoffs s) \<and>
     odistinct (ls_pendingStartRebinds s) \<and> odistinct (ls_pendingSpawnCauses s) \<and>
     odistinct (ls_runtimeErrorFingerprintFences s) \<and> odistinct (ls_activityClientSeqs s)"

text \<open>The reference: what each map says about the agent.\<close>

definition facts_of :: "('b, 'f, 'c, 'm) lifecycle_snapshot \<Rightarrow> string \<Rightarrow> ('b, 'f, 'c, 'm) lifecycle_facts" where
  "facts_of s a =
     \<lparr>lf_restartSnapshot = oget (ls_idleRestartSnapshots s) a, lf_terminalFailure = oget (ls_terminalFailures s) a,
      lf_activeSpawnFailBackoff = oget (ls_activeSpawnFailBackoffs s) a,
      lf_pendingStartRebind = oget (ls_pendingStartRebinds s) a, lf_pendingSpawnCause = oget (ls_pendingSpawnCauses s) a,
      lf_runtimeErrorFingerprintFence = oget (ls_runtimeErrorFingerprintFences s) a,
      lf_activityClientSeq = oget (ls_activityClientSeqs s) a\<rparr>"

lemma collect_facts_for: "well_formed s \<Longrightarrow> factsFor a (collect_facts s) = facts_of s a"
  unfolding collect_facts_def well_formed_def facts_of_def
  by (simp add: factsFor_simps no_facts_def split: option.split)

text \<open>An agent without facts has the empty facts.\<close>

lemma collect_mentions:
  "well_formed s \<Longrightarrow> a \<in> set (ls_runningAgentIds s) \<or> a \<in> set (ls_queuedAgentIds s) \<or> a \<in> set (ls_startingAgentIds s) \<Longrightarrow>
   oget (collect_facts s) a \<noteq> None"
  unfolding collect_facts_def well_formed_def by (auto simp: add_facts_get mention_get split: option.split)

lemma collect_facts_get:
  assumes "well_formed s"
  shows "oget (collect_facts s) a = Some (facts_of s a) \<or> (oget (collect_facts s) a = None \<and> facts_of s a = no_facts \<and>
    a \<notin> set (ls_runningAgentIds s) \<and> a \<notin> set (ls_queuedAgentIds s) \<and> a \<notin> set (ls_startingAgentIds s))"
  using collect_facts_for [OF assms, of a] collect_mentions [OF assms, of a]
  by (cases "oget (collect_facts s) a") (auto simp: factsFor_def)

section \<open>Records\<close>

lemma distinct_add_facts: "odistinct facts \<Longrightarrow> odistinct (add_facts upd m facts)"
  unfolding add_facts_def by (induction m arbitrary: facts) (simp_all add: map_specs)

lemma distinct_mention: "odistinct facts \<Longrightarrow> odistinct (mention as facts)"
  unfolding mention_def by (induction as arbitrary: facts) (simp_all add: map_specs)

lemma collect_facts_distinct: "odistinct (collect_facts s)"
  by (simp add: collect_facts_def distinct_add_facts distinct_mention)

lemma build_records_throws:
  "isl (build_records s facts records) \<longleftrightarrow> (\<exists>a f. (a, f) \<in> set facts \<and> isl (classify_agent s a f))"
proof (induction s facts records rule: build_records.induct)
  case (2 s k f facts records)
  have "(\<exists>a g. (a, g) \<in> set ((k, f) # facts) \<and> isl (classify_agent s a g)) \<longleftrightarrow>
      isl (classify_agent s k f) \<or> (\<exists>a g. (a, g) \<in> set facts \<and> isl (classify_agent s a g))"
    by auto
  then show ?case using 2 by (cases "classify_agent s k f") (auto split: option.split)
qed simp

definition record_or :: "string + 'r option \<Rightarrow> 'r option \<Rightarrow> 'r option" where
  "record_or c d = (case c of Inr (Some r) \<Rightarrow> Some r | _ \<Rightarrow> d)"

lemma record_or_simps [simp]:
  "record_or (Inl e) d = d" "record_or (Inr None) d = d" "record_or (Inr (Some r)) d = Some r" "\<not> isl c \<Longrightarrow> Inr (record_or c None) = c"
  by (auto simp: record_or_def split: sum.split option.split)

lemma build_records_get:
  "odistinct facts \<Longrightarrow> build_records s facts records = Inr records' \<Longrightarrow>
   oget records' a = (case oget facts a of Some f \<Rightarrow> record_or (classify_agent s a f) (oget records a) | None \<Rightarrow> oget records a)"
proof (induction s facts records rule: build_records.induct)
  case (2 s k f facts records)
  have n: "oget facts k = None" "odistinct facts" using 2(3) odistinct_tail [of k f facts] by simp_all
  show ?case
  proof (cases "classify_agent s k f")
    case (Inl e)
    then show ?thesis using 2(4) by simp
  next
    case (Inr r)
    then show ?thesis using 2(1,2,4) n by (cases r; cases "a = k") (auto simp: map_specs split: option.split)
  qed
qed simp

text \<open>The reference record of an agent.\<close>

definition record_of :: "('b, 'f, 'c, 'm) lifecycle_snapshot \<Rightarrow> string \<Rightarrow> string + ('b, 'f, 'c, 'm) lifecycle_record option" where
  "record_of s a = classify_agent s a (facts_of s a)"

lemma record_of_no_facts:
  "facts_of s a = no_facts \<Longrightarrow> a \<notin> set (ls_runningAgentIds s) \<Longrightarrow> a \<notin> set (ls_queuedAgentIds s) \<Longrightarrow>
   a \<notin> set (ls_startingAgentIds s) \<Longrightarrow> record_of s a = Inr None"
  by (simp add: record_of_def classify_agent_def no_facts_def)

lemma lifecycle_throws:
  assumes "well_formed s"
  shows "isl (buildAgentLifecycleRecords s) \<longleftrightarrow> (\<exists>a. isl (record_of s a))"
proof -
  have "isl (buildAgentLifecycleRecords s) \<longleftrightarrow> (\<exists>a f. oget (collect_facts s) a = Some f \<and> isl (classify_agent s a f))"
    using om.entries_lookup [OF collect_facts_distinct, of _ _ s]
    by (simp add: buildAgentLifecycleRecords_def build_records_throws)
  also have "\<dots> \<longleftrightarrow> (\<exists>a. isl (record_of s a))"
    using collect_facts_get [OF assms] record_of_no_facts [of s]
    by (metis isl_def option.distinct(1) option.inject record_of_def sum.disc(2))
  finally show ?thesis .
qed

lemma lifecycle_get:
  assumes "well_formed s" "buildAgentLifecycleRecords s = Inr records"
  shows "record_of s a = Inr (oget records a)"
proof -
  have nt: "\<not> isl (record_of s a)" using lifecycle_throws [OF assms(1)] assms(2) by auto
  have "build_records s (collect_facts s) [] = Inr records" using assms(2) by (simp add: buildAgentLifecycleRecords_def)
  note g = build_records_get [OF collect_facts_distinct this, of a, unfolded map_of.simps]
  from collect_facts_get [OF assms(1), of a] show ?thesis
  proof
    assume "oget (collect_facts s) a = Some (facts_of s a)"
    then show ?thesis using g nt by (simp add: record_of_def)
  next
    assume "oget (collect_facts s) a = None \<and> facts_of s a = no_facts \<and> a \<notin> set (ls_runningAgentIds s) \<and>
      a \<notin> set (ls_queuedAgentIds s) \<and> a \<notin> set (ls_startingAgentIds s)"
    then show ?thesis using g record_of_no_facts [of s a] by simp
  qed
qed

text \<open>When the facts of an agent contradict each other.\<close>

lemma record_of_throws:
  "isl (record_of s a) \<longleftrightarrow>
     (a \<in> set (ls_queuedAgentIds s) \<and> a \<in> set (ls_startingAgentIds s)) \<or>
     (oget (ls_terminalFailures s) a \<noteq> None \<and>
       (a \<in> set (ls_runningAgentIds s) \<or> oget (ls_idleRestartSnapshots s) a \<noteq> None \<or> oget (ls_pendingStartRebinds s) a \<noteq> None)) \<or>
     (oget (ls_terminalFailures s) a = None \<and> oget (ls_activeSpawnFailBackoffs s) a \<noteq> None \<and>
       (a \<in> set (ls_runningAgentIds s) \<or> oget (ls_idleRestartSnapshots s) a = None))"
  by (auto simp: record_of_def classify_agent_def facts_of_def assertTerminalRecordFacts_def Let_def split: option.split)

end
