(* ===== verification/Residency.thy ===== *)
theory Residency
  imports Lifecycle_Contract
begin

text \<open>
  \<open>packages/daemon/src/agentNoProcessResidency.ts\<close> and its use in \<open>agentProcessManager.ts\<close>: the facts about
  agents without a process, the assertion over all of them, the repair that runs before it, and the rows
  that record when an agent enters and leaves a residency. \<open>randomUUID()\<close> is an argument of the
  transition that needs it. The clock is a sequence of readings: each snapshot the check takes reads it
  again.
\<close>

section \<open>The assertion\<close>

record residency_snapshot =
  rn_running :: "string list"
  rn_queued :: "string list"
  rn_starting :: "string list"
  rn_idle :: "string list"
  rn_terminal :: "string list"
  rn_activeCooldown :: "string list"
  rn_fence :: "string list"
  rn_pending :: "string list"

definition allowedStartPendingSnapshot :: "residency_snapshot \<Rightarrow> start_snapshot" where
  "allowedStartPendingSnapshot s =
     \<lparr>ss_queued = rn_queued s, ss_starting = rn_starting s, ss_terminalRecovery = rn_terminal s,
      ss_cooldown = filter (\<lambda>a. a \<in> set (rn_idle s)) (rn_activeCooldown s)\<rparr>"

definition allowed_agents :: "start_snapshot \<Rightarrow> string list" where
  "allowed_agents s = ss_queued s @ ss_starting s @ ss_terminalRecovery s @ ss_cooldown s"

definition assert_cooldown :: "residency_snapshot \<Rightarrow> string option" where
  "assert_cooldown s =
     map_option (\<lambda>a. ''active cooldown without restart config for '' @ a) (find (\<lambda>a. a \<notin> set (rn_idle s)) (rn_activeCooldown s))"

definition assert_terminal :: "residency_snapshot \<Rightarrow> string option" where
  "assert_terminal s =
     map_option
       (\<lambda>a. if a \<in> set (rn_idle s) then ''terminal failure and idle restart config both present for '' @ a
            else ''terminal failure while process is still registered for '' @ a)
       (find (\<lambda>a. a \<in> set (rn_idle s) \<or> a \<in> set (rn_running s)) (rn_terminal s))"

definition assert_pending :: "residency_snapshot \<Rightarrow> string option" where
  "assert_pending s =
     map_option (\<lambda>a. ''pending delivery without queued/starting/terminal/cooldown residency for '' @ a)
       (find (\<lambda>a. a \<notin> set (allowed_agents (allowedStartPendingSnapshot s))) (rn_pending s))"

definition assert_fence :: "residency_snapshot \<Rightarrow> string option" where
  "assert_fence s =
     map_option (\<lambda>a. ''fingerprint fence without running process, idle retry config, or terminal failure for '' @ a)
       (find (\<lambda>a. a \<notin> set (rn_running s) \<and> a \<notin> set (rn_idle s) \<and> a \<notin> set (rn_terminal s)) (rn_fence s))"

definition assert_queued :: "residency_snapshot \<Rightarrow> string option" where
  "assert_queued s =
     map_option (\<lambda>a. ''queued and starting facts overlap for '' @ a) (find (\<lambda>a. a \<in> set (rn_starting s)) (rn_queued s))"

definition first_error :: "string option list \<Rightarrow> string option" where
  "first_error es = (case filter (\<lambda>e. e \<noteq> None) es of [] \<Rightarrow> None | e # _ \<Rightarrow> e)"

definition assertResidencyInvariants :: "string \<Rightarrow> residency_snapshot \<Rightarrow> string option" where
  "assertResidencyInvariants ctx s =
     map_option (\<lambda>e. ''Agent no-process residency invariant violation after '' @ ctx @ '': '' @ e)
       (first_error [assert_cooldown s, assert_terminal s, assert_pending s, assert_fence s, assert_queued s])"

section \<open>Rows\<close>

datatype residency_state = Queued_start | Starting_process | Spawn_fail_cooldown | Terminal_runtime_error

datatype close_result = Close_advanced | Close_terminal | Close_suppressed | Close_evicted | Close_lineage_failed | Close_timeout

record residency_identity =
  id_agentId :: string
  id_agentLaunchId :: string
  id_agentLaunchIdPresent :: bool
  id_serverId :: string
  id_machineId :: string
  id_runtime :: string
  id_driver :: string
  id_launchSource :: string

record residency_enter =
  en_identity :: residency_identity
  en_state :: residency_state
  en_isWaitState :: bool
  en_fenceKind :: "string option"
  en_deadlineUnixMs :: "int option"
  en_failureKind :: "string option"
  en_negativeEvidenceBucket :: "string option"

record residency_close =
  cl_closeResult :: close_result
  cl_failureKind :: "string option"
  cl_negativeEvidenceBucket :: "string option"

text \<open>A residency that is open: what was entered, and the id of this instance.\<close>

record open_residency =
  or_enter :: residency_enter
  or_stateInstanceId :: string

datatype transition_kind = Row_enter | Row_close close_result

record residency_row =
  rr_identity :: residency_identity
  rr_stateInstanceId :: string
  rr_transitionSeq :: nat
  rr_kind :: transition_kind
  rr_state :: residency_state
  rr_isWaitState :: bool
  rr_fenceKind :: "string option"
  rr_deadlineUnixMs :: "int option"
  rr_failureKind :: "string option"
  rr_negativeEvidenceBucket :: "string option"

record residency_transitions =
  rt_open :: "(string, open_residency) omap"
  rt_transitionSeq :: nat

definition new_transitions :: residency_transitions where
  "new_transitions = \<lparr>rt_open = [], rt_transitionSeq = 0\<rparr>"

definition first_given :: "'a option \<Rightarrow> 'a option \<Rightarrow> 'a option" where
  "first_given x y = (case x of None \<Rightarrow> y | Some v \<Rightarrow> Some v)"

definition base_row :: "open_residency \<Rightarrow> transition_kind \<Rightarrow> string option \<Rightarrow> string option \<Rightarrow> nat \<Rightarrow> residency_row" where
  "base_row open' kind failureKind evidence seq =
     \<lparr>rr_identity = en_identity (or_enter open'), rr_stateInstanceId = or_stateInstanceId open', rr_transitionSeq = seq, rr_kind = kind,
      rr_state = en_state (or_enter open'), rr_isWaitState = en_isWaitState (or_enter open'),
      rr_fenceKind = en_fenceKind (or_enter open'), rr_deadlineUnixMs = en_deadlineUnixMs (or_enter open'),
      rr_failureKind = failureKind, rr_negativeEvidenceBucket = evidence\<rparr>"

definition enterRow :: "open_residency \<Rightarrow> nat \<Rightarrow> residency_row" where
  "enterRow open' seq = base_row open' Row_enter (en_failureKind (or_enter open')) (en_negativeEvidenceBucket (or_enter open')) seq"

definition closeRow :: "open_residency \<Rightarrow> residency_close \<Rightarrow> nat \<Rightarrow> residency_row" where
  "closeRow open' i seq =
     base_row open' (Row_close (cl_closeResult i)) (first_given (cl_failureKind i) (en_failureKind (or_enter open')))
       (first_given (cl_negativeEvidenceBucket i) (en_negativeEvidenceBucket (or_enter open'))) seq"

definition enter_residency :: "string \<Rightarrow> residency_enter \<Rightarrow> residency_transitions \<Rightarrow> residency_row list \<times> residency_transitions" where
  "enter_residency uuid i t =
     (let a = id_agentId (en_identity i); existing = oget (rt_open t) a
      in if (case existing of None \<Rightarrow> False
             | Some o' \<Rightarrow> en_state (or_enter o') = en_state i \<and>
                 id_agentLaunchId (en_identity (or_enter o')) = id_agentLaunchId (en_identity i))
         then ([], t)
         else
           let rows = (case existing of None \<Rightarrow> []
                 | Some o' \<Rightarrow> [closeRow o' \<lparr>cl_closeResult = Close_advanced, cl_failureKind = None, cl_negativeEvidenceBucket = None\<rparr>
                     (rt_transitionSeq t + 1)]);
               seq = rt_transitionSeq t + length rows + 1;
               current = \<lparr>or_enter = i, or_stateInstanceId = uuid\<rparr>
           in (rows @ [enterRow current seq], \<lparr>rt_open = oset a current (rt_open t), rt_transitionSeq = seq\<rparr>))"

definition close_residency :: "string \<Rightarrow> residency_close \<Rightarrow> residency_transitions \<Rightarrow> residency_row list \<times> residency_transitions" where
  "close_residency a i t =
     (case oget (rt_open t) a of
        None \<Rightarrow> ([], t)
      | Some o' \<Rightarrow>
          ([closeRow o' i (rt_transitionSeq t + 1)],
           \<lparr>rt_open = odel a (rt_open t), rt_transitionSeq = rt_transitionSeq t + 1\<rparr>))"

text \<open>The manager adds the evidence of a missing launch id.\<close>

definition enterNoProcessResidency ::
  "string \<Rightarrow> residency_enter \<Rightarrow> residency_transitions \<Rightarrow> residency_row list \<times> residency_transitions" where
  "enterNoProcessResidency uuid i t =
     enter_residency uuid
       (if id_agentLaunchIdPresent (en_identity i) then i
        else i\<lparr>en_failureKind := first_given (en_failureKind i) (Some ''missing_launch_id''),
               en_negativeEvidenceBucket := first_given (en_negativeEvidenceBucket i) (Some ''missing_launch_id'')\<rparr>) t"

section \<open>The check of the manager\<close>

record ('b, 'f, 'c, 'm) residency_manager =
  rm_running :: "string list"
  rm_starts :: "('c, 'm) coordinator"
  rm_records :: "('b, 'f, 'c, 'm) lifecycle_records"
  rm_buffer :: "'m pending_map"

definition noProcessResidencySnapshot :: "('b \<Rightarrow> int) \<Rightarrow> int \<Rightarrow> ('b, 'f, 'c, 'm) residency_manager \<Rightarrow> residency_snapshot" where
  "noProcessResidencySnapshot untilMs now s =
     \<lparr>rn_running = rm_running s, rn_queued = cs_queuedAgentIds (start_snapshot_of (rm_starts s)),
      rn_starting = cs_startingAgentIds (start_snapshot_of (rm_starts s)),
      rn_idle = map fst (lr_idleRestartSnapshots (rm_records s)), rn_terminal = map fst (lr_terminalFailures (rm_records s)),
      rn_activeCooldown = activeSpawnFailBackoffAgentIds now (\<lambda>b t. t < untilMs b) (rm_records s),
      rn_fence = map fst (lr_runtimeErrorFingerprintFences (rm_records s)), rn_pending = agentIds (rm_buffer s)\<rparr>"

definition agentLifecycleRecordSnapshot ::
  "('b \<Rightarrow> int) \<Rightarrow> int \<Rightarrow> ('b, 'f, 'c, 'm) residency_manager \<Rightarrow> ('b, 'f, 'c, 'm) lifecycle_snapshot" where
  "agentLifecycleRecordSnapshot untilMs now s =
     lifecycle_snapshot_of (rm_running s) (cs_queuedAgentIds (start_snapshot_of (rm_starts s)))
       (cs_startingAgentIds (start_snapshot_of (rm_starts s))) now (\<lambda>b t. t < untilMs b) (rm_records s)"

definition reset_fence_if_nonresident :: "string \<Rightarrow> ('b, 'f, 'c, 'm) residency_manager \<Rightarrow> ('b, 'f, 'c, 'm) residency_manager" where
  "reset_fence_if_nonresident a s =
     (if a \<in> set (rm_running s) \<or> oget (lr_idleRestartSnapshots (rm_records s)) a \<noteq> None \<or>
         oget (lr_terminalFailures (rm_records s)) a \<noteq> None then s
      else s\<lparr>rm_records := snd (deleteRuntimeErrorFingerprintFence a (rm_records s))\<rparr>)"

definition repairNonresidentRuntimeErrorFingerprintFences :: "('b, 'f, 'c, 'm) residency_manager \<Rightarrow> ('b, 'f, 'c, 'm) residency_manager" where
  "repairNonresidentRuntimeErrorFingerprintFences s =
     fold reset_fence_if_nonresident (map fst (lr_runtimeErrorFingerprintFences (rm_records s))) s"

definition retire_terminal :: "string list \<Rightarrow> string \<Rightarrow> ('b, 'f, 'c, 'm) residency_manager \<Rightarrow> ('b, 'f, 'c, 'm) residency_manager" where
  "retire_terminal idle a s = (if a \<notin> set idle then s else s\<lparr>rm_records := snd (deleteTerminalFailure a (rm_records s))\<rparr>)"

text \<open>The buffers of agents without residency are dropped one after the other; a drop may throw.\<close>

fun drop_orphans ::
  "string list \<Rightarrow> string list \<Rightarrow> ('b, 'f, 'c, 'm) residency_manager \<Rightarrow> string option \<times> ('b, 'f, 'c, 'm) residency_manager" where
  "drop_orphans allowed [] s = (None, s)"
| "drop_orphans allowed (a # as) s =
     (if a \<in> set allowed then drop_orphans allowed as s
      else case cancelStart a (rm_buffer s) of
             (Inl e, p) \<Rightarrow> (Some e, s\<lparr>rm_buffer := p\<rparr>)
           | (Inr _, p) \<Rightarrow> drop_orphans allowed as (s\<lparr>rm_buffer := p\<rparr>))"

definition repairNoProcessResidency ::
  "('b \<Rightarrow> int) \<Rightarrow> (nat \<Rightarrow> int) \<Rightarrow> ('b, 'f, 'c, 'm) residency_manager \<Rightarrow> string option \<times> ('b, 'f, 'c, 'm) residency_manager" where
  "repairNoProcessResidency untilMs clock s =
     (let snap = noProcessResidencySnapshot untilMs (clock 0) s;
          s = fold (retire_terminal (rn_idle snap)) (rn_terminal snap) s;
          allowed = allowed_agents (allowedStartPendingSnapshot (noProcessResidencySnapshot untilMs (clock 1) s))
      in drop_orphans allowed (agentIds (rm_buffer s)) s)"

definition assertStartPendingDeliveryInvariants ::
  "string \<Rightarrow> ('b \<Rightarrow> int) \<Rightarrow> (nat \<Rightarrow> int) \<Rightarrow> ('b, 'f, 'c, 'm) residency_manager \<Rightarrow>
   string option \<times> ('b, 'f, 'c, 'm) residency_manager" where
  "assertStartPendingDeliveryInvariants ctx untilMs clock s =
     (case repairNoProcessResidency untilMs clock (repairNonresidentRuntimeErrorFingerprintFences s) of
        (Some e, s') \<Rightarrow> (Some e, s')
      | (None, s') \<Rightarrow>
          let snap = noProcessResidencySnapshot untilMs (clock 2) s'
          in (first_error
                [assertResidencyInvariants ctx snap,
                 assertAgentLifecycleRecordInvariants ctx (agentLifecycleRecordSnapshot untilMs (clock 3) s'),
                 assertInvariants ctx (allowedStartPendingSnapshot snap) (rm_buffer s')], s'))"

end
