(* ===== verification/Residency_Properties.thy ===== *)
theory Residency_Properties
  imports Residency
begin

text \<open>
  The check over the residency facts fails exactly on the contradictions that the repair cannot remove, and
  the rows of the residencies pair: every instance is entered once and closed at most once, afterwards.
\<close>

declare map_of_eq_Some_iff [simp del] Some_eq_map_of_iff [simp del]

section \<open>The repair\<close>

lemma delete_filter: "odel a m = filter (\<lambda>x. fst x \<noteq> a) m"
  by (induction m) auto

definition resident :: "('b, 'f, 'c, 'm) residency_manager \<Rightarrow> string \<Rightarrow> bool" where
  "resident s a \<longleftrightarrow>
     a \<in> set (rm_running s) \<or> oget (lr_idleRestartSnapshots (rm_records s)) a \<noteq> None \<or> oget (lr_terminalFailures (rm_records s)) a \<noteq> None"

lemma reset_fences:
  "fold reset_fence_if_nonresident as s =
     s\<lparr>rm_records := (rm_records s)\<lparr>lr_runtimeErrorFingerprintFences :=
        filter (\<lambda>x. fst x \<notin> set as \<or> resident s (fst x)) (lr_runtimeErrorFingerprintFences (rm_records s))\<rparr>\<rparr>"
proof (induction as arbitrary: s)
  case (Cons a as)
  let ?s = "reset_fence_if_nonresident a s"
  have r: "resident ?s x = resident s x" for x
    by (simp add: resident_def reset_fence_if_nonresident_def deleteRuntimeErrorFingerprintFence_def)
  have f: "lr_runtimeErrorFingerprintFences (rm_records ?s) =
      filter (\<lambda>x. fst x \<noteq> a \<or> resident s a) (lr_runtimeErrorFingerprintFences (rm_records s))"
    by (auto simp: resident_def reset_fence_if_nonresident_def deleteRuntimeErrorFingerprintFence_def delete_filter filter_id_conv)
  have e: "?s\<lparr>rm_records := (rm_records ?s)\<lparr>lr_runtimeErrorFingerprintFences := fs\<rparr>\<rparr> =
      s\<lparr>rm_records := (rm_records s)\<lparr>lr_runtimeErrorFingerprintFences := fs\<rparr>\<rparr>" for fs
    by (simp add: reset_fence_if_nonresident_def deleteRuntimeErrorFingerprintFence_def)
  have "filter (\<lambda>x. fst x \<notin> set as \<or> resident s (fst x)) (filter (\<lambda>x. fst x \<noteq> a \<or> resident s a) (lr_runtimeErrorFingerprintFences (rm_records s))) =
      filter (\<lambda>x. fst x \<notin> set (a # as) \<or> resident s (fst x)) (lr_runtimeErrorFingerprintFences (rm_records s))"
    by (auto simp: filter_filter intro: filter_cong)
  then show ?case by (simp add: Cons.IH r f e)
qed simp

lemma retire_terminals:
  "fold (retire_terminal idle) as s =
     s\<lparr>rm_records := (rm_records s)\<lparr>lr_terminalFailures :=
        filter (\<lambda>x. fst x \<notin> set as \<or> fst x \<notin> set idle) (lr_terminalFailures (rm_records s))\<rparr>\<rparr>"
proof (induction as arbitrary: s)
  case (Cons a as)
  let ?s = "retire_terminal idle a s"
  have f: "lr_terminalFailures (rm_records ?s) = filter (\<lambda>x. fst x \<noteq> a \<or> a \<notin> set idle) (lr_terminalFailures (rm_records s))"
    by (auto simp: retire_terminal_def deleteTerminalFailure_def delete_filter filter_id_conv)
  have e: "?s\<lparr>rm_records := (rm_records ?s)\<lparr>lr_terminalFailures := fs\<rparr>\<rparr> = s\<lparr>rm_records := (rm_records s)\<lparr>lr_terminalFailures := fs\<rparr>\<rparr>" for fs
    by (simp add: retire_terminal_def deleteTerminalFailure_def)
  have "filter (\<lambda>x. fst x \<notin> set as \<or> fst x \<notin> set idle) (filter (\<lambda>x. fst x \<noteq> a \<or> a \<notin> set idle) (lr_terminalFailures (rm_records s))) =
      filter (\<lambda>x. fst x \<notin> set (a # as) \<or> fst x \<notin> set idle) (lr_terminalFailures (rm_records s))"
    by (auto simp: filter_filter intro: filter_cong)
  then show ?case by (simp add: Cons.IH f e)
qed simp

lemma drop_orphans_ok:
  "pending_inv (rm_buffer s) \<Longrightarrow>
   drop_orphans allowed as s = (None, s\<lparr>rm_buffer := filter (\<lambda>x. fst x \<in> set allowed \<or> fst x \<notin> set as) (rm_buffer s)\<rparr>)"
proof (induction as arbitrary: s)
  case (Cons a as)
  show ?case
  proof (cases "a \<in> set allowed")
    case True
    have "filter (\<lambda>x. fst x \<in> set allowed \<or> fst x \<notin> set as) (rm_buffer s) =
        filter (\<lambda>x. fst x \<in> set allowed \<or> fst x \<notin> set (a # as)) (rm_buffer s)"
      using True by (intro filter_cong) auto
    then show ?thesis using True Cons.IH [OF Cons.prems] by simp
  next
    case False
    have c: "cancelStart a (rm_buffer s) = (Inr (), odel a (rm_buffer s))" by (rule cancel_ok(1) [OF Cons.prems])
    have "pending_inv (rm_buffer (s\<lparr>rm_buffer := odel a (rm_buffer s)\<rparr>))" using pending_inv_odel [OF Cons.prems] by simp
    from Cons.IH [OF this] have "drop_orphans allowed (a # as) s =
        (None, s\<lparr>rm_buffer := filter (\<lambda>x. fst x \<in> set allowed \<or> fst x \<notin> set as) (odel a (rm_buffer s))\<rparr>)"
      using False c by simp
    moreover have "filter (\<lambda>x. fst x \<in> set allowed \<or> fst x \<notin> set as) (odel a (rm_buffer s)) =
        filter (\<lambda>x. fst x \<in> set allowed \<or> fst x \<notin> set (a # as)) (rm_buffer s)"
      using False unfolding delete_filter filter_filter by (intro filter_cong) auto
    ultimately show ?thesis by simp
  qed
qed simp

section \<open>When the check passes\<close>

lemma first_error_None: "first_error es = None \<longleftrightarrow> (\<forall>e\<in>set es. e = None)"
  by (induction es) (auto simp: first_error_def)

lemma find_None: "find P xs = None \<longleftrightarrow> (\<forall>x\<in>set xs. \<not> P x)"
  by (induction xs) auto

lemma assertResidency_None:
  "assertResidencyInvariants ctx s = None \<longleftrightarrow>
     (\<forall>a\<in>set (rn_activeCooldown s). a \<in> set (rn_idle s)) \<and>
     (\<forall>a\<in>set (rn_terminal s). a \<notin> set (rn_idle s) \<and> a \<notin> set (rn_running s)) \<and>
     (\<forall>a\<in>set (rn_pending s). a \<in> set (allowed_agents (allowedStartPendingSnapshot s))) \<and>
     (\<forall>a\<in>set (rn_fence s). a \<in> set (rn_running s) \<or> a \<in> set (rn_idle s) \<or> a \<in> set (rn_terminal s)) \<and>
     (\<forall>a\<in>set (rn_queued s). a \<notin> set (rn_starting s))"
  by (auto simp: assertResidencyInvariants_def first_error_None assert_cooldown_def assert_terminal_def assert_pending_def
      assert_fence_def assert_queued_def find_None)

text \<open>The readings of the clock during one check agree on which cooldowns are over.\<close>

definition steady :: "('b \<Rightarrow> int) \<Rightarrow> (nat \<Rightarrow> int) \<Rightarrow> ('b, 'f, 'c, 'm) residency_manager \<Rightarrow> bool" where
  "steady untilMs clock s \<longleftrightarrow>
     (\<forall>i. \<forall>x\<in>set (lr_activeSpawnFailBackoffs (rm_records s)). clock i < untilMs (snd x) \<longleftrightarrow> clock 0 < untilMs (snd x))"

definition manager_facts :: "('b, 'f, 'c, 'm) residency_manager \<Rightarrow> bool" where
  "manager_facts s \<longleftrightarrow>
     odistinct (lr_idleRestartSnapshots (rm_records s)) \<and> odistinct (lr_terminalFailures (rm_records s)) \<and>
     odistinct (lr_activeSpawnFailBackoffs (rm_records s)) \<and> odistinct (lr_pendingStartRebinds (rm_records s)) \<and>
     odistinct (lr_pendingSpawnCauses (rm_records s)) \<and> odistinct (lr_runtimeErrorFingerprintFences (rm_records s)) \<and>
     odistinct (lr_activityClientSeqs (rm_records s)) \<and> pending_inv (rm_buffer s)"

abbreviation idle_agents :: "('b, 'f, 'c, 'm) residency_manager \<Rightarrow> string set" where
  "idle_agents s \<equiv> fst ` set (lr_idleRestartSnapshots (rm_records s))"

text \<open>Terminal failures that the repair keeps, and cooldowns that are running.\<close>

definition stuck_agents :: "('b, 'f, 'c, 'm) residency_manager \<Rightarrow> string set" where
  "stuck_agents s = fst ` set (lr_terminalFailures (rm_records s)) - idle_agents s"

definition cooling_agents :: "('b \<Rightarrow> int) \<Rightarrow> int \<Rightarrow> ('b, 'f, 'c, 'm) residency_manager \<Rightarrow> string set" where
  "cooling_agents untilMs now s = set (activeSpawnFailBackoffAgentIds now (\<lambda>b t. t < untilMs b) (rm_records s))"

definition waiting_agents :: "('b \<Rightarrow> int) \<Rightarrow> int \<Rightarrow> ('b, 'f, 'c, 'm) residency_manager \<Rightarrow> string set" where
  "waiting_agents untilMs now s =
     fst ` set (sc_queuedByAgent (rm_starts s)) \<union> set (sc_starting (rm_starts s)) \<union> stuck_agents s \<union>
     (cooling_agents untilMs now s \<inter> idle_agents s)"

text \<open>The state the repair leaves.\<close>

definition repaired_records :: "('b, 'f, 'c, 'm) residency_manager \<Rightarrow> ('b, 'f, 'c, 'm) lifecycle_records" where
  "repaired_records s =
     (rm_records s)\<lparr>lr_terminalFailures := filter (\<lambda>x. fst x \<notin> idle_agents s) (lr_terminalFailures (rm_records s)),
        lr_runtimeErrorFingerprintFences := filter (\<lambda>x. resident s (fst x)) (lr_runtimeErrorFingerprintFences (rm_records s))\<rparr>"

lemma cooling_fields:
  assumes "steady untilMs clock s" "lr_activeSpawnFailBackoffs l = lr_activeSpawnFailBackoffs (rm_records s)"
  shows "activeSpawnFailBackoffAgentIds (clock i) (\<lambda>b t. t < untilMs b) l =
    activeSpawnFailBackoffAgentIds (clock 0) (\<lambda>b t. t < untilMs b) (rm_records s)"
  unfolding activeSpawnFailBackoffAgentIds_def assms(2)
  by (rule arg_cong [of _ _ "map fst"], rule filter_cong [OF refl], rule assms(1) [unfolded steady_def, rule_format])

lemma in_keys_iff: "a \<in> fst ` set m \<longleftrightarrow> oget m a \<noteq> None"
  by (induction m) auto

lemma repair_result:
  assumes st: "steady untilMs clock s" and f: "manager_facts s"
  shows "repairNoProcessResidency untilMs clock (repairNonresidentRuntimeErrorFingerprintFences s) =
    (None, s\<lparr>rm_records := repaired_records s,
       rm_buffer := filter (\<lambda>x. fst x \<in> waiting_agents untilMs (clock 0) s) (rm_buffer s)\<rparr>)"
proof -
  let ?fences = "filter (\<lambda>x. resident s (fst x)) (lr_runtimeErrorFingerprintFences (rm_records s))"
  let ?s1 = "s\<lparr>rm_records := (rm_records s)\<lparr>lr_runtimeErrorFingerprintFences := ?fences\<rparr>\<rparr>"
  have s1: "repairNonresidentRuntimeErrorFingerprintFences s = ?s1"
    by (simp add: repairNonresidentRuntimeErrorFingerprintFences_def reset_fences cong: filter_cong)
  let ?s2 = "s\<lparr>rm_records := repaired_records s\<rparr>"
  have s2: "fold (retire_terminal (map fst (lr_idleRestartSnapshots (rm_records s)))) (map fst (lr_terminalFailures (rm_records s))) ?s1 = ?s2"
  proof -
    have "filter (\<lambda>x. fst x \<notin> set (map fst (lr_terminalFailures (rm_records s))) \<or>
          fst x \<notin> set (map fst (lr_idleRestartSnapshots (rm_records s)))) (lr_terminalFailures (rm_records s)) =
        filter (\<lambda>x. fst x \<notin> idle_agents s) (lr_terminalFailures (rm_records s))"
      by (intro filter_cong) auto
    then show ?thesis by (simp add: retire_terminals repaired_records_def)
  qed
  have allowed: "set (allowed_agents (allowedStartPendingSnapshot (noProcessResidencySnapshot untilMs (clock 1) ?s2))) =
      waiting_agents untilMs (clock 0) s"
  proof -
    have "lr_activeSpawnFailBackoffs (repaired_records s) = lr_activeSpawnFailBackoffs (rm_records s)" by (simp add: repaired_records_def)
    note c = cooling_fields [OF st this, of 1]
    have t: "set (map fst (lr_terminalFailures (repaired_records s))) = stuck_agents s"
      by (force simp: repaired_records_def stuck_agents_def)
    have i: "set (map fst (lr_idleRestartSnapshots (repaired_records s))) = idle_agents s" by (simp add: repaired_records_def)
    show ?thesis
      unfolding allowed_agents_def allowedStartPendingSnapshot_def noProcessResidencySnapshot_def waiting_agents_def cooling_agents_def
        start_snapshot_of_def
      using c t i by auto
  qed
  have p: "pending_inv (rm_buffer ?s2)" using f by (simp add: manager_facts_def)
  have "filter (\<lambda>x. fst x \<in> waiting_agents untilMs (clock 0) s \<or> fst x \<notin> set (agentIds (rm_buffer s))) (rm_buffer s) =
      filter (\<lambda>x. fst x \<in> waiting_agents untilMs (clock 0) s) (rm_buffer s)"
    by (auto simp: agentIds_def intro!: filter_cong)
  then show ?thesis
    using drop_orphans_ok [OF p] allowed s2
    by (simp add: s1 repairNoProcessResidency_def Let_def noProcessResidencySnapshot_def)
qed


text \<open>The contradictions that are left for the assertions: what no repair touches.\<close>

definition residency_clean :: "('b \<Rightarrow> int) \<Rightarrow> int \<Rightarrow> ('b, 'f, 'c, 'm) residency_manager \<Rightarrow> bool" where
  "residency_clean untilMs now s \<longleftrightarrow>
     cooling_agents untilMs now s \<subseteq> idle_agents s - set (rm_running s) \<and>
     stuck_agents s \<inter> (set (rm_running s) \<union> fst ` set (lr_pendingStartRebinds (rm_records s))) = {} \<and>
     fst ` set (sc_queuedByAgent (rm_starts s)) \<inter> set (sc_starting (rm_starts s)) = {}"

definition repaired :: "('b \<Rightarrow> int) \<Rightarrow> int \<Rightarrow> ('b, 'f, 'c, 'm) residency_manager \<Rightarrow> ('b, 'f, 'c, 'm) residency_manager" where
  "repaired untilMs now s =
     s\<lparr>rm_records := repaired_records s, rm_buffer := filter (\<lambda>x. fst x \<in> waiting_agents untilMs now s) (rm_buffer s)\<rparr>"

lemma repaired_snapshot:
  assumes "steady untilMs clock s"
  shows "set (rn_activeCooldown (noProcessResidencySnapshot untilMs (clock i) (repaired untilMs (clock 0) s))) = cooling_agents untilMs (clock 0) s"
    "set (rn_terminal (noProcessResidencySnapshot untilMs (clock i) (repaired untilMs (clock 0) s))) = stuck_agents s"
    "set (rn_idle (noProcessResidencySnapshot untilMs (clock i) (repaired untilMs (clock 0) s))) = idle_agents s"
    "rn_running (noProcessResidencySnapshot untilMs (clock i) (repaired untilMs (clock 0) s)) = rm_running s"
    "set (rn_queued (noProcessResidencySnapshot untilMs (clock i) (repaired untilMs (clock 0) s))) = fst ` set (sc_queuedByAgent (rm_starts s))"
    "set (rn_starting (noProcessResidencySnapshot untilMs (clock i) (repaired untilMs (clock 0) s))) = set (sc_starting (rm_starts s))"
    "set (rn_fence (noProcessResidencySnapshot untilMs (clock i) (repaired untilMs (clock 0) s))) =
      {a \<in> fst ` set (lr_runtimeErrorFingerprintFences (rm_records s)). resident s a}"
    "set (rn_pending (noProcessResidencySnapshot untilMs (clock i) (repaired untilMs (clock 0) s))) =
      {a \<in> fst ` set (rm_buffer s). a \<in> waiting_agents untilMs (clock 0) s}"
proof -
  have b: "lr_activeSpawnFailBackoffs (rm_records (repaired untilMs (clock 0) s)) = lr_activeSpawnFailBackoffs (rm_records s)"
    by (simp add: repaired_def repaired_records_def)
  show "set (rn_activeCooldown (noProcessResidencySnapshot untilMs (clock i) (repaired untilMs (clock 0) s))) = cooling_agents untilMs (clock 0) s"
    by (simp add: noProcessResidencySnapshot_def cooling_agents_def cooling_fields [OF assms b])
  show "set (rn_terminal (noProcessResidencySnapshot untilMs (clock i) (repaired untilMs (clock 0) s))) = stuck_agents s"
    by (force simp: noProcessResidencySnapshot_def repaired_def repaired_records_def stuck_agents_def)
  show "set (rn_fence (noProcessResidencySnapshot untilMs (clock i) (repaired untilMs (clock 0) s))) =
      {a \<in> fst ` set (lr_runtimeErrorFingerprintFences (rm_records s)). resident s a}"
    by (force simp: noProcessResidencySnapshot_def repaired_def repaired_records_def)
  show "set (rn_pending (noProcessResidencySnapshot untilMs (clock i) (repaired untilMs (clock 0) s))) =
      {a \<in> fst ` set (rm_buffer s). a \<in> waiting_agents untilMs (clock 0) s}"
    by (force simp: noProcessResidencySnapshot_def repaired_def agentIds_def)
qed (simp_all add: noProcessResidencySnapshot_def repaired_def repaired_records_def start_snapshot_of_def)

lemma allowed_set: "set (allowed_agents (allowedStartPendingSnapshot r)) =
    set (rn_queued r) \<union> set (rn_starting r) \<union> set (rn_terminal r) \<union> (set (rn_activeCooldown r) \<inter> set (rn_idle r))"
  by (auto simp: allowed_agents_def allowedStartPendingSnapshot_def)

lemma resident_iff: "resident s a \<longleftrightarrow> a \<in> set (rm_running s) \<union> idle_agents s \<union> fst ` set (lr_terminalFailures (rm_records s))"
  by (simp add: resident_def in_keys_iff)

lemma residency_sets:
  assumes "T \<inter> I = {}" "F \<subseteq> R \<union> I \<union> T"
  shows "(\<forall>a\<in>C. a \<in> I) \<and> (\<forall>a\<in>T. a \<notin> I \<and> a \<notin> R) \<and> (\<forall>a\<in>{a \<in> P. a \<in> Q \<union> S \<union> T \<union> (C \<inter> I)}. a \<in> Q \<union> S \<union> T \<union> (C \<inter> I)) \<and>
    (\<forall>a\<in>F. a \<in> R \<or> a \<in> I \<or> a \<in> T) \<and> (\<forall>a\<in>Q. a \<notin> S) \<longleftrightarrow> C \<subseteq> I \<and> T \<inter> R = {} \<and> Q \<inter> S = {}"
proof -
  have "(\<forall>a\<in>T. a \<notin> I \<and> a \<notin> R) \<longleftrightarrow> T \<inter> R = {}" using assms(1) by blast
  moreover have "\<forall>a\<in>F. a \<in> R \<or> a \<in> I \<or> a \<in> T" using assms(2) by blast
  moreover have "(\<forall>a\<in>C. a \<in> I) \<longleftrightarrow> C \<subseteq> I" "(\<forall>a\<in>Q. a \<notin> S) \<longleftrightarrow> Q \<inter> S = {}" by blast+
  ultimately show ?thesis by simp
qed

lemma lifecycle_sets:
  assumes "T \<inter> I = {}"
  shows "\<not> (\<exists>a. (a \<in> Q \<and> a \<in> S) \<or> (a \<in> T \<and> (a \<in> R \<or> a \<in> I \<or> a \<in> B)) \<or> (\<not> a \<in> T \<and> a \<in> C \<and> (a \<in> R \<or> \<not> a \<in> I))) \<longleftrightarrow>
    Q \<inter> S = {} \<and> T \<inter> (R \<union> B) = {} \<and> C - T \<subseteq> I - R"
  using assms by auto

lemma clean_sets:
  assumes "T \<inter> I = {}"
  shows "(C \<subseteq> I \<and> T \<inter> R = {} \<and> Q \<inter> S = {}) \<and> (Q \<inter> S = {} \<and> T \<inter> (R \<union> B) = {} \<and> C - T \<subseteq> I - R) \<longleftrightarrow>
    C \<subseteq> I - R \<and> T \<inter> (R \<union> B) = {} \<and> Q \<inter> S = {}"
  using assms by blast

lemma repaired_residency:
  assumes "steady untilMs clock s"
  shows "assertResidencyInvariants ctx (noProcessResidencySnapshot untilMs (clock i) (repaired untilMs (clock 0) s)) = None \<longleftrightarrow>
    cooling_agents untilMs (clock 0) s \<subseteq> idle_agents s \<and> stuck_agents s \<inter> set (rm_running s) = {} \<and>
    fst ` set (sc_queuedByAgent (rm_starts s)) \<inter> set (sc_starting (rm_starts s)) = {}"
proof -
  have d: "stuck_agents s \<inter> idle_agents s = {}" by (auto simp: stuck_agents_def)
  have f: "{a \<in> fst ` set (lr_runtimeErrorFingerprintFences (rm_records s)). resident s a} \<subseteq> set (rm_running s) \<union> idle_agents s \<union> stuck_agents s"
    by (auto simp: resident_iff stuck_agents_def)
  show ?thesis
    unfolding assertResidency_None allowed_set repaired_snapshot [OF assms] waiting_agents_def by (rule residency_sets [OF d f])
qed

lemma repaired_lifecycle:
  assumes st: "steady untilMs clock s" and f: "manager_facts s"
  shows "assertAgentLifecycleRecordInvariants ctx (agentLifecycleRecordSnapshot untilMs (clock i) (repaired untilMs (clock 0) s)) = None \<longleftrightarrow>
    fst ` set (sc_queuedByAgent (rm_starts s)) \<inter> set (sc_starting (rm_starts s)) = {} \<and>
    stuck_agents s \<inter> (set (rm_running s) \<union> fst ` set (lr_pendingStartRebinds (rm_records s))) = {} \<and>
    (cooling_agents untilMs (clock 0) s - stuck_agents s) \<subseteq> idle_agents s - set (rm_running s)"
proof -
  let ?r = "repaired untilMs (clock 0) s"
  let ?s = "agentLifecycleRecordSnapshot untilMs (clock i) ?r"
  have w: "well_formed ?s"
    using f by (simp add: well_formed_def manager_facts_def agentLifecycleRecordSnapshot_def lifecycle_snapshot_of_def repaired_def
        repaired_records_def distinct_map_filter)
  have b: "lr_activeSpawnFailBackoffs (rm_records ?r) = lr_activeSpawnFailBackoffs (rm_records s)" by (simp add: repaired_def repaired_records_def)
  have "map fst (ls_activeSpawnFailBackoffs ?s) = activeSpawnFailBackoffAgentIds (clock i) (\<lambda>b t. t < untilMs b) (rm_records ?r)"
    by (simp add: agentLifecycleRecordSnapshot_def lifecycle_snapshot_of_def activeSpawnFailBackoffAgentIds_def)
  then have c: "fst ` set (ls_activeSpawnFailBackoffs ?s) = cooling_agents untilMs (clock 0) s"
    unfolding cooling_agents_def cooling_fields [OF st b, symmetric, of i] by (metis set_map)
  have t: "fst ` set (ls_terminalFailures ?s) = stuck_agents s"
    by (force simp: agentLifecycleRecordSnapshot_def lifecycle_snapshot_of_def repaired_def repaired_records_def stuck_agents_def)
  have r: "ls_runningAgentIds ?s = rm_running s" "set (ls_queuedAgentIds ?s) = fst ` set (sc_queuedByAgent (rm_starts s))"
    "set (ls_startingAgentIds ?s) = set (sc_starting (rm_starts s))" "fst ` set (ls_idleRestartSnapshots ?s) = idle_agents s"
    "ls_pendingStartRebinds ?s = lr_pendingStartRebinds (rm_records s)"
    by (simp_all add: agentLifecycleRecordSnapshot_def lifecycle_snapshot_of_def repaired_def repaired_records_def start_snapshot_of_def)
  have "assertAgentLifecycleRecordInvariants ctx ?s = None \<longleftrightarrow> \<not> isl (buildAgentLifecycleRecords ?s)"
    by (simp add: assertAgentLifecycleRecordInvariants_def split: sum.split)
  also have "\<dots> \<longleftrightarrow> \<not> (\<exists>a. (a \<in> set (ls_queuedAgentIds ?s) \<and> a \<in> set (ls_startingAgentIds ?s)) \<or>
      (a \<in> fst ` set (ls_terminalFailures ?s) \<and> (a \<in> set (ls_runningAgentIds ?s) \<or> a \<in> fst ` set (ls_idleRestartSnapshots ?s) \<or>
        a \<in> fst ` set (ls_pendingStartRebinds ?s))) \<or>
      (\<not> a \<in> fst ` set (ls_terminalFailures ?s) \<and> a \<in> fst ` set (ls_activeSpawnFailBackoffs ?s) \<and>
        (a \<in> set (ls_runningAgentIds ?s) \<or> \<not> a \<in> fst ` set (ls_idleRestartSnapshots ?s))))"
    unfolding lifecycle_throws [OF w] record_of_throws in_keys_iff not_not ..
  finally show ?thesis
    unfolding c t r by (rule trans [OF _ lifecycle_sets]) (auto simp: stuck_agents_def)
qed

lemma repaired_buffer:
  assumes st: "steady untilMs clock s" and f: "manager_facts s"
  shows "assertInvariants ctx (allowedStartPendingSnapshot (noProcessResidencySnapshot untilMs (clock i) (repaired untilMs (clock 0) s)))
    (rm_buffer (repaired untilMs (clock 0) s)) = None"
proof -
  let ?s = "allowedStartPendingSnapshot (noProcessResidencySnapshot untilMs (clock i) (repaired untilMs (clock 0) s))"
  let ?p = "rm_buffer (repaired untilMs (clock 0) s)"
  have a: "set (allowed_agents ?s) = waiting_agents untilMs (clock 0) s"
    unfolding allowed_set repaired_snapshot [OF st] waiting_agents_def by blast
  have p: "pending_inv ?p" using f by (auto simp: repaired_def manager_facts_def pending_inv_def distinct_map_filter)
  have "find (\<lambda>a. a \<notin> set (allowed_agents ?s)) (map fst ?p) = None"
    unfolding find_None a by (simp add: repaired_def)
  then show ?thesis using assertInternal_ok [OF p] by (simp add: assertInvariants_def allowed_agents_def)
qed

text \<open>
  C15. The residency check after an operation of the manager (clock readings that agree on which cooldowns
  are over, maps without duplicate keys): it never throws for anything the repairs can remove. A fence of an
  agent without process, restart configuration or terminal failure is deleted, a terminal failure next to a
  restart configuration is retired in favour of the configuration, the buffered deliveries of exactly the
  agents without a queued start, a starting process, a terminal failure or a running cooldown with a
  restart configuration are dropped, nothing else changes, and then the three assertions pass exactly when
  every cooldown belongs to an agent with a restart configuration and no process, no remaining terminal
  failure belongs to an agent with a process or a pending rebind, and no agent is queued and starting.
\<close>

theorem residency_check_fails_exactly:
  assumes "steady untilMs clock s" "manager_facts s"
  shows "(fst (assertStartPendingDeliveryInvariants ctx untilMs clock s) = None \<longleftrightarrow> residency_clean untilMs (clock 0) s) \<and>
    snd (assertStartPendingDeliveryInvariants ctx untilMs clock s) = repaired untilMs (clock 0) s"
proof -
  have e: "repairNoProcessResidency untilMs clock (repairNonresidentRuntimeErrorFingerprintFences s) = (None, repaired untilMs (clock 0) s)"
    using repair_result [OF assms] by (simp add: repaired_def)
  have "fst (assertStartPendingDeliveryInvariants ctx untilMs clock s) = None \<longleftrightarrow>
      (cooling_agents untilMs (clock 0) s \<subseteq> idle_agents s \<and> stuck_agents s \<inter> set (rm_running s) = {} \<and>
        fst ` set (sc_queuedByAgent (rm_starts s)) \<inter> set (sc_starting (rm_starts s)) = {}) \<and>
      (fst ` set (sc_queuedByAgent (rm_starts s)) \<inter> set (sc_starting (rm_starts s)) = {} \<and>
        stuck_agents s \<inter> (set (rm_running s) \<union> fst ` set (lr_pendingStartRebinds (rm_records s))) = {} \<and>
        (cooling_agents untilMs (clock 0) s - stuck_agents s) \<subseteq> idle_agents s - set (rm_running s))"
    unfolding assertStartPendingDeliveryInvariants_def e
    by (simp add: Let_def first_error_None repaired_residency [OF assms(1)] repaired_lifecycle [OF assms] repaired_buffer [OF assms] conj_ac)
  also have "\<dots> \<longleftrightarrow> residency_clean untilMs (clock 0) s"
    unfolding residency_clean_def by (rule clean_sets) (auto simp: stuck_agents_def)
  finally show ?thesis by (simp add: assertStartPendingDeliveryInvariants_def e Let_def)
qed

section \<open>A check\<close>

text \<open>
  Agent a waits for its cooldown with a buffered delivery, b has a terminal failure next to a restart
  configuration, c a buffered delivery without residency, d a fence without residency. The backoff of an
  agent is the time at which it ends.
\<close>

definition sample_config :: "nat restart_snapshot" where
  "sample_config = \<lparr>rs_config = 0, rs_sessionId = None, rs_launchId = None, rs_processInstanceId = None\<rparr>"

definition sample_manager :: "(int, nat, nat, nat) residency_manager" where
  "sample_manager =
     \<lparr>rm_running = [''r''], rm_starts = new_coordinator 3 500,
      rm_records = new_records\<lparr>lr_idleRestartSnapshots := [(''a'', sample_config), (''b'', sample_config)],
         lr_terminalFailures := [(''b'', \<lparr>tf_detail = ''failed'', tf_launchId = None\<rparr>)],
         lr_activeSpawnFailBackoffs := [(''a'', 2000)], lr_runtimeErrorFingerprintFences := [(''d'', 1), (''r'', 2)]\<rparr>,
      rm_buffer = [(''a'', [1]), (''c'', [2])]\<rparr>"

lemma sample_manager_facts: "manager_facts sample_manager"
  by (simp add: manager_facts_def sample_manager_def new_records_def pending_inv_def)

theorem residency_check_fails_exactly_witness:
  "fst (assertStartPendingDeliveryInvariants ''test'' id (\<lambda>_. 1500) sample_manager) = None \<and>
   rm_buffer (snd (assertStartPendingDeliveryInvariants ''test'' id (\<lambda>_. 1500) sample_manager)) = [(''a'', [1])] \<and>
   lr_terminalFailures (rm_records (snd (assertStartPendingDeliveryInvariants ''test'' id (\<lambda>_. 1500) sample_manager))) = []"
proof -
  have "steady id (\<lambda>_. 1500) sample_manager" by (simp add: steady_def)
  note r = residency_check_fails_exactly [OF this sample_manager_facts, of "''test''"]
  have "residency_clean id 1500 sample_manager" by code_simp
  moreover have "rm_buffer (repaired id 1500 sample_manager) = [(''a'', [1])]" by code_simp
  moreover have "lr_terminalFailures (rm_records (repaired id 1500 sample_manager)) = []" by code_simp
  ultimately show ?thesis using r by simp
qed

text \<open>
  A delivery buffered during a cooldown is lost to a check that reads the clock after the end of the cooldown
  and before its timer ran; readings that lie on both sides of the end make the check throw.
\<close>

lemma expired_cooldown_drops_buffer:
  "rm_buffer (snd (assertStartPendingDeliveryInvariants ''test'' id (\<lambda>_. 2000) sample_manager)) = []"
  by code_simp

lemma cooldown_end_between_readings_throws:
  "fst (assertStartPendingDeliveryInvariants ''test'' id (\<lambda>i. if i \<le> 1 then 1999 else 2000) sample_manager) \<noteq> None"
  by code_simp

end
