(* ===== verification/Residency_Rows.thy ===== *)
theory Residency_Rows
  imports Residency
begin

text \<open>
  The rows that the residencies of \<open>agentNoProcessResidency.ts\<close> write, read back by an observer that only has
  the rows: it finds every residency entered once and closed at most once, afterwards and under the same
  identity, and what it still holds open is what the daemon holds open.
\<close>

declare map_of_eq_Some_iff [simp del] Some_eq_map_of_iff [simp del]

section \<open>The observer\<close>

type_synonym open_rows = "string \<Rightarrow> residency_row option"

definition row_step :: "residency_row \<Rightarrow> open_rows \<Rightarrow> open_rows option" where
  "row_step r m =
     (let a = id_agentId (rr_identity r)
      in case rr_kind r of
           Row_enter \<Rightarrow> if m a = None then Some (m(a \<mapsto> r)) else None
         | Row_close c \<Rightarrow>
             (case m a of
                None \<Rightarrow> None
              | Some e \<Rightarrow>
                  if rr_identity e = rr_identity r \<and> rr_stateInstanceId e = rr_stateInstanceId r \<and> rr_state e = rr_state r \<and>
                     rr_transitionSeq e < rr_transitionSeq r
                  then Some (m(a := None)) else None))"

fun replay_rows :: "residency_row list \<Rightarrow> open_rows \<Rightarrow> open_rows option" where
  "replay_rows [] m = Some m"
| "replay_rows (r # rows) m = Option.bind (row_step r m) (replay_rows rows)"

lemma replay_append: "replay_rows (rs @ rs') m = Option.bind (replay_rows rs m) (replay_rows rs')"
  by (induction rs arbitrary: m) (auto split: bind_split)

definition entered :: "residency_row list \<Rightarrow> string list" where
  "entered rows = map rr_stateInstanceId (filter (\<lambda>r. rr_kind r = Row_enter) rows)"

lemma entered_simps [simp]: "entered [] = []" "entered (rs @ rs') = entered rs @ entered rs'"
  "entered (enterRow o' n # rs) = or_stateInstanceId o' # entered rs" "entered (closeRow o' i n # rs) = entered rs"
  by (simp_all add: entered_def enterRow_def closeRow_def base_row_def)

section \<open>Runs\<close>

text \<open>\<open>randomUUID\<close> returns an id that names no earlier residency.\<close>

inductive residency_run :: "residency_transitions \<Rightarrow> residency_row list \<Rightarrow> bool" where
  run_start: "residency_run new_transitions []"
| run_enter: "residency_run t log \<Longrightarrow> uuid \<notin> set (entered log) \<Longrightarrow>
    residency_run (snd (enterNoProcessResidency uuid i t)) (log @ fst (enterNoProcessResidency uuid i t))"
| run_close: "residency_run t log \<Longrightarrow> residency_run (snd (close_residency a i t)) (log @ fst (close_residency a i t))"

text \<open>The row that opened a residency, as the observer holds it.\<close>

definition opened_by :: "residency_transitions \<Rightarrow> open_residency \<Rightarrow> residency_row \<Rightarrow> bool" where
  "opened_by t o' r \<longleftrightarrow> rr_transitionSeq r \<le> rt_transitionSeq t \<and> r = enterRow o' (rr_transitionSeq r)"

definition rows_inv :: "residency_transitions \<Rightarrow> residency_row list \<Rightarrow> bool" where
  "rows_inv t log \<longleftrightarrow>
     map rr_transitionSeq log = [1..<Suc (rt_transitionSeq t)] \<and> distinct (entered log) \<and>
     (\<forall>a o'. oget (rt_open t) a = Some o' \<longrightarrow> id_agentId (en_identity (or_enter o')) = a) \<and>
     (\<exists>m. replay_rows log Map.empty = Some m \<and> (\<forall>a. rel_option (opened_by t) (oget (rt_open t) a) (m a)))"

lemma row_fields [simp]:
  "rr_transitionSeq (enterRow o' n) = n" "rr_transitionSeq (closeRow o' i n) = n"
  "rr_identity (enterRow o' n) = en_identity (or_enter o')" "rr_identity (closeRow o' i n) = en_identity (or_enter o')"
  "rr_kind (enterRow o' n) = Row_enter" "rr_kind (closeRow o' i n) = Row_close (cl_closeResult i)"
  "rr_state (enterRow o' n) = en_state (or_enter o')" "rr_state (closeRow o' i n) = en_state (or_enter o')"
  "rr_stateInstanceId (enterRow o' n) = or_stateInstanceId o'" "rr_stateInstanceId (closeRow o' i n) = or_stateInstanceId o'"
  by (simp_all add: enterRow_def closeRow_def base_row_def)

lemma rel_option_opened:
  assumes "rel_option (opened_by t) x y" "rt_transitionSeq t \<le> rt_transitionSeq t'"
  shows "rel_option (opened_by t') x y"
  using assms(1) by (rule option.rel_mono_strong) (use assms(2) in \<open>auto simp: opened_by_def\<close>)

text \<open>Closing what is open, and opening what is not.\<close>

lemma close_step:
  assumes "rows_inv t log" "oget (rt_open t) a = Some o'"
  shows "rows_inv \<lparr>rt_open = odel a (rt_open t), rt_transitionSeq = rt_transitionSeq t + 1\<rparr>
    (log @ [closeRow o' i (rt_transitionSeq t + 1)])"
proof -
  let ?t = "\<lparr>rt_open = odel a (rt_open t), rt_transitionSeq = rt_transitionSeq t + 1\<rparr>"
  obtain m where m: "replay_rows log Map.empty = Some m" "\<forall>a. rel_option (opened_by t) (oget (rt_open t) a) (m a)"
    using assms(1) by (auto simp: rows_inv_def)
  have "rel_option (opened_by t) (Some o') (m a)" using m(2) assms(2) by metis
  then obtain r where r: "m a = Some r" "opened_by t o' r" by (auto simp: option_rel_Some1)
  have e: "rr_identity r = en_identity (or_enter o')" "rr_stateInstanceId r = or_stateInstanceId o'" "rr_state r = en_state (or_enter o')"
    "rr_transitionSeq r \<le> rt_transitionSeq t"
    using r(2) unfolding opened_by_def by (metis row_fields)+
  have id: "id_agentId (en_identity (or_enter o')) = a" using assms by (simp add: rows_inv_def)
  have "row_step (closeRow o' i (rt_transitionSeq t + 1)) m = Some (m(a := None))"
    using r(1) e id by (simp add: row_step_def)
  then have "replay_rows (log @ [closeRow o' i (rt_transitionSeq t + 1)]) Map.empty = Some (m(a := None))"
    using m(1) by (simp add: replay_append)
  moreover have "rel_option (opened_by ?t) (oget (rt_open ?t) b) ((m(a := None)) b)" for b
    using rel_option_opened [OF m(2) [rule_format, of b], of ?t] by (simp add: map_specs)
  ultimately show ?thesis using assms(1) by (auto simp: rows_inv_def map_specs split: if_splits)
qed

lemma open_step:
  assumes "rows_inv t log" "oget (rt_open t) (id_agentId (en_identity i)) = None" "uuid \<notin> set (entered log)"
  shows "rows_inv \<lparr>rt_open = oset (id_agentId (en_identity i)) \<lparr>or_enter = i, or_stateInstanceId = uuid\<rparr> (rt_open t),
      rt_transitionSeq = rt_transitionSeq t + 1\<rparr>
    (log @ [enterRow \<lparr>or_enter = i, or_stateInstanceId = uuid\<rparr> (rt_transitionSeq t + 1)])"
proof -
  let ?a = "id_agentId (en_identity i)" and ?o = "\<lparr>or_enter = i, or_stateInstanceId = uuid\<rparr>"
  let ?t = "\<lparr>rt_open = oset ?a ?o (rt_open t), rt_transitionSeq = rt_transitionSeq t + 1\<rparr>"
  let ?r = "enterRow ?o (rt_transitionSeq t + 1)"
  obtain m where m: "replay_rows log Map.empty = Some m" "\<forall>a. rel_option (opened_by t) (oget (rt_open t) a) (m a)"
    using assms(1) by (auto simp: rows_inv_def)
  have "rel_option (opened_by t) None (m ?a)" using m(2) assms(2) by metis
  then have "row_step ?r m = Some (m(?a \<mapsto> ?r))" by (simp add: row_step_def)
  then have "replay_rows (log @ [?r]) Map.empty = Some (m(?a \<mapsto> ?r))" using m(1) by (simp add: replay_append)
  moreover have "rel_option (opened_by ?t) (oget (rt_open ?t) b) ((m(?a \<mapsto> ?r)) b)" for b
    using rel_option_opened [OF m(2) [rule_format, of b], of ?t] by (simp add: map_specs opened_by_def)
  ultimately show ?thesis using assms(1,3) by (auto simp: rows_inv_def map_specs split: if_splits)
qed

lemma rows_inv_cong:
  assumes "rows_inv t log" "\<And>a. oget (rt_open t') a = oget (rt_open t) a" "rt_transitionSeq t' = rt_transitionSeq t"
  shows "rows_inv t' log"
proof -
  have "opened_by t' = opened_by t" by (intro ext) (simp add: opened_by_def assms(3))
  then show ?thesis using assms by (simp add: rows_inv_def)
qed

lemma enter_inv:
  assumes "rows_inv t log" "uuid \<notin> set (entered log)"
  shows "rows_inv (snd (enter_residency uuid i t)) (log @ fst (enter_residency uuid i t))"
proof (cases "oget (rt_open t) (id_agentId (en_identity i))")
  case None
  then show ?thesis using open_step [OF assms(1) None assms(2)] by (simp add: enter_residency_def Let_def)
next
  case (Some o')
  let ?a = "id_agentId (en_identity i)"
  let ?c = "\<lparr>cl_closeResult = Close_advanced, cl_failureKind = None, cl_negativeEvidenceBucket = None\<rparr>"
  note c = close_step [OF assms(1) Some, of ?c]
  let ?t = "\<lparr>rt_open = odel ?a (rt_open t), rt_transitionSeq = rt_transitionSeq t + 1\<rparr>"
  let ?log = "log @ [closeRow o' ?c (rt_transitionSeq t + 1)]"
  have "oget (rt_open ?t) ?a = None" "uuid \<notin> set (entered ?log)" using assms(2) by (simp_all add: map_specs)
  note o = open_step [OF c this]
  show ?thesis
  proof (cases "en_state (or_enter o') = en_state i \<and> id_agentLaunchId (en_identity (or_enter o')) = id_agentLaunchId (en_identity i)")
    case True
    then show ?thesis using assms(1) Some by (simp add: enter_residency_def Let_def)
  next
    case False
    have "rows_inv (snd (enter_residency uuid i t)) (?log @ [enterRow \<lparr>or_enter = i, or_stateInstanceId = uuid\<rparr> (rt_transitionSeq ?t + 1)])"
      by (rule rows_inv_cong [OF o]) (use False Some in \<open>auto simp: enter_residency_def Let_def map_specs\<close>)
    then show ?thesis using False Some by (auto simp: enter_residency_def Let_def)
  qed
qed

lemma enter_manager_inv:
  assumes "rows_inv t log" "uuid \<notin> set (entered log)"
  shows "rows_inv (snd (enterNoProcessResidency uuid i t)) (log @ fst (enterNoProcessResidency uuid i t))"
  unfolding enterNoProcessResidency_def by (rule enter_inv [OF assms])

lemma close_inv:
  assumes "rows_inv t log"
  shows "rows_inv (snd (close_residency a i t)) (log @ fst (close_residency a i t))"
proof (cases "oget (rt_open t) a")
  case (Some o')
  then show ?thesis using close_step [OF assms Some, of i] by (simp add: close_residency_def)
qed (simp add: close_residency_def assms)

lemma residency_run_inv: "residency_run t log \<Longrightarrow> rows_inv t log"
proof (induction rule: residency_run.induct)
  case run_start
  show ?case by (simp add: rows_inv_def new_transitions_def)
qed (rule enter_manager_inv close_inv; assumption)+

section \<open>What the rows say\<close>

text \<open>
  C16. An observer that reads the residency rows of any run, in order, never meets an enter of an agent that it
  holds open or a close without its enter (same residency, identity and state, a smaller sequence number);
  at the end it holds open exactly what the daemon holds open, as entered; the sequence numbers are
  1, 2, 3, ... without gaps, and no residency is entered twice.
\<close>

theorem residency_rows_replay:
  assumes "residency_run t log"
  shows "map rr_transitionSeq log = [1..<Suc (rt_transitionSeq t)] \<and> distinct (entered log) \<and>
    (\<exists>m. replay_rows log Map.empty = Some m \<and>
      (\<forall>a. map_option (\<lambda>o'. enterRow o' 0) (oget (rt_open t) a) = map_option (\<lambda>r. r\<lparr>rr_transitionSeq := 0\<rparr>) (m a)))"
proof -
  have z: "(enterRow o' n)\<lparr>rr_transitionSeq := 0\<rparr> = enterRow o' 0" for o' n by (simp add: enterRow_def base_row_def)
  have "rel_option (opened_by t) x y \<Longrightarrow> map_option (\<lambda>o'. enterRow o' 0) x = map_option (\<lambda>r. r\<lparr>rr_transitionSeq := 0\<rparr>) y" for x y
    by (auto simp: rel_option_iff opened_by_def z split: option.splits) (metis z)
  then show ?thesis using residency_run_inv [OF assms] unfolding rows_inv_def by metis
qed

section \<open>A run\<close>

definition sample_identity :: "string \<Rightarrow> bool \<Rightarrow> residency_identity" where
  "sample_identity a present =
     \<lparr>id_agentId = a, id_agentLaunchId = ''l1'', id_agentLaunchIdPresent = present, id_serverId = ''s'', id_machineId = ''m'',
      id_runtime = ''claude'', id_driver = ''claude'', id_launchSource = ''explicit_start''\<rparr>"

definition sample_enter :: "string \<Rightarrow> residency_state \<Rightarrow> bool \<Rightarrow> residency_enter" where
  "sample_enter a st present =
     \<lparr>en_identity = sample_identity a present, en_state = st, en_isWaitState = True, en_fenceKind = None, en_deadlineUnixMs = Some 10,
      en_failureKind = None, en_negativeEvidenceBucket = None\<rparr>"

text \<open>A queued start that advances to a starting process and ends, beside another agent's queued start.\<close>

definition sample_enters :: "(string \<times> residency_enter) list" where
  "sample_enters = [(''u1'', sample_enter ''a'' Queued_start True), (''u2'', sample_enter ''b'' Queued_start False),
     (''u3'', sample_enter ''a'' Starting_process True)]"

definition enter_all :: "(string \<times> residency_enter) list \<Rightarrow> residency_row list \<times> residency_transitions" where
  "enter_all es =
     fold (\<lambda>(uuid, i) (log, t). (log @ fst (enterNoProcessResidency uuid i t), snd (enterNoProcessResidency uuid i t))) es
       ([], new_transitions)"

lemma sample_rows_run: "residency_run (snd (enter_all sample_enters)) (fst (enter_all sample_enters))"
proof -
  let ?f = "\<lambda>k. enter_all (take k sample_enters)"
  have "residency_run (snd (?f 0)) (fst (?f 0))" using run_start by (simp add: enter_all_def)
  moreover have "residency_run (snd (?f k)) (fst (?f k)) \<Longrightarrow> k < 3 \<Longrightarrow> fst (sample_enters ! k) \<notin> set (entered (fst (?f k))) \<Longrightarrow>
      residency_run (snd (?f (Suc k))) (fst (?f (Suc k)))" for k
    using run_enter [of "snd (?f k)" "fst (?f k)" "fst (sample_enters ! k)" "snd (sample_enters ! k)"]
    by (simp add: enter_all_def take_Suc_conv_app_nth sample_enters_def [THEN arg_cong [of _ _ length]] split_beta)
  moreover have "fst (sample_enters ! 0) \<notin> set (entered (fst (?f 0)))" "fst (sample_enters ! 1) \<notin> set (entered (fst (?f 1)))"
    "fst (sample_enters ! 2) \<notin> set (entered (fst (?f 2)))"
    by code_simp+
  ultimately have "residency_run (snd (?f 3)) (fst (?f 3))" by (simp add: numeral_3_eq_3 numeral_2_eq_2)
  then show ?thesis by (simp add: sample_enters_def)
qed

theorem residency_rows_replay_witness:
  "length (fst (enter_all sample_enters)) = 4 \<and> map rr_transitionSeq (fst (enter_all sample_enters)) = [1, 2, 3, 4] \<and>
   distinct (entered (fst (enter_all sample_enters)))"
proof -
  have "rt_transitionSeq (snd (enter_all sample_enters)) = 4" "length (fst (enter_all sample_enters)) = 4" by code_simp+
  then show ?thesis using residency_rows_replay [OF sample_rows_run] by (simp add: upt_rec)
qed

end
