(* ===== verification/Sha256_Roots.thy ===== *)
theory Sha256_Roots
  imports Complex_Main Sha256_Constants
begin

text \<open>
  The integers that \<open>Sha256_Constants\<close> computes are the first 32 bits of the fractional parts of the real roots.
\<close>

lemma root_fraction_real:
  assumes "0 < k" "0 \<le> p" "p < 2 ^ (9 * k)"
  shows "root_fraction k p = \<lfloor>2 ^ 32 * frac (root k (real_of_int p))\<rfloor>"
proof -
  define m where "m = root_bits k (p * 2 ^ (32 * k)) 41 0"
  define r where "r = root k (real_of_int p)"
  have m: "0 \<le> m" "m ^ k \<le> p * 2 ^ (32 * k)" "p * 2 ^ (32 * k) < (m + 1) ^ k"
    using root_bits_root [OF assms] by (simp_all add: m_def)
  have r: "0 \<le> r" "r ^ k = real_of_int p" using assms by (simp_all add: r_def)
  then have pw: "(2 ^ 32 * r) ^ k = real_of_int (p * 2 ^ (32 * k))" by (simp only: power_mult_distrib of_int_mult of_int_power of_int_numeral power_mult mult.commute [of _ "r ^ k"]) (rule mult.commute)
  have "real_of_int (m ^ k) \<le> (2 ^ 32 * r) ^ k" unfolding pw using m(2) by (simp only: of_int_le_iff)
  then have "\<not> (2 ^ 32 * r) ^ k < real_of_int m ^ k" by (simp only: of_int_power not_less)
  moreover have "0 \<le> 2 ^ 32 * r" using r(1) by simp
  ultimately have lo: "real_of_int m \<le> 2 ^ 32 * r"
    using power_strict_mono [of "2 ^ 32 * r" "real_of_int m" k] assms(1) not_less by blast
  have "(2 ^ 32 * r) ^ k < real_of_int ((m + 1) ^ k)" unfolding pw using m(3) by (simp only: of_int_less_iff)
  then have hi: "2 ^ 32 * r < real_of_int m + 1" using m(1) power_less_imp_less_base [of "2 ^ 32 * r" k "real_of_int m + 1"] by simp
  have fl: "\<lfloor>2 ^ 32 * frac r\<rfloor> = m - 2 ^ 32 * \<lfloor>r\<rfloor>"
    using lo hi by (intro floor_unique) (simp_all add: frac_def algebra_simps)
  have "0 \<le> \<lfloor>2 ^ 32 * frac r\<rfloor>" "\<lfloor>2 ^ 32 * frac r\<rfloor> < 2 ^ 32"
    using frac_ge_0 [of r] frac_lt_1 [of r] by (simp_all add: floor_less_iff)
  then have "m mod 2 ^ 32 = \<lfloor>2 ^ 32 * frac r\<rfloor>" unfolding fl by (metis mod_pos_pos_trivial mod_mult_self4 diff_add_cancel add.commute mult.commute mod_mult_self2)
  then show ?thesis by (simp add: root_fraction_def m_def r_def)
qed

end
