(* ===== verification/Spec2Isabelle.thy ===== *)
theory Spec2Isabelle
  imports Sync_Properties Machine_Properties Runner_Properties Version_Order Apm_Properties
    Inbox_Properties Seen_Properties Event_Buffer_Properties Gate_Theorems Start_Properties
    Residency_Properties Residency_Rows Sha256_Roots
begin

text \<open>
  \<^bold>\<open>A verification development of raft-source.\<close>

  raft-source is a workspace in which people and agents share channels. A server stores messages and
  pushes changes; web clients keep replicas of them; on every machine a computer service supervises
  one daemon per server, and the daemon runs the agents and decides when their side effects may
  reach the server. The repository keeps the decisions of these parts in pure TypeScript modules
  that the surrounding I/O code calls. This development models those modules and proves what they
  promise. File names below are relative to \<open>src/packages\<close>.

  \<^bold>\<open>Parts and theories.\<close>

  \<^item> Sync core (\<open>sync-core/src\<close>). A client replica: versioned frames, snapshots and difference pages
    for a set of scopes arrive in any order, and gaps become requests. \<open>Sync_UInt64\<close> is
    \<open>uint64.ts\<close> (decimal counters of any size), \<open>Sync_Violations\<close> is \<open>violations.ts\<close> (the ring
    buffer of producer violations), \<open>Sync_Core\<close> is \<open>core.ts\<close> and \<open>types.ts\<close>: the state is the record
    \<open>core\<close>, and \<open>ingestFrame\<close>, \<open>ingestSnapshot\<close>, \<open>ingestDifference\<close> and the readers have the names
    of the source. \<open>Sync_Activity\<close> and \<open>Sync_Read_State\<close> are the two domains of \<open>domains/\<close>.
    \<open>Sync_Convergence\<close>, \<open>Sync_Repair\<close>, \<open>Sync_Catchup\<close> and \<open>Sync_Activity_Register\<close> hold the lemmas
    (reduction to one scope, request bookkeeping, the answers that bring a scope to the producer's head
    and end its repair, rows as last-writer-wins registers), \<open>Sync_Properties\<close> the properties.
  \<^item> Machine operation (\<open>computer/src\<close>). The replacement of a running service is a durable record that
    several processes advance. \<open>Machine_Convergence\<close> is the reducer of
    \<open>machineConvergenceReducer.ts\<close> with one definition per event; \<open>Machine_Store\<close> is the
    compare-and-swap store and the worker loop of \<open>machineOperationStore.ts\<close> and
    \<open>machineOperationRuntime.ts\<close>, the loop split at its awaits so that workers interleave;
    \<open>Machine_Safety\<close> has the invariant of reachable records, \<open>Machine_Properties\<close> the properties.
  \<^item> Runner supervision (\<open>computer/src\<close>). \<open>Runner_Supervision\<close> is \<open>lib/runnerStateMachine.ts\<close>, the crash
    budget of \<open>health.ts\<close>, the exit handling and reconcile loop of \<open>service.ts\<close> as a step function
    on the record of one runner (\<open>runner_act_step\<close>), and around it the boot's rehydration of that record,
    split at its awaits, with the record it may overwrite (\<open>service_step\<close>); \<open>Runner_Properties\<close> are
    properties of the interleavings.
    \<open>Version_Order\<close> is \<open>computerVersionOrder.ts\<close>.
  \<^item> Process manager decisions (\<open>daemon/src/apmStateMachine.ts\<close>). \<open>Apm_State\<close> has every reducer of the
    gated steering state, the trace projections and the hash-chained activity projection;
    \<open>Json_Injective\<close> shows that the canonical JSON text determines the value; \<open>Apm_Properties\<close> are
    properties of event sequences. SHA-256 is an argument there (the source calls the platform's).
  \<^item> Inbox planner (\<open>daemon/src/agentInboxStateMachine.ts\<close>). \<open>Inbox_Plan\<close> has the whole plan of a side
    effect: which messages count, whether the model has seen them, what is shown, consumed, attested
    and traced. \<open>Held_Freshness\<close> is \<open>shared/src/apmHeldFreshness.ts\<close>, which the planner calls for
    identifiers and responses, and \<open>Sha256\<close> is the SHA-256 written out in that file, on JavaScript
    Numbers, next to a reference on 32-bit words whose constants \<open>Sha256_Constants\<close> derives from the roots
    of the first primes (\<open>Sha256_Roots\<close> relates them to the real roots). \<open>Inbox_Properties\<close> has the properties.
  \<^item> Seen policy (\<open>shared/src/agentOps/seenPolicy\<close>). What an agent has read, per target and model
    context. \<open>Seen_Store\<close> is the store interface of \<open>store.ts\<close> as a record of operations and the
    reference store of \<open>memoryStore.ts\<close>; \<open>Seen_Ledger\<close> is \<open>consumedSeqs.ts\<close>, \<open>historyRead.ts\<close> and
    \<open>drafts.ts\<close> over any such record; \<open>Seen_Contract\<close> states the contract as the locale
    \<open>consumed_store\<close>, proves the ledger against it and interprets it on the reference store;
    \<open>Seen_Properties\<close> has the properties.
  \<^item> Event buffer (\<open>raft-event-buffer/src\<close>). \<open>Event_Buffer\<close> is the bounded queue of \<open>core.ts\<close> with the
    counters of \<open>metrics.ts\<close>: one function per segment between awaits, the place of the worker as part
    of the state. \<open>Event_Buffer_Run\<close> interleaves the segments with a history of rows and exports and
    proves the invariant; \<open>Event_Buffer_Properties\<close> adds the token bucket and has the properties.
  \<^item> Inbox gate (\<open>daemon/src\<close>). \<open>Delivery_Ledger\<close> is \<open>agentVisibleDeliveryLedger.ts\<close>, what the model of an
    agent has seen per target, with the matcher that removes consumed messages; \<open>Start_Pending\<close> is
    \<open>agentStartPendingDeliveryBuffer.ts\<close>; \<open>Inbox_Gate\<close> has the queues of an agent
    (\<open>consumeVisibleMessages\<close>, \<open>pendingVisibleMessages\<close>, \<open>purgeInboxMessagesForChannels\<close> of
    \<open>agentProcessManager.ts\<close>, \<open>queueAgentInboxMessage\<close> of \<open>agentInboxDeliveryDebt.ts\<close>) and
    \<open>prepareAgentApiSideEffectForward\<close> of \<open>agentCredentialProxy.ts\<close>, split at its await, which
    composes them with the planner of \<open>Inbox_Plan\<close>. \<open>Delivery_Contract\<close> has the contract of the
    ledger, \<open>Gate_Run\<close> the interleavings of the gate with everything that touches the queues and
    their invariant, \<open>Gate_Properties\<close> and \<open>Gate_Retry\<close> the lemmas on plans and attempts,
    \<open>Gate_Theorems\<close> the properties.
  \<^item> Start queue (\<open>daemon/src\<close>). \<open>Start_Coordinator\<close> is \<open>agentStartCoordinator.ts\<close>: the queue of agent
    starts with its slots, interval and timer, queue items as references into a heap because the code
    compares them by identity. \<open>Start_Queue\<close> is its use in \<open>agentProcessManager.ts\<close> (\<open>startAgent\<close>,
    \<open>pumpAgentStartQueue\<close>, \<open>releaseAgentStartSlot\<close>, the cancellations, \<open>rebindQueuedStart\<close>), \<open>Start_Run\<close>
    interleaves these and proves the invariant, \<open>Start_Properties\<close> has the properties.
  \<^item> Residency (\<open>daemon/src\<close>). What the daemon knows about agents without a process.
    \<open>Lifecycle_Record\<close> is \<open>agentLifecycleRecord.ts\<close> and \<open>agentStatusTransitionTrace.ts\<close>,
    \<open>Lifecycle_Contract\<close> relates its loop to a reference per agent. \<open>Residency\<close> is
    \<open>agentNoProcessResidency.ts\<close> and the check that \<open>agentProcessManager.ts\<close> runs over the start queue,
    the start buffer and the lifecycle facts (\<open>assertStartPendingDeliveryInvariants\<close> with its repairs).
    \<open>Residency_Properties\<close> has the properties of the check, \<open>Residency_Rows\<close> those of the rows.

  \<open>Raft_Prelude\<close> and \<open>Js_Json\<close> hold the shared vocabulary: JavaScript values, insertion-ordered maps
  (locale \<open>ordered_map\<close>), comparators and the stable sort (locales \<open>comparator\<close> and
  \<open>total_comparator\<close>), JSON text, and the lemma collections.

  \<^bold>\<open>What is shown.\<close>

  \<^item> Sync: whatever the order of honest inputs, a scope has the producer's state at its own epoch and
    position, and one frame of the producer's head with the answers to the requests then pending brings
    it to the head; positions never go back without a cross-epoch snapshot; a scope waiting for repair
    has a pending request, and an answer that is accepted in full ends the repair (the answer to a
    version conflict at the same position is not: \<open>conflict_answer_dropped\<close>); gaps are not applied; scopes do not affect each other; both domains are
    independent of the arrival order; buried rows stay buried.
  \<^item> Machine: interleaved workers act as a chain of reducer steps and every effect is handed out once;
    the old service is stopped at most once and only with both legs of the handoff armed; phases are
    backed by evidence; every accepted operation can be finalised, with one exception that is proved
    as a finding; a worker call ends within its attempts.
  \<^item> Runner: never two daemons for a server, parked runners stay parked, and no runner is forgotten, in
    every run in which no spawn of the server starts before the boot has written its record
    (\<open>boot_race_second_daemon\<close> is a run with two daemons in which one does); the crash budget and backoff
    are exact.
  \<^item> Process manager: the tool counter and the termination record are exact over event sequences, at
    most one stalled-recovery termination, a turn end delivers or idles, and the state hash commits
    to the recorded history up to collisions between the texts hashed for the two histories.
  \<^item> Inbox: a side effect is held exactly when it would act on unseen context; a held plan shows the
    unseen messages with the greatest numbers up to the limit and counts the rest, or only a count in withheld mode; a
    forwarded boundary covers only seen messages; the decision identifier names the decision up to collisions; the hash
    is SHA-256.
  \<^item> Seen policy: attested numbers are the high-water mark of what was asked to be recorded, unless one
    record names two spellings of a key, where only the last survives (\<open>spellings_in_one_record_lose_max\<close>);
    exact observations are
    sound, bounded and never cross targets or contexts; recorded aliases join spellings unless they
    form a cycle, where they provably do not; drafts survive until they expire.
  \<^item> Event buffer: no accepted row is lost, doubled or overtaken and the counters account for each;
    queue, batches and export rate keep their limits; queued rows have a worker, which exports after
    at most three waits.
  \<^item> Gate: no side effect overtakes a message that the daemon held when the request read its queues and
    that was not put before the model, dropped, or the agent's own, in any interleaving (one that arrives
    during the await can be overtaken: \<open>await_arrival_overtaken\<close>); a repeated request whose context is
    shown inline passes after finitely many holds, one in withheld mode does not
    (\<open>withheld_hold_repeats\<close>); the assertions of the ledger and of the start buffer never fail, the ledger only learns, and the start
    buffer delivers each message once and in order.
  \<^item> Start queue: in every interleaving each queued start is waiting, in flight or settled, once; starts
    happen in order and no operation throws; the number of starts in flight and the interval between
    starts keep their limits; the queue empties by settlements and timer callbacks alone, although a
    free slot can stay unused for a while (\<open>start_queue_leaves_capacity\<close>); a recovery grant stays with
    its launch.
  \<^item> Residency: the check repairs the stale facts it documents, changes nothing else and throws exactly
    on the contradictions that are left, provided its readings of the clock agree on which cooldowns
    are over (\<open>cooldown_end_between_readings_throws\<close> shows that this is needed); the enter and close
    rows determine the open residencies.

  \<^bold>\<open>Modelling choices and bounds.\<close> A string is a list of 8-bit code units, compared lexicographically
  as JavaScript does. Counters, sequence numbers and times are unbounded integers; the SHA-256 is
  exact because its sums stay below \<open>2^53\<close> (\<open>round_sum_exact\<close>), and the reductions to 32 bits are
  written out. A thrown error is a value. The worker loop has 20 attempts, so fuel 41 is enough for
  its two steps per attempt and the final refusal (\<open>machine_worker_terminates\<close>). Each
  access of the computer service to its health file is one step. The alias walk is a total function because each step visits a new destination. Asynchronous store answers are
  synchronous here, which the sequencing helpers of \<open>maybe.ts\<close> make equivalent for one caller.

  \<^bold>\<open>Not modelled.\<close> The server (\<open>server/src\<close>) is dominated by HTTP, an ORM and Postgres; the web client
  is user interface over the sync core; the command line client parses arguments and renders text;
  the runtime drivers, the service's process control and \<open>agentProcessManager.ts\<close> outside its queues, its
  start queue and its residency check are I/O around the modelled decisions; the SDK, trace, desktop and
  test packages are transport, schemas and fixtures. The operations of the start queue leave out the
  residency check that the code runs at the end of a rebind and of a cancellation, and a request for an
  agent with a process is only noted, since the process takes it from there.
  Of \<open>service.ts\<close> only the supervision of one runner is modelled. Parameters of the model, for code that is
  not in the sources: the platform's SHA-256 in the process manager, the caller's seen index in the
  planner (the gate passes the delivery ledger), the schema checks of a mention and of a UUID, the
  answer of the history request, the readings of the clock, fresh identifiers, and the test whether two
  wake messages are the same.
\<close>

end
